(* ===== verification/Bridge_Prelude.thy ===== *)
theory Bridge_Prelude
  imports Main "HOL-Library.Word" "HOL-Library.Code_Target_Nat"
begin

text \<open>
  Shared vocabulary of the development: machine integers and byte strings as Rust has
  them, big-endian conversions, checked slicing, saturating arithmetic on \<open>usize\<close> and
  \<open>u64\<close> counts, the early-return operator \<open>?\<close> on results, and Rust strings.

  A Rust \<open>String\<close> is its UTF-8 bytes, so it is a \<open>string\<close> here (a \<open>char\<close> is one
  byte) and \<open>length\<close> counts bytes, as \<open>str::len\<close> does. A \<open>usize\<close> that only
  measures buffers is a \<open>nat\<close>; where the source saturates, the bound of the 64-bit
  target is written out.
\<close>

unbundle bit_operations_syntax

named_theorems byte_simps \<open>conversions between words and their bytes\<close>
named_theorems result_simps \<open>early returns\<close>

type_synonym u8 = "8 word"
type_synonym u16 = "16 word"
type_synonym u32 = "32 word"
type_synonym u64 = "64 word"
type_synonym bytes = "8 word list"

section \<open>Results and the early-return operator\<close>

text \<open>\<open>Result<T, E>\<close> is \<open>'e + 'a\<close> with the error on the left; \<open>try_bind r f\<close> is
  \<open>let x = r?; f x\<close>.\<close>

definition try_bind :: "'e + 'a \<Rightarrow> ('a \<Rightarrow> 'e + 'b) \<Rightarrow> 'e + 'b" where
  "try_bind r f = (case r of Inl e \<Rightarrow> Inl e | Inr x \<Rightarrow> f x)"

lemma try_bind_Inl [simp, result_simps]: "try_bind (Inl e) f = Inl e"
  by (simp add: try_bind_def)

lemma try_bind_Inr [simp, result_simps]: "try_bind (Inr x) f = f x"
  by (simp add: try_bind_def)

lemma try_bind_eq_Inr [result_simps]:
  "try_bind r f = Inr y \<longleftrightarrow> (\<exists>x. r = Inr x \<and> f x = Inr y)"
  by (auto simp: try_bind_def split: sum.splits)

lemma try_bind_eq_Inl [result_simps]:
  "try_bind r f = Inl e \<longleftrightarrow> r = Inl e \<or> (\<exists>x. r = Inr x \<and> f x = Inl e)"
  by (auto simp: try_bind_def split: sum.splits)

lemma try_bind_cong [fundef_cong]:
  "r = r' \<Longrightarrow> (\<And>x. r' = Inr x \<Longrightarrow> f x = g x) \<Longrightarrow> try_bind r f = try_bind r' g"
  by (cases r') auto

definition ok_or :: "'a option \<Rightarrow> 'e \<Rightarrow> 'e + 'a" where
  "ok_or o' e = (case o' of None \<Rightarrow> Inl e | Some x \<Rightarrow> Inr x)"

lemma ok_or_simps [simp]: "ok_or None e = Inl e" "ok_or (Some x) e = Inr x"
  by (simp_all add: ok_or_def)

lemma ok_or_eq_Inr [result_simps]: "ok_or a e = Inr x \<longleftrightarrow> a = Some x"
  by (cases a) auto

definition result_ok :: "'e + 'a \<Rightarrow> 'a option" where
  "result_ok r = (case r of Inl _ \<Rightarrow> None | Inr x \<Rightarrow> Some x)"

lemma result_ok_simps [simp]: "result_ok (Inl e) = None" "result_ok (Inr x) = Some x"
  by (simp_all add: result_ok_def)

section \<open>Transition systems\<close>

text \<open>A component that runs as a transition system promises an invariant that every step keeps; its clients
  rely on the invariant in every state that can be reached.\<close>

locale invariant_machine =
  fixes step :: "'s \<Rightarrow> 's \<Rightarrow> bool" and invariant :: "'s \<Rightarrow> bool"
  assumes invariant_step: "step s t \<Longrightarrow> invariant s \<Longrightarrow> invariant t"
begin

lemma invariant_run: "step\<^sup>*\<^sup>* s t \<Longrightarrow> invariant s \<Longrightarrow> invariant t"
  by (induction rule: rtranclp_induct) (blast intro: invariant_step)+

end

section \<open>Big-endian words\<close>

definition to_be16 :: "u16 \<Rightarrow> bytes" where
  "to_be16 w = [ucast (drop_bit 8 w), ucast w]"

definition from_be16 :: "u8 \<Rightarrow> u8 \<Rightarrow> u16" where
  "from_be16 a b = push_bit 8 (ucast a) OR ucast b"

definition to_be32 :: "u32 \<Rightarrow> bytes" where
  "to_be32 w = [ucast (drop_bit 24 w), ucast (drop_bit 16 w), ucast (drop_bit 8 w), ucast w]"

definition from_be32 :: "u8 \<Rightarrow> u8 \<Rightarrow> u8 \<Rightarrow> u8 \<Rightarrow> u32" where
  "from_be32 a b c d =
     push_bit 24 (ucast a) OR push_bit 16 (ucast b) OR push_bit 8 (ucast c) OR ucast d"

lemma from_to_be16 [byte_simps]: "from_be16 (ucast (drop_bit 8 w)) (ucast w) = w"
  by (rule bit_word_eqI) (auto simp: from_be16_def bit_simps)

lemma to_from_be16 [byte_simps]: "to_be16 (from_be16 a b) = [a, b]"
proof -
  have "ucast (drop_bit 8 (from_be16 a b)) = a"
    by (rule bit_word_eqI) (auto simp: from_be16_def bit_simps dest: bit_imp_le_length)
  moreover have "ucast (from_be16 a b) = b"
    by (rule bit_word_eqI) (auto simp: from_be16_def bit_simps)
  ultimately show ?thesis by (simp add: to_be16_def)
qed

lemma from_to_be32 [byte_simps]:
  "from_be32 (ucast (drop_bit 24 w)) (ucast (drop_bit 16 w)) (ucast (drop_bit 8 w)) (ucast w) = w"
proof (rule bit_word_eqI)
  fix n :: nat
  assume "n < LENGTH(32)"
  then consider "n < 8" | "8 \<le> n" "n < 16" | "16 \<le> n" "n < 24" | "24 \<le> n" "n < 32"
    by fastforce
  then show "bit (from_be32 (ucast (drop_bit 24 w)) (ucast (drop_bit 16 w))
      (ucast (drop_bit 8 w)) (ucast w)) n = bit w n"
    by cases (auto simp: from_be32_def bit_simps)
qed

lemma length_to_be16 [simp]: "length (to_be16 w) = 2"
  by (simp add: to_be16_def)

lemma length_to_be32 [simp]: "length (to_be32 w) = 4"
  by (simp add: to_be32_def)

section \<open>Sizes\<close>

definition USIZE_MAX :: nat where
  "USIZE_MAX = 2 ^ 64 - 1"

definition sat_add :: "nat \<Rightarrow> nat \<Rightarrow> nat" where
  "sat_add a b = min USIZE_MAX (a + b)"

definition sat_mul :: "nat \<Rightarrow> nat \<Rightarrow> nat" where
  "sat_mul a b = min USIZE_MAX (a * b)"

lemma sat_add_le: "sat_add a b \<le> a + b"
  by (simp add: sat_add_def)

lemma sat_add_exact: "a + b \<le> USIZE_MAX \<Longrightarrow> sat_add a b = a + b"
  by (simp add: sat_add_def)

lemma sat_add_le_iff: "n < USIZE_MAX \<Longrightarrow> sat_add a b \<le> n \<longleftrightarrow> a + b \<le> n"
  by (auto simp: sat_add_def)

text \<open>\<open>u16::try_from(n)\<close> and its relatives on a length.\<close>

definition try_u16 :: "nat \<Rightarrow> u16 option" where
  "try_u16 n = (if n < 2 ^ 16 then Some (of_nat n) else None)"

lemma try_u16_Some: "try_u16 n = Some w \<Longrightarrow> unat w = n \<and> n < 2 ^ 16"
  by (auto simp: try_u16_def unat_of_nat take_bit_nat_eq_self split: if_splits)

section \<open>Slices\<close>

text \<open>\<open>data.get(i..j)\<close>.\<close>

definition get_range :: "'a list \<Rightarrow> nat \<Rightarrow> nat \<Rightarrow> 'a list option" where
  "get_range xs i j = (if i \<le> j \<and> j \<le> length xs then Some (take (j - i) (drop i xs)) else None)"

text \<open>\<open>data.get(i)\<close>.\<close>

definition get_at :: "'a list \<Rightarrow> nat \<Rightarrow> 'a option" where
  "get_at xs i = (if i < length xs then Some (xs ! i) else None)"

lemma get_range_Some:
  "get_range xs i j = Some ys \<longleftrightarrow> i \<le> j \<and> j \<le> length xs \<and> ys = take (j - i) (drop i xs)"
  by (auto simp: get_range_def)

lemma get_range_length: "get_range xs i j = Some ys \<Longrightarrow> length ys = j - i"
  by (auto simp: get_range_Some)

lemma get_at_Some: "get_at xs i = Some x \<longleftrightarrow> i < length xs \<and> xs ! i = x"
  by (auto simp: get_at_def)

lemma get_at_simps [simp]:
  "get_at [] i = None" "get_at (x # xs) 0 = Some x" "get_at (x # xs) (Suc i) = get_at xs i"
  by (simp_all add: get_at_def)

definition starts_with :: "'a list \<Rightarrow> 'a list \<Rightarrow> bool" where
  "starts_with xs p \<longleftrightarrow> length p \<le> length xs \<and> take (length p) xs = p"

lemma starts_with_append [simp]: "starts_with (p @ xs) p"
  by (simp add: starts_with_def)

lemma starts_withE: "starts_with xs p \<Longrightarrow> \<exists>ys. xs = p @ ys"
  by (metis append_take_drop_id starts_with_def)

text \<open>\<open>slice.chunks(n)\<close>: consecutive pieces of \<open>n\<close> elements, the last one shorter.\<close>

function chunks_of :: "nat \<Rightarrow> 'a list \<Rightarrow> 'a list list" where
  "chunks_of n xs = (if n = 0 \<or> xs = [] then [] else take n xs # chunks_of n (drop n xs))"
  by pat_completeness auto
termination
  by (relation "measure (\<lambda>(n, xs). length xs)") auto

declare chunks_of.simps [simp del]

lemma chunks_of_Nil [simp]: "chunks_of n [] = []"
  by (simp add: chunks_of.simps)

lemma concat_chunks_of: "0 < n \<Longrightarrow> concat (chunks_of n xs) = xs"
proof (induction n xs rule: chunks_of.induct)
  case (1 n xs)
  then show ?case by (simp add: chunks_of.simps [of n xs])
qed

lemma chunks_of_bounds:
  "c \<in> set (chunks_of n xs) \<Longrightarrow> 0 < length c \<and> length c \<le> n"
proof (induction n xs rule: chunks_of.induct)
  case (1 n xs)
  then show ?case
    by (auto simp: chunks_of.simps [of n xs] split: if_splits)
qed

section \<open>Rust strings\<close>

definition str_bytes :: "string \<Rightarrow> bytes" where
  "str_bytes s = map (\<lambda>c. of_nat (of_char c)) s"

definition bytes_str :: "bytes \<Rightarrow> string" where
  "bytes_str bs = map (\<lambda>b. char_of (unat b)) bs"

lemma of_char_less_256: "(of_char c :: nat) < 256"
  using of_char_mod_256 [of c, where ?'a = nat] by (metis mod_less_divisor zero_less_numeral)

lemma char_of_unat_of_char [simp]: "char_of (unat (of_nat (of_char c) :: u8)) = c"
  using of_char_less_256 [of c] by (simp add: unat_of_nat take_bit_nat_eq_self)

lemma unat_byte_less [simp]: "unat (b :: u8) < 256"
  using unsigned_less [of b] by simp

lemma unat_byte_mod [simp]: "unat (b :: u8) mod 256 = unat b"
  by simp

lemma bytes_str_bytes [simp]: "bytes_str (str_bytes s) = s"
  by (simp add: bytes_str_def str_bytes_def o_def)

lemma str_bytes_str [simp]: "str_bytes (bytes_str bs) = bs"
  by (simp add: bytes_str_def str_bytes_def o_def)

lemma length_str_bytes [simp]: "length (str_bytes s) = length s"
  by (simp add: str_bytes_def)

text \<open>The well-formedness check of \<open>String::from_utf8\<close> (RFC 3629: no overlong forms, no
  surrogates, nothing above U+10FFFF).\<close>

definition utf8_cont :: "u8 \<Rightarrow> bool" where
  "utf8_cont b \<longleftrightarrow> 0x80 \<le> b \<and> b \<le> 0xBF"

fun utf8_valid :: "bytes \<Rightarrow> bool" where
  "utf8_valid [] = True"
| "utf8_valid (a # xs) =
     (if a < 0x80 then utf8_valid xs
      else if 0xC2 \<le> a \<and> a \<le> 0xDF then
        (case xs of b # r \<Rightarrow> utf8_cont b \<and> utf8_valid r | _ \<Rightarrow> False)
      else if 0xE0 \<le> a \<and> a \<le> 0xEF then
        (case xs of b # c # r \<Rightarrow>
           (if a = 0xE0 then 0xA0 \<le> b \<and> b \<le> 0xBF
            else if a = 0xED then 0x80 \<le> b \<and> b \<le> 0x9F
            else utf8_cont b) \<and> utf8_cont c \<and> utf8_valid r
         | _ \<Rightarrow> False)
      else if 0xF0 \<le> a \<and> a \<le> 0xF4 then
        (case xs of b # c # d # r \<Rightarrow>
           (if a = 0xF0 then 0x90 \<le> b \<and> b \<le> 0xBF
            else if a = 0xF4 then 0x80 \<le> b \<and> b \<le> 0x8F
            else utf8_cont b) \<and> utf8_cont c \<and> utf8_cont d \<and> utf8_valid r
         | _ \<Rightarrow> False)
      else False)"

definition from_utf8 :: "bytes \<Rightarrow> string option" where
  "from_utf8 bs = (if utf8_valid bs then Some (bytes_str bs) else None)"

lemma from_utf8_str_bytes: "utf8_valid (str_bytes s) \<Longrightarrow> from_utf8 (str_bytes s) = Some s"
  by (simp add: from_utf8_def)

text \<open>A Rust \<open>String\<close> always holds well-formed UTF-8: its type invariant.\<close>

definition rust_str :: "string \<Rightarrow> bool" where
  "rust_str s \<longleftrightarrow> utf8_valid (str_bytes s)"

end
