(* ===== verification/Rust_Str.thy ===== *)
theory Rust_Str
  imports Bridge_Prelude "HOL-Library.Sublist"
begin

text \<open>
  The part of Rust's \<open>str\<close> API the bridge uses: iteration over characters, Unicode
  white space, \<open>trim\<close>, \<open>split_whitespace\<close>, \<open>contains\<close>, \<open>is_char_boundary\<close>,
  ASCII case and classes, and \<open>parse::<i64>()\<close>.

  A string is its UTF-8 bytes (one \<open>char\<close> per byte); \<open>chars\<close> cuts it into characters,
  each given by its own bytes, so that both byte counts and character counts are exact.
\<close>

section \<open>Characters\<close>

text \<open>The length of the encoding that a lead byte announces.\<close>

definition char_width :: "char \<Rightarrow> nat" where
  "char_width c =
     (let n = (of_char c :: nat)
      in if n < 0x80 then 1 else if n < 0xE0 then 2 else if n < 0xF0 then 3 else 4)"

lemma char_width_pos [simp]: "0 < char_width c"
  by (simp add: char_width_def Let_def)

function chars :: "string \<Rightarrow> string list" where
  "chars [] = []"
| "chars (c # s) = take (char_width c) (c # s) # chars (drop (char_width c) (c # s))"
  by pat_completeness auto
termination
proof (relation "measure length")
  fix c :: char and s :: string
  show "(drop (char_width c) (c # s), c # s) \<in> measure length"
    using char_width_pos [of c] by simp
qed simp

lemma concat_chars [simp]: "concat (chars s) = s"
  by (induction s rule: chars.induct) auto

lemma chars_nonempty: "x \<in> set (chars s) \<Longrightarrow> x \<noteq> []"
proof (induction s rule: chars.induct)
  case (2 c s)
  then show ?case using char_width_pos [of c] by (auto simp: take_Cons')
qed simp

text \<open>\<open>char::is_whitespace\<close>: the Unicode White_Space characters, in UTF-8.\<close>

definition white_space :: "nat list list" where
  "white_space =
     [[0x09], [0x0A], [0x0B], [0x0C], [0x0D], [0x20], [0xC2, 0x85], [0xC2, 0xA0],
      [0xE1, 0x9A, 0x80], [0xE2, 0x80, 0x80], [0xE2, 0x80, 0x81], [0xE2, 0x80, 0x82],
      [0xE2, 0x80, 0x83], [0xE2, 0x80, 0x84], [0xE2, 0x80, 0x85], [0xE2, 0x80, 0x86],
      [0xE2, 0x80, 0x87], [0xE2, 0x80, 0x88], [0xE2, 0x80, 0x89], [0xE2, 0x80, 0x8A],
      [0xE2, 0x80, 0xA8], [0xE2, 0x80, 0xA9], [0xE2, 0x80, 0xAF], [0xE2, 0x81, 0x9F],
      [0xE3, 0x80, 0x80]]"

definition is_whitespace :: "string \<Rightarrow> bool" where
  "is_whitespace c \<longleftrightarrow> map of_char c \<in> set white_space"

text \<open>\<open>char::is_control\<close>: the characters of category Cc.\<close>

definition is_control :: "string \<Rightarrow> bool" where
  "is_control c \<longleftrightarrow>
     (case c of
        [a] \<Rightarrow> (of_char a :: nat) < 0x20 \<or> (of_char a :: nat) = 0x7F
      | [a, b] \<Rightarrow> (of_char a :: nat) = 0xC2 \<and> 0x80 \<le> (of_char b :: nat) \<and> (of_char b :: nat) \<le> 0x9F
      | _ \<Rightarrow> False)"

lemma is_whitespace_space: "is_whitespace '' ''"
  by (simp add: is_whitespace_def white_space_def)

definition trim :: "string \<Rightarrow> string" where
  "trim s = concat (rev (dropWhile is_whitespace (rev (dropWhile is_whitespace (chars s)))))"

section \<open>Splitting and joining\<close>

text \<open>The non-empty maximal runs of characters that fail \<open>p\<close>: what \<open>split_whitespace\<close>
  yields for white space, and \<open>split(p).filter(non-empty)\<close> for any other predicate.\<close>

fun split_runs :: "(string \<Rightarrow> bool) \<Rightarrow> string list \<Rightarrow> string \<Rightarrow> string list" where
  "split_runs p [] cur = (if cur = [] then [] else [cur])"
| "split_runs p (c # cs) cur =
     (if p c then (if cur = [] then split_runs p cs [] else cur # split_runs p cs [])
      else split_runs p cs (cur @ c))"

definition split_whitespace :: "string \<Rightarrow> string list" where
  "split_whitespace s = split_runs is_whitespace (chars s) []"

fun join_with :: "string \<Rightarrow> string list \<Rightarrow> string" where
  "join_with sep [] = []"
| "join_with sep [w] = w"
| "join_with sep (w # ws) = w @ sep @ join_with sep ws"

definition str_contains :: "string \<Rightarrow> string \<Rightarrow> bool" where
  "str_contains s pat \<longleftrightarrow> sublist pat s"

lemma str_contains_append_left: "\<not> str_contains (a @ b) pat \<Longrightarrow> \<not> str_contains a pat"
  unfolding str_contains_def by (metis sublist_appendI sublist_order.order.trans append_Nil)

lemma sublist_sep:
  assumes "sublist pat (a @ [x] @ b)" "x \<notin> set pat"
  shows "sublist pat a \<or> sublist pat b"
proof -
  have none: "ys = []" if "prefix ys (x # b)" "set ys \<subseteq> set pat" for ys
    using that assms(2) by (cases ys) auto
  from assms(1) consider "sublist pat a" | "sublist pat (x # b)"
    | p q where "pat = p @ q" "suffix p a" "prefix q (x # b)"
    by (auto simp: sublist_append)
  then show ?thesis
  proof cases
    case 2
    then show ?thesis using none [of pat] by (auto simp: sublist_Cons_right)
  next
    case 3
    then have "q = []" using none by auto
    with 3 show ?thesis by auto
  qed auto
qed

lemma sublist_join:
  assumes "sublist pat (join_with [x] ws)" "x \<notin> set pat" "pat \<noteq> []"
  shows "\<exists>w \<in> set ws. sublist pat w"
  using assms
proof (induction "[x]" ws rule: join_with.induct)
  case 1
  then show ?case by simp
next
  case (2 w)
  then show ?case by simp
next
  case (3 w v va)
  then have "sublist pat w \<or> sublist pat (join_with [x] (v # va))"
    using sublist_sep [of pat w x "join_with [x] (v # va)"] by simp
  with 3 show ?case by auto
qed

section \<open>Byte positions\<close>

definition is_continuation :: "char \<Rightarrow> bool" where
  "is_continuation c \<longleftrightarrow> 0x80 \<le> (of_char c :: nat) \<and> (of_char c :: nat) < 0xC0"

definition is_char_boundary :: "string \<Rightarrow> nat \<Rightarrow> bool" where
  "is_char_boundary s i \<longleftrightarrow>
     i = 0 \<or> i = length s \<or> (i < length s \<and> \<not> is_continuation (s ! i))"

section \<open>ASCII\<close>

definition ascii_digit :: "char \<Rightarrow> bool" where
  "ascii_digit c \<longleftrightarrow> 48 \<le> (of_char c :: nat) \<and> (of_char c :: nat) \<le> 57"

definition ascii_upper :: "char \<Rightarrow> bool" where
  "ascii_upper c \<longleftrightarrow> 65 \<le> (of_char c :: nat) \<and> (of_char c :: nat) \<le> 90"

definition ascii_lower :: "char \<Rightarrow> bool" where
  "ascii_lower c \<longleftrightarrow> 97 \<le> (of_char c :: nat) \<and> (of_char c :: nat) \<le> 122"

definition ascii_alphanumeric :: "char \<Rightarrow> bool" where
  "ascii_alphanumeric c \<longleftrightarrow> ascii_digit c \<or> ascii_upper c \<or> ascii_lower c"

definition ascii_hexdigit :: "char \<Rightarrow> bool" where
  "ascii_hexdigit c \<longleftrightarrow> ascii_digit c
     \<or> (65 \<le> (of_char c :: nat) \<and> (of_char c :: nat) \<le> 70)
     \<or> (97 \<le> (of_char c :: nat) \<and> (of_char c :: nat) \<le> 102)"

definition to_ascii_lowercase :: "string \<Rightarrow> string" where
  "to_ascii_lowercase = map (\<lambda>c. if ascii_upper c then char_of ((of_char c :: nat) + 32) else c)"

definition to_ascii_uppercase :: "string \<Rightarrow> string" where
  "to_ascii_uppercase = map (\<lambda>c. if ascii_lower c then char_of ((of_char c :: nat) - 32) else c)"

definition is_ascii :: "string \<Rightarrow> bool" where
  "is_ascii s \<longleftrightarrow> list_all (\<lambda>c. (of_char c :: nat) < 0x80) s"

section \<open>Integers\<close>

definition digit_val :: "char \<Rightarrow> nat" where
  "digit_val c = (of_char c :: nat) - 48"

definition digits_val :: "string \<Rightarrow> nat" where
  "digits_val s = foldl (\<lambda>n c. 10 * n + digit_val c) 0 s"

text \<open>\<open>i64\<close> and \<open>u64\<close> values are integers kept in range.\<close>

definition in_i64 :: "int \<Rightarrow> bool" where
  "in_i64 n \<longleftrightarrow> - (2 ^ 63) \<le> n \<and> n < 2 ^ 63"

definition parse_i64 :: "string \<Rightarrow> int option" where
  "parse_i64 s =
     (let (neg, ds) = (case s of
            [] \<Rightarrow> (False, [])
          | c # r \<Rightarrow> if c = CHR ''-'' then (True, r) else if c = CHR ''+'' then (False, r) else (False, s))
      in if ds = [] \<or> \<not> list_all ascii_digit ds then None
         else let v = (if neg then - int (digits_val ds) else int (digits_val ds))
              in if in_i64 v then Some v else None)"

definition parse_u64 :: "string \<Rightarrow> nat option" where
  "parse_u64 s =
     (let ds = (case s of [] \<Rightarrow> [] | c # r \<Rightarrow> if c = CHR ''+'' then r else s)
      in if ds = [] \<or> \<not> list_all ascii_digit ds then None
         else if digits_val ds < 2 ^ 64 then Some (digits_val ds) else None)"

lemma parse_i64_range: "parse_i64 s = Some n \<Longrightarrow> in_i64 n"
  by (auto simp: parse_i64_def Let_def split: if_splits prod.splits)

text \<open>Decimal rendering (\<open>to_string\<close>).\<close>

fun show_nat :: "nat \<Rightarrow> string" where
  "show_nat n = (if n < 10 then [char_of (48 + n)] else show_nat (n div 10) @ [char_of (48 + n mod 10)])"

declare show_nat.simps [simp del]

definition show_int :: "int \<Rightarrow> string" where
  "show_int n = (if n < 0 then CHR ''-'' # show_nat (nat (- n)) else show_nat (nat n))"

lemma digits_val_snoc: "digits_val (s @ [c]) = 10 * digits_val s + digit_val c"
  by (simp add: digits_val_def)

lemma digits_val_show_nat: "digits_val (show_nat n) = n"
proof (induction n rule: show_nat.induct)
  case (1 n)
  have digit: "digit_val (char_of (48 + k)) = k" if "k < 10" for k :: nat
    using that by (simp add: digit_val_def)
  show ?case
  proof (cases "n < 10")
    case True
    then show ?thesis
      using digit [of n] by (simp add: show_nat.simps [of n] digits_val_def)
  next
    case False
    then show ?thesis
      using 1 digit [of "n mod 10"] by (simp add: show_nat.simps [of n] digits_val_snoc)
  qed
qed

lemma show_nat_digits: "list_all ascii_digit (show_nat n)"
proof (induction n rule: show_nat.induct)
  case (1 n)
  have "ascii_digit (char_of (48 + k))" if "k < 10" for k :: nat
    using that by (simp add: ascii_digit_def)
  with 1 show ?case by (simp add: show_nat.simps [of n])
qed

lemma show_nat_nonempty [simp]: "show_nat n \<noteq> []"
  by (simp add: show_nat.simps [of n])

section \<open>Searching\<close>

definition ends_with :: "'a list \<Rightarrow> 'a list \<Rightarrow> bool" where
  "ends_with s p \<longleftrightarrow> length p \<le> length s \<and> drop (length s - length p) s = p"

definition strip_suffix :: "'a list \<Rightarrow> 'a list \<Rightarrow> 'a list option" where
  "strip_suffix p s = (if ends_with s p then Some (take (length s - length p) s) else None)"

lemma strip_suffix_Some: "strip_suffix p s = Some r \<longleftrightarrow> s = r @ p"
  by (auto simp: strip_suffix_def ends_with_def) (metis append_take_drop_id)

fun find_map :: "('a \<Rightarrow> 'b option) \<Rightarrow> 'a list \<Rightarrow> 'b option" where
  "find_map f [] = None"
| "find_map f (x # xs) = (case f x of Some y \<Rightarrow> Some y | None \<Rightarrow> find_map f xs)"

lemma find_map_Some: "find_map f xs = Some y \<Longrightarrow> \<exists>x \<in> set xs. f x = Some y"
  by (induction xs) (auto split: option.splits)

text \<open>\<open>windows(n).position(pattern)\<close> and \<open>rposition\<close> for a pattern that is not empty.\<close>

fun find_sub :: "'a list \<Rightarrow> 'a list \<Rightarrow> nat option" where
  "find_sub pat [] = None"
| "find_sub pat (x # xs) = (if starts_with (x # xs) pat then Some 0 else map_option Suc (find_sub pat xs))"

fun rfind_sub :: "'a list \<Rightarrow> 'a list \<Rightarrow> nat option" where
  "rfind_sub pat [] = None"
| "rfind_sub pat (x # xs) =
     (case rfind_sub pat xs of
        Some i \<Rightarrow> Some (Suc i)
      | None \<Rightarrow> if starts_with (x # xs) pat then Some 0 else None)"

lemma find_sub_Some: "find_sub pat xs = Some i \<Longrightarrow> i < length xs \<and> starts_with (drop i xs) pat"
  by (induction xs arbitrary: i) (auto split: if_splits)

lemma rfind_sub_Some: "rfind_sub pat xs = Some i \<Longrightarrow> i < length xs \<and> starts_with (drop i xs) pat"
  by (induction xs arbitrary: i) (auto split: if_splits option.splits)

text \<open>\<open>split(c)\<close>: the pieces between the separators, at least one.\<close>

fun split_char :: "char \<Rightarrow> string \<Rightarrow> string list" where
  "split_char c [] = [[]]"
| "split_char c (x # xs) =
     (if x = c then [] # split_char c xs
      else case split_char c xs of [] \<Rightarrow> [[x]] | p # ps \<Rightarrow> (x # p) # ps)"

text \<open>\<open>parse::<u16>\<close> and \<open>parse::<u8>\<close>.\<close>

definition parse_below :: "nat \<Rightarrow> string \<Rightarrow> nat option" where
  "parse_below bound s = (case parse_u64 s of Some n \<Rightarrow> if n < bound then Some n else None | None \<Rightarrow> None)"

end
