(* ===== verification/Json_Value.thy ===== *)
theory Json_Value
  imports Rust_Str
begin

text \<open>
  \<open>serde_json::Value\<close> as the bridge reads it: the accessors \<open>get\<close>, \<open>as_str\<close>,
  \<open>as_i64\<close>, \<open>as_bool\<close>, \<open>as_array\<close>, \<open>as_object\<close>, and the lenient integer
  reader that three components repeat. An object is an association list with distinct
  keys (\<open>serde_json::Map\<close> is a sorted map); a number outside the integers is kept as
  its literal, since no code reads its value.
\<close>

datatype json =
    JNull
  | JBool bool
  | JInt int
  | JFloat string
  | JString string
  | JArray "json list"
  | JObject "(string \<times> json) list"

definition json_get :: "json \<Rightarrow> string \<Rightarrow> json option" where
  "json_get v k = (case v of JObject m \<Rightarrow> map_of m k | _ \<Rightarrow> None)"

definition as_str :: "json \<Rightarrow> string option" where
  "as_str v = (case v of JString s \<Rightarrow> Some s | _ \<Rightarrow> None)"

definition as_bool :: "json \<Rightarrow> bool option" where
  "as_bool v = (case v of JBool b \<Rightarrow> Some b | _ \<Rightarrow> None)"

definition as_i64 :: "json \<Rightarrow> int option" where
  "as_i64 v = (case v of JInt n \<Rightarrow> if in_i64 n then Some n else None | _ \<Rightarrow> None)"

definition as_u64 :: "json \<Rightarrow> nat option" where
  "as_u64 v = (case v of JInt n \<Rightarrow> if 0 \<le> n \<and> n < 2 ^ 64 then Some (nat n) else None | _ \<Rightarrow> None)"

definition as_array :: "json \<Rightarrow> json list option" where
  "as_array v = (case v of JArray xs \<Rightarrow> Some xs | _ \<Rightarrow> None)"

definition as_object :: "json \<Rightarrow> (string \<times> json) list option" where
  "as_object v = (case v of JObject m \<Rightarrow> Some m | _ \<Rightarrow> None)"

definition is_object :: "json \<Rightarrow> bool" where
  "is_object v = (case v of JObject _ \<Rightarrow> True | _ \<Rightarrow> False)"

lemmas json_accessors = json_get_def as_str_def as_bool_def as_i64_def as_array_def
  as_object_def is_object_def

lemma as_i64_range: "as_i64 v = Some n \<Longrightarrow> in_i64 n"
  by (auto simp: as_i64_def split: json.splits if_splits)

text \<open>Integer from a JSON number or numeric string: \<open>integer\<close> of the alarm and device
  models and \<open>int\<close> of the controls.\<close>

definition json_integer :: "json \<Rightarrow> int option" where
  "json_integer v =
     (case as_i64 v of
        Some n \<Rightarrow> Some n
      | None \<Rightarrow> Option.bind (as_str v) (\<lambda>text. parse_i64 (trim text)))"

lemma json_integer_range: "json_integer v = Some n \<Longrightarrow> in_i64 n"
  by (auto simp: json_integer_def bind_eq_Some_conv dest: as_i64_range parse_i64_range
      split: option.splits)

definition json_field :: "json \<Rightarrow> string \<Rightarrow> (json \<Rightarrow> 'a option) \<Rightarrow> 'a option" where
  "json_field v k f = Option.bind (json_get v k) f"

lemma json_get_empty [simp]: "json_get JNull k = None" "json_get (JObject []) k = None"
  by (simp_all add: json_get_def)

end
