(* ===== verification/Bridge_Error.thy ===== *)
theory Bridge_Error
  imports Json_Value
begin

text \<open>
  The bridge's error type (\<open>src/error.rs\<close>): its diagnostic category, the detail that may
  be logged, the redaction of that detail, and the public HTTP answer; and the failure a
  stream hub remembers (\<open>src/hub_failure.rs\<close>).
\<close>

text \<open>The kinds of \<open>std::io::Error\<close> the code distinguishes, and the predicates of
  \<open>reqwest::Error\<close> it asks.\<close>

datatype io_error_kind = UnexpectedEof | ConnectionReset | BrokenPipe | NotFound | OtherIo

record http_error =
  http_is_timeout :: bool
  http_is_connect :: bool
  http_is_redirect :: bool
  http_is_body :: bool
  http_is_decode :: bool

datatype bridge_error =
    Configuration string
  | KeyRejected
  | ReauthRequired
  | SessionExpired
  | Timeout
  | InvalidCredentials
  | InvalidOtp
  | EnrollmentBusy
  | EnrollmentExpired
  | CameraNotFound
  | CameraOffline
  | SdNoRecording
  | UnsupportedMedia
  | Capacity string
  | Recording string
  | RecordingActive
  | Upstream string
  | UpstreamUnavailable
  | Io io_error_kind
  | Http http_error
  | Json
  | Task

type_synonym 'a result = "bridge_error + 'a"

fun diagnostic_code :: "bridge_error \<Rightarrow> string" where
  "diagnostic_code (Configuration _) = ''configuration''"
| "diagnostic_code KeyRejected = ''key_rejected''"
| "diagnostic_code ReauthRequired = ''reauth_required''"
| "diagnostic_code SessionExpired = ''session_expired''"
| "diagnostic_code Timeout = ''timeout''"
| "diagnostic_code InvalidCredentials = ''invalid_credentials''"
| "diagnostic_code InvalidOtp = ''invalid_otp''"
| "diagnostic_code EnrollmentBusy = ''enrollment_busy''"
| "diagnostic_code EnrollmentExpired = ''enrollment_expired''"
| "diagnostic_code CameraNotFound = ''camera_not_found''"
| "diagnostic_code CameraOffline = ''camera_offline''"
| "diagnostic_code SdNoRecording = ''sd_no_recording''"
| "diagnostic_code UnsupportedMedia = ''unsupported_media''"
| "diagnostic_code (Capacity _) = ''capacity''"
| "diagnostic_code (Recording _) = ''recording''"
| "diagnostic_code RecordingActive = ''recording_active''"
| "diagnostic_code (Upstream _) = ''upstream''"
| "diagnostic_code UpstreamUnavailable = ''upstream_unavailable''"
| "diagnostic_code (Io _) = ''io''"
| "diagnostic_code (Http _) = ''http''"
| "diagnostic_code Json = ''json''"
| "diagnostic_code Task = ''task''"

fun diagnostic_detail :: "bridge_error \<Rightarrow> string" where
  "diagnostic_detail (Configuration detail) = detail"
| "diagnostic_detail (Capacity detail) = detail"
| "diagnostic_detail (Recording detail) = detail"
| "diagnostic_detail (Upstream detail) = detail"
| "diagnostic_detail KeyRejected = ''verification code rejected''"
| "diagnostic_detail ReauthRequired = ''EZVIZ session must be renewed''"
| "diagnostic_detail SessionExpired = ''EZVIZ refused a freshly refreshed session''"
| "diagnostic_detail Timeout = ''upstream deadline exceeded''"
| "diagnostic_detail InvalidCredentials = ''vendor credentials were rejected''"
| "diagnostic_detail InvalidOtp = ''verification code was rejected''"
| "diagnostic_detail EnrollmentBusy = ''another enrollment is active''"
| "diagnostic_detail EnrollmentExpired = ''enrollment expired or was consumed''"
| "diagnostic_detail CameraNotFound = ''camera not found''"
| "diagnostic_detail CameraOffline = ''camera offline''"
| "diagnostic_detail SdNoRecording = ''no microSD recording in the requested interval''"
| "diagnostic_detail UnsupportedMedia = ''requested media representation is unavailable''"
| "diagnostic_detail RecordingActive = ''recording active''"
| "diagnostic_detail UpstreamUnavailable = ''upstream media unavailable''"
| "diagnostic_detail (Io _) = ''I/O failure''"
| "diagnostic_detail (Http e) =
     (if http_is_timeout e then ''HTTP timeout''
      else if http_is_connect e then ''HTTP connection failure''
      else if http_is_redirect e then ''HTTP redirect failure''
      else if http_is_body e \<or> http_is_decode e then ''HTTP body failure''
      else ''HTTP transport failure'')"
| "diagnostic_detail Json = ''JSON decoding failure''"
| "diagnostic_detail Task = ''task failure''"

definition MAX_LOGGED_DETAIL :: nat where
  "MAX_LOGGED_DETAIL = 160"

text \<open>The loop that backs up to a character boundary stops at 0 at the latest.\<close>

fun boundary_before :: "string \<Rightarrow> nat \<Rightarrow> nat" where
  "boundary_before t 0 = 0"
| "boundary_before t (Suc n) = (if is_char_boundary t (Suc n) then Suc n else boundary_before t n)"

definition redact_word :: "string \<Rightarrow> string" where
  "redact_word word = (if str_contains word ''://'' then ''[url]'' else word)"

definition redact_detail :: "string \<Rightarrow> string" where
  "redact_detail detail =
     (let text' = join_with '' '' (map redact_word (split_whitespace detail))
      in if length text' > MAX_LOGGED_DETAIL
         then take (boundary_before text' MAX_LOGGED_DETAIL) text' @ ''...''
         else text')"

definition logged_detail :: "bridge_error \<Rightarrow> string" where
  "logged_detail e = redact_detail (diagnostic_detail e)"

text \<open>The answer of a failed request: HTTP status and JSON body.\<close>

definition error_body :: "string \<Rightarrow> json" where
  "error_body code = JObject [(''error'', JString code)]"

fun public_response :: "bridge_error \<Rightarrow> nat \<times> json" where
  "public_response ReauthRequired = (403, error_body ''reauth_required'')"
| "public_response InvalidCredentials = (422, error_body ''invalid_auth'')"
| "public_response InvalidOtp = (422, error_body ''invalid_otp'')"
| "public_response EnrollmentBusy = (409, error_body ''enrollment_busy'')"
| "public_response EnrollmentExpired = (410, error_body ''enrollment_expired'')"
| "public_response CameraNotFound = (404, error_body ''camera_not_found'')"
| "public_response CameraOffline = (503, error_body ''camera_offline'')"
| "public_response SdNoRecording = (404, error_body ''sd_no_recording'')"
| "public_response UnsupportedMedia = (409, error_body ''unsupported_media'')"
| "public_response (Capacity _) = (429, error_body ''capacity'')"
| "public_response (Recording detail) =
     (400, JObject [(''detail'', JString detail), (''error'', JString ''invalid_recording_request'')])"
| "public_response RecordingActive = (409, error_body ''recording_active'')"
| "public_response SessionExpired = (502, error_body ''upstream_failed'')"
| "public_response Timeout = (502, error_body ''upstream_failed'')"
| "public_response UpstreamUnavailable = (503, error_body ''upstream_unavailable'')"
| "public_response _ = (500, error_body ''internal_error'')"

section \<open>What a hub remembers of a failed stream\<close>

datatype stream_failure = FailCameraOffline | FailUpstreamUnavailable

definition from_error :: "bridge_error \<Rightarrow> stream_failure" where
  "from_error e = (if e = CameraOffline then FailCameraOffline else FailUpstreamUnavailable)"

fun into_error :: "stream_failure \<Rightarrow> bridge_error" where
  "into_error FailCameraOffline = CameraOffline"
| "into_error FailUpstreamUnavailable = UpstreamUnavailable"

section \<open>Facts\<close>

lemma boundary_before_le: "boundary_before t n \<le> n"
  by (induction t n rule: boundary_before.induct) auto

lemma boundary_before_boundary: "is_char_boundary t (boundary_before t n)"
  by (induction t n rule: boundary_before.induct) (auto simp: is_char_boundary_def)

lemma redact_word_no_url: "\<not> sublist ''://'' (redact_word w)"
  by (auto simp: redact_word_def str_contains_def sublist_Cons_right)

lemma redacted_join_no_url: "\<not> sublist ''://'' (join_with '' '' (map redact_word ws))"
  using sublist_join [of "''://''" "CHR '' ''" "map redact_word ws"] redact_word_no_url by auto

lemma no_url_dots: "\<not> sublist ''://'' t \<Longrightarrow> \<not> sublist ''://'' (take n t @ ''...'')"
proof
  assume no: "\<not> sublist ''://'' t" and bad: "sublist ''://'' (take n t @ ''...'')"
  have in_take: "\<not> sublist ''://'' (take n t)"
    using no by (metis sublist_take sublist_order.order.trans)
  from bad in_take obtain p q where pq: "''://'' = p @ q" "suffix p (take n t)" "prefix q ''...''"
    by (auto simp: sublist_append sublist_Cons_right)
  have "q = []"
  proof (rule ccontr)
    assume "q \<noteq> []"
    then have "last q = CHR ''/''" using pq(1) by (metis last.simps last_append list.distinct(1))
    moreover have "set q \<subseteq> {CHR ''.''}" using pq(3) by (auto simp: prefix_def) (metis UnCI insertE list.set(1) list.set(2) set_append empty_iff)+
    ultimately show False using \<open>q \<noteq> []\<close> last_in_set by fastforce
  qed
  with pq in_take show False by auto
qed

lemma redact_detail_length: "length (redact_detail d) \<le> MAX_LOGGED_DETAIL + 3"
proof -
  have "boundary_before t MAX_LOGGED_DETAIL \<le> MAX_LOGGED_DETAIL" for t
    by (rule boundary_before_le)
  then show ?thesis
    by (simp add: redact_detail_def Let_def min.coboundedI2)
qed

text \<open>Whatever an error carries, the detail written to the log holds no \<open>://\<close> (so no
  URL, signed or not, can be logged) and has at most 163 bytes.\<close>

theorem logged_detail_safe:
  "\<not> str_contains (logged_detail e) ''://'' \<and> length (logged_detail e) \<le> 163"
  using redacted_join_no_url no_url_dots [OF redacted_join_no_url]
    redact_detail_length [of "diagnostic_detail e"]
  by (simp add: logged_detail_def redact_detail_def Let_def str_contains_def MAX_LOGGED_DETAIL_def)

end
