(* ===== verification/Vtm_Framing.thy ===== *)
theory Vtm_Framing
  imports Bridge_Error
begin

text \<open>
  VTM packet framing (\<open>src/vtm/mod.rs\<close>, \<open>src/vtm/framing.rs\<close>): an eight-byte header
  (magic, channel, body length, sequence, message code, the last three big-endian 16-bit)
  in front of the body. \<open>encode_packet\<close> and \<open>decode_header\<close> are inverse on the known
  channels, and \<open>decode_header\<close> accepts nothing else.
\<close>

definition CHANNEL_MESSAGE :: u8 where "CHANNEL_MESSAGE = 0x00"

definition CHANNEL_STREAM :: u8 where "CHANNEL_STREAM = 0x01"

definition CHANNEL_STREAM_ALT :: u8 where "CHANNEL_STREAM_ALT = 0x02"

definition CHANNEL_ENCRYPTED_MESSAGE :: u8 where "CHANNEL_ENCRYPTED_MESSAGE = 0x0a"

definition CHANNEL_ENCRYPTED_STREAM :: u8 where "CHANNEL_ENCRYPTED_STREAM = 0x0b"

definition KEEPALIVE_REQUEST :: u16 where "KEEPALIVE_REQUEST = 0x132"

definition KEEPALIVE_RESPONSE :: u16 where "KEEPALIVE_RESPONSE = 0x133"

definition STREAM_INFO_REQUEST :: u16 where "STREAM_INFO_REQUEST = 0x13b"

definition STREAM_INFO_RESPONSE :: u16 where "STREAM_INFO_RESPONSE = 0x13c"

lemmas channel_defs = CHANNEL_MESSAGE_def CHANNEL_STREAM_def CHANNEL_STREAM_ALT_def
  CHANNEL_ENCRYPTED_MESSAGE_def CHANNEL_ENCRYPTED_STREAM_def

lemmas message_code_defs = KEEPALIVE_REQUEST_def KEEPALIVE_RESPONSE_def
  STREAM_INFO_REQUEST_def STREAM_INFO_RESPONSE_def

definition MAGIC :: u8 where "MAGIC = 0x24"

definition HEADER_SIZE :: nat where "HEADER_SIZE = 8"

record vtm_packet =
  channel :: u8
  sequence :: u16
  message_code :: u16
  body :: bytes

definition encrypted :: "vtm_packet \<Rightarrow> bool" where
  "encrypted p \<longleftrightarrow> channel p \<in> {CHANNEL_ENCRYPTED_MESSAGE, CHANNEL_ENCRYPTED_STREAM}"

definition encode_packet :: "bytes \<Rightarrow> u8 \<Rightarrow> u16 \<Rightarrow> u16 \<Rightarrow> bytes result" where
  "encode_packet bdy chan sq code =
     try_bind (ok_or (try_u16 (length bdy)) (Upstream ''VTM packet body is too large''))
       (\<lambda>len. Inr ([MAGIC, chan] @ to_be16 len @ to_be16 sq @ to_be16 code @ bdy))"

definition known_channel :: "u8 \<Rightarrow> bool" where
  "known_channel chan \<longleftrightarrow>
     chan \<in> {CHANNEL_MESSAGE, CHANNEL_STREAM, CHANNEL_STREAM_ALT,
             CHANNEL_ENCRYPTED_MESSAGE, CHANNEL_ENCRYPTED_STREAM}"

definition decode_header :: "bytes \<Rightarrow> (u8 \<times> nat \<times> u16 \<times> u16) result" where
  "decode_header header =
     (if length header \<noteq> HEADER_SIZE \<or> header ! 0 \<noteq> MAGIC
      then Inl (Upstream ''invalid VTM packet header'')
      else let chan = header ! 1 in
        if \<not> known_channel chan then Inl (Upstream ''unknown VTM packet channel'')
        else Inr (chan, unat (from_be16 (header ! 2) (header ! 3)),
                  from_be16 (header ! 4) (header ! 5), from_be16 (header ! 6) (header ! 7)))"

section \<open>Facts\<close>

lemma encode_packet_Inr:
  "encode_packet bdy chan sq code = Inr pkt \<longleftrightarrow>
     length bdy < 2 ^ 16 \<and>
     pkt = [MAGIC, chan] @ to_be16 (of_nat (length bdy)) @ to_be16 sq @ to_be16 code @ bdy"
  by (auto simp: encode_packet_def try_u16_def result_simps split: if_splits)

lemma encode_packet_too_large:
  "2 ^ 16 \<le> length bdy \<Longrightarrow>
     encode_packet bdy chan sq code = Inl (Upstream ''VTM packet body is too large'')"
  by (simp add: encode_packet_def try_u16_def)

lemma unat_of_nat16: "n < 2 ^ 16 \<Longrightarrow> unat (of_nat n :: u16) = n"
  by (simp add: unat_of_nat take_bit_nat_eq_self)

lemma decode_encoded_header:
  assumes "known_channel chan" "n < 2 ^ 16"
  shows "decode_header ([MAGIC, chan] @ to_be16 (of_nat n) @ to_be16 sq @ to_be16 code)
           = Inr (chan, n, sq, code)"
  using assms by (simp add: decode_header_def to_be16_def byte_simps HEADER_SIZE_def unat_of_nat16
      nth_Cons')

lemma encode_packet_split:
  assumes "encode_packet bdy chan sq code = Inr pkt"
  shows "take HEADER_SIZE pkt
           = [MAGIC, chan] @ to_be16 (of_nat (length bdy)) @ to_be16 sq @ to_be16 code"
    and "drop HEADER_SIZE pkt = bdy"
  using assms by (auto simp: encode_packet_Inr HEADER_SIZE_def)

text \<open>Framing round trip: the header of an encoded packet on a known channel decodes to
  its channel, its body length, its sequence number and its code, and what follows the
  header is the body, unchanged.\<close>

theorem packet_roundtrip:
  assumes "encode_packet bdy chan sq code = Inr pkt" and "known_channel chan"
  shows "decode_header (take HEADER_SIZE pkt) = Inr (chan, length bdy, sq, code)
    \<and> drop HEADER_SIZE pkt = bdy"
proof -
  from assms(1) have "length bdy < 2 ^ 16" by (simp add: encode_packet_Inr)
  with assms show ?thesis
    by (simp only: encode_packet_split decode_encoded_header)
qed

theorem packet_roundtrip_witness:
  "encode_packet [97, 98, 99] 1 2 0x13c = Inr [0x24, 1, 0, 3, 0, 2, 1, 0x3c, 97, 98, 99] \<and>
   decode_header (take HEADER_SIZE [0x24, 1, 0, 3, 0, 2, 1, 0x3c, 97, 98, 99]) = Inr (1, 3, 2, 0x13c)"
proof -
  have enc: "encode_packet [97, 98, 99] 1 2 0x13c = Inr [0x24, 1, 0, 3, 0, 2, 1, 0x3c, 97, 98, 99]"
    by (simp add: encode_packet_def try_u16_def to_be16_def MAGIC_def)
  have "known_channel 1" by (simp add: known_channel_def channel_defs)
  from packet_roundtrip [OF enc this] enc show ?thesis by simp
qed

text \<open>\<open>decode_header\<close> accepts a header exactly when re-encoding what it reports gives
  the same eight bytes: no two headers decode alike and nothing outside the format is
  accepted.\<close>

theorem decode_header_exact:
  "decode_header h = Inr (chan, n, sq, code) \<longleftrightarrow>
     known_channel chan \<and> n < 2 ^ 16 \<and>
     h = [MAGIC, chan] @ to_be16 (of_nat n) @ to_be16 sq @ to_be16 code"
proof
  assume d: "decode_header h = Inr (chan, n, sq, code)"
  then have "length h = 8" by (auto simp: decode_header_def HEADER_SIZE_def split: if_splits)
  then obtain a b c d' e f g i where h: "h = [a, b, c, d', e, f, g, i]"
    by (auto simp: length_Suc_conv eval_nat_numeral)
  from d have eqs: "a = MAGIC" "chan = b" "known_channel b" "n = unat (from_be16 c d')"
      "sq = from_be16 e f" "code = from_be16 g i"
    by (auto simp: h decode_header_def HEADER_SIZE_def Let_def nth_Cons' split: if_splits)
  have "n < 2 ^ 16" using eqs(4) unsigned_less [of "from_be16 c d'"] by simp
  moreover have "(of_nat n :: u16) = from_be16 c d'" by (simp add: eqs)
  ultimately show "known_channel chan \<and> n < 2 ^ 16 \<and>
     h = [MAGIC, chan] @ to_be16 (of_nat n) @ to_be16 sq @ to_be16 code"
    by (simp add: h eqs byte_simps)
next
  assume "known_channel chan \<and> n < 2 ^ 16 \<and>
     h = [MAGIC, chan] @ to_be16 (of_nat n) @ to_be16 sq @ to_be16 code"
  then show "decode_header h = Inr (chan, n, sq, code)"
    by (simp only: decode_encoded_header)
qed

end
