(* ===== verification/Vtm_Protobuf.thy ===== *)
theory Vtm_Protobuf
  imports Vtm_Framing
begin

text \<open>
  The protobuf subset of the VTM handshake (\<open>src/vtm/protobuf.rs\<close>): base-128 varints,
  length-delimited strings, the stream-info request in its live and playback forms, the
  keepalive body, and the reader of the stream-info response.

  Unsigned 64-bit values are \<open>u64\<close> words, so the shifts drop bits exactly as the code's
  do. The reader's map from field number to values in order of appearance is a partial
  function. On the 64-bit target \<open>usize::try_from\<close> of a \<open>u64\<close> length never fails.
\<close>

record stream_info =
  result :: "u64 option"
  stream_session :: "string option"
  redirect_key :: "string option"
  redirect_url :: "string option"

definition stream_info_default :: stream_info where
  "stream_info_default =
     \<lparr>result = None, stream_session = None, redirect_key = None, redirect_url = None\<rparr>"

section \<open>Writing\<close>

function encode_varint :: "u64 \<Rightarrow> bytes" where
  "encode_varint value =
     (let byte = (ucast (value AND 0x7f) :: u8); value' = drop_bit 7 value
      in if value' = 0 then [byte] else (byte OR 0x80) # encode_varint value')"
  by pat_completeness auto
termination
proof (relation "measure unat")
  fix v :: u64 and byte :: u8 and v' :: u64
  assume v': "v' = drop_bit 7 v" "v' \<noteq> 0"
  from v'(2) have "unat v' \<noteq> 0" by (simp only: unsigned_eq_0_iff not_False_eq_True)
  moreover have "unat v' = unat v div 128" by (simp add: v'(1) drop_bit_eq_div unat_div)
  ultimately have "unat v' < unat v" by simp
  then show "(v', v) \<in> measure unat" by simp
qed simp

declare encode_varint.simps [simp del]

definition proto_string :: "u64 \<Rightarrow> string \<Rightarrow> bytes" where
  "proto_string fld value =
     encode_varint (push_bit 3 fld OR 2) @ encode_varint (of_nat (length value)) @ str_bytes value"

definition proto_varint :: "u64 \<Rightarrow> u64 \<Rightarrow> bytes" where
  "proto_varint fld value = encode_varint (push_bit 3 fld) @ encode_varint value"

definition stream_info_request :: "string \<Rightarrow> string option \<Rightarrow> string \<Rightarrow> u64 option \<Rightarrow> bytes" where
  "stream_info_request url key version kind =
     proto_string 1 url
     @ (case key of Some k \<Rightarrow> proto_string 2 k | None \<Rightarrow> [])
     @ proto_string 3 version
     @ proto_varint 4 0
     @ proto_string 6 version
     @ (case kind of Some k \<Rightarrow> proto_varint 8 k | None \<Rightarrow> [])"

definition build_stream_info :: "string \<Rightarrow> string option \<Rightarrow> bytes" where
  "build_stream_info url key = stream_info_request url key ''v3.6.3.20221124'' None"

definition build_playback_stream_info :: "string \<Rightarrow> string option \<Rightarrow> bytes" where
  "build_playback_stream_info url key = stream_info_request url key ''v3.9.0.20251120'' (Some 10)"

definition build_keepalive :: "string \<Rightarrow> bytes" where
  "build_keepalive session = proto_string 1 session"

section \<open>Reading\<close>

function read_varint_loop :: "bytes \<Rightarrow> nat \<Rightarrow> nat \<Rightarrow> u64 \<Rightarrow> (u64 \<times> nat) result" where
  "read_varint_loop data position shift value =
     (if position < length data \<and> shift < 64 then
        let byte = data ! position;
            value' = value OR push_bit shift (ucast (byte AND 0x7f))
        in if byte AND 0x80 = 0 then Inr (value', position + 1)
           else read_varint_loop data (position + 1) (shift + 7) value'
      else Inl (Upstream ''malformed protobuf varint''))"
  by pat_completeness auto
termination
  by (relation "measure (\<lambda>(data, position, shift, value). 64 - shift)") auto

declare read_varint_loop.simps [simp del]

definition read_varint :: "bytes \<Rightarrow> nat \<Rightarrow> (u64 \<times> nat) result" where
  "read_varint data position = read_varint_loop data position 0 0"

lemma read_varint_loop_progress:
  "read_varint_loop data position shift acc = Inr (v, nxt) \<Longrightarrow>
     position < nxt \<and> nxt \<le> length data"
proof (induction data position shift acc rule: read_varint_loop.induct)
  case (1 data position shift acc)
  note IH = "1.IH" [OF _ refl refl]
  from "1.prems" show ?case
    using IH by (fastforce simp: read_varint_loop.simps [of data position shift acc] Let_def
        split: if_splits)
qed

lemma read_varint_progress:
  "read_varint data position = Inr (v, nxt) \<Longrightarrow> position < nxt \<and> nxt \<le> length data"
  by (auto simp: read_varint_def dest: read_varint_loop_progress)

datatype proto_value = Integer u64 | Bytes bytes

type_synonym proto_fields = "u64 \<rightharpoonup> proto_value list"

definition push_field :: "proto_fields \<Rightarrow> u64 \<Rightarrow> proto_value \<Rightarrow> proto_fields" where
  "push_field flds fld v =
     flds(fld \<mapsto> (case flds fld of None \<Rightarrow> [] | Some vs \<Rightarrow> vs) @ [v])"

text \<open>A slice has at most \<open>isize::MAX\<close> bytes, so the saturating sum exceeds the length of
  \<open>data\<close> exactly when the plain sum does (\<open>sat_add_le_iff\<close>).\<close>

function read_fields_loop :: "bytes \<Rightarrow> nat \<Rightarrow> proto_fields \<Rightarrow> proto_fields result" where
  "read_fields_loop data position flds =
     (if position < length data then
        case read_varint data position of
          Inl e \<Rightarrow> Inl e
        | Inr (key, p1) \<Rightarrow>
            (let fld = drop_bit 3 key; wire = key AND 7 in
             if wire = 0 then
               (case read_varint data p1 of
                  Inl e \<Rightarrow> Inl e
                | Inr (v, p2) \<Rightarrow> read_fields_loop data p2 (push_field flds fld (Integer v)))
             else if wire = 2 then
               (case read_varint data p1 of
                  Inl e \<Rightarrow> Inl e
                | Inr (len, p2) \<Rightarrow>
                    (let fin = p2 + unat len in
                     if fin > length data then Inl (Upstream ''protobuf field exceeds payload'')
                     else read_fields_loop data fin
                            (push_field flds fld (Bytes (take (fin - p2) (drop p2 data))))))
             else Inl (Upstream ''unsupported protobuf wire type''))
      else Inr flds)"
  by pat_completeness auto
termination
  by (relation "measure (\<lambda>(data, position, flds). length data - position)")
    (auto dest!: read_varint_progress)

declare read_fields_loop.simps [simp del]

definition read_fields :: "bytes \<Rightarrow> proto_fields result" where
  "read_fields data = read_fields_loop data 0 Map.empty"

definition last_value :: "proto_fields \<Rightarrow> u64 \<Rightarrow> proto_value option" where
  "last_value flds fld =
     (case flds fld of None \<Rightarrow> None | Some vs \<Rightarrow> if vs = [] then None else Some (last vs))"

definition last_int :: "proto_fields \<Rightarrow> u64 \<Rightarrow> u64 option" where
  "last_int flds fld =
     (case last_value flds fld of Some (Integer v) \<Rightarrow> Some v | _ \<Rightarrow> None)"

definition last_string :: "proto_fields \<Rightarrow> u64 \<Rightarrow> string option" where
  "last_string flds fld =
     (case last_value flds fld of Some (Bytes v) \<Rightarrow> from_utf8 v | _ \<Rightarrow> None)"

definition parse_stream_info :: "bytes \<Rightarrow> stream_info result" where
  "parse_stream_info data =
     try_bind (read_fields data)
       (\<lambda>flds. Inr \<lparr>result = last_int flds 1, stream_session = last_string flds 4,
                   redirect_key = last_string flds 5, redirect_url = last_string flds 7\<rparr>)"

section \<open>Varints round trip\<close>

lemma low7_mask: "(0x7f :: 'a::len word) = mask 7"
  by (simp add: mask_eq_exp_minus_1)

lemma bit_0x80: "bit (0x80 :: int) n \<longleftrightarrow> n = 7"
proof -
  have "(0x80 :: int) = 2 ^ 7" by simp
  then show ?thesis by (simp only: bit_exp_iff) auto
qed

lemma varint_final_byte: "(ucast (v AND 0x7f :: u64) :: u8) AND 0x80 = 0"
  by (rule bit_word_eqI) (auto simp: bit_simps low7_mask bit_0x80)

lemma varint_more_byte: "((ucast (v AND 0x7f :: u64) :: u8) OR 0x80) AND 0x80 \<noteq> 0"
proof
  assume "((ucast (v AND 0x7f :: u64) :: u8) OR 0x80) AND 0x80 = 0"
  then have "bit (((ucast (v AND 0x7f :: u64) :: u8) OR 0x80) AND 0x80) 7 = bit (0 :: u8) 7"
    by simp
  then show False by (simp add: bit_simps bit_0x80)
qed

lemma varint_payload:
  "ucast ((ucast (v AND 0x7f) :: u8) AND 0x7f) = (v AND 0x7f :: u64)"
  "ucast (((ucast (v AND 0x7f) :: u8) OR 0x80) AND 0x7f) = (v AND 0x7f :: u64)"
  by (rule bit_word_eqI, auto simp: bit_simps low7_mask bit_0x80)+

lemma varint_join:
  "push_bit shift (v AND 0x7f) OR push_bit (shift + 7) (drop_bit 7 v) = push_bit shift (v :: u64)"
proof (rule bit_word_eqI)
  fix n :: nat
  assume "n < LENGTH(64)"
  show "bit (push_bit shift (v AND 0x7f) OR push_bit (shift + 7) (drop_bit 7 v)) n
      = bit (push_bit shift v) n"
  proof (cases "n < shift + 7")
    case False
    then have "7 + (n - (shift + 7)) = n - shift" by simp
    with \<open>n < LENGTH(64)\<close> show ?thesis by (auto simp: bit_simps low7_mask)
  qed (auto simp: bit_simps low7_mask)
qed

lemma read_encoded_varint_loop:
  assumes "shift < 64" and "\<And>n. bit v n \<Longrightarrow> shift + n < 64"
  shows "read_varint_loop (pre @ encode_varint v @ post) (length pre) shift acc
           = Inr (acc OR push_bit shift v, length pre + length (encode_varint v))"
  using assms
proof (induction v arbitrary: pre shift acc rule: encode_varint.induct)
  case (1 v)
  let ?d = "drop_bit 7 v"
  show ?case
  proof (cases "?d = 0")
    case True
    have v: "v AND 0x7f = v"
      using varint_join [of 0 v] True by simp
    have "(ucast v :: u8) AND 0x80 = 0" "ucast ((ucast v :: u8) AND 0x7f) = v"
      using varint_final_byte [of v] varint_payload(1) [of v] by (simp_all only: v)
    with True v "1.prems"(1) show ?thesis
      by (simp add: encode_varint.simps [of v] read_varint_loop.simps [of _ "length pre"] Let_def
          nth_append)
  next
    case False
    have fits: "shift + 7 + n < 64" if "bit ?d n" for n
      using "1.prems"(2) [of "7 + n"] that by (simp add: bit_simps)
    have more: "shift + 7 < 64"
      using False fits by (metis bit_eqI add_lessD1 bit_0_eq bot_apply bot_bool_def)
    let ?byte = "(ucast (v AND 0x7f) :: u8) OR 0x80"
    have "read_varint_loop (pre @ encode_varint v @ post) (length pre) shift acc =
        read_varint_loop ((pre @ [?byte]) @ encode_varint ?d @ post) (length (pre @ [?byte]))
          (shift + 7) (acc OR push_bit shift (v AND 0x7f))"
      using False "1.prems"
      by (simp add: encode_varint.simps [of v] read_varint_loop.simps [of _ "length pre"] Let_def
          nth_append varint_more_byte varint_payload)
    also have "\<dots> = Inr ((acc OR push_bit shift (v AND 0x7f)) OR push_bit (shift + 7) ?d,
        length (pre @ [?byte]) + length (encode_varint ?d))"
      using "1.IH" [OF refl refl False, of "shift + 7" "pre @ [?byte]"] fits more by simp
    also have "\<dots> = Inr (acc OR push_bit shift v, length pre + length (encode_varint v))"
      using False
      by (simp only: or.assoc varint_join) (simp add: encode_varint.simps [of v] Let_def)
    finally show ?thesis .
  qed
qed

lemma read_encoded_varint:
  "read_varint (pre @ encode_varint v @ post) (length pre) = Inr (v, length pre + length (encode_varint v))"
proof -
  have "bit v n \<Longrightarrow> 0 + n < 64" for n using bit_imp_le_length [of v n] by simp
  from read_encoded_varint_loop [of 0 v pre post 0, OF _ this] show ?thesis
    by (simp add: read_varint_def)
qed

lemma encode_varint_nonempty [simp]: "encode_varint v \<noteq> []"
  by (simp add: encode_varint.simps [of v] Let_def)

section \<open>Fields round trip\<close>

text \<open>The wire form of one field, in terms of the code's own writers.\<close>

fun encode_field :: "u64 \<times> proto_value \<Rightarrow> bytes" where
  "encode_field (fld, Integer v) = proto_varint fld v"
| "encode_field (fld, Bytes b) = proto_string fld (bytes_str b)"

fun field_ok :: "u64 \<times> proto_value \<Rightarrow> bool" where
  "field_ok (fld, Integer v) = (fld < 2 ^ 61)"
| "field_ok (fld, Bytes b) = (fld < 2 ^ 61 \<and> length b < 2 ^ 64)"

definition fields_of :: "proto_fields \<Rightarrow> (u64 \<times> proto_value) list \<Rightarrow> proto_fields" where
  "fields_of = foldl (\<lambda>flds (fld, v). push_field flds fld v)"

lemma field_bits: "fld < 2 ^ 61 \<Longrightarrow> bit (fld :: u64) n \<Longrightarrow> n < 61"
  by (metis less_mask_eq bit_and_iff bit_mask_iff)

lemma bit_7: "bit (7 :: int) n \<longleftrightarrow> n < 3"
proof -
  have "(7 :: int) = mask 3" by (simp add: mask_eq_exp_minus_1)
  then show ?thesis by (simp only: bit_mask_iff) auto
qed

lemma bit_2: "bit (2 :: int) n \<longleftrightarrow> n = 1"
  using bit_exp_iff [of 1 n, where ?'a = int] by auto

lemma key_bits:
  assumes "(fld :: u64) < 2 ^ 61"
  shows "drop_bit 3 (push_bit 3 fld OR 2) = fld" "drop_bit 3 (push_bit 3 fld) = fld"
    and "(push_bit 3 fld OR 2) AND 7 = 2" "push_bit 3 fld AND 7 = 0"
  by (rule bit_word_eqI, use field_bits [OF assms] in \<open>auto simp: bit_simps bit_7 bit_2\<close>)+

lemma read_varint_after:
  "read_varint (pre @ encode_varint a @ encode_varint v @ post) (length pre + length (encode_varint a))
     = Inr (v, length pre + length (encode_varint a) + length (encode_varint v))"
  using read_encoded_varint [of "pre @ encode_varint a" v post] by simp

lemma read_one_field:
  assumes "field_ok f"
  shows "read_fields_loop (pre @ encode_field f @ post) (length pre) flds
           = read_fields_loop (pre @ encode_field f @ post) (length (pre @ encode_field f))
               (push_field flds (fst f) (snd f))"
proof (cases f)
  case (Pair fld v)
  show ?thesis
  proof (cases v)
    case (Integer n)
    with assms Pair have ok: "fld < 2 ^ 61" by simp
    show ?thesis
      by (subst read_fields_loop.simps)
        (simp add: Pair Integer proto_varint_def read_encoded_varint read_varint_after
          key_bits [OF ok] Let_def add.assoc)
  next
    case (Bytes b)
    with assms Pair have ok: "fld < 2 ^ 61" and len: "unat (of_nat (length b) :: u64) = length b"
      by (simp_all add: unat_of_nat take_bit_nat_eq_self)
    have blen: "length (bytes_str b) = length b" by (simp add: bytes_str_def)
    show ?thesis
      by (subst read_fields_loop.simps)
        (simp add: Pair Bytes proto_string_def read_encoded_varint read_varint_after
          key_bits [OF ok] Let_def add.assoc len blen)
  qed
qed

lemma read_fields_loop_all:
  assumes "list_all field_ok fs"
  shows "read_fields_loop (pre @ concat (map encode_field fs)) (length pre) flds
           = Inr (fields_of flds fs)"
  using assms
proof (induction fs arbitrary: pre flds)
  case Nil
  then show ?case by (simp add: read_fields_loop.simps fields_of_def)
next
  case (Cons f fs)
  have "read_fields_loop (pre @ concat (map encode_field (f # fs))) (length pre) flds
      = read_fields_loop ((pre @ encode_field f) @ concat (map encode_field fs))
          (length (pre @ encode_field f)) (push_field flds (fst f) (snd f))"
    using Cons.prems read_one_field [of f pre "concat (map encode_field fs)" flds] by simp
  also have "\<dots> = Inr (fields_of (push_field flds (fst f) (snd f)) fs)"
    using Cons.prems by (intro Cons.IH) simp
  finally show ?case by (simp add: fields_of_def case_prod_beta)
qed

lemma read_fields_roundtrip:
  "list_all field_ok fs \<Longrightarrow> read_fields (concat (map encode_field fs)) = Inr (fields_of Map.empty fs)"
  using read_fields_loop_all [of fs "[]"] by (simp add: read_fields_def)

text \<open>Every value survives the varint coding: reading at the position where the code
  wrote a \<open>u64\<close> returns that value and the position right behind it, whatever surrounds
  it in the buffer.\<close>

theorem varint_roundtrip:
  "read_varint (pre @ encode_varint v @ post) (length pre)
     = Inr (v, length pre + length (encode_varint v))"
  by (rule read_encoded_varint)

text \<open>What the relay answers, in the field numbers the client reads.\<close>

definition response_fields :: "stream_info \<Rightarrow> (u64 \<times> proto_value) list" where
  "response_fields i =
     (case result i of Some r \<Rightarrow> [(1, Integer r)] | None \<Rightarrow> [])
     @ (case stream_session i of Some s \<Rightarrow> [(4, Bytes (str_bytes s))] | None \<Rightarrow> [])
     @ (case redirect_key i of Some s \<Rightarrow> [(5, Bytes (str_bytes s))] | None \<Rightarrow> [])
     @ (case redirect_url i of Some s \<Rightarrow> [(7, Bytes (str_bytes s))] | None \<Rightarrow> [])"

definition info_strings_ok :: "stream_info \<Rightarrow> bool" where
  "info_strings_ok i \<longleftrightarrow>
     (\<forall>s \<in> set_option (stream_session i) \<union> set_option (redirect_key i) \<union> set_option (redirect_url i).
        rust_str s \<and> length s < 2 ^ 64)"

lemma response_fields_ok: "info_strings_ok i \<Longrightarrow> list_all field_ok (response_fields i)"
  by (auto simp: response_fields_def info_strings_ok_def split: option.splits)

text \<open>C8. The stream-info reader recovers a relay's answer exactly: result code, session,
  redirect key and redirect URL come back as sent, and an absent field stays absent.\<close>

theorem stream_info_roundtrip:
  assumes "info_strings_ok i"
  shows "parse_stream_info (concat (map encode_field (response_fields i))) = Inr i"
proof -
  have "parse_stream_info (concat (map encode_field (response_fields i)))
      = (let flds = fields_of Map.empty (response_fields i)
         in Inr \<lparr>result = last_int flds 1, stream_session = last_string flds 4,
                 redirect_key = last_string flds 5, redirect_url = last_string flds 7\<rparr>)"
    using read_fields_roundtrip [OF response_fields_ok [OF assms]]
    by (simp add: parse_stream_info_def Let_def)
  also have "\<dots> = Inr i"
    using assms
    by (cases i) (auto simp: response_fields_def fields_of_def push_field_def last_int_def
        last_string_def last_value_def from_utf8_def info_strings_ok_def rust_str_def Let_def
        split: option.splits)
  finally show ?thesis .
qed

theorem stream_info_roundtrip_witness:
  "parse_stream_info [8, 0, 34, 2, 115, 49] =
     Inr \<lparr>result = Some 0, stream_session = Some ''s1'', redirect_key = None, redirect_url = None\<rparr>"
proof -
  let ?i = "\<lparr>result = Some 0, stream_session = Some ''s1'', redirect_key = None, redirect_url = None\<rparr>"
  have "info_strings_ok ?i"
    by (simp add: info_strings_ok_def rust_str_def str_bytes_def)
  moreover have "concat (map encode_field (response_fields ?i)) = [8, 0, 34, 2, 115, 49]"
    by code_simp
  ultimately show ?thesis using stream_info_roundtrip [of ?i] by simp
qed

end
