(* ===== verification/Emitter.thy ===== *)
theory Emitter
  imports Bridge_Prelude
begin

text \<open>
  The interface most parts of the media path share: an operation takes an input and a state and
  returns what it emits with the state it leaves. The locale \<open>emitter\<close> states the contract (an
  invariant every operation keeps, and a relation between what is emitted and the states around it
  that composes along a sequence) and proves once what it gives for every sequence of operations.
\<close>

fun run_ops :: "('i \<Rightarrow> 's \<Rightarrow> 'o list \<times> 's) \<Rightarrow> 'i list \<Rightarrow> 's \<Rightarrow> 'o list \<times> 's" where
  "run_ops f [] s = ([], s)"
| "run_ops f (i # is) s = (case f i s of (out, s') \<Rightarrow>
     case run_ops f is s' of (outs, s'') \<Rightarrow> (out @ outs, s''))"

lemma run_ops_append:
  "run_ops f (is @ js) s = (case run_ops f is s of (a, s') \<Rightarrow>
     case run_ops f js s' of (b, s'') \<Rightarrow> (a @ b, s''))"
  by (induction "is" arbitrary: s) (auto split: prod.splits)

locale emitter =
  fixes f :: "'i \<Rightarrow> 's \<Rightarrow> 'o list \<times> 's"
    and ok :: "'s \<Rightarrow> bool"
    and emits :: "'s \<Rightarrow> 'o list \<Rightarrow> 's \<Rightarrow> bool"
  assumes step_ok: "ok s \<Longrightarrow> f i s = (out, s') \<Longrightarrow> ok s'"
    and step_emits: "ok s \<Longrightarrow> f i s = (out, s') \<Longrightarrow> emits s out s'"
    and emits_none: "ok s \<Longrightarrow> emits s [] s"
    and emits_append: "emits s a s' \<Longrightarrow> emits s' b s'' \<Longrightarrow> emits s (a @ b) s''"
begin

lemma run_ok: "ok s \<Longrightarrow> run_ops f is s = (out, s') \<Longrightarrow> ok s'"
  by (induction "is" arbitrary: s out) (auto split: prod.splits dest: step_ok)

lemma run_emits: "ok s \<Longrightarrow> run_ops f is s = (out, s') \<Longrightarrow> emits s out s'"
proof (induction "is" arbitrary: s out)
  case (Cons i "is")
  from Cons.prems obtain a t b where
    "f i s = (a, t)" "run_ops f is t = (b, s')" "out = a @ b"
    by (auto split: prod.splits)
  with Cons step_ok step_emits show ?case by (blast intro: emits_append)
qed (simp add: emits_none)

end

end
