(* ===== verification/Ts_Mux.thy ===== *)
theory Ts_Mux
  imports Emitter
begin

text \<open>
  The MPEG-TS muxer of \<open>transport/ts_mux.rs\<close> and its CRC (\<open>transport/ts_mux_crc.rs\<close>): the
  tables, the PES header, the packetising loop with its adaptation-field stuffing, and the
  continuity counters. A small reference demultiplexer, written from the layout of ISO 13818-1
  and not from the code, states what the output means: alignment, packet identifiers, counters and
  the recovered elementary stream.
\<close>

section \<open>The muxer\<close>

datatype video_codec = H264 | Hevc

definition PACKET :: nat where "PACKET = 188"
definition PAYLOAD :: nat where "PAYLOAD = PACKET - 4"
definition PMT_PID :: u16 where "PMT_PID = 0x1000"
definition VIDEO_PID :: u16 where "VIDEO_PID = 0x0100"
definition AUDIO_PID :: u16 where "AUDIO_PID = 0x0101"
definition PTS_MASK :: u64 where "PTS_MASK = push_bit 33 1 - 1"
definition PCR_LEAD :: u64 where "PCR_LEAD = 45000"

lemmas pid_defs = PMT_PID_def VIDEO_PID_def AUDIO_PID_def

record ts_muxer =
  mux_codec :: video_codec
  mux_audio :: bool
  pmt_version :: u8
  tables_due :: bool
  continuity :: "u8 list"

definition ts_muxer_new :: "video_codec \<Rightarrow> ts_muxer" where
  "ts_muxer_new c = \<lparr>mux_codec = c, mux_audio = False, pmt_version = 0, tables_due = True,
     continuity = [0, 0, 0, 0]\<rparr>"

definition enable_audio :: "ts_muxer \<Rightarrow> ts_muxer" where
  "enable_audio m = (if \<not> mux_audio m then
     m\<lparr>mux_audio := True, pmt_version := (pmt_version m + 1) AND 0x1f, tables_due := True\<rparr> else m)"

subsection \<open>CRC-32/MPEG-2\<close>

definition crc_bit :: "u32 \<Rightarrow> u32" where
  "crc_bit crc = (if crc AND 0x80000000 = 0 then push_bit 1 crc
     else push_bit 1 crc XOR 0x04c11db7)"

definition crc_byte :: "u32 \<Rightarrow> u8 \<Rightarrow> u32" where
  "crc_byte crc b = (crc_bit ^^ 8) (crc XOR push_bit 24 (ucast b))"

definition crc32_mpeg2 :: "bytes \<Rightarrow> u32" where
  "crc32_mpeg2 data = foldl crc_byte 0xffffffff data"

subsection \<open>Byte helpers and headers\<close>

definition byte :: "u64 \<Rightarrow> u8" where
  "byte v = ucast v"

definition high :: "u16 \<Rightarrow> u8" where
  "high v = ucast (drop_bit 8 v) AND 0x1f"

definition low :: "u16 \<Rightarrow> u8" where
  "low v = ucast v"

definition pts_bytes :: "u64 \<Rightarrow> bytes" where
  "pts_bytes p = (let pts = p AND PTS_MASK in
     [0x21 OR (push_bit 1 (byte (drop_bit 30 pts)) AND 0x0e),
      byte (drop_bit 22 pts),
      (byte (drop_bit 14 pts) AND 0xfe) OR 1,
      byte (drop_bit 7 pts),
      (byte (push_bit 1 pts) AND 0xfe) OR 1])"

definition pcr_bytes :: "u64 \<Rightarrow> bytes" where
  "pcr_bytes b = (let base = b AND PTS_MASK in
     [byte (drop_bit 25 base), byte (drop_bit 17 base), byte (drop_bit 9 base),
      byte (drop_bit 1 base), push_bit 7 (byte (base AND 1)) OR 0x7e, 0x00])"

definition pes :: "u8 \<Rightarrow> u64 \<Rightarrow> bytes \<Rightarrow> bool \<Rightarrow> bytes" where
  "pes stream_id pts payload bounded =
     (let len = if bounded then (case try_u16 (length payload + 8) of Some l \<Rightarrow> l | None \<Rightarrow> 0)
                else 0
      in [0x00, 0x00, 0x01, stream_id] @ to_be16 len @ [0x80, 0x80, 0x05] @ pts_bytes pts @ payload)"

definition section_of :: "u8 \<Rightarrow> u16 \<Rightarrow> u8 \<Rightarrow> bytes \<Rightarrow> bytes" where
  "section_of table_id ident version body =
     (let len = (case try_u16 (5 + length body + 4) of Some l \<Rightarrow> l | None \<Rightarrow> 0x3fd);
          out = [table_id, 0xb0 OR high len, low len] @ to_be16 ident
                @ [0xc1 OR push_bit 1 (version AND 0x1f), 0x00, 0x00] @ body
      in out @ to_be32 (crc32_mpeg2 out))"

text \<open>\<open>Vec::resize(n, x)\<close>.\<close>

definition resize :: "nat \<Rightarrow> 'a \<Rightarrow> 'a list \<Rightarrow> 'a list" where
  "resize n x xs = take n xs @ replicate (n - length xs) x"

subsection \<open>Continuity counters and tables\<close>

definition cc_slot :: "u16 \<Rightarrow> nat" where
  "cc_slot pid = (if pid = 0 then 0 else if pid = PMT_PID then 1 else if pid = VIDEO_PID then 2 else 3)"

definition next_cc :: "u16 \<Rightarrow> ts_muxer \<Rightarrow> u8 \<times> ts_muxer" where
  "next_cc pid m = (let v = continuity m ! cc_slot pid in
     (v, m\<lparr>continuity := (continuity m)[cc_slot pid := (v + 1) AND 0x0f]\<rparr>))"

definition psi :: "u16 \<Rightarrow> bytes \<Rightarrow> ts_muxer \<Rightarrow> bytes \<times> ts_muxer" where
  "psi pid sec m = (case next_cc pid m of (cc, m') \<Rightarrow>
     (resize PACKET 0xff ([0x47, 0x40 OR high pid, low pid, 0x10 OR cc] @ [0x00] @ sec), m'))"

definition stream_type :: "video_codec \<Rightarrow> u8" where
  "stream_type c = (case c of H264 \<Rightarrow> 0x1b | Hevc \<Rightarrow> 0x24)"

definition pat_section :: bytes where
  "pat_section = section_of 0x00 1 0 [0x00, 0x01, 0xe0 OR high PMT_PID, low PMT_PID]"

definition pmt_section :: "ts_muxer \<Rightarrow> bytes" where
  "pmt_section m =
     (let streams = [(stream_type (mux_codec m), VIDEO_PID)]
                    @ (if mux_audio m then [(0x0f, AUDIO_PID)] else []);
          body = [0xe0 OR high VIDEO_PID, low VIDEO_PID, 0xf0, 0x00]
                 @ concat (map (\<lambda>(kind, pid). [kind, 0xe0 OR high pid, low pid, 0xf0, 0x00]) streams)
      in section_of 0x02 1 (pmt_version m) body)"

definition tables :: "bool \<Rightarrow> ts_muxer \<Rightarrow> bytes \<times> ts_muxer" where
  "tables keyframe m =
     (if \<not> tables_due m \<and> \<not> keyframe then ([], m)
      else let m0 = m\<lparr>tables_due := False\<rparr>;
               pmt = pmt_section m0;
               (p0, m1) = psi 0x0000 pat_section m0;
               (p1, m2) = psi PMT_PID pmt m1
           in (p0 @ p1, m2))"

subsection \<open>Packetising\<close>

definition u8_from :: "bool \<Rightarrow> u8" where
  "u8_from b = (if b then 1 else 0)"

definition adaptation_start :: "bool \<Rightarrow> u64 option \<Rightarrow> bool \<Rightarrow> bytes option" where
  "adaptation_start first pcr random_access =
     (if first \<and> (pcr \<noteq> None \<or> random_access) then
        Some ([push_bit 6 (u8_from random_access) OR push_bit 4 (u8_from (pcr \<noteq> None))]
              @ (case pcr of Some p \<Rightarrow> pcr_bytes p | None \<Rightarrow> []))
      else None)"

definition adaptation_used :: "bytes option \<Rightarrow> nat" where
  "adaptation_used a = (case a of None \<Rightarrow> 0 | Some field \<Rightarrow> length field + 1)"

definition adaptation_stuff :: "nat \<Rightarrow> bytes option \<Rightarrow> bytes option" where
  "adaptation_stuff remaining a =
     (let used = adaptation_used a in
      if remaining < PAYLOAD - used then
        (let stuffing = PAYLOAD - used - remaining in
         case a of
           Some field \<Rightarrow> Some (resize (length field + stuffing) 0xff field)
         | None \<Rightarrow> if stuffing = 1 then Some [] else Some (resize (stuffing - 1) 0xff [0x00]))
      else a)"

definition ts_header :: "bool \<Rightarrow> u16 \<Rightarrow> u8 \<Rightarrow> bytes option \<Rightarrow> bytes" where
  "ts_header first pid cc a =
     [0x47, (if first then 0x40 else 0x00) OR high pid, low pid,
      (if a \<noteq> None then 0x30 else 0x10) OR cc]
     @ (case a of Some field \<Rightarrow>
          (if length field < 256 then of_nat (length field) else 0xff) # field | None \<Rightarrow> [])"

function packetize_from ::
  "u16 \<Rightarrow> bytes \<Rightarrow> u64 option \<Rightarrow> bool \<Rightarrow> nat \<Rightarrow> bytes \<Rightarrow> ts_muxer \<Rightarrow> bytes \<times> ts_muxer" where
  "packetize_from pid data pcr random_access offset out m =
     (if offset < length data then
        (let first = (offset = 0);
             remaining = length data - offset;
             adaptation = adaptation_stuff remaining (adaptation_start first pcr random_access);
             (cc, m') = next_cc pid m;
             out1 = out @ ts_header first pid cc adaptation;
             room = PACKET - length out1 mod PACKET;
             n = min room remaining
         in packetize_from pid data pcr random_access (offset + n)
              (out1 @ take n (drop offset data)) m')
      else (out, m))"
  by pat_completeness auto
termination
proof (relation "measure (\<lambda>(pid, data, pcr, ra, offset, out, m). length data - offset)", goal_cases)
  case (2 pid data pcr ra offset out m x xa xb xc y z xd xe xf)
  have "0 < PACKET - length xd mod PACKET" by (simp add: PACKET_def)
  moreover from 2 have "xf = min (PACKET - length xd mod PACKET) (length data - offset)" by simp
  ultimately have "0 < xf" using 2(1) by simp
  with 2(1) show ?case by simp
qed simp

declare packetize_from.simps [simp del]

definition packetize :: "u16 \<Rightarrow> bytes \<Rightarrow> u64 option \<Rightarrow> bool \<Rightarrow> bytes \<Rightarrow> ts_muxer \<Rightarrow> bytes \<times> ts_muxer" where
  "packetize pid data pcr random_access out m = packetize_from pid data pcr random_access 0 out m"

definition delimiter :: "video_codec \<Rightarrow> bytes" where
  "delimiter c = (case c of
     H264 \<Rightarrow> [0x00, 0x00, 0x00, 0x01, 0x09, 0xf0]
   | Hevc \<Rightarrow> [0x00, 0x00, 0x00, 0x01, 0x46, 0x01, 0x50])"

definition delimited :: "video_codec \<Rightarrow> bytes \<Rightarrow> bytes" where
  "delimited c access_unit =
     (if get_at access_unit 4 = get_at (delimiter c) 4 then [] else delimiter c) @ access_unit"

definition mux_video :: "u64 \<Rightarrow> bool \<Rightarrow> bytes \<Rightarrow> ts_muxer \<Rightarrow> bytes \<times> ts_muxer" where
  "mux_video pts keyframe access_unit m =
     (let (out, m1) = tables keyframe m;
          packet = pes 0xe0 pts (delimited (mux_codec m1) access_unit) False;
          pcr = (pts - PCR_LEAD) AND PTS_MASK
      in packetize VIDEO_PID packet (Some pcr) keyframe out m1)"

definition mux_audio_frames :: "u64 \<Rightarrow> bytes \<Rightarrow> ts_muxer \<Rightarrow> bytes \<times> ts_muxer" where
  "mux_audio_frames pts adts m =
     (let (out, m1) = tables False m;
          packet = pes 0xc0 pts adts True
      in packetize AUDIO_PID packet None False out m1)"

section \<open>The CRC closes a section\<close>

lemma crc_bit_top: "\<not> bit c 31 \<Longrightarrow> crc_bit c = push_bit 1 c"
proof -
  assume a: "\<not> bit c 31"
  have "c AND 0x80000000 = 0"
  proof (rule bit_word_eqI)
    fix n
    assume "n < LENGTH(32)"
    have m: "(0x80000000 :: u32) = push_bit 31 1" by simp
    show "bit (c AND 0x80000000) n = bit (0 :: u32) n"
      using a \<open>n < LENGTH(32)\<close> unfolding m bit_and_iff bit_push_bit_iff
      by (cases "n = 31") (auto simp: bit_1_iff)
  qed
  then show ?thesis by (simp add: crc_bit_def)
qed

lemma crc_bits_top:
  "(\<forall>i. 32 - k \<le> i \<and> i < 32 \<longrightarrow> \<not> bit c i) \<Longrightarrow> k \<le> 32 \<Longrightarrow> (crc_bit ^^ k) c = push_bit k c"
proof (induction k arbitrary: c)
  case (Suc k)
  have "\<not> bit c 31" using Suc.prems by auto
  then have *: "crc_bit c = push_bit 1 c" by (rule crc_bit_top)
  have "(crc_bit ^^ k) (push_bit 1 c) = push_bit k (push_bit 1 c)"
  proof (rule Suc.IH)
    show "\<forall>i. 32 - k \<le> i \<and> i < 32 \<longrightarrow> \<not> bit (push_bit 1 c) i"
    proof (intro allI impI)
      fix i assume "32 - k \<le> i \<and> i < 32"
      then have "32 - Suc k \<le> i - 1 \<and> i - 1 < 32" by auto
      then show "\<not> bit (push_bit 1 c) i" using Suc.prems(1) unfolding bit_push_bit_iff by auto
    qed
  qed (use Suc.prems in simp)
  then show ?case by (simp add: funpow_Suc_right * push_bit_push_bit del: funpow.simps)
qed simp

lemma crc_byte_cancel: "crc_byte c (ucast (drop_bit 24 c)) = push_bit 8 c"
proof -
  let ?d = "c XOR push_bit 24 (ucast (ucast (drop_bit 24 c) :: u8))"
  have "(crc_bit ^^ 8) ?d = push_bit 8 ?d"
    by (rule crc_bits_top) (auto simp: bit_simps)
  also have "\<dots> = push_bit 8 c"
    by (rule bit_word_eqI) (auto simp: bit_simps)
  finally show ?thesis by (simp add: crc_byte_def)
qed

lemma crc_cancel: "foldl crc_byte c (to_be32 c) = 0"
proof -
  have 1: "ucast (drop_bit 16 c) = (ucast (drop_bit 24 (push_bit 8 c)) :: u8)"
    and 2: "ucast (drop_bit 8 c) = (ucast (drop_bit 24 (push_bit 16 c)) :: u8)"
    and 3: "ucast c = (ucast (drop_bit 24 (push_bit 24 c)) :: u8)"
    and 4: "push_bit 32 c = 0"
    by (rule bit_word_eqI; auto simp: bit_simps)+
  show ?thesis
    unfolding to_be32_def foldl.simps crc_byte_cancel
    unfolding 1 crc_byte_cancel push_bit_push_bit
    using crc_byte_cancel [of "push_bit 16 c"] crc_byte_cancel [of "push_bit 24 c"]
    by (simp add: 2 [symmetric] 3 [symmetric] 4)
qed

lemma crc_section: "crc32_mpeg2 (section_of t i v body) = 0"
  by (simp only: section_of_def Let_def crc32_mpeg2_def foldl_append crc_cancel)

section \<open>PES round trip\<close>

text \<open>The 33-bit timestamp of a PES header, read back from its five bytes.\<close>

definition read_pts :: "u8 \<Rightarrow> u8 \<Rightarrow> u8 \<Rightarrow> u8 \<Rightarrow> u8 \<Rightarrow> u64" where
  "read_pts a b c d e = push_bit 30 (ucast (drop_bit 1 a AND 0x07)) OR push_bit 22 (ucast b)
     OR push_bit 15 (ucast (drop_bit 1 c)) OR push_bit 7 (ucast d) OR ucast (drop_bit 1 e)"

definition read_pes :: "bytes \<Rightarrow> (u8 \<times> u64 \<times> bytes) option" where
  "read_pes b = (if length b < 14 \<or> take 3 b \<noteq> [0, 0, 1] then None
     else Some (b ! 3, read_pts (b ! 9) (b ! 10) (b ! 11) (b ! 12) (b ! 13), drop (9 + unat (b ! 8)) b))"

lemma PTS_MASK_mask: "PTS_MASK = mask 33"
  by (simp add: PTS_MASK_def mask_eq_exp_minus_1)

lemma bit_byte_masks:
  "(0xfe :: u8) = NOT 1" "(0x0e :: u8) = push_bit 1 (mask 3)" "(0x07 :: u8) = mask 3"
  "(0x21 :: u8) = push_bit 5 1 OR 1" "(0x1f :: u8) = mask 5" "(0x40 :: u8) = push_bit 6 1"
  by (simp_all add: mask_eq_exp_minus_1)

lemma bit_16: "bit (16 :: int) n \<longleftrightarrow> n = 4"
  using bit_exp_iff [of 4 n, where ?'a = int] by simp

lemma bit_127: "bit (127 :: int) n \<longleftrightarrow> n < 7"
  using bit_mask_iff [of 7 n, where ?'a = int] by (simp add: mask_eq_exp_minus_1)

lemma pts_byte_fields:
  fixes x :: u8
  shows "drop_bit 1 (0x21 OR (push_bit 1 x AND 0x0e)) AND 0x07 = x AND 0x07"
    and "drop_bit 1 ((x AND 0xfe) OR 1) = drop_bit 1 x"
  unfolding bit_byte_masks
  by (rule bit_word_eqI; auto simp: bit_simps bit_16 bit_127 simp del: push_bit_Suc drop_bit_Suc
      dest: bit_imp_le_length)+

lemma pts_roundtrip:
  assumes "pts_bytes p = [a, b, c, d, e]"
  shows "read_pts a b c d e = p AND PTS_MASK"
proof (rule bit_word_eqI)
  fix n assume n: "n < LENGTH(64)"
  let ?q = "p AND mask 33"
  have "read_pts a b c d e = push_bit 30 (ucast (byte (drop_bit 30 ?q) AND 0x07))
     OR push_bit 22 (ucast (byte (drop_bit 22 ?q)))
     OR push_bit 15 (ucast (drop_bit 1 (byte (drop_bit 14 ?q))))
     OR push_bit 7 (ucast (byte (drop_bit 7 ?q)))
     OR ucast (drop_bit 1 (byte (push_bit 1 ?q)))"
    using assms [symmetric] unfolding read_pts_def pts_bytes_def Let_def PTS_MASK_mask list.inject
    by (elim conjE) (simp only: pts_byte_fields)
  moreover from n consider "n < 7" | "7 \<le> n" "n < 15" | "15 \<le> n" "n < 22" | "22 \<le> n" "n < 30"
    | "30 \<le> n" "n < 33" | "33 \<le> n" "n < 64" by fastforce
  then have "bit (push_bit 30 (ucast (byte (drop_bit 30 ?q) AND 0x07))
     OR push_bit 22 (ucast (byte (drop_bit 22 ?q)))
     OR push_bit 15 (ucast (drop_bit 1 (byte (drop_bit 14 ?q))))
     OR push_bit 7 (ucast (byte (drop_bit 7 ?q)))
     OR ucast (drop_bit 1 (byte (push_bit 1 ?q))) :: u64) n = bit ?q n"
    unfolding bit_byte_masks byte_def
    by cases (simp_all add: bit_simps less_diff_conv2 del: push_bit_Suc drop_bit_Suc)
  ultimately show "bit (read_pts a b c d e) n = bit (p AND PTS_MASK) n"
    by (simp only: PTS_MASK_mask)
qed

lemma length_pts_bytes [simp]: "length (pts_bytes p) = 5"
  by (simp add: pts_bytes_def Let_def)

lemma length_pes [simp]: "length (pes sid pts payload bd) = 14 + length payload"
  by (simp add: pes_def Let_def)

lemma pes_roundtrip: "read_pes (pes sid pts payload bd) = Some (sid, pts AND PTS_MASK, payload)"
proof -
  have *: "\<exists>a b c d e. pts_bytes pts = [a, b, c, d, e]"
    by (simp add: pts_bytes_def Let_def)
  then obtain a b c d e where p: "pts_bytes pts = [a, b, c, d, e]" by blast
  show ?thesis
    using pts_roundtrip [OF p]
    by (simp add: read_pes_def pes_def Let_def to_be16_def p)
qed

section \<open>A reference demultiplexer\<close>

definition ts_sync :: "bytes \<Rightarrow> bool" where
  "ts_sync p \<longleftrightarrow> length p = 188 \<and> p ! 0 = 0x47"

definition ts_pid :: "bytes \<Rightarrow> u16" where
  "ts_pid p = from_be16 (p ! 1 AND 0x1f) (p ! 2)"

definition ts_start :: "bytes \<Rightarrow> bool" where
  "ts_start p \<longleftrightarrow> bit (p ! 1) 6"

definition ts_counter :: "bytes \<Rightarrow> u8" where
  "ts_counter p = p ! 3 AND 0x0f"

definition ts_payload :: "bytes \<Rightarrow> bytes" where
  "ts_payload p = drop (if bit (p ! 3) 5 then 5 + unat (p ! 4) else 4) p"

definition ts_packets :: "bytes \<Rightarrow> bytes list" where
  "ts_packets out = chunks_of 188 out"

definition demux :: "u16 \<Rightarrow> bytes \<Rightarrow> bytes" where
  "demux pid out = concat (map ts_payload (filter (\<lambda>p. ts_pid p = pid) (ts_packets out)))"

lemma chunks_of_concat:
  "0 < n \<Longrightarrow> (\<forall>p \<in> set ps. length p = n) \<Longrightarrow> chunks_of n (concat ps) = ps"
proof (induction ps)
  case (Cons p ps)
  then show ?case by (auto simp: chunks_of.simps [of n "p @ concat ps"])
qed simp

subsection \<open>The fields of one packet\<close>

definition cc_next :: "u8 \<Rightarrow> u8" where
  "cc_next c = (c + 1) AND 0x0f"

lemma cc_mask: "(0x0f :: u8) = mask 4"
  by (simp add: mask_eq_exp_minus_1)

lemma cc_next_less: "cc_next c < 16"
  using take_bit_nat_less_exp [of 4 "unat (c + 1)"]
  unfolding cc_next_def cc_mask take_bit_eq_mask [symmetric] word_less_nat_alt
  by (simp add: unsigned_take_bit_eq)

lemma u8_less_16_bits: "(c :: u8) < 16 \<Longrightarrow> c AND mask 4 = c"
  using less_mask_eq [of c 4] by simp

lemma byte3_fields:
  assumes "(c :: u8) < 16"
  shows "(0x10 OR c) AND 0x0f = c" "(0x30 OR c) AND 0x0f = c" "\<not> bit (0x10 OR c) 5" "bit (0x30 OR c) 5"
proof -
  have c: "c = c AND mask 4" using u8_less_16_bits [OF assms] by simp
  have nb: "\<not> bit c n" if "4 \<le> n" for n
    using that by (subst c) (simp add: bit_and_iff bit_mask_iff)
  show "(0x10 OR c) AND 0x0f = c" "(0x30 OR c) AND 0x0f = c"
    using u8_less_16_bits [OF assms] unfolding cc_mask [symmetric]
    by (simp_all add: bit.conj_disj_distrib2)
  show "\<not> bit (0x10 OR c) 5" "bit (0x30 OR c) 5"
    using nb [of 5] by (simp_all add: bit_or_iff)
qed

lemma high_low:
  assumes "pid < 0x2000"
  shows "from_be16 (high pid) (low pid) = pid"
proof (rule bit_word_eqI)
  fix n assume "n < LENGTH(16)"
  have "pid AND mask 13 = pid" using less_mask_eq [of pid 13] assms by simp
  then have "bit pid n \<Longrightarrow> n < 13" by (metis bit_and_iff bit_mask_iff)
  then show "bit (from_be16 (high pid) (low pid)) n = bit pid n"
    unfolding from_be16_def high_def low_def bit_byte_masks
    by (auto simp: bit_simps)
qed

lemma byte1_fields:
  "(0x40 OR high pid) AND 0x1f = high pid" "high pid AND 0x1f = high pid"
  "bit (0x40 OR high pid) 6" "\<not> bit (high pid) 6"
proof -
  show "(0x40 OR high pid) AND 0x1f = high pid"
    unfolding high_def by (simp add: and.assoc bit.conj_disj_distrib2)
  show "high pid AND 0x1f = high pid" by (simp add: high_def and.assoc)
  show "\<not> bit (high pid) 6" unfolding high_def bit_byte_masks by (simp add: bit_and_iff bit_mask_iff)
  then show "bit (0x40 OR high pid) 6" by (simp add: bit_or_iff)
qed

lemma drop_header: "drop (5 + n) (a # b # c # d # e # xs) = drop n xs"
  by (simp add: numeral_eq_Suc)

lemma packet_fields:
  assumes "pid < 0x2000" "cc < 16" "adaptation_used a \<le> 184"
  shows "ts_pid (ts_header first pid cc a @ chunk) = pid"
    and "ts_start (ts_header first pid cc a @ chunk) = first"
    and "ts_counter (ts_header first pid cc a @ chunk) = cc"
    and "ts_payload (ts_header first pid cc a @ chunk) = chunk"
    and "(ts_header first pid cc a @ chunk) ! 0 = 0x47"
    and "length (ts_header first pid cc a @ chunk) = 4 + adaptation_used a + length chunk"
  using assms byte3_fields [OF assms(2)] high_low [OF assms(1)] byte1_fields [of pid]
  by (auto simp: ts_header_def ts_pid_def ts_start_def ts_counter_def ts_payload_def
      adaptation_used_def unat_of_nat take_bit_nat_eq_self drop_header split: option.splits)

lemma adaptation_start_used: "adaptation_used (adaptation_start first pcr ra) \<le> 8"
  by (auto simp: adaptation_used_def adaptation_start_def pcr_bytes_def Let_def split: option.splits)

lemma length_resize [simp]: "length (resize n x xs) = n"
  by (simp add: resize_def)

lemma adaptation_stuff_used:
  assumes "adaptation_used a \<le> 8" "0 < remaining"
  shows "adaptation_used (adaptation_stuff remaining a) = max (adaptation_used a) (184 - remaining)"
  using assms by (auto simp: adaptation_stuff_def PAYLOAD_def PACKET_def adaptation_used_def Let_def
      max_def split: option.splits if_splits)

section \<open>What the packetising loop writes\<close>

definition cc_of :: "ts_muxer \<Rightarrow> u16 \<Rightarrow> u8" where
  "cc_of m pid = continuity m ! cc_slot pid"

definition advance :: "u16 \<Rightarrow> nat \<Rightarrow> ts_muxer \<Rightarrow> ts_muxer" where
  "advance pid k m = m\<lparr>continuity := (continuity m)[cc_slot pid := (cc_next ^^ k) (cc_of m pid)]\<rparr>"

definition counters :: "u8 \<Rightarrow> nat \<Rightarrow> u8 list" where
  "counters c n = map (\<lambda>i. (cc_next ^^ i) c) [0..<n]"

definition mux_ok :: "ts_muxer \<Rightarrow> bool" where
  "mux_ok m \<longleftrightarrow> length (continuity m) = 4 \<and> (\<forall>c \<in> set (continuity m). c < 16)"

lemma counters_simps [simp]:
  "counters c 0 = []" "counters c (Suc n) = c # counters (cc_next c) n"
  by (simp_all add: counters_def upt_conv_Cons map_Suc_upt [symmetric] funpow_swap1 o_def
      del: upt_Suc)

lemma cc_slot_less [simp]: "cc_slot pid < 4"
  by (simp add: cc_slot_def)

lemma mux_ok_cc: "mux_ok m \<Longrightarrow> cc_of m pid < 16"
  by (simp add: mux_ok_def cc_of_def)

lemma next_cc_advance: "mux_ok m \<Longrightarrow> next_cc pid m = (cc_of m pid, advance pid 1 m)"
  by (simp add: next_cc_def cc_of_def advance_def cc_next_def Let_def)

lemma advance_0 [simp]: "advance pid 0 m = m"
  by (simp add: advance_def cc_of_def)

lemma mux_ok_advance: "mux_ok m \<Longrightarrow> mux_ok (advance pid k m)"
  unfolding mux_ok_def advance_def
  by (cases k) (auto simp: cc_of_def cc_next_less dest!: set_update_subset_insert [THEN subsetD])

lemma cc_of_advance:
  "mux_ok m \<Longrightarrow> cc_of (advance pid k m) p =
     (if cc_slot p = cc_slot pid then (cc_next ^^ k) (cc_of m pid) else cc_of m p)"
  by (auto simp: mux_ok_def advance_def cc_of_def)

lemma advance_add: "mux_ok m \<Longrightarrow> advance pid k (advance pid j m) = advance pid (k + j) m"
  using cc_of_advance [of m pid j pid] by (simp add: advance_def funpow_add)

definition carries :: "u16 \<Rightarrow> u8 \<Rightarrow> bytes \<Rightarrow> bool list \<Rightarrow> bytes list \<Rightarrow> bool" where
  "carries pid cc data starts pkts \<longleftrightarrow>
     (\<forall>p \<in> set pkts. ts_sync p \<and> ts_pid p = pid) \<and> map ts_counter pkts = counters cc (length pkts)
     \<and> concat (map ts_payload pkts) = data \<and> map ts_start pkts = starts"

lemma carries_Nil [simp]: "carries pid cc data starts [] \<longleftrightarrow> data = [] \<and> starts = []"
  by (auto simp: carries_def)

text \<open>One turn of the loop, with the buffer aligned on a packet boundary, writes exactly one
  well-formed packet and keeps the buffer aligned.\<close>

lemma packetize_step:
  assumes pid: "pid < 0x2000" and m: "mux_ok m" and out: "length out mod 188 = 0"
    and more: "offset < length data"
  shows "\<exists>p n. 0 < n \<and> offset + n \<le> length data \<and>
    packetize_from pid data pcr ra offset out m =
      packetize_from pid data pcr ra (offset + n) (out @ p) (advance pid 1 m) \<and>
    ts_sync p \<and> ts_pid p = pid \<and> ts_start p = (offset = 0) \<and> ts_counter p = cc_of m pid \<and>
    ts_payload p = take n (drop offset data)"
proof -
  define remaining where "remaining = length data - offset"
  define a where "a = adaptation_stuff remaining (adaptation_start (offset = 0) pcr ra)"
  define h where "h = ts_header (offset = 0) pid (cc_of m pid) a"
  define n where "n = 184 - adaptation_used a"
  define chunk where "chunk = take n (drop offset data)"
  have rem: "0 < remaining" using more by (simp add: remaining_def)
  have used: "adaptation_used a \<le> 183" "n \<le> remaining"
    using adaptation_stuff_used [OF adaptation_start_used rem, of "offset = 0" pcr ra]
      adaptation_start_used [of "offset = 0" pcr ra] rem by (simp_all add: a_def n_def)
  have lc: "length chunk = n" using used by (simp add: chunk_def remaining_def)
  note f = packet_fields [OF pid mux_ok_cc [OF m, of pid], of a "offset = 0" chunk, folded h_def]
  have lh: "length h = 4 + adaptation_used a" using f(6) used(1) by simp
  obtain k where k: "length out = 188 * k" using out by (metis mod_0_imp_dvd dvdE)
  have room: "PACKET - length (out @ h) mod PACKET = n"
    using used(1) by (simp add: k lh n_def PACKET_def)
  have nc: "next_cc pid m = (cc_of m pid, advance pid 1 m)" by (rule next_cc_advance [OF m])
  have "packetize_from pid data pcr ra offset out m =
      packetize_from pid data pcr ra (offset + n) (out @ h @ chunk) (advance pid 1 m)"
    using more used(2)
    by (simp only: packetize_from.simps [of pid data pcr ra offset] Let_def nc prod.case
        remaining_def [symmetric] a_def [symmetric] h_def [symmetric] room chunk_def
        if_True min_absorb1 append_assoc)
  moreover have "ts_sync (h @ chunk)" using f(5,6) used(1) lc by (simp add: ts_sync_def n_def)
  ultimately show ?thesis
    using f(1-4) used rem more
    by (intro exI [of _ "h @ chunk"] exI [of _ n]) (auto simp: chunk_def n_def remaining_def)
qed

lemma packetize_from_packets:
  assumes "pid < 0x2000" "mux_ok m" "length out mod 188 = 0"
  shows "\<exists>pkts. packetize_from pid data pcr ra offset out m =
      (out @ concat pkts, advance pid (length pkts) m) \<and>
    carries pid (cc_of m pid) (drop offset data)
      (if offset < length data then (offset = 0) # replicate (length pkts - 1) False else []) pkts"
  using assms(2,3)
proof (induction "length data - offset" arbitrary: offset out m rule: less_induct)
  case less
  show ?case
  proof (cases "offset < length data")
    case False
    then show ?thesis by (intro exI [of _ "[]"]) (simp add: packetize_from.simps)
  next
    case True
    from packetize_step [OF assms(1) less(2,3) True, of pcr ra] obtain p n where
      n: "0 < n" "offset + n \<le> length data" and
      step: "packetize_from pid data pcr ra offset out m =
        packetize_from pid data pcr ra (offset + n) (out @ p) (advance pid 1 m)" and
      f: "ts_sync p" "ts_pid p = pid" "ts_start p = (offset = 0)" "ts_counter p = cc_of m pid"
        "ts_payload p = take n (drop offset data)" by blast
    have "length (out @ p) mod 188 = 0" using less(3) f(1) by (simp add: ts_sync_def)
    moreover have "length data - (offset + n) < length data - offset" using n True by simp
    ultimately have "\<exists>pkts. packetize_from pid data pcr ra (offset + n) (out @ p) (advance pid 1 m) =
        ((out @ p) @ concat pkts, advance pid (length pkts) (advance pid 1 m)) \<and>
      carries pid (cc_of (advance pid 1 m) pid) (drop (offset + n) data)
        (if offset + n < length data
         then (offset + n = 0) # replicate (length pkts - 1) False else []) pkts"
      by (rule less(1) [of "offset + n" "advance pid 1 m" "out @ p", OF _ mux_ok_advance [OF less(2)], rotated])
    then obtain pkts where
      run: "packetize_from pid data pcr ra (offset + n) (out @ p) (advance pid 1 m) =
        ((out @ p) @ concat pkts, advance pid (length pkts) (advance pid 1 m))" and
      c: "carries pid (cc_of (advance pid 1 m) pid) (drop (offset + n) data)
        (if offset + n < length data
         then (offset + n = 0) # replicate (length pkts - 1) False else []) pkts"
      by blast
    have s: "map ts_start pkts = replicate (length pkts) False"
      using c n(1) by (cases pkts) (auto simp: carries_def split: if_splits)
    have "take n (drop offset data) @ drop (offset + n) data = drop offset data"
      by (simp add: add.commute flip: drop_drop)
    then have "carries pid (cc_of m pid) (drop offset data)
        ((offset = 0) # replicate (length pkts) False) (p # pkts)"
      using c f s by (simp add: carries_def cc_of_advance [OF less(2)])
    then show ?thesis
      using True step run advance_add [OF less(2), of pid "length pkts" 1]
      by (intro exI [of _ "p # pkts"]) simp
  qed
qed

definition ts_pids :: "u16 set" where
  "ts_pids = {0, PMT_PID, VIDEO_PID, AUDIO_PID}"

lemma cc_slot_inj: "p \<in> ts_pids \<Longrightarrow> q \<in> ts_pids \<Longrightarrow> cc_slot p = cc_slot q \<Longrightarrow> p = q"
  by (auto simp: ts_pids_def cc_slot_def pid_defs)

lemma ts_pids_less: "p \<in> ts_pids \<Longrightarrow> p < 0x2000"
  by (auto simp: ts_pids_def pid_defs)

lemma packetize_packets:
  assumes "pid \<in> ts_pids" "mux_ok m" "length out mod 188 = 0" "data \<noteq> []"
  obtains pkts where "packetize pid data pcr ra out m = (out @ concat pkts, advance pid (length pkts) m)"
    and "carries pid (cc_of m pid) data (True # replicate (length pkts - 1) False) pkts"
  using packetize_from_packets [OF ts_pids_less [OF assms(1)] assms(2,3), of data pcr ra 0] assms(4)
  by (auto simp: packetize_def)

text \<open>A packet of a table: aligned, started, and carrying the section behind a pointer byte.\<close>

lemma psi_packet:
  assumes "pid \<in> ts_pids" "mux_ok m" "length sec < 183"
  obtains p where "psi pid sec m = (p, advance pid 1 m)" "ts_sync p" "ts_pid p = pid"
    "ts_start p" "ts_counter p = cc_of m pid" "ts_payload p = 0 # sec @ replicate (183 - length sec) 0xff"
proof -
  note f = packet_fields [OF ts_pids_less [OF assms(1)] mux_ok_cc [OF assms(2), of pid],
      of None True "0 # sec @ replicate (183 - length sec) 0xff"]
  have "psi pid sec m =
    (ts_header True pid (cc_of m pid) None @ 0 # sec @ replicate (183 - length sec) 0xff, advance pid 1 m)"
    using assms(3) by (simp add: psi_def next_cc_advance [OF assms(2)] ts_header_def resize_def
        PACKET_def)
  then show ?thesis
    using f assms(3) by (intro that) (auto simp: adaptation_used_def ts_sync_def)
qed

definition counted :: "u16 \<Rightarrow> bytes list \<Rightarrow> u8 \<Rightarrow> u8 \<Rightarrow> bool" where
  "counted pid pkts c c' \<longleftrightarrow> (let ps = filter (\<lambda>p. ts_pid p = pid) pkts in
     map ts_counter ps = counters c (length ps) \<and> c' = (cc_next ^^ length ps) c)"

definition muxed :: "ts_muxer \<Rightarrow> bytes \<Rightarrow> ts_muxer \<Rightarrow> bool" where
  "muxed m out m' \<longleftrightarrow> (\<exists>pkts. out = concat pkts \<and>
     (\<forall>p \<in> set pkts. ts_sync p \<and> ts_pid p \<in> ts_pids) \<and>
     (\<forall>pid \<in> ts_pids. counted pid pkts (cc_of m pid) (cc_of m' pid)))"

lemma counters_append: "counters c (a + b) = counters c a @ counters ((cc_next ^^ a) c) b"
  by (induction a arbitrary: c) (simp_all add: funpow_swap1)

lemma counted_Nil [simp]: "counted pid [] c c' \<longleftrightarrow> c' = c"
  by (simp add: counted_def)

lemma cc_next_add: "(cc_next ^^ (a + b)) c = (cc_next ^^ b) ((cc_next ^^ a) c)"
  by (simp add: add.commute [of a] funpow_add)

lemma counted_append:
  "counted pid ps c c' \<Longrightarrow> counted pid qs c' c'' \<Longrightarrow> counted pid (ps @ qs) c c''"
  by (simp add: counted_def Let_def counters_append cc_next_add)

lemma muxed_refl: "muxed m [] m"
  unfolding muxed_def by (intro exI [of _ "[]"]) simp

lemma muxed_append:
  assumes "muxed m a m'" "muxed m' b m''"
  shows "muxed m (a @ b) m''"
proof -
  from assms(1) obtain ps where ps: "a = concat ps" "\<forall>p \<in> set ps. ts_sync p \<and> ts_pid p \<in> ts_pids"
    "\<forall>pid \<in> ts_pids. counted pid ps (cc_of m pid) (cc_of m' pid)" unfolding muxed_def by blast
  from assms(2) obtain qs where qs: "b = concat qs" "\<forall>p \<in> set qs. ts_sync p \<and> ts_pid p \<in> ts_pids"
    "\<forall>pid \<in> ts_pids. counted pid qs (cc_of m' pid) (cc_of m'' pid)" unfolding muxed_def by blast
  have "\<forall>pid \<in> ts_pids. counted pid (ps @ qs) (cc_of m pid) (cc_of m'' pid)"
    using ps(3) qs(3) counted_append by blast
  then show ?thesis unfolding muxed_def
    using ps(1,2) qs(1,2) by (intro exI [of _ "ps @ qs"]) (simp add: ball_Un)
qed

lemma muxed_advance:
  assumes "mux_ok m" "pid \<in> ts_pids" "\<forall>p \<in> set pkts. ts_sync p \<and> ts_pid p = pid"
    "map ts_counter pkts = counters (cc_of m pid) (length pkts)"
  shows "muxed m (concat pkts) (advance pid (length pkts) m)"
proof -
  have f: "filter (\<lambda>p. ts_pid p = q) pkts = (if q = pid then pkts else [])" for q
    using assms(3) by (auto simp: filter_id_conv filter_empty_conv)
  have "counted q pkts (cc_of m q) (cc_of (advance pid (length pkts) m) q)" if "q \<in> ts_pids" for q
    using cc_slot_inj [OF that assms(2)] assms(1,4)
    by (cases "q = pid") (auto simp: counted_def f cc_of_advance)
  then show ?thesis
    using assms(2,3) unfolding muxed_def by (intro exI [of _ pkts]) simp
qed

section \<open>The operations\<close>

lemma mux_ok_due [simp]: "mux_ok (m\<lparr>tables_due := b\<rparr>) = mux_ok m"
  by (simp add: mux_ok_def)

lemma cc_of_due [simp]: "cc_of (m\<lparr>tables_due := b\<rparr>) pid = cc_of m pid"
  by (simp add: cc_of_def)

lemma muxed_same_counters: "continuity m' = continuity m \<Longrightarrow> muxed m [] m'"
  unfolding muxed_def cc_of_def by (intro exI [of _ "[]"]) simp

lemma length_section_of: "length (section_of t i v body) = 12 + length body"
  by (simp add: section_of_def Let_def)

lemma length_pat: "length pat_section = 16"
  by (simp add: pat_section_def length_section_of)

lemma length_pmt: "length (pmt_section m) \<le> 26"
  by (simp add: pmt_section_def length_section_of Let_def)

text \<open>The tables are two packets, one per table, each carrying its section.\<close>

lemma tables_packets:
  assumes "mux_ok m" "tables_due m \<or> keyframe"
  obtains p q where "tables keyframe m =
      (p @ q, advance PMT_PID 1 (advance 0 1 (m\<lparr>tables_due := False\<rparr>)))"
    "carries 0 (cc_of m 0) (0 # pat_section @ replicate 167 0xff) [True] [p]"
    "carries PMT_PID (cc_of m PMT_PID)
       (0 # pmt_section m @ replicate (183 - length (pmt_section m)) 0xff) [True] [q]"
proof -
  let ?m0 = "m\<lparr>tables_due := False\<rparr>"
  have "mux_ok ?m0" using assms by simp
  then obtain p where p: "psi 0 pat_section ?m0 = (p, advance 0 1 ?m0)" "ts_sync p" "ts_pid p = 0"
      "ts_start p" "ts_counter p = cc_of ?m0 0" "ts_payload p = 0 # pat_section @ replicate 167 0xff"
    by (rule psi_packet [of 0 ?m0 pat_section, rotated]) (auto simp: length_pat ts_pids_def)
  have pm: "pmt_section ?m0 = pmt_section m" by (simp add: pmt_section_def)
  have "mux_ok (advance 0 1 ?m0)" using \<open>mux_ok ?m0\<close> by (rule mux_ok_advance)
  then obtain q where q: "psi PMT_PID (pmt_section m) (advance 0 1 ?m0) =
        (q, advance PMT_PID 1 (advance 0 1 ?m0))" "ts_sync q"
      "ts_pid q = PMT_PID" "ts_start q" "ts_counter q = cc_of (advance 0 1 ?m0) PMT_PID"
      "ts_payload q = 0 # pmt_section m @ replicate (183 - length (pmt_section m)) 0xff"
    using length_pmt [of m]
    by (auto simp: ts_pids_def intro: psi_packet [of PMT_PID "advance 0 1 ?m0" "pmt_section m"])
  have "cc_of (advance 0 1 ?m0) PMT_PID = cc_of m PMT_PID"
    using cc_of_advance [OF \<open>mux_ok ?m0\<close>, of 0 1 PMT_PID] by (simp add: cc_slot_def pid_defs)
  then show ?thesis
    using assms(2) p q
    by (intro that [of p q]) (auto simp: tables_def Let_def pm carries_def)
qed

lemma carries_muxed:
  "carries pid (cc_of m pid) data starts pkts \<Longrightarrow> mux_ok m \<Longrightarrow> pid \<in> ts_pids \<Longrightarrow>
   muxed m (concat pkts) (advance pid (length pkts) m)"
  by (simp add: carries_def muxed_advance)

lemma mux_codec_advance [simp]: "mux_codec (advance pid k m) = mux_codec m"
  by (simp add: advance_def)

lemma tables_muxed:
  assumes "mux_ok m" "tables keyframe m = (out, m')"
  shows "mux_ok m'" "muxed m out m'" "length out mod 188 = 0"
    "mux_codec m' = mux_codec m"
proof -
  have "mux_ok m' \<and> muxed m out m' \<and> length out mod 188 = 0 \<and> mux_codec m' = mux_codec m"
  proof (cases "tables_due m \<or> keyframe")
    case False
    then show ?thesis using assms by (auto simp: tables_def muxed_refl)
  next
    case True
    let ?m0 = "m\<lparr>tables_due := False\<rparr>"
    from tables_packets [OF assms(1) True] obtain p q where
      t: "tables keyframe m = (p @ q, advance PMT_PID 1 (advance 0 1 ?m0))" and
      p: "carries 0 (cc_of m 0) (0 # pat_section @ replicate 167 0xff) [True] [p]" and
      q: "carries PMT_PID (cc_of m PMT_PID)
        (0 # pmt_section m @ replicate (183 - length (pmt_section m)) 0xff) [True] [q]" .
    have ok: "mux_ok ?m0" using assms(1) by simp
    have "cc_of (advance 0 1 ?m0) PMT_PID = cc_of m PMT_PID"
      using cc_of_advance [OF ok, of 0 1 PMT_PID] by (simp add: cc_slot_def pid_defs)
    then have "muxed (advance 0 1 ?m0) q (advance PMT_PID 1 (advance 0 1 ?m0))"
      using carries_muxed [of PMT_PID "advance 0 1 ?m0" _ _ "[q]"] q mux_ok_advance [OF ok]
      by (auto simp: ts_pids_def)
    moreover have "muxed m p (advance 0 1 ?m0)"
      using carries_muxed [of 0 ?m0 _ _ "[p]"] p ok muxed_same_counters [of ?m0 m]
        muxed_append [of m "[]" ?m0 p "advance 0 1 ?m0"] by (auto simp: ts_pids_def)
    ultimately have "muxed m (p @ q) (advance PMT_PID 1 (advance 0 1 ?m0))"
      by (rule muxed_append [rotated])
    then show ?thesis
      using t p q assms mux_ok_advance [OF mux_ok_advance [OF ok]]
      by (auto simp: carries_def ts_sync_def)
  qed
  then show "mux_ok m'" "muxed m out m'" "length out mod 188 = 0" "mux_codec m' = mux_codec m"
    by blast+
qed

lemma pes_nonempty [simp]: "pes sid pts payload bd \<noteq> []"
  using length_pes [of sid pts payload bd] by (metis add_is_0 list.size(3) zero_neq_numeral)

lemma packetize_muxed:
  assumes "pid \<in> ts_pids" "mux_ok m" "length out mod 188 = 0" "muxed m0 out m" "data \<noteq> []"
    "packetize pid data pcr ra out m = (out', m')"
  shows "mux_ok m'" "muxed m0 out' m'"
proof -
  from packetize_packets [OF assms(1,2,3,5), of pcr ra] obtain pkts where
    "packetize pid data pcr ra out m = (out @ concat pkts, advance pid (length pkts) m)"
    "carries pid (cc_of m pid) data (True # replicate (length pkts - 1) False) pkts" .
  then show "mux_ok m'" "muxed m0 out' m'"
    using assms mux_ok_advance [OF assms(2)] carries_muxed [OF _ assms(2,1)] muxed_append by auto
qed

lemma mux_video_muxed:
  assumes "mux_ok m" "mux_video pts keyframe au m = (out, m')"
  shows "mux_ok m'" "muxed m out m'"
proof -
  obtain o1 m1 where t: "tables keyframe m = (o1, m1)" by fastforce
  note tm = tables_muxed [OF assms(1) t]
  have "packetize VIDEO_PID (pes 0xe0 pts (delimited (mux_codec m1) au) False)
      (Some ((pts - PCR_LEAD) AND PTS_MASK)) keyframe o1 m1 = (out, m')"
    using assms(2) t by (simp add: mux_video_def)
  from packetize_muxed [OF _ tm(1,3,2) _ this] show "mux_ok m'" "muxed m out m'"
    by (simp_all add: ts_pids_def)
qed

lemma mux_audio_muxed:
  assumes "mux_ok m" "mux_audio_frames pts adts m = (out, m')"
  shows "mux_ok m'" "muxed m out m'"
proof -
  obtain o1 m1 where t: "tables False m = (o1, m1)" by fastforce
  note tm = tables_muxed [OF assms(1) t]
  have "packetize AUDIO_PID (pes 0xc0 pts adts True) None False o1 m1 = (out, m')"
    using assms(2) t by (simp add: mux_audio_frames_def)
  from packetize_muxed [OF _ tm(1,3,2) _ this] show "mux_ok m'" "muxed m out m'"
    by (simp_all add: ts_pids_def)
qed

datatype mux_op = EnableAudio | Video u64 bool bytes | Audio u64 bytes

fun mux_step :: "mux_op \<Rightarrow> ts_muxer \<Rightarrow> bytes \<times> ts_muxer" where
  "mux_step EnableAudio m = ([], enable_audio m)"
| "mux_step (Video pts k au) m = mux_video pts k au m"
| "mux_step (Audio pts adts) m = mux_audio_frames pts adts m"

lemma mux_step_muxed:
  assumes "mux_ok m" "mux_step i m = (out, m')"
  shows "mux_ok m' \<and> muxed m out m'"
proof (cases i)
  case EnableAudio
  then have "out = []" "continuity m' = continuity m" using assms(2) by (auto simp: enable_audio_def)
  then show ?thesis using assms(1) muxed_same_counters by (simp add: mux_ok_def)
next
  case (Video pts k au)
  then show ?thesis using assms mux_video_muxed by simp
next
  case (Audio pts adts)
  then show ?thesis using assms mux_audio_muxed by simp
qed

interpretation muxer: emitter mux_step mux_ok muxed
  by unfold_locales (blast dest: mux_step_muxed intro: muxed_refl muxed_append)+

section \<open>Properties\<close>

lemma muxed_packets:
  assumes "muxed m out m'"
  shows "\<forall>p \<in> set (ts_packets out). ts_sync p \<and> ts_pid p \<in> ts_pids"
    and "pid \<in> ts_pids \<Longrightarrow> counted pid (ts_packets out) (cc_of m pid) (cc_of m' pid)"
    and "length out mod 188 = 0"
proof -
  from assms obtain pkts where p: "out = concat pkts"
    "\<forall>p \<in> set pkts. ts_sync p \<and> ts_pid p \<in> ts_pids"
    "\<forall>pid \<in> ts_pids. counted pid pkts (cc_of m pid) (cc_of m' pid)" unfolding muxed_def by blast
  have "ts_packets out = pkts"
    unfolding ts_packets_def p(1) by (rule chunks_of_concat) (use p(2) ts_sync_def in auto)
  then show "\<forall>p \<in> set (ts_packets out). ts_sync p \<and> ts_pid p \<in> ts_pids"
    and "pid \<in> ts_pids \<Longrightarrow> counted pid (ts_packets out) (cc_of m pid) (cc_of m' pid)"
    using p by simp_all
  show "length out mod 188 = 0"
    using p(2) unfolding p(1)
    by (induction pkts) (auto simp: ts_sync_def mod_add_eq [symmetric, of _ "188"])
qed

lemma cc_next_unat: "unat (cc_next c) = (unat c + 1) mod 16"
proof -
  have "unat (cc_next c) = unat (c + 1) mod 16"
    unfolding cc_next_def cc_mask take_bit_eq_mask [symmetric] unsigned_take_bit_eq
    by (simp add: take_bit_eq_mod)
  also have "unat (c + 1) = (unat c + 1) mod 256" by (simp add: unat_word_ariths)
  finally show ?thesis by (simp add: mod_mod_cancel)
qed

lemma cc_pow_unat: "unat ((cc_next ^^ i) 0) = i mod 16"
  by (induction i) (simp_all add: cc_next_unat mod_Suc_eq)

lemma counters_0: "map unat (counters 0 n) = map (\<lambda>i. i mod 16) [0..<n]"
  by (simp add: counters_def cc_pow_unat)

lemma cc_of_new: "pid \<in> ts_pids \<Longrightarrow> cc_of (ts_muxer_new c) pid = 0"
  by (auto simp: cc_of_def ts_muxer_new_def cc_slot_def ts_pids_def pid_defs)

lemma mux_ok_new: "mux_ok (ts_muxer_new c)"
  by (simp add: mux_ok_def ts_muxer_new_def)

text \<open>A well-framed transport stream of this program: whole packets, each with the sync byte and
  one of the four identifiers, and on each identifier the counter running 0, 1, ..., 15, 0, ...\<close>

definition ts_framed :: "bytes \<Rightarrow> bool" where
  "ts_framed out \<longleftrightarrow> length out mod 188 = 0 \<and>
     (\<forall>p \<in> set (ts_packets out). ts_sync p \<and> ts_pid p \<in> {0x0000, 0x1000, 0x0100, 0x0101}) \<and>
     (\<forall>pid \<in> {0x0000, 0x1000, 0x0100, 0x0101}.
        let ps = filter (\<lambda>p. ts_pid p = pid) (ts_packets out)
        in map (unat \<circ> ts_counter) ps = map (\<lambda>i. i mod 16) [0..<length ps])"

lemma ts_pids_values: "ts_pids = {0x0000, 0x1000, 0x0100, 0x0101}"
  by (simp add: ts_pids_def pid_defs)

lemma muxed_framed:
  assumes m: "muxed (ts_muxer_new c) out m'"
  shows "ts_framed out"
proof -
  have "map (unat \<circ> ts_counter) (filter (\<lambda>p. ts_pid p = pid) (ts_packets out)) =
      map (\<lambda>i. i mod 16) [0..<length (filter (\<lambda>p. ts_pid p = pid) (ts_packets out))]"
    if "pid \<in> ts_pids" for pid
    using muxed_packets(2) [OF m that] counters_0 cc_of_new [OF that]
    by (simp add: counted_def Let_def flip: map_map)
  then show ?thesis
    using muxed_packets(1,3) [OF m] unfolding ts_framed_def ts_pids_values [symmetric] Let_def by blast
qed

text \<open>C3. Whatever sequence of video access units, audio frames and audio announcements the muxer
  is given, the concatenation of its outputs is a well-framed transport stream: a whole number of
  188-byte packets, every one starting with the sync byte and carrying one of the four packet
  identifiers, and on each of those identifiers the continuity counter runs 0, 1, ..., 15, 0, ...
  without gap or repetition across all calls.\<close>
theorem continuity_counters:
  "ts_framed (fst (run_ops mux_step ops (ts_muxer_new c)))"
  by (cases "run_ops mux_step ops (ts_muxer_new c)")
    (auto dest: muxer.run_emits [OF mux_ok_new] intro: muxed_framed)

lemma demux_packets:
  "\<forall>p \<in> set pkts. ts_sync p \<Longrightarrow>
   demux pid (concat pkts) = concat (map ts_payload (filter (\<lambda>p. ts_pid p = pid) pkts))"
  unfolding demux_def ts_packets_def
  by (subst chunks_of_concat) (auto simp: ts_sync_def)

lemma packetize_demux:
  assumes "pid \<in> ts_pids" "mux_ok m" "data \<noteq> []" "out = concat ps" "\<forall>p \<in> set ps. ts_sync p \<and> ts_pid p \<noteq> pid"
  shows "demux pid (fst (packetize pid data pcr ra out m)) = data"
proof -
  have "length out mod 188 = 0"
    unfolding assms(4) using assms(5) by (induction ps) (auto simp: ts_sync_def mod_add_eq [symmetric, of _ "188"])
  from packetize_packets [OF assms(1,2) this assms(3), of pcr ra] obtain pkts where
    p: "packetize pid data pcr ra out m = (out @ concat pkts, advance pid (length pkts) m)"
    "carries pid (cc_of m pid) data (True # replicate (length pkts - 1) False) pkts" .
  have f: "filter (\<lambda>p. ts_pid p = pid) ps = []" "filter (\<lambda>p. ts_pid p = pid) pkts = pkts"
    using assms(5) p(2) by (auto simp: carries_def filter_empty_conv filter_id_conv)
  have "demux pid (concat (ps @ pkts)) = data"
    using assms(5) p(2) by (subst demux_packets) (auto simp: carries_def f)
  then show ?thesis using p(1) assms(4) by simp
qed

text \<open>The packets of the tables are on their own identifiers.\<close>

lemma tables_apart:
  assumes "mux_ok m" "tables keyframe m = (out, m')" "pid = VIDEO_PID \<or> pid = AUDIO_PID"
  obtains ps where "out = concat ps" "\<forall>p \<in> set ps. ts_sync p \<and> ts_pid p \<noteq> pid"
proof (cases "tables_due m \<or> keyframe")
  case False
  then show ?thesis using assms(2) that [of "[]"] by (simp add: tables_def)
next
  case True
  from tables_packets [OF assms(1) True] obtain p q where
    "tables keyframe m = (p @ q, advance PMT_PID 1 (advance 0 1 (m\<lparr>tables_due := False\<rparr>)))"
    "carries 0 (cc_of m 0) (0 # pat_section @ replicate 167 0xff) [True] [p]"
    "carries PMT_PID (cc_of m PMT_PID)
       (0 # pmt_section m @ replicate (183 - length (pmt_section m)) 0xff) [True] [q]" .
  then show ?thesis
    using assms(2,3) by (intro that [of "[p, q]"]) (auto simp: carries_def pid_defs)
qed

lemma mux_demux:
  assumes "mux_ok m"
  shows "read_pes (demux VIDEO_PID (fst (mux_video pts keyframe au m))) =
      Some (0xe0, pts AND PTS_MASK, delimited (mux_codec m) au)"
    and "read_pes (demux AUDIO_PID (fst (mux_audio_frames pts adts m))) =
      Some (0xc0, pts AND PTS_MASK, adts)"
proof -
  obtain o1 m1 where t: "tables keyframe m = (o1, m1)" by fastforce
  from tables_apart [OF assms t, of VIDEO_PID] obtain ps where
    ps: "o1 = concat ps" "\<forall>p \<in> set ps. ts_sync p \<and> ts_pid p \<noteq> VIDEO_PID" by blast
  have "demux VIDEO_PID (fst (mux_video pts keyframe au m)) = pes 0xe0 pts (delimited (mux_codec m1) au) False"
    using packetize_demux [OF _ tables_muxed(1) [OF assms t] pes_nonempty ps]
    by (simp add: mux_video_def t ts_pids_def)
  then show "read_pes (demux VIDEO_PID (fst (mux_video pts keyframe au m))) =
      Some (0xe0, pts AND PTS_MASK, delimited (mux_codec m) au)"
    using tables_muxed(4) [OF assms t] by (simp add: pes_roundtrip)
next
  obtain o1 m1 where t: "tables False m = (o1, m1)" by fastforce
  from tables_apart [OF assms t, of AUDIO_PID] obtain ps where
    ps: "o1 = concat ps" "\<forall>p \<in> set ps. ts_sync p \<and> ts_pid p \<noteq> AUDIO_PID" by blast
  have "demux AUDIO_PID (fst (mux_audio_frames pts adts m)) = pes 0xc0 pts adts True"
    using packetize_demux [OF _ tables_muxed(1) [OF assms t] pes_nonempty ps]
    by (simp add: mux_audio_frames_def t ts_pids_def)
  then show "read_pes (demux AUDIO_PID (fst (mux_audio_frames pts adts m))) =
      Some (0xc0, pts AND PTS_MASK, adts)"
    by (simp add: pes_roundtrip)
qed

text \<open>C2. Muxing loses nothing: from any well-formed state, demultiplexing the video identifier of
  what \<open>TsMuxer::video\<close> returns gives back one PES packet whose stream id, 33-bit timestamp and
  payload are exactly those written (the payload is the access unit behind its delimiter); the same
  holds for \<open>TsMuxer::audio\<close> on the audio identifier.\<close>
theorem mux_demux_roundtrip:
  assumes "mux_ok m"
  shows "read_pes (demux VIDEO_PID (fst (mux_video pts keyframe au m))) =
      Some (0xe0, pts AND PTS_MASK, delimited (mux_codec m) au) \<and>
    read_pes (demux AUDIO_PID (fst (mux_audio_frames pts adts m))) =
      Some (0xc0, pts AND PTS_MASK, adts)"
  using mux_demux [OF assms] by blast

theorem mux_demux_roundtrip_witness:
  "mux_ok (ts_muxer_new Hevc) \<and>
   read_pes (demux VIDEO_PID (fst (mux_video 90000 True [0, 0, 0, 1, 0x26, 1, 7] (ts_muxer_new Hevc)))) =
     Some (0xe0, 90000, [0, 0, 0, 1, 0x46, 1, 0x50, 0, 0, 0, 1, 0x26, 1, 7])"
  using mux_demux_roundtrip [OF mux_ok_new [of Hevc], of 90000 True "[0, 0, 0, 1, 0x26, 1, 7]"]
    mux_ok_new [of Hevc]
  by (simp add: ts_muxer_new_def delimited_def delimiter_def PTS_MASK_def get_at_def)

text \<open>Every section the muxer writes checks: the CRC-32/MPEG-2 a receiver computes over a whole
  section, its own CRC included, is zero, whatever the table, the version and the streams.\<close>
theorem sections_check:
  "crc32_mpeg2 pat_section = 0 \<and> crc32_mpeg2 (pmt_section m) = 0"
  by (simp add: pat_section_def pmt_section_def Let_def crc_section)

end
