(* ===== verification/Video_Cipher.thy ===== *)
theory Video_Cipher
  imports Ts_Mux Bridge_Error
begin

text \<open>
  The NAL decryptor (\<open>transport/video_cipher.rs\<close>, \<open>transport/video_cipher_pending.rs\<close>): how a
  camera's stream is classified as clear or encrypted, what is decrypted, and the queue that holds
  NAL units while it is undecided whether inter slices are encrypted. AES-128 comes from a
  third-party crate, so its block decryption is an argument \<open>dec key block\<close>.
\<close>

type_synonym block_cipher = "bytes \<Rightarrow> bytes \<Rightarrow> bytes"
type_synonym chunks = "(u32 \<times> bytes) list"

definition START_CODE :: bytes where "START_CODE = [0x00, 0x00, 0x00, 0x01]"
definition ENCRYPTED_PREFIX_BYTES :: nat where "ENCRYPTED_PREFIX_BYTES = 4096"
definition MAX_PENDING_NAL_BYTES :: nat where "MAX_PENDING_NAL_BYTES = 4 * 1024 * 1024"
definition INTER_SAMPLES :: nat where "INTER_SAMPLES = 8"

datatype encryption_mode = ModeUnknown | ModeClear | ModeEncrypted (mode_clear: nat) (mode_drop: nat)

datatype pending_nal = PnReady u32 bytes | PnInter u32 bytes nat

record nal_decryptor =
  nd_codec :: video_codec
  nd_key :: bytes
  nd_mode :: encryption_mode
  inter_encrypted :: "bool option"
  inter_clear :: bytes
  inter_decrypted :: bytes
  nd_pending :: "pending_nal list option"
  pending_bytes :: nat
  nd_stamp :: u32

definition nal_decryptor_new :: "video_codec \<Rightarrow> bytes option \<Rightarrow> nal_decryptor" where
  "nal_decryptor_new c key = \<lparr>nd_codec = c,
     nd_key = (case key of Some k \<Rightarrow> k | None \<Rightarrow> replicate 16 0),
     nd_mode = (if key = None then ModeClear else ModeUnknown),
     inter_encrypted = None, inter_clear = [], inter_decrypted = [],
     nd_pending = (if key = None then None else Some []), pending_bytes = 0, nd_stamp = 0\<rparr>"

definition annex_b :: "bytes \<Rightarrow> bytes" where
  "annex_b nal = START_CODE @ nal"

definition body_marker :: "video_codec \<Rightarrow> u8 \<Rightarrow> bool" where
  "body_marker c b = (case c of
     H264 \<Rightarrow> b \<in> {44, 66, 77, 83, 86, 88, 100, 110, 118, 122, 128, 244}
   | Hevc \<Rightarrow> b = 0x0c)"

definition is_param_set :: "video_codec \<Rightarrow> u8 \<Rightarrow> bool" where
  "is_param_set c first = (case c of
     H264 \<Rightarrow> first AND 0x1f = 7
   | Hevc \<Rightarrow> drop_bit 1 first AND 0x3f = 32)"

definition encrypted_nal_type :: "video_codec \<Rightarrow> u8 \<Rightarrow> bool" where
  "encrypted_nal_type c first = (case c of
     H264 \<Rightarrow> first AND 0x1f \<in> {5, 7, 8}
   | Hevc \<Rightarrow> (let t = drop_bit 1 first AND 0x3f in (16 \<le> t \<and> t \<le> 21) \<or> (32 \<le> t \<and> t \<le> 34)))"

definition decrypt_prefix :: "block_cipher \<Rightarrow> bytes \<Rightarrow> bytes \<Rightarrow> bytes" where
  "decrypt_prefix dec key v =
     (let n = min (length v) ENCRYPTED_PREFIX_BYTES div 16 * 16
      in concat (map (dec key) (chunks_of 16 (take n v))) @ drop n v)"

definition decrypt_first :: "block_cipher \<Rightarrow> bytes \<Rightarrow> bytes \<Rightarrow> bytes" where
  "decrypt_first dec key v = dec key (take 16 v)"

section \<open>Holding inter slices\<close>

definition unique_count :: "bytes \<Rightarrow> nat" where
  "unique_count vs = length (filter id
     (foldl (\<lambda>seen b. seen[unat b := True]) (replicate 256 False) vs))"

definition inter_bytes :: "block_cipher \<Rightarrow> bytes \<Rightarrow> nat \<Rightarrow> nal_decryptor \<Rightarrow> bytes" where
  "inter_bytes dec nal header d =
     (if inter_encrypted d = Some True
      then annex_b (take header nal @ decrypt_prefix dec (nd_key d) (drop header nal))
      else annex_b nal)"

fun release_nal :: "block_cipher \<Rightarrow> nal_decryptor \<Rightarrow> pending_nal \<Rightarrow> u32 \<times> bytes" where
  "release_nal dec d (PnReady stamp data) = (stamp, data)"
| "release_nal dec d (PnInter stamp nal header) = (stamp, inter_bytes dec nal header d)"

definition flush_pending :: "block_cipher \<Rightarrow> nal_decryptor \<Rightarrow> chunks \<times> nal_decryptor" where
  "flush_pending dec d =
     (let held = (case nd_pending d of Some q \<Rightarrow> q | None \<Rightarrow> []);
          d' = d\<lparr>nd_pending := None, pending_bytes := 0\<rparr>
      in (map (release_nal dec d') held, d'))"

definition guard_pending :: "block_cipher \<Rightarrow> nal_decryptor \<Rightarrow> chunks \<times> nal_decryptor" where
  "guard_pending dec d =
     (if pending_bytes d \<le> MAX_PENDING_NAL_BYTES then ([], d)
      else flush_pending dec (d\<lparr>inter_encrypted := Some False\<rparr>))"

definition put :: "block_cipher \<Rightarrow> bytes \<Rightarrow> nal_decryptor \<Rightarrow> chunks \<times> nal_decryptor" where
  "put dec data d = (case nd_pending d of
     None \<Rightarrow> ([(nd_stamp d, data)], d)
   | Some q \<Rightarrow> guard_pending dec
       (d\<lparr>pending_bytes := sat_add (pending_bytes d) (length data),
          nd_pending := Some (q @ [PnReady (nd_stamp d) data])\<rparr>))"

definition sample_inter :: "block_cipher \<Rightarrow> bytes \<Rightarrow> nat \<Rightarrow> nal_decryptor \<Rightarrow> nal_decryptor" where
  "sample_inter dec nal header d =
     (if header + 16 \<le> length nal then
        (let d1 = d\<lparr>inter_clear := inter_clear d @ [nal ! header],
                    inter_decrypted := inter_decrypted d
                      @ [decrypt_first dec (nd_key d) (take 16 (drop header nal)) ! 0]\<rparr>
         in if INTER_SAMPLES \<le> length (inter_clear d1)
            then d1\<lparr>inter_encrypted :=
              Some (unique_count (inter_decrypted d1) * 4 + INTER_SAMPLES < unique_count (inter_clear d1) * 4)\<rparr>
            else d1)
      else d)"

definition put_inter :: "block_cipher \<Rightarrow> bytes \<Rightarrow> nat \<Rightarrow> nal_decryptor \<Rightarrow> chunks \<times> nal_decryptor" where
  "put_inter dec nal header d = (case nd_pending d of
     None \<Rightarrow> ([(nd_stamp d, inter_bytes dec nal header d)], d)
   | Some q \<Rightarrow>
       (let d1 = sample_inter dec nal header
              (d\<lparr>pending_bytes := sat_add (pending_bytes d) (length nal),
                 nd_pending := Some (q @ [PnInter (nd_stamp d) nal header])\<rparr>)
        in if inter_encrypted d1 \<noteq> None then flush_pending dec d1 else guard_pending dec d1))"

section \<open>Classification and emission\<close>

definition classify :: "block_cipher \<Rightarrow> bytes \<Rightarrow> nat \<Rightarrow> nal_decryptor \<Rightarrow> bridge_error + nal_decryptor" where
  "classify dec nal header d =
     (if nd_mode d \<noteq> ModeUnknown then Inr d
      else
        let c = nd_codec d;
            marked = (\<lambda>v. case get_at v header of Some b \<Rightarrow> body_marker c b | None \<Rightarrow> False);
            param_set = is_param_set c (nal ! 0);
            long = (header + 16 \<le> length nal);
            body = decrypt_first dec (nd_key d) (take 16 (drop header nal));
            whole = decrypt_first dec (nd_key d) (take 16 nal)
        in if param_set \<and> marked nal then Inr (d\<lparr>nd_mode := ModeClear\<rparr>)
           else if param_set \<and> long \<and> body_marker c (body ! 0)
           then Inr (d\<lparr>nd_mode := ModeEncrypted header 0\<rparr>)
           else if long \<and> is_param_set c (body ! 0) \<and> marked body
           then Inr (d\<lparr>nd_mode := ModeEncrypted 0 header\<rparr>)
           else if 16 \<le> length nal \<and> is_param_set c (whole ! 0) \<and> marked whole
           then Inr (d\<lparr>nd_mode := ModeEncrypted 0 0\<rparr>)
           else if param_set \<and> long then Inl KeyRejected
           else Inr d)"

definition emit_hint :: "block_cipher \<Rightarrow> bytes \<Rightarrow> nat \<Rightarrow> nal_decryptor \<Rightarrow> chunks \<times> nal_decryptor" where
  "emit_hint dec nal n d =
     (if n + 16 \<le> length nal \<and>
         take n (decrypt_first dec (nd_key d) (take 16 (drop n nal))) = take n nal
      then put dec (annex_b (decrypt_prefix dec (nd_key d) (drop n nal))) d
      else if n * 2 \<le> length nal \<and> take n (drop n nal) = take n nal
      then put dec (annex_b (drop n nal)) d
      else put dec (annex_b nal) d)"

definition emit_nal :: "block_cipher \<Rightarrow> bytes \<Rightarrow> nal_decryptor \<Rightarrow> bridge_error + (chunks \<times> nal_decryptor)" where
  "emit_nal dec nal d = (case nd_mode d of
     ModeUnknown \<Rightarrow> Inr ([], d)
   | ModeClear \<Rightarrow> Inr (put dec (annex_b nal) d)
   | ModeEncrypted clear n \<Rightarrow>
       if 0 < n then Inr (emit_hint dec nal n d)
       else if clear = 0 then Inr (put dec (annex_b (decrypt_prefix dec (nd_key d) nal)) d)
       else if n = 0 then
         (if length nal \<le> clear then Inr (put dec (annex_b nal) d)
          else if encrypted_nal_type (nd_codec d) (nal ! 0)
          then Inr (put dec (annex_b (take clear nal @ decrypt_prefix dec (nd_key d) (drop clear nal))) d)
          else Inr (put_inter dec nal clear d))
       else Inl (Upstream ''invalid encrypted-video mode''))"

definition nal_header :: "video_codec \<Rightarrow> nat" where
  "nal_header c = (case c of H264 \<Rightarrow> 1 | Hevc \<Rightarrow> 2)"

definition nal_feed :: "block_cipher \<Rightarrow> u32 \<Rightarrow> bytes \<Rightarrow> nal_decryptor \<Rightarrow> bridge_error + (chunks \<times> nal_decryptor)" where
  "nal_feed dec stamp nal d0 =
     (let d = d0\<lparr>nd_stamp := stamp\<rparr>; header = nal_header (nd_codec d) in
      if length nal < header then Inr ([], d)
      else try_bind (classify dec nal header d) (\<lambda>d1.
        if nd_mode d1 = ModeUnknown then Inr ([], d1)
        else
          let d2 = (if nd_pending d1 \<noteq> None \<and>
                       \<not> (case nd_mode d1 of ModeEncrypted clear n \<Rightarrow> n = 0 \<and> 0 < clear | _ \<Rightarrow> False)
                    then d1\<lparr>nd_pending := None\<rparr> else d1)
          in emit_nal dec nal d2))"

section \<open>The queue keeps order and stays bounded\<close>

fun nal_stamp :: "pending_nal \<Rightarrow> u32" where
  "nal_stamp (PnReady s _) = s"
| "nal_stamp (PnInter s _ _) = s"

fun nal_size :: "pending_nal \<Rightarrow> nat" where
  "nal_size (PnReady _ data) = length data"
| "nal_size (PnInter _ nal _) = length nal"

definition held :: "nal_decryptor \<Rightarrow> u32 list" where
  "held d = (case nd_pending d of None \<Rightarrow> [] | Some q \<Rightarrow> map nal_stamp q)"

definition held_bytes :: "nal_decryptor \<Rightarrow> nat" where
  "held_bytes d = (case nd_pending d of None \<Rightarrow> 0 | Some q \<Rightarrow> sum_list (map nal_size q))"

definition holding_mode :: "encryption_mode \<Rightarrow> bool" where
  "holding_mode m = (case m of ModeEncrypted clear n \<Rightarrow> n = 0 \<and> 0 < clear | _ \<Rightarrow> False)"

definition queue_ok :: "nal_decryptor \<Rightarrow> bool" where
  "queue_ok d \<longleftrightarrow> (held d \<noteq> [] \<longrightarrow> holding_mode (nd_mode d)) \<and>
     (nd_pending d \<noteq> None \<longrightarrow> pending_bytes d = held_bytes d) \<and> held_bytes d \<le> MAX_PENDING_NAL_BYTES"

lemma release_stamp [simp]: "fst (release_nal dec d p) = nal_stamp p"
  by (cases p) simp_all

lemma flush_pending_held:
  "flush_pending dec d = (out, d') \<Longrightarrow>
   map fst out = held d \<and> held d' = [] \<and> held_bytes d' = 0 \<and> nd_pending d' = None \<and> nd_mode d' = nd_mode d"
  by (auto simp: flush_pending_def Let_def held_def held_bytes_def split: option.splits)

lemma sat_add_small: "sat_add a b \<le> MAX_PENDING_NAL_BYTES \<Longrightarrow> sat_add a b = a + b"
  by (auto simp: sat_add_def MAX_PENDING_NAL_BYTES_def USIZE_MAX_def min_def split: if_splits)

lemma guard_pending_held:
  assumes "guard_pending dec d = (out, d')" "nd_pending d = Some q"
    "pending_bytes d = sat_add n m" "held_bytes d = n + m"
  shows "map fst out @ held d' = held d \<and> nd_mode d' = nd_mode d \<and>
    (nd_pending d' \<noteq> None \<longrightarrow> pending_bytes d' = held_bytes d') \<and> held_bytes d' \<le> MAX_PENDING_NAL_BYTES"
proof (cases "pending_bytes d \<le> MAX_PENDING_NAL_BYTES")
  case True
  then have "pending_bytes d = n + m" using sat_add_small assms(3) by simp
  then show ?thesis using True assms by (auto simp: guard_pending_def)
next
  case False
  then have "flush_pending dec (d\<lparr>inter_encrypted := Some False\<rparr>) = (out, d')"
    using assms(1) by (simp add: guard_pending_def)
  from flush_pending_held [OF this] show ?thesis by (auto simp: held_def)
qed

text \<open>Both ways of putting a NAL: the queue and the output together gain exactly its stamp.\<close>

lemma put_held:
  assumes "put dec data d = (out, d')" "nd_pending d \<noteq> None \<longrightarrow> pending_bytes d = held_bytes d"
    "held_bytes d \<le> MAX_PENDING_NAL_BYTES"
  shows "map fst out @ held d' = held d @ [nd_stamp d] \<and> nd_mode d' = nd_mode d \<and>
    (nd_pending d' \<noteq> None \<longrightarrow> pending_bytes d' = held_bytes d') \<and>
    held_bytes d' \<le> MAX_PENDING_NAL_BYTES \<and> (nd_pending d = None \<longrightarrow> nd_pending d' = None)"
proof (cases "nd_pending d")
  case None
  then show ?thesis using assms by (auto simp: put_def held_def)
next
  case (Some q)
  let ?e = "d\<lparr>pending_bytes := sat_add (pending_bytes d) (length data),
    nd_pending := Some (q @ [PnReady (nd_stamp d) data])\<rparr>"
  have "guard_pending dec ?e = (out, d')" using assms(1) Some by (simp add: put_def)
  from guard_pending_held [OF this, of _ "held_bytes d" "length data"] show ?thesis
    using assms(2) Some by (simp add: held_def held_bytes_def)
qed

lemma sample_inter_same [simp]:
  "nd_pending (sample_inter dec nal header d) = nd_pending d"
  "pending_bytes (sample_inter dec nal header d) = pending_bytes d"
  "nd_mode (sample_inter dec nal header d) = nd_mode d"
  by (simp_all add: sample_inter_def Let_def)

lemma put_inter_held:
  assumes "put_inter dec nal header d = (out, d')" "nd_pending d \<noteq> None \<longrightarrow> pending_bytes d = held_bytes d"
    "held_bytes d \<le> MAX_PENDING_NAL_BYTES"
  shows "map fst out @ held d' = held d @ [nd_stamp d] \<and> nd_mode d' = nd_mode d \<and>
    (nd_pending d' \<noteq> None \<longrightarrow> pending_bytes d' = held_bytes d') \<and> held_bytes d' \<le> MAX_PENDING_NAL_BYTES \<and>
    (nd_pending d = None \<longrightarrow> nd_pending d' = None)"
proof (cases "nd_pending d")
  case None
  then show ?thesis using assms by (auto simp: put_inter_def held_def)
next
  case (Some q)
  let ?e = "sample_inter dec nal header (d\<lparr>pending_bytes := sat_add (pending_bytes d) (length nal),
    nd_pending := Some (q @ [PnInter (nd_stamp d) nal header])\<rparr>)"
  have h: "held ?e = held d @ [nd_stamp d]" using Some by (simp add: held_def)
  show ?thesis
  proof (cases "inter_encrypted ?e = None")
    case True
    then have "guard_pending dec ?e = (out, d')" using assms(1) Some by (simp add: put_inter_def Let_def)
    from guard_pending_held [OF this, of _ "held_bytes d" "length nal"] show ?thesis
      using assms(2) Some h by (simp add: held_bytes_def)
  next
    case False
    then have "flush_pending dec ?e = (out, d')" using assms(1) Some by (auto simp: put_inter_def Let_def)
    from flush_pending_held [OF this] show ?thesis using h by auto
  qed
qed

lemma emit_nal_held:
  assumes "emit_nal dec nal d = Inr (out, d')" "nd_mode d \<noteq> ModeUnknown"
    "nd_pending d \<noteq> None \<longrightarrow> pending_bytes d = held_bytes d" "held_bytes d \<le> MAX_PENDING_NAL_BYTES"
  shows "map fst out @ held d' = held d @ [nd_stamp d] \<and> nd_mode d' = nd_mode d \<and>
    (nd_pending d' \<noteq> None \<longrightarrow> pending_bytes d' = held_bytes d') \<and>
    held_bytes d' \<le> MAX_PENDING_NAL_BYTES \<and> (nd_pending d = None \<longrightarrow> nd_pending d' = None)"
proof -
  have "(\<exists>data. put dec data d = (out, d')) \<or> (\<exists>h. put_inter dec nal h d = (out, d'))"
    using assms(1,2)
    by (auto simp: emit_nal_def emit_hint_def split: encryption_mode.splits if_splits)
  then show ?thesis using put_held [OF _ assms(3,4)] put_inter_held [OF _ assms(3,4)] by blast
qed

lemma classify_same:
  "classify dec nal header d = Inr d' \<Longrightarrow> \<exists>m. d' = d\<lparr>nd_mode := m\<rparr> \<and> (nd_mode d \<noteq> ModeUnknown \<longrightarrow> m = nd_mode d)"
proof -
  have self: "\<exists>m. d = d\<lparr>nd_mode := m\<rparr>" by (rule exI [of _ "nd_mode d"]) simp
  assume "classify dec nal header d = Inr d'"
  then show ?thesis
    using self by (auto simp: classify_def Let_def split: if_splits intro: exI [of _ "nd_mode d"])
qed

lemma put_codec [simp]:
  "nd_codec (snd (put dec data d)) = nd_codec d" "nd_codec (snd (put_inter dec nal h d)) = nd_codec d"
  by (simp_all add: put_def put_inter_def guard_pending_def flush_pending_def sample_inter_def Let_def
      split: option.splits)

lemma emit_nal_codec: "emit_nal dec nal d = Inr (out, d') \<Longrightarrow> nd_codec d' = nd_codec d"
  by (auto simp: emit_nal_def emit_hint_def split: encryption_mode.splits if_splits
      dest!: arg_cong [where f = "nd_codec \<circ> snd"])

lemma nal_feed_cases:
  assumes "nal_feed dec stamp nal d = Inr (out, d')"
  obtains (short) "length nal < nal_header (nd_codec d)" "out = []" "d' = d\<lparr>nd_stamp := stamp\<rparr>"
  | (unknown) "\<not> length nal < nal_header (nd_codec d)" "nd_mode d = ModeUnknown" "out = []"
      "d' = d\<lparr>nd_stamp := stamp\<rparr>"
  | (emit) m d2 where "\<not> length nal < nal_header (nd_codec d)" "m \<noteq> ModeUnknown"
      "nd_mode d \<noteq> ModeUnknown \<longrightarrow> m = nd_mode d"
      "d2 = (if nd_pending d \<noteq> None \<and> \<not> holding_mode m
             then d\<lparr>nd_stamp := stamp, nd_mode := m, nd_pending := None\<rparr>
             else d\<lparr>nd_stamp := stamp, nd_mode := m\<rparr>)" "emit_nal dec nal d2 = Inr (out, d')"
proof (cases "length nal < nal_header (nd_codec d)")
  case True
  then show thesis using assms short by (simp add: nal_feed_def)
next
  case False
  let ?d = "d\<lparr>nd_stamp := stamp\<rparr>"
  obtain d1 where d1: "classify dec nal (nal_header (nd_codec d)) ?d = Inr d1"
    using assms False by (auto simp: nal_feed_def Let_def try_bind_eq_Inr)
  from classify_same [OF this] obtain m where
    m: "d1 = ?d\<lparr>nd_mode := m\<rparr>" "nd_mode d \<noteq> ModeUnknown \<longrightarrow> m = nd_mode d" by auto
  show thesis
  proof (cases "m = ModeUnknown")
    case True
    then have "nd_mode d = ModeUnknown" using m(2) by auto
    then have "d1 = ?d" using m(1) True by simp
    then show thesis using assms False d1 True m(1) \<open>nd_mode d = ModeUnknown\<close>
      by (intro unknown) (auto simp: nal_feed_def Let_def)
  next
    case ne: False
    show thesis
      by (rule emit [OF False ne m(2) refl])
        (use assms False d1 m(1) ne in \<open>auto simp: nal_feed_def Let_def holding_mode_def split: if_splits\<close>)
  qed
qed

lemma nal_feed_ok:
  assumes "nal_feed dec stamp nal d = Inr (out, d')" "queue_ok d"
  shows "queue_ok d' \<and> nd_codec d' = nd_codec d \<and> (nd_mode d \<noteq> ModeUnknown \<longrightarrow> nd_mode d' = nd_mode d) \<and>
    map fst out @ held d' = held d @
      (if length nal < nal_header (nd_codec d) \<or> nd_mode d' = ModeUnknown then [] else [stamp])"
  using assms(1)
proof (cases rule: nal_feed_cases)
  case (emit m d2)
  have h0: "held d2 = held d"
    using emit(3,4) assms(2) by (auto simp: queue_ok_def held_def holding_mode_def)
  have b: "nd_pending d2 \<noteq> None \<longrightarrow> pending_bytes d2 = held_bytes d2" "held_bytes d2 \<le> MAX_PENDING_NAL_BYTES"
    using emit(4) assms(2) by (auto simp: queue_ok_def held_bytes_def split: if_splits)
  have m2: "nd_mode d2 = m" "nd_stamp d2 = stamp" "nd_codec d2 = nd_codec d"
    "nd_pending d2 = None \<or> holding_mode m"
    using emit(4) by auto
  note e = emit_nal_held [OF emit(5) _ b]
  have "queue_ok d'" using e m2 emit(2) by (auto simp: queue_ok_def held_def)
  then show ?thesis
    using e h0 m2 emit(1-3) emit_nal_codec [OF emit(5)] by auto
qed (use assms(2) in \<open>auto simp: queue_ok_def held_def held_bytes_def\<close>)

fun nal_run :: "block_cipher \<Rightarrow> (u32 \<times> bytes) list \<Rightarrow> nal_decryptor \<Rightarrow> bridge_error + (chunks \<times> nal_decryptor)" where
  "nal_run dec [] d = Inr ([], d)"
| "nal_run dec ((stamp, nal) # ns) d =
     try_bind (nal_feed dec stamp nal d) (\<lambda>(out, d').
       try_bind (nal_run dec ns d') (\<lambda>(outs, d''). Inr (out @ outs, d'')))"

definition whole_nals :: "video_codec \<Rightarrow> (u32 \<times> bytes) list \<Rightarrow> (u32 \<times> bytes) list" where
  "whole_nals c ns = filter (\<lambda>(stamp, nal). nal_header c \<le> length nal) ns"

lemma nal_run_known:
  "nal_run dec ns d = Inr (out, d') \<Longrightarrow> queue_ok d \<Longrightarrow> nd_mode d \<noteq> ModeUnknown \<Longrightarrow>
   queue_ok d' \<and> map fst out @ held d' = held d @ map fst (whole_nals (nd_codec d) ns)"
proof (induction dec ns d arbitrary: out rule: nal_run.induct)
  case (2 dec stamp nal ns d)
  from "2.prems"(1) obtain o1 d1 o2 where
    r: "nal_feed dec stamp nal d = Inr (o1, d1)" "nal_run dec ns d1 = Inr (o2, d')" "out = o1 @ o2"
    by (auto simp: try_bind_eq_Inr)
  note f = nal_feed_ok [OF r(1) "2.prems"(2)]
  then have "queue_ok d' \<and> map fst o2 @ held d' = held d1 @ map fst (whole_nals (nd_codec d) ns)"
    using "2.IH" [OF r(1) refl r(2)] "2.prems"(3) by auto
  moreover have "map fst o1 @ held d1 =
      held d @ (if length nal < nal_header (nd_codec d) then [] else [stamp])"
    using f "2.prems"(3) by auto
  ultimately show ?case
    using r(3) by (auto simp: whole_nals_def split: if_splits)
qed (simp add: whole_nals_def)

text \<open>\<open>n\<close> NAL units were skipped because the stream was not classified yet.\<close>

definition unclassified :: "block_cipher \<Rightarrow> (u32 \<times> bytes) list \<Rightarrow> nal_decryptor \<Rightarrow> nat \<Rightarrow> bool" where
  "unclassified dec ns d n \<longleftrightarrow> n = 0 \<or>
     (\<exists>d0. nal_run dec (take n ns) d = Inr ([], d0) \<and> nd_mode d0 = ModeUnknown)"

lemma nal_run_order:
  "nal_run dec ns d = Inr (out, d') \<Longrightarrow> queue_ok d \<Longrightarrow> held d = [] \<Longrightarrow> nd_mode d = ModeUnknown \<Longrightarrow>
   queue_ok d' \<and> (\<exists>n. unclassified dec ns d n \<and>
     map fst out @ held d' = map fst (whole_nals (nd_codec d) (drop n ns)))"
proof (induction dec ns d arbitrary: out rule: nal_run.induct)
  case (2 dec stamp nal ns d)
  from "2.prems"(1) obtain o1 d1 o2 where
    r: "nal_feed dec stamp nal d = Inr (o1, d1)" "nal_run dec ns d1 = Inr (o2, d')" "out = o1 @ o2"
    by (auto simp: try_bind_eq_Inr)
  note f = nal_feed_ok [OF r(1) "2.prems"(2)]
  show ?case
  proof (cases "nd_mode d1 = ModeUnknown")
    case True
    then have "map fst o1 @ held d1 = []" using f "2.prems"(3) by auto
    then have o: "o1 = []" "held d1 = []" by auto
    with "2.IH" [OF r(1) refl r(2)] f True obtain n where
      n: "queue_ok d'" "unclassified dec ns d1 n"
        "map fst o2 @ held d' = map fst (whole_nals (nd_codec d) (drop n ns))" by auto
    have "unclassified dec ((stamp, nal) # ns) d (Suc n)"
      using n(2) r(1) o(1) True by (auto simp: unclassified_def)
    then show ?thesis using r(3) o(1) n by (auto intro!: exI [of _ "Suc n"])
  next
    case False
    have "\<not> length nal < nal_header (nd_codec d)"
      using r(1) False "2.prems"(4) by (cases rule: nal_feed_cases) auto
    then have "map fst o1 @ held d1 = [stamp]" using f False "2.prems"(3) by auto
    with nal_run_known [OF r(2)] f False \<open>\<not> length nal < _\<close>
    have "queue_ok d' \<and> map fst out @ held d' = map fst (whole_nals (nd_codec d) ((stamp, nal) # ns))"
      using r(3) by (auto simp: whole_nals_def)
    then show ?thesis by (auto simp: unclassified_def intro!: exI [of _ 0])
  qed
qed (simp add: whole_nals_def unclassified_def)

lemma queue_ok_new: "queue_ok (nal_decryptor_new c key)" "held (nal_decryptor_new c key) = []"
  by (auto simp: queue_ok_def held_def held_bytes_def nal_decryptor_new_def)

lemma nd_codec_new: "nd_codec (nal_decryptor_new c key) = c"
  by (simp add: nal_decryptor_new_def)


definition xor_cipher :: block_cipher where
  "xor_cipher key block = map2 (XOR) key block"


section \<open>Decryption\<close>

text \<open>What a camera does to a NAL: the blocks of its first 4096 bytes are encrypted.\<close>

definition encrypt_prefix :: "block_cipher \<Rightarrow> bytes \<Rightarrow> bytes \<Rightarrow> bytes" where
  "encrypt_prefix enc key v =
     (let n = min (length v) 4096 div 16 * 16
      in concat (map (enc key) (chunks_of 16 (take n v))) @ drop n v)"

lemma chunks_of_exact: "length xs = k * n \<Longrightarrow> 0 < n \<Longrightarrow> c \<in> set (chunks_of n xs) \<Longrightarrow> length c = n"
proof (induction k arbitrary: xs)
  case (Suc k)
  then show ?case using Suc.IH [of "drop n xs"] by (auto simp: chunks_of.simps [of n xs] split: if_splits)
qed simp

lemma length_concat_blocks: "\<forall>b \<in> set bs. length b = n \<Longrightarrow> length (concat bs) = n * length bs"
  by (induction bs) auto

lemma decrypt_encrypt_prefix:
  assumes inv: "\<And>b. length b = 16 \<Longrightarrow> dec key (enc key b) = b" and len: "\<And>b. length b = 16 \<Longrightarrow> length (enc key b) = 16"
  shows "decrypt_prefix dec key (encrypt_prefix enc key v) = v"
proof -
  define k where "k = min (length v) 4096 div 16"
  define bs where "bs = chunks_of 16 (take (k * 16) v)"
  have kl: "k * 16 \<le> min (length v) 4096" unfolding k_def by (rule div_times_less_eq_dividend)
  have b16: "\<forall>b \<in> set bs. length b = 16"
    using chunks_of_exact [of "take (k * 16) v" k 16] kl by (auto simp: bs_def)
  have cb: "concat bs = take (k * 16) v" by (simp add: bs_def concat_chunks_of)
  have lb: "length bs * 16 = k * 16"
    using length_concat_blocks [OF b16] kl by (simp add: cb)
  let ?e = "concat (map (enc key) bs)"
  have e: "encrypt_prefix enc key v = ?e @ drop (k * 16) v"
    by (simp add: encrypt_prefix_def k_def bs_def Let_def)
  have e16: "\<forall>b \<in> set (map (enc key) bs). length b = 16" using b16 len by auto
  have le: "length ?e = k * 16" using length_concat_blocks [OF e16] lb by simp
  have ll: "length (encrypt_prefix enc key v) = length v" using kl by (simp add: e le)
  have "decrypt_prefix dec key (encrypt_prefix enc key v) =
      concat (map (dec key) (chunks_of 16 ?e)) @ drop (k * 16) v"
    unfolding decrypt_prefix_def ll ENCRYPTED_PREFIX_BYTES_def k_def [symmetric] Let_def
    using le by (simp add: e)
  also have "chunks_of 16 ?e = map (enc key) bs" by (rule chunks_of_concat) (use e16 in auto)
  also have "map (dec key) (map (enc key) bs) = bs" using b16 inv by (simp add: map_idI)
  finally show ?thesis by (simp add: cb)
qed

text \<open>C7. Decryption undoes the camera's encryption: with a cipher whose block decryption inverts
  its block encryption and keeps the block size (what AES promises), a stream classified as wholly
  encrypted emits every NAL unit of at least header length as it was before encryption, in
  Annex-B form under its own timestamp, whatever its length.\<close>
theorem encrypted_nal_recovered:
  assumes "\<forall>b. length b = 16 \<longrightarrow> dec (nd_key d) (enc (nd_key d) b) = b \<and> length (enc (nd_key d) b) = 16"
    and "nd_mode d = ModeEncrypted 0 0" and "nal_header (nd_codec d) \<le> length (encrypt_prefix enc (nd_key d) v)"
  shows "\<exists>d'. nal_feed dec stamp (encrypt_prefix enc (nd_key d) v) d = Inr ([(stamp, annex_b v)], d')"
proof -
  have "decrypt_prefix dec (nd_key d) (encrypt_prefix enc (nd_key d) v) = v"
    using assms(1) by (intro decrypt_encrypt_prefix) auto
  then show ?thesis
    using assms(2,3) by (auto simp: nal_feed_def classify_def emit_nal_def put_def Let_def)
qed

theorem encrypted_nal_recovered_witness:
  "let d = (nal_decryptor_new H264 (Some (replicate 16 7)))\<lparr>nd_mode := ModeEncrypted 0 0\<rparr>;
       v = [0x65, 1, 2, 3, 4, 5, 6, 7, 8, 9, 10, 11, 12, 13, 14, 15, 16]
   in \<exists>d'. nal_feed xor_cipher 9 (encrypt_prefix xor_cipher (nd_key d) v) d = Inr ([(9, annex_b v)], d')"
proof -
  let ?d = "(nal_decryptor_new H264 (Some (replicate 16 7)))\<lparr>nd_mode := ModeEncrypted 0 0\<rparr>"
  have k: "nd_key ?d = replicate 16 7" by (simp add: nal_decryptor_new_def)
  have "\<forall>b. length b = 16 \<longrightarrow> xor_cipher (replicate 16 7) (xor_cipher (replicate 16 7) b) = b \<and>
      length (xor_cipher (replicate 16 7) b) = 16"
    by (auto simp: xor_cipher_def intro!: nth_equalityI simp: xor.assoc [symmetric])
  then show ?thesis unfolding Let_def
    by (intro encrypted_nal_recovered) (auto simp: k encrypt_prefix_def nal_decryptor_new_def nal_header_def)
qed

end
