(* ===== verification/Rtp_Video.thy ===== *)
theory Rtp_Video
  imports Video_Cipher
begin

text \<open>
  RTP depacketisation of video (\<open>transport/video_rtp.rs\<close>, \<open>transport/video.rs\<close>): fragmentation and
  aggregation units of H.264 and HEVC, the RTP header, codec detection on the first payload that
  names one, and the routing of every later packet.
\<close>

section \<open>Fragments and aggregates\<close>

definition MAX_FRAGMENT_BYTES :: nat where "MAX_FRAGMENT_BYTES = 2 * 1024 * 1024"

record rtp_nal_decryptor =
  rn_codec :: video_codec
  rn_nal :: nal_decryptor
  fragment :: "bytes option"
  rn_stamp :: u32

type_synonym rn_result = "bridge_error + (chunks \<times> rtp_nal_decryptor)"

definition rtp_nal_decryptor_new :: "video_codec \<Rightarrow> bytes option \<Rightarrow> rtp_nal_decryptor" where
  "rtp_nal_decryptor_new c key =
     \<lparr>rn_codec = c, rn_nal = nal_decryptor_new c key, fragment = None, rn_stamp = 0\<rparr>"

definition bound_fragment :: "bytes \<Rightarrow> bridge_error + unit" where
  "bound_fragment frag = (if MAX_FRAGMENT_BYTES < length frag
     then Inl (Capacity ''RTP fragment exceeded its byte bound'') else Inr ())"

text \<open>\<open>self.nal.feed(self.stamp, nal)\<close>.\<close>

definition feed_nal :: "block_cipher \<Rightarrow> bytes \<Rightarrow> rtp_nal_decryptor \<Rightarrow> rn_result" where
  "feed_nal dec nal r = try_bind (nal_feed dec (rn_stamp r) nal (rn_nal r))
     (\<lambda>(out, n). Inr (out, r\<lparr>rn_nal := n\<rparr>))"

definition finish_fragment :: "block_cipher \<Rightarrow> rtp_nal_decryptor \<Rightarrow> rn_result" where
  "finish_fragment dec r = (case fragment r of
     None \<Rightarrow> Inl (Upstream ''RTP fragment ended before it started'')
   | Some frag \<Rightarrow> feed_nal dec frag (r\<lparr>fragment := None\<rparr>))"

text \<open>The shared part of both fragmentation units: \<open>head\<close> opens a fragment, \<open>body\<close> extends it.\<close>

definition feed_fragment :: "block_cipher \<Rightarrow> u8 \<Rightarrow> bytes \<Rightarrow> bytes \<Rightarrow> rtp_nal_decryptor \<Rightarrow> rn_result" where
  "feed_fragment dec fu head body r0 =
     (let start = (fu AND 0x80 \<noteq> 0);
          fin = (fu AND 0x40 \<noteq> 0);
          r1 = (if start then r0\<lparr>fragment := Some head\<rparr> else r0);
          r2 = (case fragment r1 of None \<Rightarrow> r1 | Some frag \<Rightarrow> r1\<lparr>fragment := Some (frag @ body)\<rparr>)
      in try_bind (case fragment r2 of None \<Rightarrow> Inr () | Some frag \<Rightarrow> bound_fragment frag) (\<lambda>_.
           if fin then finish_fragment dec r2 else Inr ([], r2)))"

function feed_aggregation :: "block_cipher \<Rightarrow> bytes \<Rightarrow> rtp_nal_decryptor \<Rightarrow> rn_result" where
  "feed_aggregation dec [] r = Inr ([], r)"
| "feed_aggregation dec [a] r = Inl (Upstream ''RTP aggregation length is truncated'')"
| "feed_aggregation dec (a # b # payload) r =
     (let n = unat (from_be16 a b) in
      if n = 0 \<or> length payload < n then Inl (Upstream ''RTP aggregation unit is invalid'')
      else try_bind (feed_nal dec (take n payload) r) (\<lambda>(out, r').
             try_bind (feed_aggregation dec (drop n payload) r') (\<lambda>(outs, r'').
               Inr (out @ outs, r''))))"
  by pat_completeness auto
termination
  by (relation "measure (\<lambda>(dec, payload, r). length payload)") auto

definition feed_h264 :: "block_cipher \<Rightarrow> bytes \<Rightarrow> rtp_nal_decryptor \<Rightarrow> rn_result" where
  "feed_h264 dec payload r = (case payload of
     [] \<Rightarrow> Inr ([], r)
   | first # _ \<Rightarrow>
       if first AND 0x1f = 28 then
         (if length payload < 2 then Inl (Upstream ''H.264 FU-A is truncated'')
          else let fu = payload ! 1
               in feed_fragment dec fu [(first AND 0xe0) OR (fu AND 0x1f)] (drop 2 payload) r)
       else if first AND 0x1f = 24 then feed_aggregation dec (drop 1 payload) r
       else feed_nal dec payload r)"

definition feed_hevc :: "block_cipher \<Rightarrow> bytes \<Rightarrow> rtp_nal_decryptor \<Rightarrow> rn_result" where
  "feed_hevc dec payload r =
     (if length payload < 2 then Inr ([], r)
      else let kind = drop_bit 1 (payload ! 0) AND 0x3f in
        if kind = 49 then
          (if length payload < 3 then Inl (Upstream ''HEVC FU is truncated'')
           else let fu = payload ! 2
                in feed_fragment dec fu
                     [(payload ! 0 AND 0x81) OR push_bit 1 (fu AND 0x3f), payload ! 1] (drop 3 payload) r)
        else if kind = 48 then feed_aggregation dec (drop 2 payload) r
        else feed_nal dec payload r)"

definition rn_feed :: "block_cipher \<Rightarrow> u32 \<Rightarrow> bytes \<Rightarrow> rtp_nal_decryptor \<Rightarrow> rn_result" where
  "rn_feed dec stamp payload r0 =
     (let r = r0\<lparr>rn_stamp := stamp\<rparr> in
      case rn_codec r of H264 \<Rightarrow> feed_h264 dec payload r | Hevc \<Rightarrow> feed_hevc dec payload r)"

section \<open>RTP packets\<close>

record rtp_packet =
  rtp_type :: u8
  rtp_marker :: bool
  rtp_timestamp :: u32
  rtp_payload :: bytes

definition upstream :: "string \<Rightarrow> bridge_error + 'a" where
  "upstream s = Inl (Upstream s)"

definition rtp_extension_end :: "bytes \<Rightarrow> nat \<Rightarrow> bridge_error + nat" where
  "rtp_extension_end p offset =
     (if p ! 0 AND 0x10 \<noteq> 0 then
        (if length p < offset + 4 then upstream ''RTP extension header is truncated''
         else let words = unat (from_be16 (p ! (offset + 2)) (p ! (offset + 3)));
                  fin = sat_add (sat_add offset 4) (sat_mul words 4)
              in if length p < fin then upstream ''RTP extension is truncated'' else Inr fin)
      else Inr offset)"

definition parse_rtp :: "bytes \<Rightarrow> bridge_error + rtp_packet" where
  "parse_rtp p =
     (if length p < 12 \<or> drop_bit 6 (p ! 0) \<noteq> 2 then upstream ''media is not a valid RTP packet''
      else let offset = 12 + unat (p ! 0 AND 0x0f) * 4 in
        if length p < offset then upstream ''RTP header is truncated''
        else try_bind (rtp_extension_end p offset) (\<lambda>offset.
          let padding = (if p ! 0 AND 0x20 = 0 then 0 else unat (last p)) in
          if padding \<le> length p \<and> offset \<le> length p - padding
          then Inr \<lparr>rtp_type = p ! 1 AND 0x7f, rtp_marker = (p ! 1 AND 0x80 \<noteq> 0),
                    rtp_timestamp = from_be32 (p ! 4) (p ! 5) (p ! 6) (p ! 7),
                    rtp_payload = take (length p - padding - offset) (drop offset p)\<rparr>
          else upstream ''RTP padding is invalid''))"

definition is_rtp :: "bytes \<Rightarrow> bool" where
  "is_rtp p = (case parse_rtp p of Inr _ \<Rightarrow> True | Inl _ \<Rightarrow> False)"

definition reject_non_rtp_container :: "bytes \<Rightarrow> bridge_error + unit" where
  "reject_non_rtp_container p =
     (let format = (if starts_with p [0x00, 0x00, 0x01, 0xba] then Some ''MPEG-PS''
                    else if get_at p 0 = Some 0x47 then Some ''MPEG-TS'' else None)
      in case format of
           Some f \<Rightarrow> upstream (f @ '' video is not supported on the RTP path of this camera profile'')
         | None \<Rightarrow> Inr ())"

definition detect_codec :: "u8 option \<Rightarrow> video_codec option" where
  "detect_codec first' = (case first' of None \<Rightarrow> None
     | Some first \<Rightarrow>
         if first AND 0x1f \<in> {24, 28} \<or> first \<in> {0x65, 0x67, 0x68} then Some H264
         else if drop_bit 1 first AND 0x3f \<in> {48, 49} \<or> first \<in> {0x40, 0x42, 0x44} then Some Hevc
         else None)"

section \<open>The video depacketiser\<close>

definition MAX_PROBE_BYTES :: nat where "MAX_PROBE_BYTES = 4 * 1024 * 1024"
definition MAX_CODEC_PROBE_PACKETS :: nat where "MAX_CODEC_PROBE_PACKETS = 400"

datatype rtp_output = OutVideo u32 bool bytes | OutOther u8 u32 bytes

record rtp_video =
  rv_key :: "bytes option"
  rv_codec :: "video_codec option"
  rv_type :: "u8 option"
  buffered :: "bytes list"
  buffered_bytes :: nat
  decryptor :: "rtp_nal_decryptor option"

definition rv_with_key :: "bytes option \<Rightarrow> rtp_video" where
  "rv_with_key key = \<lparr>rv_key = key, rv_codec = None, rv_type = None, buffered = [],
     buffered_bytes = 0, decryptor = None\<rparr>"

definition rv_clear :: rtp_video where "rv_clear = rv_with_key None"

definition rv_encrypted :: "string \<Rightarrow> bridge_error + rtp_video" where
  "rv_encrypted code =
     (if code = [] \<or> 64 < length code
      then Inl (Configuration ''camera verification code length is invalid'')
      else let v = str_bytes code; n = min (length v) 16
           in Inr (rv_with_key (Some (take n v @ replicate (16 - n) 0))))"

text \<open>The marker of the packet goes to the last chunk of its own timestamp; otherwise an empty
  video item carries it.\<close>

definition mark_last :: "u32 \<Rightarrow> bool \<Rightarrow> chunks \<Rightarrow> rtp_output list" where
  "mark_last ts marker cs =
     (let out = map (\<lambda>(t, data). OutVideo t False data) cs in
      if cs \<noteq> [] \<and> fst (last cs) = ts then butlast out @ [OutVideo ts marker (snd (last cs))]
      else out @ [OutVideo ts marker []])"

definition route :: "block_cipher \<Rightarrow> rtp_packet \<Rightarrow> u8 \<Rightarrow> rtp_video \<Rightarrow> bridge_error + (rtp_output list \<times> rtp_video)" where
  "route dec p video v =
     (if rtp_type p \<noteq> video then Inr ([OutOther (rtp_type p) (rtp_timestamp p) (rtp_payload p)], v)
      else case decryptor v of
        None \<Rightarrow> upstream ''video depacketizer is unavailable''
      | Some r \<Rightarrow> try_bind (rn_feed dec (rtp_timestamp p) (rtp_payload p) r) (\<lambda>(cs, r').
          Inr (mark_last (rtp_timestamp p) (rtp_marker p) cs, v\<lparr>decryptor := Some r'\<rparr>)))"

fun route_pending :: "block_cipher \<Rightarrow> u8 \<Rightarrow> bytes list \<Rightarrow> rtp_video \<Rightarrow> bridge_error + (rtp_output list \<times> rtp_video)" where
  "route_pending dec video [] v = Inr ([], v)"
| "route_pending dec video (c # cs) v =
     try_bind (parse_rtp c) (\<lambda>p.
       try_bind (if rtp_type p = video then route dec p video v else Inr ([], v)) (\<lambda>(out, v').
         try_bind (route_pending dec video cs v') (\<lambda>(outs, v''). Inr (out @ outs, v''))))"

definition rv_feed :: "block_cipher \<Rightarrow> bytes \<Rightarrow> rtp_video \<Rightarrow> bridge_error + (rtp_output list \<times> rtp_video)" where
  "rv_feed dec packet v =
     try_bind (reject_non_rtp_container packet) (\<lambda>_.
     try_bind (parse_rtp packet) (\<lambda>rtp.
       case rv_type v of
         Some selected \<Rightarrow> route dec rtp selected v
       | None \<Rightarrow>
           let v1 = v\<lparr>buffered_bytes := sat_add (buffered_bytes v) (length packet)\<rparr> in
           if MAX_PROBE_BYTES < buffered_bytes v1 \<or> MAX_CODEC_PROBE_PACKETS \<le> length (buffered v1)
           then upstream ''RTP video codec could not be identified within its bound''
           else let v2 = v1\<lparr>buffered := buffered v1 @ [packet]\<rparr> in
             case detect_codec (get_at (rtp_payload rtp) 0) of
               None \<Rightarrow> Inr ([], v2)
             | Some c \<Rightarrow>
                 route_pending dec (rtp_type rtp) (buffered v2)
                   (v2\<lparr>rv_codec := Some c, rv_type := Some (rtp_type rtp),
                       decryptor := Some (rtp_nal_decryptor_new c (rv_key v2)),
                       buffered := [], buffered_bytes := 0\<rparr>)))"

section \<open>Reassembly\<close>

fun rn_run :: "block_cipher \<Rightarrow> u32 \<Rightarrow> bytes list \<Rightarrow> rtp_nal_decryptor \<Rightarrow> rn_result" where
  "rn_run dec ts [] r = Inr ([], r)"
| "rn_run dec ts (p # ps) r = try_bind (rn_feed dec ts p r) (\<lambda>(out, r').
     try_bind (rn_run dec ts ps r') (\<lambda>(outs, r''). Inr (out @ outs, r'')))"

text \<open>How a sender cuts a NAL unit into fragmentation units (RFC 6184 and RFC 7798): the payload
  header with the FU type, the FU header with the start or end flag and the NAL type, a piece of
  the body.\<close>

definition fu_packet :: "video_codec \<Rightarrow> bytes \<Rightarrow> u8 \<Rightarrow> bytes \<Rightarrow> bytes" where
  "fu_packet c nal flag piece = (case c of
     H264 \<Rightarrow> [(nal ! 0 AND 0xe0) OR 28, flag OR (nal ! 0 AND 0x1f)] @ piece
   | Hevc \<Rightarrow> [(nal ! 0 AND 0x81) OR 98, nal ! 1, flag OR (drop_bit 1 (nal ! 0) AND 0x3f)] @ piece)"

definition fu_packets :: "video_codec \<Rightarrow> bytes \<Rightarrow> bytes \<Rightarrow> bytes list \<Rightarrow> bytes \<Rightarrow> bytes list" where
  "fu_packets c nal first mids final =
     fu_packet c nal 0x80 first # map (fu_packet c nal 0) mids @ [fu_packet c nal 0x40 final]"

lemma u8_all: "x AND 0xff = (x :: u8)"
proof -
  have "(0xff :: u8) = - 1" by simp
  then show ?thesis by (simp only: and.right_neutral)
qed

lemma h264_fu_bytes:
  fixes x :: u8
  shows "((x AND 0xe0) OR 28) AND 0x1f = 28" "((x AND 0xe0) OR 28) AND 0xe0 = x AND 0xe0"
    "(0x80 OR (x AND 0x1f)) AND 0x1f = x AND 0x1f" "(x AND 0xe0) OR (x AND 0x1f) = x"
    "(0x80 OR (x AND 0x1f)) AND 0x80 = 0x80" "(0x80 OR (x AND 0x1f)) AND 0x40 = 0"
    "(x AND 0x1f) AND 0x80 = 0" "(x AND 0x1f) AND 0x40 = 0"
    "(0x40 OR (x AND 0x1f)) AND 0x80 = 0" "(0x40 OR (x AND 0x1f)) AND 0x40 = 0x40"
  by (simp_all add: u8_all bit.conj_disj_distrib2 and.assoc flip: bit.conj_disj_distrib)

lemma hevc_fu_bytes:
  fixes x y :: u8
  shows "drop_bit 1 ((x AND 0x81) OR 98) AND 0x3f = 49" "((x AND 0x81) OR 98) AND 0x81 = x AND 0x81"
    "(0x80 OR (y AND 0x3f)) AND 0x3f = y AND 0x3f"
    "(0x80 OR (y AND 0x3f)) AND 0x80 = 0x80" "(0x80 OR (y AND 0x3f)) AND 0x40 = 0"
    "(y AND 0x3f) AND 0x80 = 0" "(y AND 0x3f) AND 0x40 = 0"
    "(0x40 OR (y AND 0x3f)) AND 0x80 = 0" "(0x40 OR (y AND 0x3f)) AND 0x40 = 0x40"
  by (simp_all add: bit.conj_disj_distrib2 and.assoc)

lemma hevc_fu_head: "(x AND 0x81) OR push_bit 1 (drop_bit 1 x AND 0x3f) = (x :: u8)"
proof -
  have m: "(0x81 :: u8) = push_bit 7 1 OR 1" "(0x3f :: u8) = mask 6" by (simp_all add: mask_eq_exp_minus_1)
  show ?thesis unfolding m
  proof (rule bit_word_eqI)
    fix n assume "n < LENGTH(8)"
    then consider "n = 0" | "n = 7" | "1 \<le> n" "n - 1 < 6" by fastforce
    then show "bit (x AND (push_bit 7 1 OR 1) OR push_bit 1 (drop_bit 1 x AND mask 6)) n = bit x n"
      unfolding bit_or_iff bit_and_iff bit_push_bit_iff bit_drop_bit_eq bit_mask_iff o_def
      by cases (auto simp: bit_1_iff)
  qed
qed

lemma hevc_fu_kind: "((y AND 64) OR 49) AND 63 = (49 :: u8)"
  by (simp add: bit.conj_disj_distrib2 and.assoc)

lemma fu_step:
  assumes "rn_codec r = c"
  shows "rn_feed dec ts (fu_packet c nal flag piece) r =
    feed_fragment dec (flag OR (case c of H264 \<Rightarrow> nal ! 0 AND 0x1f | Hevc \<Rightarrow> drop_bit 1 (nal ! 0) AND 0x3f))
      (case c of H264 \<Rightarrow> [(nal ! 0 AND 0xe0) OR ((flag OR (nal ! 0 AND 0x1f)) AND 0x1f)]
       | Hevc \<Rightarrow> [(nal ! 0 AND 0x81) OR push_bit 1 ((flag OR (drop_bit 1 (nal ! 0) AND 0x3f)) AND 0x3f), nal ! 1])
      piece (r\<lparr>rn_stamp := ts\<rparr>)"
proof (cases c)
  case H264
  then show ?thesis using assms
    by (simp only: rn_feed_def fu_packet_def feed_h264_def Let_def video_codec.case rtp_nal_decryptor.simps)
      (simp add: h264_fu_bytes(1,2))
next
  case Hevc
  then show ?thesis using assms
    by (simp only: rn_feed_def fu_packet_def feed_hevc_def Let_def video_codec.case rtp_nal_decryptor.simps)
      (simp add: hevc_fu_bytes(1,2) hevc_fu_kind)
qed

definition nal_head :: "video_codec \<Rightarrow> bytes \<Rightarrow> bytes" where
  "nal_head c nal = take (nal_header c) nal"

lemma fu_start_head:
  assumes "nal_header c \<le> length nal"
  shows "(case c of H264 \<Rightarrow> [(nal ! 0 AND 0xe0) OR ((0x80 OR (nal ! 0 AND 0x1f)) AND 0x1f)]
       | Hevc \<Rightarrow> [(nal ! 0 AND 0x81) OR push_bit 1 ((0x80 OR (drop_bit 1 (nal ! 0) AND 0x3f)) AND 0x3f), nal ! 1])
    = nal_head c nal"
  using assms
  by (cases c; cases nal; cases "tl nal")
    (simp_all only: video_codec.case h264_fu_bytes(3,4) hevc_fu_bytes(3) hevc_fu_head nal_head_def,
     simp_all add: nal_header_def)

lemma fu_start:
  assumes "rn_codec r = c" "nal_header c \<le> length nal" "nal_header c + length piece \<le> MAX_FRAGMENT_BYTES"
  shows "rn_feed dec ts (fu_packet c nal 0x80 piece) r =
    Inr ([], r\<lparr>rn_stamp := ts, fragment := Some (nal_head c nal @ piece)\<rparr>)"
proof -
  have "length (nal_head c nal) = nal_header c" using assms(2) by (simp add: nal_head_def)
  then show ?thesis
    unfolding fu_step [OF assms(1)] fu_start_head [OF assms(2)] using assms(3)
    by (cases c) (simp_all add: feed_fragment_def Let_def bound_fragment_def
        h264_fu_bytes(5,6) hevc_fu_bytes(4,5))
qed

lemma fu_middle:
  assumes "rn_codec r = c" "fragment r = Some frag" "length frag + length piece \<le> MAX_FRAGMENT_BYTES"
  shows "rn_feed dec ts (fu_packet c nal 0 piece) r =
    Inr ([], r\<lparr>rn_stamp := ts, fragment := Some (frag @ piece)\<rparr>)"
  unfolding fu_step [OF assms(1)] using assms
  by (cases c) (simp_all add: feed_fragment_def Let_def bound_fragment_def
        h264_fu_bytes(7,8) hevc_fu_bytes(6,7))

lemma fu_end:
  assumes "rn_codec r = c" "fragment r = Some frag" "length frag + length piece \<le> MAX_FRAGMENT_BYTES"
  shows "rn_feed dec ts (fu_packet c nal 0x40 piece) r =
    feed_nal dec (frag @ piece) (r\<lparr>rn_stamp := ts, fragment := None\<rparr>)"
  unfolding fu_step [OF assms(1)] using assms
  by (cases c) (simp_all add: feed_fragment_def Let_def bound_fragment_def finish_fragment_def
        h264_fu_bytes(9,10) hevc_fu_bytes(8,9))

lemma fu_tail:
  "rn_codec r = c \<Longrightarrow> fragment r = Some frag \<Longrightarrow>
   length frag + length (concat mids) + length final \<le> MAX_FRAGMENT_BYTES \<Longrightarrow>
   rn_run dec ts (map (fu_packet c nal 0) mids @ [fu_packet c nal 0x40 final]) r =
     feed_nal dec (frag @ concat mids @ final) (r\<lparr>rn_stamp := ts, fragment := None\<rparr>)"
proof (induction mids arbitrary: r frag)
  case Nil
  then show ?case
    by (simp add: fu_end) (auto simp: try_bind_def split: sum.splits)
next
  case (Cons m mids)
  let ?r = "r\<lparr>rn_stamp := ts, fragment := Some (frag @ m)\<rparr>"
  have "rn_feed dec ts (fu_packet c nal 0 m) r = Inr ([], ?r)"
    using Cons.prems by (intro fu_middle) auto
  moreover have "rn_run dec ts (map (fu_packet c nal 0) mids @ [fu_packet c nal 0x40 final]) ?r =
      feed_nal dec ((frag @ m) @ concat mids @ final) (?r\<lparr>rn_stamp := ts, fragment := None\<rparr>)"
    by (rule Cons.IH) (use Cons.prems in auto)
  ultimately show ?case by (auto simp: try_bind_def split: sum.splits)
qed

text \<open>C5. Fragmentation is undone exactly: for both codecs, any cut of a NAL unit of at most 2 MiB
  into a first, any number of middle and a last fragmentation unit is processed exactly as the
  whole NAL unit would be, with the same result, error or state, whatever an earlier unfinished
  fragment left behind.\<close>
theorem fragments_reassembled:
  assumes "rn_codec r = c" and "nal_header c \<le> length nal" and "length nal \<le> MAX_FRAGMENT_BYTES"
    and "drop (nal_header c) nal = first @ concat mids @ final"
  shows "rn_run dec ts (fu_packets c nal first mids final) r =
    feed_nal dec nal (r\<lparr>rn_stamp := ts, fragment := None\<rparr>)"
proof -
  let ?r = "r\<lparr>rn_stamp := ts, fragment := Some (nal_head c nal @ first)\<rparr>"
  have n: "nal = nal_head c nal @ first @ concat mids @ final"
    using assms(4) append_take_drop_id [of "nal_header c" nal] by (simp add: nal_head_def)
  then have l: "length (nal_head c nal) + length first + length (concat mids) + length final \<le> MAX_FRAGMENT_BYTES"
    using assms(3) by (metis add.assoc length_append)
  have "rn_feed dec ts (fu_packet c nal 0x80 first) r = Inr ([], ?r)"
    using assms l by (intro fu_start) (auto simp: nal_head_def)
  moreover have "rn_run dec ts (map (fu_packet c nal 0) mids @ [fu_packet c nal 0x40 final]) ?r =
      feed_nal dec ((nal_head c nal @ first) @ concat mids @ final) (?r\<lparr>rn_stamp := ts, fragment := None\<rparr>)"
    by (rule fu_tail) (use assms l in auto)
  ultimately show ?thesis
    using n by (auto simp: fu_packets_def try_bind_def split: sum.splits)
qed

theorem fragments_reassembled_witness:
  "rn_run xor_cipher 7 (fu_packets Hevc [0x26, 1, 10, 20, 30] [10] [[20]] [30]) (rtp_nal_decryptor_new Hevc None) =
     feed_nal xor_cipher [0x26, 1, 10, 20, 30] ((rtp_nal_decryptor_new Hevc None)\<lparr>rn_stamp := 7, fragment := None\<rparr>)"
  by (rule fragments_reassembled)
    (simp_all add: rtp_nal_decryptor_new_def nal_header_def MAX_FRAGMENT_BYTES_def)

section \<open>RTP header round trip\<close>

text \<open>An RTP packet as RFC 3550 lays it out: contributing sources, an optional extension and
  optional padding around the payload.\<close>

record rtp_layout =
  lay_csrc :: "u32 list"
  lay_ext :: "(u16 \<times> u32 list) option"
  lay_pad :: nat
  lay_seq :: u16
  lay_ssrc :: u32

definition ext_bytes :: "(u16 \<times> u32 list) option \<Rightarrow> bytes" where
  "ext_bytes e = (case e of None \<Rightarrow> []
     | Some (profile, ws) \<Rightarrow> to_be16 profile @ to_be16 (of_nat (length ws)) @ concat (map to_be32 ws))"

definition pad_bytes :: "nat \<Rightarrow> bytes" where
  "pad_bytes n = (if n = 0 then [] else replicate (n - 1) 0 @ [of_nat n])"

definition rtp_byte0 :: "rtp_layout \<Rightarrow> u8" where
  "rtp_byte0 l = 0x80 OR (if lay_pad l = 0 then 0 else 0x20) OR (if lay_ext l = None then 0 else 0x10)
     OR of_nat (length (lay_csrc l))"

definition build_rtp :: "rtp_layout \<Rightarrow> rtp_packet \<Rightarrow> bytes" where
  "build_rtp l p =
     [rtp_byte0 l, (if rtp_marker p then 0x80 else 0) OR rtp_type p] @ to_be16 (lay_seq l)
     @ to_be32 (rtp_timestamp p) @ to_be32 (lay_ssrc l) @ concat (map to_be32 (lay_csrc l))
     @ ext_bytes (lay_ext l) @ rtp_payload p @ pad_bytes (lay_pad l)"

definition layout_ok :: "rtp_layout \<Rightarrow> bool" where
  "layout_ok l \<longleftrightarrow> length (lay_csrc l) < 16 \<and> lay_pad l < 256 \<and>
     (case lay_ext l of None \<Rightarrow> True | Some (_, ws) \<Rightarrow> length ws < 2 ^ 16)"

lemma and_outside: "x AND m = x \<Longrightarrow> m AND k = 0 \<Longrightarrow> x AND k = (0 :: u8)"
  by (metis and.assoc and_zero_eq)

lemma rtp_byte0_fields:
  assumes "length (lay_csrc l) < 16"
  shows "drop_bit 6 (rtp_byte0 l) = 2" "unat (rtp_byte0 l AND 0x0f) = length (lay_csrc l)"
    "(rtp_byte0 l AND 0x10 = 0) = (lay_ext l = None)" "(rtp_byte0 l AND 0x20 = 0) = (lay_pad l = 0)"
proof -
  define c :: u8 where "c = of_nat (length (lay_csrc l))"
  have u: "unat c = length (lay_csrc l)" using assms by (simp add: c_def unat_of_nat take_bit_nat_eq_self)
  have "c < 16" using assms u by (simp add: word_less_nat_alt)
  then have c: "c AND 0x0f = c" using u8_less_16_bits cc_mask by simp
  have "drop_bit 6 (c AND 0x0f) = 0" by simp
  then have z: "c AND 0x10 = 0" "c AND 0x20 = 0" "drop_bit 6 c = 0"
    using and_outside [OF c] by (simp_all add: c)
  show "drop_bit 6 (rtp_byte0 l) = 2" "unat (rtp_byte0 l AND 0x0f) = length (lay_csrc l)"
    "(rtp_byte0 l AND 0x10 = 0) = (lay_ext l = None)" "(rtp_byte0 l AND 0x20 = 0) = (lay_pad l = 0)"
    using z c u unfolding rtp_byte0_def c_def [symmetric]
    by (simp_all add: bit.conj_disj_distrib2)
qed

lemma rtp_byte1_fields:
  assumes "(t :: u8) < 128"
  shows "((if m then 0x80 else 0) OR t) AND 0x7f = t" "(((if m then 0x80 else 0) OR t) AND 0x80 \<noteq> 0) = m"
proof -
  have "t AND mask 7 = t" using less_mask_eq [of t 7] assms by simp
  then have t: "t AND 0x7f = t" by (simp add: mask_eq_exp_minus_1)
  then have z: "t AND 0x80 = 0" using and_outside [OF t] by simp
  show "((if m then 0x80 else 0) OR t) AND 0x7f = t" "(((if m then 0x80 else 0) OR t) AND 0x80 \<noteq> 0) = m"
    using t z by (simp_all add: bit.conj_disj_distrib2)
qed

lemma length_concat_be32 [simp]: "length (concat (map to_be32 ws)) = 4 * length ws"
  by (induction ws) auto

lemma extension_end:
  assumes "p = pre @ ext_bytes e @ post" "p ! 0 AND 0x10 = 0 \<longleftrightarrow> e = None" "length pre < 2 ^ 20"
    "case e of None \<Rightarrow> True | Some (_, ws) \<Rightarrow> length ws < 2 ^ 16"
  shows "rtp_extension_end p (length pre) = Inr (length pre + length (ext_bytes e))"
proof (cases e)
  case None
  then show ?thesis using assms by (simp add: rtp_extension_end_def ext_bytes_def)
next
  case (Some pw)
  obtain pr ws where pw: "pw = (pr, ws)" by fastforce
  have n: "unat (of_nat (length ws) :: u16) = length ws"
    using assms(4) Some pw by (simp add: unat_of_nat take_bit_nat_eq_self)
  have b: "p ! (length pre + 2) = ucast (drop_bit 8 (of_nat (length ws) :: u16))"
    "p ! (length pre + 3) = ucast (of_nat (length ws) :: u16)"
    using assms(1) Some pw by (simp_all add: ext_bytes_def to_be16_def nth_append)
  have "sat_add (sat_add (length pre) 4) (sat_mul (length ws) 4) = length pre + 4 + 4 * length ws"
    using assms(3,4) Some pw by (simp add: sat_add_def sat_mul_def USIZE_MAX_def)
  moreover have "length p = length pre + 4 + 4 * length ws + length post"
    "length (ext_bytes e) = 4 + 4 * length ws"
    using assms(1) Some pw by (simp_all add: ext_bytes_def)
  moreover have "p ! 0 AND 0x10 \<noteq> 0" using assms(2) Some by simp
  ultimately show ?thesis
    by (simp only: rtp_extension_end_def b from_to_be16 n Let_def) simp
qed

lemma pad_last: "0 < n \<Longrightarrow> n < 256 \<Longrightarrow> unat (last (xs @ pad_bytes n)) = n"
  by (simp add: pad_bytes_def unat_of_nat take_bit_nat_eq_self)

lemma length_pad [simp]: "length (pad_bytes n) = n"
  by (simp add: pad_bytes_def)

text \<open>The RTP parser reads what RFC 3550 writes: for every packet layout with up to 15
  contributing sources, an optional extension of any length and up to 255 bytes of padding, the
  payload type, marker, timestamp and payload are exactly those put in, none of the surrounding
  bytes leaking into the payload.\<close>
theorem rtp_roundtrip:
  assumes "layout_ok l" and "rtp_type p < 128"
  shows "parse_rtp (build_rtp l p) = Inr \<lparr>rtp_type = rtp_type p, rtp_marker = rtp_marker p,
    rtp_timestamp = rtp_timestamp p, rtp_payload = rtp_payload p\<rparr>"
proof -
  let ?b = "build_rtp l p"
  define pre where "pre = [rtp_byte0 l, (if rtp_marker p then 0x80 else 0) OR rtp_type p]
    @ to_be16 (lay_seq l) @ to_be32 (rtp_timestamp p) @ to_be32 (lay_ssrc l)
    @ concat (map to_be32 (lay_csrc l))"
  have lp: "length pre = 12 + 4 * length (lay_csrc l)" by (simp add: pre_def)
  have split: "?b = pre @ ext_bytes (lay_ext l) @ rtp_payload p @ pad_bytes (lay_pad l)"
    by (simp add: pre_def build_rtp_def)
  have b: "?b ! 0 = rtp_byte0 l" "?b ! 1 = (if rtp_marker p then 0x80 else 0) OR rtp_type p"
    "from_be32 (?b ! 4) (?b ! 5) (?b ! 6) (?b ! 7) = rtp_timestamp p"
    by (simp_all add: build_rtp_def to_be16_def to_be32_def from_to_be32)
  note f = rtp_byte0_fields [of l] rtp_byte1_fields [OF assms(2), of "rtp_marker p"]
  have e: "rtp_extension_end ?b (length pre) = Inr (length pre + length (ext_bytes (lay_ext l)))"
    by (rule extension_end [OF split])
      (use assms(1) f lp b in \<open>auto simp: layout_ok_def\<close>)
  have pad: "(if ?b ! 0 AND 0x20 = 0 then 0 else unat (last ?b)) = lay_pad l"
    using assms(1) f(4) b(1) pad_last [of "lay_pad l" "pre @ ext_bytes (lay_ext l) @ rtp_payload p"]
    by (auto simp: layout_ok_def split)
  have len: "length ?b = length pre + length (ext_bytes (lay_ext l)) + length (rtp_payload p) + lay_pad l"
    by (subst split) simp
  have pay: "take (length ?b - lay_pad l - (length pre + length (ext_bytes (lay_ext l))))
      (drop (length pre + length (ext_bytes (lay_ext l))) ?b) = rtp_payload p"
    unfolding len by (subst split) simp
  have n: "12 \<le> length ?b" "12 + unat (rtp_byte0 l AND 0x0f) * 4 = length pre"
    using assms(1) f(2) lp len by (auto simp: layout_ok_def)
  show ?thesis
    using assms(1) f n e pad len pay b
    by (simp add: parse_rtp_def layout_ok_def Let_def split del: if_split)
qed

theorem rtp_roundtrip_witness:
  "layout_ok \<lparr>lay_csrc = [1, 2], lay_ext = Some (0xbede, [9]), lay_pad = 3, lay_seq = 5, lay_ssrc = 6\<rparr> \<and>
   parse_rtp (build_rtp \<lparr>lay_csrc = [1, 2], lay_ext = Some (0xbede, [9]), lay_pad = 3, lay_seq = 5, lay_ssrc = 6\<rparr>
     \<lparr>rtp_type = 96, rtp_marker = True, rtp_timestamp = 90000, rtp_payload = [0x67, 66]\<rparr>) =
   Inr \<lparr>rtp_type = 96, rtp_marker = True, rtp_timestamp = 90000, rtp_payload = [0x67, 66]\<rparr>"
  using rtp_roundtrip [of "\<lparr>lay_csrc = [1, 2], lay_ext = Some (0xbede, [9]), lay_pad = 3, lay_seq = 5, lay_ssrc = 6\<rparr>"
      "\<lparr>rtp_type = 96, rtp_marker = True, rtp_timestamp = 90000, rtp_payload = [0x67, 66]\<rparr>"]
  by (simp add: layout_ok_def)

end
