(* ===== verification/Aac_Rtp.thy ===== *)
theory Aac_Rtp
  imports Bridge_Prelude
begin

text \<open>
  AAC over RTP (\<open>transport/aac_rtp.rs\<close>): the AU-header section of RFC 3640 in \<open>AAC-hbr\<close> mode,
  the channel count of an access unit and the rebuilt ADTS header.
\<close>

definition SAMPLE_RATE :: nat where "SAMPLE_RATE = 16000"
definition SAMPLE_RATE_INDEX :: u8 where "SAMPLE_RATE_INDEX = 8"
definition FRAME_SAMPLES :: nat where "FRAME_SAMPLES = 1024"
definition ADTS_HEADER :: nat where "ADTS_HEADER = 7"
definition MAX_FRAME_BYTES :: nat where "MAX_FRAME_BYTES = 2 ^ 13 - 1 - ADTS_HEADER"

text \<open>The loop over \<open>headers.chunks_exact(2)\<close>, which drops an odd last byte.\<close>

fun split_units :: "bytes \<Rightarrow> bytes \<Rightarrow> bytes list option" where
  "split_units (a # b # hs) data =
     (let size = unat (drop_bit 3 (from_be16 a b)) in
      if size = 0 \<or> length data < size \<or> MAX_FRAME_BYTES < size then None
      else map_option ((#) (take size data)) (split_units hs (drop size data)))"
| "split_units _ data = (if data = [] then Some [] else None)"

definition access_units :: "bytes \<Rightarrow> bytes list option" where
  "access_units payload =
     (case (get_at payload 0, get_at payload 1) of
        (Some a, Some b) \<Rightarrow>
          let header_bits = unat (from_be16 a b);
              header_end = 2 + header_bits div 8
          in if header_bits = 0 \<or> header_bits mod 16 \<noteq> 0 then None
             else (case (get_range payload 2 header_end, get_range payload header_end (length payload)) of
               (Some headers, Some data) \<Rightarrow> split_units headers data
             | _ \<Rightarrow> None)
      | _ \<Rightarrow> None)"

definition channels :: "bytes \<Rightarrow> u8 option" where
  "channels unit' = (case get_at unit' 0 of None \<Rightarrow> None
     | Some b \<Rightarrow> let e = drop_bit 5 b in if e = 0 then Some 1 else if e = 1 then Some 2 else None)"

definition adts_frame :: "bytes \<Rightarrow> u8 \<Rightarrow> bytes" where
  "adts_frame unit' channels0 =
     (let len = (case try_u16 (length unit' + ADTS_HEADER) of Some n \<Rightarrow> n | None \<Rightarrow> 0xffff) AND 0x1fff;
          length_high = ucast (drop_bit 8 len) :: u8;
          length_low = ucast len :: u8;
          channels = channels0 AND 0x07
      in [0xff, 0xf1,
          0x40 OR push_bit 2 SAMPLE_RATE_INDEX OR drop_bit 2 channels,
          push_bit 6 (channels AND 0x03) OR drop_bit 3 length_high,
          push_bit 5 length_high OR drop_bit 3 length_low,
          push_bit 5 (length_low AND 0x07) OR 0x1f,
          0xfc] @ unit')"

section \<open>Access units\<close>

text \<open>The packets a sender builds: the bit count, one header (13-bit size, 3-bit index) per unit,
  the units.\<close>

definition au_header :: "nat \<Rightarrow> u16 \<Rightarrow> bytes" where
  "au_header n index = to_be16 (push_bit 3 (of_nat n) OR (index AND 0x07))"

definition hbr_payload :: "(bytes \<times> u16) list \<Rightarrow> bytes" where
  "hbr_payload us = to_be16 (of_nat (16 * length us))
     @ concat (map (\<lambda>(u, i). au_header (length u) i) us) @ concat (map fst us)"

lemma drop3_or: "drop_bit 3 (push_bit 3 w OR (i AND 0x07)) = drop_bit 3 (push_bit 3 (w :: u16))"
proof -
  have m: "(0x07 :: u16) = mask 3" by (simp add: mask_eq_exp_minus_1)
  show ?thesis unfolding m by (rule bit_word_eqI) (auto simp: bit_simps)
qed

lemma unat_drop3_push3: "n < 2 ^ 13 \<Longrightarrow> unat (drop_bit 3 (push_bit 3 (of_nat n :: u16))) = n"
  by (simp add: unat_drop_bit_eq push_bit_eq_mult unat_word_ariths unat_of_nat take_bit_nat_eq_self
      drop_bit_eq_div)

lemma au_header_bytes:
  "\<exists>a b. au_header n i = [a, b] \<and> from_be16 a b = push_bit 3 (of_nat n) OR (i AND 0x07)"
  unfolding au_header_def to_be16_def using from_to_be16 by blast

lemma split_units_roundtrip:
  "(\<forall>(u, i) \<in> set us. 0 < length u \<and> length u \<le> MAX_FRAME_BYTES) \<Longrightarrow>
   split_units (concat (map (\<lambda>(u, i). au_header (length u) i) us)) (concat (map fst us)) = Some (map fst us)"
proof (induction us)
  case (Cons p us)
  obtain u i where p: "p = (u, i)" by fastforce
  obtain a b where ab: "au_header (length u) i = [a, b]"
    "from_be16 a b = push_bit 3 (of_nat (length u)) OR (i AND 0x07)"
    using au_header_bytes by blast
  have "length u < 2 ^ 13" "0 < length u" "length u \<le> MAX_FRAME_BYTES"
    using Cons.prems p by (auto simp: MAX_FRAME_BYTES_def ADTS_HEADER_def)
  moreover from this have "unat (drop_bit 3 (from_be16 a b)) = length u"
    using unat_drop3_push3 by (simp add: ab(2) drop3_or)
  ultimately show ?case using Cons p ab by (simp add: Let_def)
qed simp

lemma length_au_headers [simp]:
  "length (concat (map (\<lambda>(u, i). au_header (length u) i) us)) = 2 * length us"
  by (induction us) (auto simp: au_header_def)

lemma access_units_hbr:
  assumes "us \<noteq> []" "length us < 4096" "\<forall>(u, i) \<in> set us. 0 < length u \<and> length u \<le> MAX_FRAME_BYTES"
  shows "access_units (hbr_payload us) = Some (map fst us)"
proof -
  have n: "unat (of_nat (16 * length us) :: u16) = 16 * length us"
    using assms(2) by (simp only: unat_of_nat) (simp add: take_bit_nat_eq_self)
  have "get_at (hbr_payload us) 0 = Some (ucast (drop_bit 8 (of_nat (16 * length us) :: u16)))"
    "get_at (hbr_payload us) 1 = Some (ucast (of_nat (16 * length us) :: u16))"
    by (simp_all add: hbr_payload_def to_be16_def)
  moreover have "get_range (hbr_payload us) 2 (2 + 2 * length us) =
      Some (concat (map (\<lambda>(u, i). au_header (length u) i) us))"
    "get_range (hbr_payload us) (2 + 2 * length us) (length (hbr_payload us)) = Some (concat (map fst us))"
    by (simp_all add: get_range_Some hbr_payload_def to_be16_def)
  ultimately show ?thesis
    using assms(1) n split_units_roundtrip [OF assms(3)]
    by (simp add: access_units_def from_to_be16 Let_def)
qed

lemma split_units_Some:
  "split_units hs data = Some us \<Longrightarrow>
   data = concat us \<and> length us = length hs div 2 \<and> (\<forall>u \<in> set us. 0 < length u \<and> length u \<le> MAX_FRAME_BYTES)"
proof (induction hs data arbitrary: us rule: split_units.induct)
  case (1 a b hs data)
  then show ?case by (auto simp: Let_def split: if_splits) (metis append_take_drop_id)+
qed (auto split: if_splits)

lemma access_units_strict:
  assumes "access_units payload = Some us"
  shows "us \<noteq> [] \<and> length payload = 2 + 2 * length us + length (concat us) \<and>
    drop (2 + 2 * length us) payload = concat us \<and>
    (\<forall>u \<in> set us. 0 < length u \<and> length u \<le> MAX_FRAME_BYTES)"
proof -
  from assms obtain a b hs data where
    ab: "get_at payload 0 = Some a" "get_at payload 1 = Some b" and
    bits: "unat (from_be16 a b) \<noteq> 0" "unat (from_be16 a b) mod 16 = 0" and
    hs: "get_range payload 2 (2 + unat (from_be16 a b) div 8) = Some hs" and
    data: "get_range payload (2 + unat (from_be16 a b) div 8) (length payload) = Some data" and
    s: "split_units hs data = Some us"
    by (auto simp: access_units_def Let_def split: option.splits if_splits)
  define k where "k = unat (from_be16 a b) div 16"
  have k: "unat (from_be16 a b) = 16 * k" using bits(2) by (auto simp: k_def)
  have d8: "unat (from_be16 a b) div 8 = 2 * k" by (simp add: k)
  have "0 < k" using k bits(1) by auto
  moreover have "length hs = 2 * k" using hs get_range_length d8 by fastforce
  moreover have "data = drop (2 + 2 * k) payload" "2 + 2 * k \<le> length payload"
    using data d8 by (auto simp: get_range_Some)
  ultimately show ?thesis
    using split_units_Some [OF s] by auto
qed

text \<open>The AAC depacketiser is exact on the format it reads: a payload built from between 1 and
  4095 access units of 1 to 8184 bytes, whatever the index bits, yields exactly those units in order,
  and conversely any payload it accepts consists of the header section and the returned non-empty
  units with nothing left over, so a stray or truncated packet is never read as audio.\<close>
theorem access_units_roundtrip:
  "(us \<noteq> [] \<and> length us < 4096 \<and> (\<forall>u \<in> set (map fst us). 0 < length u \<and> length u \<le> MAX_FRAME_BYTES) \<longrightarrow>
      access_units (hbr_payload us) = Some (map fst us)) \<and>
   (access_units payload = Some vs \<longrightarrow>
      vs \<noteq> [] \<and> length payload = 2 + 2 * length vs + length (concat vs) \<and>
      drop (2 + 2 * length vs) payload = concat vs)"
  using access_units_hbr [of us] access_units_strict [of payload vs]
  by (auto simp: case_prod_beta)

theorem access_units_roundtrip_witness:
  "access_units (hbr_payload [([1, 64, 32], 0), ([33, 16], 1)]) = Some [[1, 64, 32], [33, 16]]"
  using access_units_roundtrip [of "[([1, 64, 32], 0), ([33, 16], 1)]" "[]" "[]"]
  by (simp add: MAX_FRAME_BYTES_def ADTS_HEADER_def)

section \<open>ADTS\<close>

text \<open>The fields of an ADTS header as ISO 13818-7 lays them out.\<close>

definition adts_length :: "bytes \<Rightarrow> nat" where
  "adts_length f = 2048 * unat (f ! 3 AND 0x03) + 8 * unat (f ! 4) + unat (drop_bit 5 (f ! 5))"

definition adts_channels :: "bytes \<Rightarrow> nat" where
  "adts_channels f = 4 * unat (f ! 2 AND 0x01) + unat (drop_bit 6 (f ! 3))"

lemma adts_byte3: "h < 32 \<Longrightarrow> (push_bit 6 x OR drop_bit 3 h) AND 0x03 = drop_bit 3 (h :: u8)"
proof -
  assume "h < 32"
  then have h: "h AND mask 5 = h" using less_mask_eq [of h 5] by simp
  have m: "(0x03 :: u8) = mask 2" by (simp add: mask_eq_exp_minus_1)
  show ?thesis unfolding m
    by (subst (1 2) h [symmetric], rule bit_word_eqI) (auto simp: bit_simps)
qed

lemma adts_byte4: "unat (push_bit 5 h OR drop_bit 3 (l :: u8)) = 32 * (unat h mod 8) + unat l div 8"
proof -
  have "push_bit 5 h OR drop_bit 3 l = push_bit 5 h + drop_bit 3 l"
    by (rule disjunctive_add [symmetric]) (auto simp: bit_simps dest: bit_imp_le_length)
  moreover have a: "unat (push_bit 5 h) = 32 * (unat h mod 8)"
    by (simp add: push_bit_eq_mult unat_word_ariths mult.commute [of _ 32] mod_mult_mult1 [of 32 _ 8, simplified])
  moreover have b: "unat (drop_bit 3 l) = unat l div 8"
    by (simp add: unat_drop_bit_eq drop_bit_eq_div unat_div)
  moreover have "32 * (unat h mod 8) + unat l div 8 < 256"
  proof -
    have "unat l div 8 < 32" using unat_byte_less [of l] by (simp add: less_mult_imp_div_less)
    moreover have "unat h mod 8 < 8" by simp
    ultimately show ?thesis by linarith
  qed
  ultimately show ?thesis by (simp add: unat_word_ariths)
qed

lemma adts_byte5: "drop_bit 5 (push_bit 5 (l AND 0x07) OR 0x1f) = (l AND 0x07 :: u8)"
proof -
  have m: "(0x1f :: u8) = mask 5" "(0x07 :: u8) = mask 3" by (simp_all add: mask_eq_exp_minus_1)
  show ?thesis unfolding m by (rule bit_word_eqI) (auto simp: bit_simps)
qed

lemma base_8_digits:
  "256 * q + r = n \<Longrightarrow> 8 * a + b = q \<Longrightarrow> 8 * c + d = r \<Longrightarrow> 2048 * a + 8 * (32 * b + c) + d = (n :: nat)"
  by simp

lemma adts_length_frame:
  assumes "length u \<le> MAX_FRAME_BYTES"
  shows "adts_length (adts_frame u c) = length u + 7"
proof -
  let ?n = "length u + 7"
  have n: "?n < 2 ^ 13" using assms by (simp add: MAX_FRAME_BYTES_def ADTS_HEADER_def)
  define w :: u16 where "w = of_nat ?n"
  have u: "unat w = ?n" using n unfolding w_def by (subst unat_of_nat) (simp add: take_bit_nat_eq_self)
  have m: "(0x1fff :: u16) = mask 13" by (simp add: mask_eq_exp_minus_1)
  have wm: "w AND 0x1fff = w" unfolding m using less_mask_eq [of w 13] n u
    by (simp add: word_less_nat_alt)
  have t: "try_u16 (length u + ADTS_HEADER) = Some w"
    using n unfolding try_u16_def w_def ADTS_HEADER_def by simp
  define h :: u8 where "h = ucast (drop_bit 8 w)"
  define l :: u8 where "l = ucast w"
  have h: "unat h = ?n div 256" using u n
    by (simp add: h_def unsigned_ucast_eq drop_bit_eq_div unat_div take_bit_nat_eq_self
        less_mult_imp_div_less)
  have l: "unat l = ?n mod 256"
    using u by (simp add: l_def unsigned_ucast_eq take_bit_eq_mod)
  have f: "adts_frame u c ! 3 = push_bit 6 ((c AND 0x07) AND 0x03) OR drop_bit 3 h"
    "adts_frame u c ! 4 = push_bit 5 h OR drop_bit 3 l"
    "adts_frame u c ! 5 = push_bit 5 (l AND 0x07) OR 0x1f"
    using t by (simp_all add: adts_frame_def Let_def wm h_def l_def)
  have h32: "h < 32" using h n by (simp add: word_less_nat_alt less_mult_imp_div_less)
  have l7: "unat (l AND 0x07) = unat l mod 8"
  proof -
    have m: "(0x07 :: u8) = mask 3" by (simp add: mask_eq_exp_minus_1)
    show ?thesis unfolding m take_bit_eq_mask [symmetric] unsigned_take_bit_eq
      by (simp add: take_bit_eq_mod)
  qed
  have "adts_length (adts_frame u c) =
      2048 * (unat h div 8) + 8 * (32 * (unat h mod 8) + unat l div 8) + unat l mod 8"
    unfolding adts_length_def f adts_byte3 [OF h32] adts_byte4 adts_byte5 l7
    by (simp add: drop_bit_eq_div unat_div)
  also have "\<dots> = ?n" unfolding h l
    by (rule base_8_digits [OF mult_div_mod_eq mult_div_mod_eq mult_div_mod_eq])
  finally show ?thesis .
qed

lemma adts_channels_frame:
  assumes "length u \<le> MAX_FRAME_BYTES" "c = 1 \<or> c = 2"
  shows "adts_channels (adts_frame u c) = unat c"
proof -
  define h :: u8 where "h = ucast (drop_bit 8 (of_nat (length u + 7) AND 0x1fff :: u16))"
  have n: "length u + 7 < 2 ^ 16" using assms(1) by (simp add: MAX_FRAME_BYTES_def ADTS_HEADER_def)
  have f: "adts_frame u c ! 2 = 0x40 OR push_bit 2 8 OR drop_bit 2 (c AND 0x07)"
    "adts_frame u c ! 3 = push_bit 6 ((c AND 0x07) AND 0x03) OR drop_bit 3 h"
    using n by (simp_all add: adts_frame_def Let_def ADTS_HEADER_def try_u16_def SAMPLE_RATE_INDEX_def h_def)
  have "drop_bit 6 (push_bit 6 x OR drop_bit 3 h) = drop_bit 6 (push_bit 6 (x :: u8))" for x
    by (rule bit_word_eqI) (auto simp: bit_simps dest: bit_imp_le_length)
  then show ?thesis using assms(2) unfolding adts_channels_def f by auto
qed

text \<open>The rebuilt ADTS header describes the frame it precedes: for every access unit the
  depacketiser can return and both channel counts it recognises, the header starts with the sync
  word, its 13-bit length field is the length of the whole frame, its channel configuration is the
  channel count, and the access unit follows unchanged.\<close>
theorem adts_header_describes_frame:
  assumes "access_units payload = Some us" "u \<in> set us" "channels u = Some c"
  shows "take 2 (adts_frame u c) = [0xff, 0xf1] \<and>
    adts_length (adts_frame u c) = length (adts_frame u c) \<and>
    adts_channels (adts_frame u c) = unat c \<and> drop ADTS_HEADER (adts_frame u c) = u"
proof -
  have "length u \<le> MAX_FRAME_BYTES" using access_units_strict [OF assms(1)] assms(2) by blast
  moreover have "c = 1 \<or> c = 2" using assms(3) by (auto simp: channels_def Let_def split: option.splits if_splits)
  ultimately show ?thesis
    using adts_length_frame adts_channels_frame
    by (auto simp: adts_frame_def Let_def ADTS_HEADER_def)
qed

theorem adts_header_describes_frame_witness:
  "access_units [0, 16, 0, 16, 0x21, 0x10] = Some [[0x21, 0x10]] \<and> channels [0x21, 0x10] = Some 2 \<and>
   adts_length (adts_frame [0x21, 0x10] 2) = length (adts_frame [0x21, 0x10] 2)"
proof -
  have "access_units [0, 16, 0, 16, 0x21, 0x10] = Some [[0x21, 0x10]]" by code_simp
  moreover have "channels [0x21, 0x10] = Some 2" by code_simp
  ultimately show ?thesis
    using adts_header_describes_frame [of "[0, 16, 0, 16, 0x21, 0x10]" "[[0x21, 0x10]]" "[0x21, 0x10]" 2]
    by simp
qed

end
