(* ===== verification/Rtp_Audio.thy ===== *)
theory Rtp_Audio
  imports Aac_Rtp "HOL-Library.Signed_Division"
begin

text \<open>
  The audio half of an RTP session (\<open>transport/rtp_audio.rs\<close>): the clock that extends wrapping
  32-bit timestamps, and the track that decides which payload type is AAC and stamps its frames.
  Offsets on the 90 kHz timeline are \<open>i64\<close> in the code; one packet moves them by less than
  \<open>2 ^ 31\<close> samples, so they are unbounded integers here. Counters are natural numbers.
\<close>

definition CONFIRMATIONS :: nat where "CONFIRMATIONS = 8"
definition FRAME_TICKS :: int where "FRAME_TICKS = 5760"
definition PROBE_LIMIT :: nat where "PROBE_LIMIT = 400"

section \<open>Clock\<close>

record clock =
  clock_last :: "u32 option"
  clock_elapsed :: int

definition clock_default :: clock where
  "clock_default = \<lparr>clock_last = None, clock_elapsed = 0\<rparr>"

definition clock_advance :: "u32 \<Rightarrow> clock \<Rightarrow> int \<times> clock" where
  "clock_advance timestamp c =
     (let elapsed = (case clock_last c of
            Some prev \<Rightarrow> clock_elapsed c + sint (timestamp - prev)
          | None \<Rightarrow> clock_elapsed c)
      in (elapsed, \<lparr>clock_last = Some timestamp, clock_elapsed = elapsed\<rparr>))"

text \<open>A camera's true timestamps, which the wire truncates to 32 bits.\<close>

fun clock_run :: "int list \<Rightarrow> clock \<Rightarrow> int list" where
  "clock_run [] c = []"
| "clock_run (t # ts) c = (case clock_advance (word_of_int t) c of (e, c') \<Rightarrow> e # clock_run ts c')"

fun small_steps :: "int list \<Rightarrow> bool" where
  "small_steps (a # b # ts) \<longleftrightarrow> - (2 ^ 31) \<le> b - a \<and> b - a < 2 ^ 31 \<and> small_steps (b # ts)"
| "small_steps _ \<longleftrightarrow> True"

lemma sint_wrap_sub:
  assumes "- (2 ^ 31) \<le> b - a" "b - a < 2 ^ 31"
  shows "sint (word_of_int b - word_of_int a :: u32) = b - a"
proof -
  have "word_of_int b - word_of_int a = (word_of_int (b - a) :: u32)" by simp
  moreover have "sint (word_of_int (b - a) :: u32) = b - a"
    using assms by (subst signed_of_int) (simp add: signed_take_bit_int_eq_self)
  ultimately show ?thesis by (simp only:)
qed

lemma clock_run_from:
  "small_steps (t # ts) \<Longrightarrow>
   clock_run ts \<lparr>clock_last = Some (word_of_int t), clock_elapsed = e\<rparr> = map (\<lambda>x. e + (x - t)) ts"
proof (induction ts arbitrary: t e)
  case (Cons u ts)
  then have "sint (word_of_int u - word_of_int t :: u32) = u - t" by (intro sint_wrap_sub) auto
  with Cons show ?case by (simp add: clock_advance_def Let_def)
qed simp

section \<open>Track\<close>

datatype probe = Undecided | Confirmed | Absent

type_synonym pending_packet = "u32 \<times> bytes \<times> int"

record audio_track =
  payload_type :: "u8 option"
  candidate :: "(u8 \<times> nat) option"
  pending :: "pending_packet list"
  probed :: nat
  gave_up :: bool
  track_channels :: u8
  track_clock :: clock
  anchor :: "int option"
  track_frames :: nat
  unreadable :: nat

definition audio_track_default :: audio_track where
  "audio_track_default = \<lparr>payload_type = None, candidate = None, pending = [], probed = 0,
     gave_up = False, track_channels = 0, track_clock = clock_default, anchor = None,
     track_frames = 0, unreadable = 0\<rparr>"

definition track_probe :: "audio_track \<Rightarrow> probe" where
  "track_probe t = (if payload_type t \<noteq> None then Confirmed else if gave_up t then Absent else Undecided)"

definition give_up :: "audio_track \<Rightarrow> audio_track" where
  "give_up t = (let t = t\<lparr>pending := []\<rparr> in
     if track_probe t = Undecided then t\<lparr>gave_up := True\<rparr> else t)"

definition aac_packet :: "bytes \<Rightarrow> (u8 \<times> nat) option" where
  "aac_packet payload = (case access_units payload of
     None \<Rightarrow> None
   | Some units \<Rightarrow> (case units of
       [] \<Rightarrow> None
     | u # _ \<Rightarrow> (case channels u of
         None \<Rightarrow> None
       | Some first \<Rightarrow> if list_all (\<lambda>u. channels u \<noteq> None) units then Some (first, length units) else None)))"

definition detect :: "u8 \<Rightarrow> u32 \<Rightarrow> bytes \<Rightarrow> int \<Rightarrow> audio_track \<Rightarrow> probe \<times> audio_track" where
  "detect ptype timestamp payload video_pts t =
     (if track_probe t \<noteq> Undecided then (track_probe t, t)
      else
        let t1 = t\<lparr>probed := probed t + 1\<rparr>;
            valid = aac_packet payload;
            t2 = (case (candidate t1, valid) of
                (_, None) \<Rightarrow> t1\<lparr>pending := [], candidate := None\<rparr>
              | (None, Some (_, frames)) \<Rightarrow> t1\<lparr>pending := [], candidate := Some (ptype, frames)\<rparr>
              | (Some (kind, count), Some (_, frames)) \<Rightarrow>
                  if kind = ptype then t1\<lparr>candidate := Some (kind, count + frames)\<rparr>
                  else t1\<lparr>pending := [], candidate := Some (ptype, frames)\<rparr>);
            t3 = (if valid \<noteq> None then t2\<lparr>pending := pending t2 @ [(timestamp, payload, video_pts)]\<rparr> else t2);
            t4 = (case candidate t3 of
                Some (kind, count) \<Rightarrow>
                  if CONFIRMATIONS \<le> count then
                    t3\<lparr>payload_type := Some kind,
                       track_channels := (case valid of None \<Rightarrow> 1 | Some (chs, _) \<Rightarrow> chs)\<rparr>
                  else if PROBE_LIMIT \<le> probed t3 then give_up t3 else t3
              | None \<Rightarrow> if PROBE_LIMIT \<le> probed t3 then give_up t3 else t3)
        in (track_probe t4, t4))"

text \<open>The loop over the access units of one packet.\<close>

fun stamp_units :: "int \<Rightarrow> int \<Rightarrow> nat \<Rightarrow> bytes list \<Rightarrow> audio_track \<Rightarrow> (int \<times> bytes) list \<times> audio_track" where
  "stamp_units anc elapsed index [] t = ([], t)"
| "stamp_units anc elapsed index (u # us) t =
     (let chs = (case channels u of Some c \<Rightarrow> c | None \<Rightarrow> track_channels t);
          samples = elapsed + int index * int FRAME_SAMPLES;
          pts = anc + (samples * 90000) sdiv (int SAMPLE_RATE);
          (rest, t') = stamp_units anc elapsed (Suc index) us
             (t\<lparr>track_channels := chs, track_frames := track_frames t + 1\<rparr>)
      in ((pts, adts_frame u chs) # rest, t'))"

definition frames :: "u8 \<Rightarrow> u32 \<Rightarrow> bytes \<Rightarrow> int \<Rightarrow> audio_track \<Rightarrow> (int \<times> bytes) list \<times> audio_track" where
  "frames ptype timestamp payload video_pts t =
     (if payload_type t \<noteq> Some ptype then ([], t)
      else case access_units payload of
        None \<Rightarrow> ([], t\<lparr>unreadable := unreadable t + 1\<rparr>)
      | Some units \<Rightarrow>
          let (elapsed, clk) = clock_advance timestamp (track_clock t);
              span = int (length units - 1) * FRAME_TICKS;
              anc = (case anchor t of Some a \<Rightarrow> a | None \<Rightarrow> video_pts - span)
          in stamp_units anc elapsed 0 units (t\<lparr>track_clock := clk, anchor := Some anc\<rparr>))"

fun drain_packets :: "u8 \<Rightarrow> pending_packet list \<Rightarrow> audio_track \<Rightarrow> (int \<times> bytes) list \<times> audio_track" where
  "drain_packets ptype [] t = ([], t)"
| "drain_packets ptype ((timestamp, payload, video_pts) # ps) t =
     (case frames ptype timestamp payload video_pts t of (a, t') \<Rightarrow>
      case drain_packets ptype ps t' of (b, t'') \<Rightarrow> (a @ b, t''))"

definition drain_pending :: "audio_track \<Rightarrow> (int \<times> bytes) list \<times> audio_track" where
  "drain_pending t = (case payload_type t of
     None \<Rightarrow> ([], t)
   | Some ptype \<Rightarrow> drain_packets ptype (pending t) (t\<lparr>pending := []\<rparr>))"

definition discard_pending :: "audio_track \<Rightarrow> audio_track" where
  "discard_pending t = t\<lparr>pending := []\<rparr>"

section \<open>Timestamps\<close>

text \<open>The clock undoes the 32-bit wrap: for any sequence of true camera timestamps whose
  consecutive steps fit a signed 32-bit difference, feeding the truncated values yields at every
  step the true distance from the first one, across any number of wrap-arounds.\<close>
theorem clock_unwraps:
  assumes "small_steps (t # ts)"
  shows "clock_run (t # ts) clock_default = map (\<lambda>x. x - t) (t # ts)"
  using clock_run_from [OF assms, of 0] by (simp add: clock_advance_def clock_default_def)

theorem clock_unwraps_witness:
  "small_steps [4294967000, 4294969000, 4294971000] \<and>
   clock_run [4294967000, 4294969000, 4294971000] clock_default = [0, 2000, 4000]"
  using clock_unwraps [of 4294967000 "[4294969000, 4294971000]"] by simp

section \<open>Detection\<close>

type_synonym other_packet = "u8 \<times> u32 \<times> bytes \<times> int"

fun detect_run :: "other_packet list \<Rightarrow> audio_track \<Rightarrow> audio_track" where
  "detect_run [] t = t"
| "detect_run ((ptype, ts, payload, v) # ps) t = detect_run ps (snd (detect ptype ts payload v t))"

lemma detect_run_append: "detect_run (ps @ qs) t = detect_run qs (detect_run ps t)"
  by (induction ps t rule: detect_run.induct) simp_all

lemma give_up_simps [simp]:
  "payload_type (give_up t) = payload_type t" "pending (give_up t) = []"
  "probed (give_up t) = probed t" "track_probe (give_up t) \<noteq> Undecided"
  by (auto simp: give_up_def Let_def track_probe_def)

lemma gave_up_give_up [simp]: "payload_type t = None \<Longrightarrow> gave_up (give_up t)"
  by (auto simp: give_up_def track_probe_def Let_def)

definition units_of :: "bytes \<Rightarrow> nat" where
  "units_of payload = (case access_units payload of None \<Rightarrow> 0 | Some us \<Rightarrow> length us)"

text \<open>A stretch of consecutive packets of one type that all read as AAC.\<close>

definition aac_stretch :: "u8 \<Rightarrow> other_packet list \<Rightarrow> bool" where
  "aac_stretch k b \<longleftrightarrow> (\<forall>(ptype, ts, payload, v) \<in> set b. ptype = k \<and> aac_packet payload \<noteq> None)"

definition stretch_frames :: "other_packet list \<Rightarrow> nat" where
  "stretch_frames b = sum_list (map (\<lambda>(ptype, ts, payload, v). units_of payload) b)"

text \<open>What the track knows after the packets \<open>h\<close>: while undecided it has probed all of them and
  its candidate counts the frames of the last stretch, too few to confirm; once confirmed, some
  stretch had enough of them.\<close>

definition track_knows :: "other_packet list \<Rightarrow> audio_track \<Rightarrow> bool" where
  "track_knows h t \<longleftrightarrow>
     (case track_probe t of
        Undecided \<Rightarrow> probed t = length h \<and> length h < PROBE_LIMIT \<and>
          (case candidate t of None \<Rightarrow> pending t = []
           | Some (k, n) \<Rightarrow> n < CONFIRMATIONS \<and>
               (\<exists>a b. h = a @ b \<and> aac_stretch k b \<and> stretch_frames b = n \<and> pending t = map snd b))
      | Confirmed \<Rightarrow> \<exists>k a b c. payload_type t = Some k \<and> h = a @ b @ c \<and> aac_stretch k b \<and>
          CONFIRMATIONS \<le> stretch_frames b
      | Absent \<Rightarrow> True)"

lemma aac_packet_units: "aac_packet payload = Some (c, n) \<Longrightarrow> units_of payload = n"
  by (auto simp: aac_packet_def units_of_def split: option.splits list.splits if_splits)

lemma stretch_simps [simp]:
  "aac_stretch k []" "stretch_frames [] = 0"
  "aac_stretch k (b @ [(p, ts, payload, v)]) \<longleftrightarrow> aac_stretch k b \<and> p = k \<and> aac_packet payload \<noteq> None"
  "stretch_frames (b @ [(p, ts, payload, v)]) = stretch_frames b + units_of payload"
  by (auto simp: aac_stretch_def stretch_frames_def)

lemma track_knows_default: "track_knows [] audio_track_default"
  by (simp add: track_knows_def audio_track_default_def track_probe_def PROBE_LIMIT_def)

text \<open>The outcome of one undecided step, by what the packet is.\<close>

lemma detect_rejected:
  assumes "track_probe t = Undecided" "aac_packet payload = None"
  shows "snd (detect p ts payload v t) =
    (let t' = t\<lparr>probed := probed t + 1, pending := [], candidate := None\<rparr>
     in if PROBE_LIMIT \<le> probed t + 1 then give_up t' else t')"
  using assms by (auto simp: detect_def Let_def split: option.splits)

definition extended :: "u8 \<Rightarrow> nat \<Rightarrow> audio_track \<Rightarrow> nat \<times> pending_packet list" where
  "extended p n t = (case candidate t of
     Some (k, m) \<Rightarrow> if k = p then (m + n, pending t) else (n, []) | None \<Rightarrow> (n, []))"

lemma detect_aac:
  assumes "track_probe t = Undecided" "aac_packet payload = Some (c, n)" "extended p n t = (m, held)"
  shows "snd (detect p ts payload v t) =
    (let t' = t\<lparr>probed := probed t + 1, candidate := Some (p, m), pending := held @ [(ts, payload, v)]\<rparr>
     in if CONFIRMATIONS \<le> m then t'\<lparr>payload_type := Some p, track_channels := c\<rparr>
        else if PROBE_LIMIT \<le> probed t + 1 then give_up t' else t')"
  using assms by (auto simp: detect_def extended_def Let_def split: option.splits prod.splits if_splits)

lemma detect_knows:
  assumes "track_knows h t"
  shows "track_knows (h @ [(p, ts, payload, v)]) (snd (detect p ts payload v t))"
proof (cases "track_probe t = Undecided")
  case False
  then have same: "snd (detect p ts payload v t) = t" by (simp add: detect_def)
  show ?thesis
  proof (cases "track_probe t = Confirmed")
    case True
    then obtain k a b c where "payload_type t = Some k" "h = a @ b @ c" "aac_stretch k b"
      "CONFIRMATIONS \<le> stretch_frames b"
      using assms by (auto simp: track_knows_def)
    then have "\<exists>k a b c'. payload_type t = Some k \<and> h @ [(p, ts, payload, v)] = a @ b @ c' \<and>
        aac_stretch k b \<and> CONFIRMATIONS \<le> stretch_frames b"
      by (intro exI [of _ k] exI [of _ a] exI [of _ b] exI [of _ "c @ [(p, ts, payload, v)]"]) simp
    then show ?thesis using True same by (simp add: track_knows_def)
  qed (use False same in \<open>cases "track_probe t"; simp add: track_knows_def\<close>)
next
  case True
  then have k: "probed t = length h" "length h < PROBE_LIMIT" and none: "payload_type t = None" "\<not> gave_up t"
    using assms by (auto simp: track_knows_def track_probe_def split: if_splits)
  show ?thesis
  proof (cases "aac_packet payload")
    case None
    show ?thesis
      using k none by (auto simp: detect_rejected [OF True None] Let_def track_knows_def track_probe_def)
  next
    case (Some cn)
    obtain c n where cn: "cn = (c, n)" by fastforce
    obtain m held where e: "extended p n t = (m, held)" by fastforce
    have "\<exists>a b. h = a @ b \<and> aac_stretch p b \<and> stretch_frames b + n = m \<and> held = map snd b"
    proof (cases "\<exists>j. candidate t = Some (p, j)")
      case True
      then show ?thesis
        using assms e \<open>track_probe t = Undecided\<close> by (force simp: track_knows_def extended_def)
    next
      case False
      then show ?thesis
        using e by (intro exI [of _ h] exI [of _ "[]"]) (auto simp: extended_def split: option.splits)
    qed
    then obtain a b where ab: "h @ [(p, ts, payload, v)] = a @ b @ [(p, ts, payload, v)]"
      "aac_stretch p (b @ [(p, ts, payload, v)])" "stretch_frames (b @ [(p, ts, payload, v)]) = m"
      "held @ [(ts, payload, v)] = map snd (b @ [(p, ts, payload, v)])"
      using Some cn aac_packet_units by auto
    have "\<exists>a' b'. h @ [(p, ts, payload, v)] = a' @ b' \<and> aac_stretch p b' \<and> stretch_frames b' = m \<and>
        held @ [(ts, payload, v)] = map snd b'"
      using ab by blast
    moreover have "\<exists>a' b' c'. h @ [(p, ts, payload, v)] = a' @ b' @ c' \<and> aac_stretch p b' \<and> stretch_frames b' = m"
      using ab by (metis append_Nil2)
    ultimately show ?thesis
      using k none detect_aac [OF True Some [unfolded cn] e, of ts v]
      by (auto simp: Let_def track_knows_def track_probe_def)
  qed
qed

lemma detect_run_knows: "track_knows h t \<Longrightarrow> track_knows (h @ ps) (detect_run ps t)"
proof (induction ps t arbitrary: h rule: detect_run.induct)
  case (2 p ts payload v ps t)
  from "2.IH" [OF detect_knows [OF 2(2)]] show ?case by simp
qed simp

text \<open>Audio detection is sound and bounded: after any sequence of non-video packets, the track
  is confirmed only if some run of consecutive packets of that one payload type, each reading as AAC
  throughout, held at least eight frames; and after 400 packets the question is settled, one way or
  the other, so video is never held back indefinitely by it.\<close>
theorem audio_detection_sound:
  "(\<forall>k. payload_type (detect_run ps audio_track_default) = Some k \<longrightarrow>
      (\<exists>a b c. ps = a @ b @ c \<and> aac_stretch k b \<and> CONFIRMATIONS \<le> stretch_frames b)) \<and>
   (PROBE_LIMIT \<le> length ps \<longrightarrow> track_probe (detect_run ps audio_track_default) \<noteq> Undecided)"
proof -
  let ?t = "detect_run ps audio_track_default"
  have k: "track_knows ps ?t" using detect_run_knows [OF track_knows_default, of ps] by simp
  have "\<exists>a b c. ps = a @ b @ c \<and> aac_stretch k b \<and> CONFIRMATIONS \<le> stretch_frames b"
    if "payload_type ?t = Some k" for k
  proof -
    have "track_probe ?t = Confirmed" using that by (simp add: track_probe_def)
    with k that show ?thesis by (auto simp: track_knows_def)
  qed
  moreover have "track_probe ?t \<noteq> Undecided" if "PROBE_LIMIT \<le> length ps"
    using k that by (auto simp: track_knows_def)
  ultimately show ?thesis by blast
qed

theorem audio_detection_sound_witness:
  "let ps = replicate 8 (97, 0, [0, 16, 0, 8, 1], 0) in
   payload_type (detect_run ps audio_track_default) = Some 97 \<and>
   (\<exists>a b c. ps = a @ b @ c \<and> aac_stretch 97 b \<and> CONFIRMATIONS \<le> stretch_frames b)"
proof -
  have "payload_type (detect_run (replicate 8 (97, 0, [0, 16, 0, 8, 1], 0)) audio_track_default) = Some 97"
    by code_simp
  then show ?thesis
    using audio_detection_sound [of "replicate 8 (97, 0, [0, 16, 0, 8, 1], 0)"] unfolding Let_def by blast
qed

end
