(* ===== verification/Rtp_Ts.thy ===== *)
theory Rtp_Ts
  imports Rtp_Video Rtp_Audio
begin

text \<open>
  RTP video and AAC audio to MPEG-TS (\<open>transport/rtp_ts.rs\<close>) and the pipeline that drives it
  (\<open>transport/video_pipeline.rs\<close>): access units cut on the RTP timestamp, video held back until the
  audio question is settled, and everything written through one muxer.
\<close>

definition PTS_BASE :: int where "PTS_BASE = 90000"
definition AUDIO_WAIT :: int where "AUDIO_WAIT = 90000"
definition MAX_HELD_UNITS :: nat where "MAX_HELD_UNITS = 64"
definition MAX_HELD_BYTES :: nat where "MAX_HELD_BYTES = 16 * 1024 * 1024"
definition MAX_UNIT_BYTES :: nat where "MAX_UNIT_BYTES = 8 * 1024 * 1024"

record held_unit =
  hu_pts :: int
  hu_keyframe :: bool
  hu_data :: bytes

record rtp_to_ts =
  ts_video :: rtp_video
  ts_muxer_opt :: "ts_muxer option"
  ts_clock :: clock
  ts_unit :: bytes
  unit_timestamp :: "u32 option"
  started :: bool
  last_pts :: int
  held_units :: "held_unit list"
  ts_audio :: audio_track

definition rtp_to_ts_new :: "rtp_video \<Rightarrow> rtp_to_ts" where
  "rtp_to_ts_new v = \<lparr>ts_video = v, ts_muxer_opt = None, ts_clock = clock_default, ts_unit = [],
     unit_timestamp = None, started = False, last_pts = PTS_BASE, held_units = [],
     ts_audio = audio_track_default\<rparr>"

definition non_negative :: "int \<Rightarrow> u64" where
  "non_negative pts = (if 0 \<le> pts then of_int pts else 0)"

text \<open>\<open>unit.windows(5)\<close>: a start code followed by a key NAL type.\<close>

fun is_keyframe :: "video_codec \<Rightarrow> bytes \<Rightarrow> bool" where
  "is_keyframe c (w0 # w1 # w2 # w3 # w4 # rest) =
     (([w0, w1, w2, w3] = [0, 0, 0, 1] \<and>
       (case c of H264 \<Rightarrow> w4 AND 0x1f = 5
        | Hevc \<Rightarrow> (let t = drop_bit 1 w4 AND 0x3f in 16 \<le> t \<and> t \<le> 21)))
      \<or> is_keyframe c (w1 # w2 # w3 # w4 # rest))"
| "is_keyframe c _ = False"

section \<open>Writing\<close>

type_synonym frame = "int \<times> bytes"

fun write_frames :: "frame list \<Rightarrow> ts_muxer \<Rightarrow> bytes \<times> ts_muxer" where
  "write_frames [] m = ([], m)"
| "write_frames ((pts, f) # fs) m =
     (case mux_audio_frames (non_negative pts) f m of (a, m') \<Rightarrow>
      case write_frames fs m' of (b, m'') \<Rightarrow> (a @ b, m''))"

text \<open>\<open>frames.next_if(|(pts, _)| *pts < unit.pts)\<close> until it fails.\<close>

fun write_held :: "held_unit list \<Rightarrow> frame list \<Rightarrow> ts_muxer \<Rightarrow> bytes \<times> ts_muxer" where
  "write_held [] fs m = write_frames fs m"
| "write_held (u # us) fs m =
     (let early = takeWhile (\<lambda>(pts, _). pts < hu_pts u) fs;
          late = dropWhile (\<lambda>(pts, _). pts < hu_pts u) fs;
          (a, m1) = write_frames early m;
          (b, m2) = mux_video (non_negative (hu_pts u)) (hu_keyframe u) (hu_data u) m1;
          (c, m3) = write_held us late m2
      in (a @ b @ c, m3))"

definition release_held :: "frame list \<Rightarrow> rtp_to_ts \<Rightarrow> bytes \<times> rtp_to_ts" where
  "release_held audio s = (case rv_codec (ts_video s) of
     None \<Rightarrow> ([], s)
   | Some c \<Rightarrow>
       if track_probe (ts_audio s) = Undecided \<or> \<not> started s then ([], s)
       else
         let with_audio = (track_probe (ts_audio s) = Confirmed);
             muxer = (case ts_muxer_opt s of Some m \<Rightarrow> m
               | None \<Rightarrow> if with_audio then enable_audio (ts_muxer_new c) else ts_muxer_new c);
             (out, m') = write_held (held_units s) audio muxer
         in (out, s\<lparr>ts_muxer_opt := Some m', held_units := []\<rparr>))"

definition held_total :: "held_unit list \<Rightarrow> nat" where
  "held_total us = sum_list (map (\<lambda>u. length (hu_data u)) us)"

definition must_release :: "held_unit list \<Rightarrow> bool" where
  "must_release us \<longleftrightarrow> AUDIO_WAIT \<le> hu_pts (last us) - hu_pts (us ! 0)
     \<or> MAX_HELD_UNITS \<le> length us \<or> MAX_HELD_BYTES \<le> held_total us"

definition hold_unit :: "u32 \<Rightarrow> bool \<Rightarrow> bytes \<Rightarrow> rtp_to_ts \<Rightarrow> rtp_to_ts" where
  "hold_unit timestamp keyframe data s =
     (let clk = (if started s then ts_clock s else clock_default);
          (elapsed, clk') = clock_advance timestamp clk;
          pts = PTS_BASE + elapsed;
          s' = s\<lparr>ts_clock := clk', started := True, last_pts := pts,
            held_units := held_units s @ [\<lparr>hu_pts = pts, hu_keyframe = keyframe, hu_data = data\<rparr>]\<rparr>
      in if track_probe (ts_audio s') = Undecided \<and> must_release (held_units s')
         then s'\<lparr>ts_audio := give_up (ts_audio s')\<rparr> else s')"

definition flush_unit :: "rtp_to_ts \<Rightarrow> bytes \<times> rtp_to_ts" where
  "flush_unit s = (case unit_timestamp s of
     None \<Rightarrow> ([], s)
   | Some timestamp \<Rightarrow>
       let data = ts_unit s; s1 = s\<lparr>unit_timestamp := None, ts_unit := []\<rparr> in
       case rv_codec (ts_video s1) of
         None \<Rightarrow> ([], s1)
       | Some c \<Rightarrow>
           let keyframe = is_keyframe c data in
           if \<not> started s1 \<and> \<not> keyframe then ([], s1)
           else release_held [] (hold_unit timestamp keyframe data s1))"

definition audio_packet :: "u8 \<Rightarrow> u32 \<Rightarrow> bytes \<Rightarrow> rtp_to_ts \<Rightarrow> bytes \<times> rtp_to_ts" where
  "audio_packet ptype timestamp payload s =
     (let before = track_probe (ts_audio s);
          (now, t) = detect ptype timestamp payload (last_pts s) (ts_audio s);
          s1 = s\<lparr>ts_audio := t\<rparr>
      in if now = Undecided then ([], s1)
         else if before = Undecided \<and> now = Confirmed then
           (if \<not> started s1 then ([], s1\<lparr>ts_audio := discard_pending t\<rparr>)
            else case drain_pending t of (fs, t') \<Rightarrow> release_held fs (s1\<lparr>ts_audio := t'\<rparr>))
         else
           let (out, s2) = release_held [] s1 in
           if \<not> started s2 then (out, s2)
           else
             let (fs, t') = frames ptype timestamp payload (last_pts s2) (ts_audio s2);
                 s3 = s2\<lparr>ts_audio := t'\<rparr>
             in case ts_muxer_opt s3 of
                  None \<Rightarrow> (out, s3)
                | Some m \<Rightarrow> (case write_frames fs m of (rest, m') \<Rightarrow> (out @ rest, s3\<lparr>ts_muxer_opt := Some m'\<rparr>)))"

section \<open>One packet\<close>

fun take_item :: "rtp_output \<Rightarrow> rtp_to_ts \<Rightarrow> bridge_error + (bytes \<times> rtp_to_ts)" where
  "take_item (OutVideo timestamp marker data) s =
     (let (a, s1) = (if unit_timestamp s \<noteq> None \<and> unit_timestamp s \<noteq> Some timestamp
                     then flush_unit s else ([], s));
          s2 = (if data \<noteq> [] then s1\<lparr>unit_timestamp := Some timestamp, ts_unit := ts_unit s1 @ data\<rparr> else s1)
      in if data \<noteq> [] \<and> MAX_UNIT_BYTES < length (ts_unit s2)
         then Inl (Capacity ''RTP video access unit exceeded its byte bound'')
         else let (b, s3) = (if marker then flush_unit s2 else ([], s2)) in Inr (a @ b, s3))"
| "take_item (OutOther ptype timestamp payload) s = Inr (audio_packet ptype timestamp payload s)"

fun take_items :: "rtp_output list \<Rightarrow> rtp_to_ts \<Rightarrow> bridge_error + (bytes \<times> rtp_to_ts)" where
  "take_items [] s = Inr ([], s)"
| "take_items (i # is) s = try_bind (take_item i s) (\<lambda>(a, s').
     try_bind (take_items is s') (\<lambda>(b, s''). Inr (a @ b, s'')))"

definition ts_feed :: "block_cipher \<Rightarrow> bytes \<Rightarrow> rtp_to_ts \<Rightarrow> bridge_error + (bytes \<times> rtp_to_ts)" where
  "ts_feed dec packet s = try_bind (rv_feed dec packet (ts_video s)) (\<lambda>(items, v).
     take_items items (s\<lparr>ts_video := v\<rparr>))"

definition ts_finish :: "rtp_to_ts \<Rightarrow> bytes \<times> rtp_to_ts" where
  "ts_finish s = (case flush_unit s of (a, s1) \<Rightarrow>
     case release_held [] (s1\<lparr>ts_audio := give_up (ts_audio s1)\<rparr>) of (b, s2) \<Rightarrow> (a @ b, s2))"

section \<open>The pipeline\<close>

text \<open>What \<open>session.next_payload\<close> delivers: a payload, the end of the stream (also on
  cancellation), or an error. The consumer is a trait object: \<open>accepts sent chunk\<close> says whether it
  takes \<open>chunk\<close> after the chunks \<open>sent\<close>. The result is what it was handed and what the call returns.\<close>

datatype session_item = Payload bytes | EndOfStream | Failed bridge_error

definition copy_tail :: "bool \<Rightarrow> rtp_to_ts \<Rightarrow> bytes list \<Rightarrow> bytes list \<times> (bridge_error + unit)" where
  "copy_tail cancelled s sent =
     (if \<not> started s then
        (sent, if cancelled then Inr ()
          else Inl (Upstream ''RTP stream ended before a keyframe of a supported codec''))
      else case ts_finish s of (tail, _) \<Rightarrow> (if tail \<noteq> [] then sent @ [tail] else sent, Inr ()))"

fun copy_loop ::
  "block_cipher \<Rightarrow> (bytes list \<Rightarrow> bytes \<Rightarrow> bool) \<Rightarrow> bool \<Rightarrow> session_item list \<Rightarrow> rtp_to_ts \<Rightarrow> bytes list
    \<Rightarrow> bytes list \<times> (bridge_error + unit)" where
  "copy_loop dec accepts cancelled [] s sent = copy_tail cancelled s sent"
| "copy_loop dec accepts cancelled (EndOfStream # is) s sent = copy_tail cancelled s sent"
| "copy_loop dec accepts cancelled (Failed e # is) s sent = (sent, Inl e)"
| "copy_loop dec accepts cancelled (Payload packet # is) s sent =
     (if packet = [] then copy_loop dec accepts cancelled is s sent
      else case ts_feed dec packet s of
        Inl e \<Rightarrow> (sent, Inl e)
      | Inr (chunk, s') \<Rightarrow>
          if chunk = [] then copy_loop dec accepts cancelled is s' sent
          else if accepts sent chunk then copy_loop dec accepts cancelled is s' (sent @ [chunk])
          else (sent @ [chunk], Inr ()))"

definition copy_as_mpeg_ts ::
  "block_cipher \<Rightarrow> (bytes list \<Rightarrow> bytes \<Rightarrow> bool) \<Rightarrow> bool \<Rightarrow> bytes option \<Rightarrow> session_item list \<Rightarrow> rtp_video
    \<Rightarrow> bytes list \<times> (bridge_error + unit)" where
  "copy_as_mpeg_ts dec accepts cancelled first items v =
     copy_loop dec accepts cancelled ((case first of Some p \<Rightarrow> [Payload p] | None \<Rightarrow> []) @ items)
       (rtp_to_ts_new v) []"

section \<open>Everything goes through the muxer\<close>

text \<open>The operations on the muxer that produced an output, the first video among them a keyframe
  when the muxer is new.\<close>

fun video_keys :: "mux_op list \<Rightarrow> bool list" where
  "video_keys [] = []"
| "video_keys (Video pts k au # ops) = k # video_keys ops"
| "video_keys (_ # ops) = video_keys ops"

definition starts_keyed :: "mux_op list \<Rightarrow> bool" where
  "starts_keyed ops \<longleftrightarrow> (case video_keys ops of k # _ \<Rightarrow> k | [] \<Rightarrow> False)"

lemma video_keys_append [simp]: "video_keys (a @ b) = video_keys a @ video_keys b"
  by (induction a rule: video_keys.induct) auto

lemma starts_keyed_append [simp]: "starts_keyed a \<Longrightarrow> starts_keyed (a @ b)"
  by (auto simp: starts_keyed_def split: list.splits)

definition audio_ops :: "frame list \<Rightarrow> mux_op list" where
  "audio_ops fs = map (\<lambda>(pts, f). Audio (non_negative pts) f) fs"

lemma audio_ops_keys [simp]: "video_keys (audio_ops fs) = []"
  by (induction fs) (auto simp: audio_ops_def)

fun held_ops :: "held_unit list \<Rightarrow> frame list \<Rightarrow> mux_op list" where
  "held_ops [] fs = audio_ops fs"
| "held_ops (u # us) fs = audio_ops (takeWhile (\<lambda>(pts, _). pts < hu_pts u) fs)
     @ Video (non_negative (hu_pts u)) (hu_keyframe u) (hu_data u)
     # held_ops us (dropWhile (\<lambda>(pts, _). pts < hu_pts u) fs)"

lemma write_frames_ops: "write_frames fs m = run_ops mux_step (audio_ops fs) m"
  by (induction fs m rule: write_frames.induct) (auto simp: audio_ops_def split: prod.splits)

lemma write_held_ops: "write_held us fs m = run_ops mux_step (held_ops us fs) m"
proof (induction us fs m rule: write_held.induct)
  case (2 u us fs m)
  then show ?case
    by (auto simp: write_frames_ops run_ops_append split: prod.splits)
qed (simp add: write_frames_ops)

text \<open>The contract of one operation of \<open>RtpToTs\<close> towards its muxer.\<close>

definition ts_emits :: "rtp_to_ts \<Rightarrow> bytes \<Rightarrow> rtp_to_ts \<Rightarrow> bool" where
  "ts_emits s out s' = (case (ts_muxer_opt s, ts_muxer_opt s') of
     (None, None) \<Rightarrow> out = []
   | (None, Some m') \<Rightarrow> \<exists>c ops. run_ops mux_step ops (ts_muxer_new c) = (out, m') \<and> starts_keyed ops
   | (Some m, Some m') \<Rightarrow> \<exists>ops. run_ops mux_step ops m = (out, m')
   | (Some m, None) \<Rightarrow> False)"

lemma ts_emits_same: "ts_muxer_opt s' = ts_muxer_opt s \<Longrightarrow> ts_emits s [] s'"
  unfolding ts_emits_def by (cases "ts_muxer_opt s") (auto intro: exI [of _ "[]"])

lemma run_ops_join:
  "run_ops f is s = (a, s') \<Longrightarrow> run_ops f js s' = (b, s'') \<Longrightarrow> run_ops f (is @ js) s = (a @ b, s'')"
  by (simp add: run_ops_append)

lemma ts_emits_append: "ts_emits s a s' \<Longrightarrow> ts_emits s' b s'' \<Longrightarrow> ts_emits s (a @ b) s''"
  unfolding ts_emits_def
  by (cases "ts_muxer_opt s"; cases "ts_muxer_opt s'"; cases "ts_muxer_opt s''")
    (auto; meson run_ops_join starts_keyed_append)+

section \<open>The invariant\<close>

definition held_fits :: "held_unit list \<Rightarrow> bool" where
  "held_fits us \<longleftrightarrow> length us < MAX_HELD_UNITS \<and> held_total us < MAX_HELD_BYTES \<and>
     (us \<noteq> [] \<longrightarrow> hu_pts (last us) - hu_pts (hd us) < AUDIO_WAIT)"

definition ts_ok :: "rtp_to_ts \<Rightarrow> bool" where
  "ts_ok s \<longleftrightarrow>
     (if track_probe (ts_audio s) = Undecided then held_fits (held_units s) else held_units s = []) \<and>
     (started s \<longrightarrow> rv_codec (ts_video s) \<noteq> None) \<and> (held_units s \<noteq> [] \<longrightarrow> started s) \<and>
     (started s \<and> ts_muxer_opt s = None \<longrightarrow> held_units s \<noteq> [] \<and> hu_keyframe (hd (held_units s))) \<and>
     (ts_muxer_opt s \<noteq> None \<longrightarrow> started s) \<and>
     (track_probe (ts_audio s) = Undecided \<longrightarrow> ts_muxer_opt s = None)"

text \<open>Before a release the held units may exceed the bound by the one just added.\<close>

definition ts_ready :: "rtp_to_ts \<Rightarrow> bool" where
  "ts_ready s \<longleftrightarrow> (track_probe (ts_audio s) = Undecided \<longrightarrow> held_fits (held_units s)) \<and>
     (started s \<longrightarrow> rv_codec (ts_video s) \<noteq> None) \<and> (held_units s \<noteq> [] \<longrightarrow> started s) \<and>
     (started s \<and> ts_muxer_opt s = None \<longrightarrow> held_units s \<noteq> [] \<and> hu_keyframe (hd (held_units s))) \<and>
     (ts_muxer_opt s \<noteq> None \<longrightarrow> started s) \<and>
     (track_probe (ts_audio s) = Undecided \<longrightarrow> ts_muxer_opt s = None)"

lemma ts_ok_ready: "ts_ok s \<Longrightarrow> ts_ready s"
  by (auto simp: ts_ok_def ts_ready_def)

lemma held_ops_keyed:
  "us \<noteq> [] \<Longrightarrow> hu_keyframe (hd us) \<Longrightarrow> starts_keyed (held_ops us fs)"
  by (cases us) (auto simp: starts_keyed_def)

lemma release_held_ok:
  assumes "ts_ready s" "release_held fs s = (out, s')"
  shows "ts_ok s'" "ts_emits s out s'" "started s' = started s" "ts_audio s' = ts_audio s"
    "ts_video s' = ts_video s" "ts_unit s' = ts_unit s" "unit_timestamp s' = unit_timestamp s"
proof -
  have "ts_ok s' \<and> ts_emits s out s'"
  proof (cases "track_probe (ts_audio s) = Undecided \<or> \<not> started s")
    case True
    then have "out = []" "s' = s" using assms(2) by (auto simp: release_held_def split: option.splits)
    moreover have "ts_ok s" using assms(1) True by (auto simp: ts_ready_def ts_ok_def held_fits_def)
    ultimately show ?thesis using ts_emits_same by simp
  next
    case False
    then obtain c where c: "rv_codec (ts_video s) = Some c" using assms(1) by (auto simp: ts_ready_def)
    define m0 where "m0 = (case ts_muxer_opt s of Some m \<Rightarrow> m
      | None \<Rightarrow> if track_probe (ts_audio s) = Confirmed then enable_audio (ts_muxer_new c) else ts_muxer_new c)"
    obtain m' where w: "write_held (held_units s) fs m0 = (out, m')"
      and s': "s' = s\<lparr>ts_muxer_opt := Some m', held_units := []\<rparr>"
      using assms(2) False c by (auto simp: release_held_def Let_def m0_def split: prod.splits)
    have r: "run_ops mux_step (held_ops (held_units s) fs) m0 = (out, m')" using w by (simp add: write_held_ops)
    have "ts_emits s out s'"
    proof (cases "ts_muxer_opt s")
      case None
      then have k: "starts_keyed (held_ops (held_units s) fs)"
        using assms(1) False held_ops_keyed by (auto simp: ts_ready_def)
      have "\<exists>pre. run_ops mux_step pre (ts_muxer_new c) = ([], m0) \<and> video_keys pre = []"
        using None by (auto simp: m0_def intro: exI [of _ "[EnableAudio]"] exI [of _ "[]"])
      then obtain pre where "run_ops mux_step pre (ts_muxer_new c) = ([], m0)" "video_keys pre = []" by blast
      with r k have "run_ops mux_step (pre @ held_ops (held_units s) fs) (ts_muxer_new c) = (out, m')"
        "starts_keyed (pre @ held_ops (held_units s) fs)"
        by (simp_all add: run_ops_append starts_keyed_def)
      then show ?thesis using None s' by (auto simp: ts_emits_def)
    next
      case (Some m)
      then show ?thesis using r s' by (auto simp: ts_emits_def m0_def)
    qed
    moreover have "ts_ok s'" using assms(1) False s' by (auto simp: ts_ready_def ts_ok_def)
    ultimately show ?thesis by blast
  qed
  then show "ts_ok s'" "ts_emits s out s'" by blast+
  show "started s' = started s" "ts_audio s' = ts_audio s"
    "ts_video s' = ts_video s" "ts_unit s' = ts_unit s" "unit_timestamp s' = unit_timestamp s"
    using assms(2) by (auto simp: release_held_def Let_def split: option.splits if_splits prod.splits)
qed

lemma probe_simps [simp]:
  "track_probe (t\<lparr>pending := p\<rparr>) = track_probe t" "track_probe (discard_pending t) = track_probe t"
  by (simp_all add: track_probe_def discard_pending_def)

lemma stamp_units_type:
  "stamp_units a e i us t = (fs, t') \<Longrightarrow> payload_type t' = payload_type t \<and> gave_up t' = gave_up t"
  by (induction us arbitrary: i t fs) (fastforce simp: Let_def split: prod.splits)+

lemma frames_probe: "frames p ts payload v t = (fs, t') \<Longrightarrow> track_probe t' = track_probe t"
  by (auto simp: frames_def Let_def track_probe_def split: if_splits option.splits prod.splits
      dest!: stamp_units_type)

lemma drain_packets_probe: "drain_packets k ps t = (fs, t') \<Longrightarrow> track_probe t' = track_probe t"
proof (induction k ps t arbitrary: fs rule: drain_packets.induct)
  case (2 k ts payload v ps t)
  then show ?case by (auto split: prod.splits dest!: frames_probe)
qed simp

lemma drain_pending_probe: "drain_pending t = (fs, t') \<Longrightarrow> track_probe t' = track_probe t"
  by (auto simp: drain_pending_def split: option.splits dest!: drain_packets_probe)

lemma detect_probe: "detect p ts payload v t = (now, t') \<Longrightarrow>
    track_probe t' = now \<and> (track_probe t \<noteq> Undecided \<longrightarrow> t' = t)"
  by (auto simp: detect_def Let_def split: if_splits)

lemma hold_unit_same:
  "ts_muxer_opt (hold_unit ts k data s) = ts_muxer_opt s"
  "unit_timestamp (hold_unit ts k data s) = unit_timestamp s" "ts_unit (hold_unit ts k data s) = ts_unit s"
  "ts_video (hold_unit ts k data s) = ts_video s" "started (hold_unit ts k data s)"
  by (simp_all add: hold_unit_def Let_def split: prod.splits)

lemma hold_unit_held:
  "\<exists>pts. held_units (hold_unit ts k data s) =
     held_units s @ [\<lparr>hu_pts = pts, hu_keyframe = k, hu_data = data\<rparr>]"
  by (simp add: hold_unit_def Let_def split: prod.splits)

lemma hold_unit_probe:
  "track_probe (ts_audio (hold_unit ts k data s)) = Undecided \<Longrightarrow>
   track_probe (ts_audio s) = Undecided \<and> \<not> must_release (held_units (hold_unit ts k data s))"
  by (auto simp: hold_unit_def Let_def split: prod.splits if_splits)

lemma hold_unit_ready:
  assumes "ts_ok s" "rv_codec (ts_video s) \<noteq> None" "k \<or> started s"
  shows "ts_ready (hold_unit ts k data s)"
proof -
  let ?t = "hold_unit ts k data s"
  obtain pts where h: "held_units ?t = held_units s @ [\<lparr>hu_pts = pts, hu_keyframe = k, hu_data = data\<rparr>]"
    using hold_unit_held by blast
  have "held_fits (held_units ?t)" if "track_probe (ts_audio ?t) = Undecided"
    using hold_unit_probe [OF that] h by (auto simp: must_release_def held_fits_def hd_conv_nth)
  moreover have "ts_muxer_opt ?t = None" if "track_probe (ts_audio ?t) = Undecided"
    using hold_unit_probe [OF that] assms(1) by (auto simp: hold_unit_same ts_ok_def)
  moreover have "hu_keyframe (hd (held_units ?t))" if "ts_muxer_opt s = None"
    using that assms(1,3) h by (cases "held_units s") (auto simp: ts_ok_def)
  ultimately show ?thesis
    using assms(2) h by (auto simp: ts_ready_def hold_unit_same)
qed

lemma flush_unit_ok:
  assumes "ts_ok s" "flush_unit s = (out, s')"
  shows "ts_ok s' \<and> ts_emits s out s'"
proof (cases "unit_timestamp s")
  case None
  then show ?thesis using assms ts_emits_same by (auto simp: flush_unit_def)
next
  case (Some timestamp)
  let ?s1 = "s\<lparr>unit_timestamp := None, ts_unit := []\<rparr>"
  have ok1: "ts_ok ?s1" and e1: "ts_emits s [] ?s1" using assms(1) ts_emits_same by (auto simp: ts_ok_def)
  show ?thesis
  proof (cases "\<exists>c. rv_codec (ts_video s) = Some c \<and> (started s \<or> is_keyframe c (ts_unit s))")
    case False
    then have "out = []" "s' = ?s1"
      using assms(2) Some by (auto simp: flush_unit_def Let_def split: option.splits if_splits)
    then show ?thesis using ok1 e1 by simp
  next
    case True
    then obtain c where c: "rv_codec (ts_video s) = Some c" "started s \<or> is_keyframe c (ts_unit s)" by blast
    let ?h = "hold_unit timestamp (is_keyframe c (ts_unit s)) (ts_unit s) ?s1"
    have r: "release_held [] ?h = (out, s')"
      using assms(2) Some c by (auto simp: flush_unit_def Let_def)
    have "ts_ready ?h" using hold_unit_ready [OF ok1] c by auto
    note f = release_held_ok [OF this r]
    have "ts_emits s [] ?h" by (rule ts_emits_same) (simp add: hold_unit_same)
    from ts_emits_append [OF this f(2)] show ?thesis using f(1) by simp
  qed
qed

lemma audio_change_ready:
  assumes "ts_ok s" "track_probe t = Undecided \<longrightarrow> track_probe (ts_audio s) = Undecided"
  shows "ts_ready (s\<lparr>ts_audio := t\<rparr>)"
  using assms by (auto simp: ts_ok_def ts_ready_def split: if_splits)

lemma ts_ok_audio: "ts_ok s \<Longrightarrow> track_probe t = track_probe (ts_audio s) \<Longrightarrow> ts_ok (s\<lparr>ts_audio := t\<rparr>)"
  by (auto simp: ts_ok_def)

lemma release_after_audio:
  assumes "ts_ok s" "track_probe t = Undecided \<longrightarrow> track_probe (ts_audio s) = Undecided"
    "release_held fs (s\<lparr>ts_audio := t\<rparr>) = (out, s')"
  shows "ts_ok s' \<and> ts_emits s out s' \<and> ts_audio s' = t \<and> started s' = started s"
proof -
  note r = release_held_ok [OF audio_change_ready [OF assms(1,2)] assms(3)]
  have "ts_emits s [] (s\<lparr>ts_audio := t\<rparr>)" by (rule ts_emits_same) simp
  from ts_emits_append [OF this r(2)] show ?thesis using r by simp
qed

lemma write_more_ok:
  assumes "ts_ok s" "ts_muxer_opt s = Some m" "write_frames fs m = (out, m')" "track_probe t = track_probe (ts_audio s)"
  shows "ts_ok (s\<lparr>ts_audio := t, ts_muxer_opt := Some m'\<rparr>) \<and> ts_emits s out (s\<lparr>ts_audio := t, ts_muxer_opt := Some m'\<rparr>)"
  using assms by (auto simp: ts_ok_def ts_emits_def write_frames_ops)

lemma audio_packet_ok:
  assumes "ts_ok s" "audio_packet p ts payload s = (out, s')"
  shows "ts_ok s' \<and> ts_emits s out s'"
proof -
  obtain now t where d: "detect p ts payload (last_pts s) (ts_audio s) = (now, t)" by fastforce
  note dp = detect_probe [OF d]
  have u: "track_probe t = Undecided \<longrightarrow> track_probe (ts_audio s) = Undecided" using dp by auto
  consider (undecided) "now = Undecided"
    | (early) "now = Confirmed" "track_probe (ts_audio s) = Undecided" "\<not> started s"
    | (confirmed) "now = Confirmed" "track_probe (ts_audio s) = Undecided" "started s"
    | (settled) "now \<noteq> Undecided" "\<not> (track_probe (ts_audio s) = Undecided \<and> now = Confirmed)"
    by blast
  then show ?thesis
  proof cases
    case undecided
    then have "out = []" "s' = s\<lparr>ts_audio := t\<rparr>" using assms(2) d by (auto simp: audio_packet_def)
    then show ?thesis using ts_ok_audio [OF assms(1), of t] dp u undecided ts_emits_same by auto
  next
    case early
    then have s': "out = []" "s' = s\<lparr>ts_audio := discard_pending t\<rparr>"
      using assms(2) d by (auto simp: audio_packet_def)
    have "held_units s = []" "ts_muxer_opt s = None" using assms(1) early by (auto simp: ts_ok_def)
    then have "ts_ok s'" using s' early dp by (auto simp: ts_ok_def)
    then show ?thesis using s' ts_emits_same by auto
  next
    case confirmed
    obtain fs t' where dr: "drain_pending t = (fs, t')" by fastforce
    have "release_held fs (s\<lparr>ts_audio := t'\<rparr>) = (out, s')"
      using assms(2) d confirmed dr by (simp add: audio_packet_def)
    from release_after_audio [OF assms(1) _ this] show ?thesis
      using drain_pending_probe [OF dr] u by auto
  next
    case settled
    obtain o1 s2 where r: "release_held [] (s\<lparr>ts_audio := t\<rparr>) = (o1, s2)" by fastforce
    note ra = release_after_audio [OF assms(1) u r]
    show ?thesis
    proof (cases "started s2")
      case False
      then show ?thesis using assms(2) d settled r ra by (auto simp: audio_packet_def Let_def)
    next
      case True
      obtain fs t' where f: "frames p ts payload (last_pts s2) (ts_audio s2) = (fs, t')" by fastforce
      obtain m where m: "ts_muxer_opt s2 = Some m"
        using ra True dp settled by (auto simp: ts_ok_def split: if_splits)
      obtain o2 m' where w: "write_frames fs m = (o2, m')" by fastforce
      have s': "out = o1 @ o2" "s' = s2\<lparr>ts_audio := t', ts_muxer_opt := Some m'\<rparr>"
        using assms(2) d settled r True f m w by (auto simp: audio_packet_def Let_def)
      from write_more_ok [OF _ m w, of t'] frames_probe [OF f] ra ts_emits_append show ?thesis
        unfolding s' by blast
    qed
  qed
qed

section \<open>Packets and sessions\<close>

lemma take_item_ok:
  assumes "ts_ok s" "take_item i s = Inr (out, s')"
  shows "ts_ok s' \<and> ts_emits s out s'"
proof (cases i)
  case (OutVideo timestamp marker data)
  define a0 where "a0 = (if unit_timestamp s \<noteq> None \<and> unit_timestamp s \<noteq> Some timestamp then flush_unit s else ([], s))"
  obtain a s1 where a: "a0 = (a, s1)" by fastforce
  have 1: "ts_ok s1" "ts_emits s a s1"
    using a assms(1) flush_unit_ok ts_emits_same unfolding a0_def by (auto split: if_splits)
  define s2 where "s2 = (if data \<noteq> [] then s1\<lparr>unit_timestamp := Some timestamp, ts_unit := ts_unit s1 @ data\<rparr> else s1)"
  have 2: "ts_ok s2" "ts_emits s1 [] s2" using 1(1) ts_emits_same by (auto simp: s2_def ts_ok_def)
  obtain b s3 where b: "(if marker then flush_unit s2 else ([], s2)) = (b, s3)" by fastforce
  have 3: "ts_ok s3" "ts_emits s2 b s3"
    using b 2(1) flush_unit_ok ts_emits_same by (auto split: if_splits)
  have "out = a @ b" "s' = s3"
    using assms(2) a b unfolding OutVideo take_item.simps a0_def [symmetric]
    by (auto simp: Let_def s2_def split: if_splits)
  then show ?thesis using 3 ts_emits_append [OF 1(2) ts_emits_append [OF 2(2) 3(2)]] by simp
next
  case (OutOther ptype timestamp payload)
  then show ?thesis using assms audio_packet_ok by simp
qed

lemma take_items_ok: "ts_ok s \<Longrightarrow> take_items is s = Inr (out, s') \<Longrightarrow> ts_ok s' \<and> ts_emits s out s'"
proof (induction "is" arbitrary: s out)
  case (Cons i "is")
  from Cons.prems(2) obtain a s1 b where
    "take_item i s = Inr (a, s1)" "take_items is s1 = Inr (b, s')" "out = a @ b"
    by (auto simp: try_bind_eq_Inr)
  with Cons take_item_ok ts_emits_append show ?case by blast
qed (simp add: ts_emits_same)

lemma route_codec: "route dec p k v = Inr (out, v') \<Longrightarrow> rv_codec v' = rv_codec v"
  by (auto simp: route_def upstream_def try_bind_eq_Inr split: if_splits option.splits)

lemma route_pending_codec: "route_pending dec k cs v = Inr (out, v') \<Longrightarrow> rv_codec v' = rv_codec v"
  by (induction cs arbitrary: v out) (auto simp: try_bind_eq_Inr split: if_splits dest!: route_codec)

lemma rv_feed_codec: "rv_feed dec packet v = Inr (out, v') \<Longrightarrow> rv_codec v \<noteq> None \<Longrightarrow> rv_codec v' \<noteq> None"
  by (auto simp: rv_feed_def upstream_def Let_def try_bind_eq_Inr split: option.splits if_splits
      dest!: route_codec route_pending_codec)

lemma ts_feed_ok:
  assumes "ts_ok s" "ts_feed dec packet s = Inr (out, s')"
  shows "ts_ok s' \<and> ts_emits s out s'"
proof -
  from assms(2) obtain items v where
    v: "rv_feed dec packet (ts_video s) = Inr (items, v)" "take_items items (s\<lparr>ts_video := v\<rparr>) = Inr (out, s')"
    by (auto simp: ts_feed_def try_bind_eq_Inr)
  have "ts_ok (s\<lparr>ts_video := v\<rparr>)" using assms(1) rv_feed_codec [OF v(1)] by (auto simp: ts_ok_def)
  from take_items_ok [OF this v(2)] have "ts_ok s'" "ts_emits (s\<lparr>ts_video := v\<rparr>) out s'" by auto
  then show ?thesis by (simp add: ts_emits_def)
qed

lemma ts_finish_ok:
  assumes "ts_ok s" "ts_finish s = (out, s')"
  shows "ts_ok s' \<and> ts_emits s out s' \<and> held_units s' = []"
proof -
  obtain a s1 b where f: "flush_unit s = (a, s1)" "release_held [] (s1\<lparr>ts_audio := give_up (ts_audio s1)\<rparr>) = (b, s')"
    "out = a @ b" using assms(2) by (auto simp: ts_finish_def split: prod.splits)
  note 1 = flush_unit_ok [OF assms(1) f(1)]
  have "ts_ok s'" "ts_emits s1 b s'" "ts_audio s' = give_up (ts_audio s1)"
    using release_after_audio [OF _ _ f(2)] 1 by auto
  then show ?thesis using ts_emits_append f(3) 1 by (auto simp: ts_ok_def)
qed

lemma ts_ok_new: "ts_ok (rtp_to_ts_new v)"
  by (auto simp: ts_ok_def rtp_to_ts_new_def held_fits_def MAX_HELD_UNITS_def MAX_HELD_BYTES_def
      held_total_def audio_track_default_def track_probe_def)

text \<open>A stream of this program that opens with a keyframe.\<close>

definition keyed_stream :: "bytes \<Rightarrow> bool" where
  "keyed_stream out \<longleftrightarrow> out = [] \<or>
     (\<exists>c ops. starts_keyed ops \<and> out = fst (run_ops mux_step ops (ts_muxer_new c)))"

lemma ts_framed_Nil: "ts_framed []"
  by (simp add: ts_framed_def ts_packets_def)

lemma ts_emits_keyed:
  assumes "ts_emits (rtp_to_ts_new v) out s"
  shows "keyed_stream out \<and> ts_framed out"
proof (cases "ts_muxer_opt s")
  case None
  then show ?thesis using assms by (simp add: ts_emits_def rtp_to_ts_new_def keyed_stream_def ts_framed_Nil)
next
  case (Some m')
  then obtain c ops where r: "run_ops mux_step ops (ts_muxer_new c) = (out, m')" "starts_keyed ops"
    using assms by (auto simp: ts_emits_def rtp_to_ts_new_def)
  have "ts_framed out" by (rule muxed_framed [OF muxer.run_emits [OF mux_ok_new r(1)]])
  then show ?thesis using r unfolding keyed_stream_def by (metis fst_conv)
qed

lemma copy_tail_emits:
  assumes "ts_ok s" "ts_emits s0 (concat sent) s" "copy_tail cancelled s sent = (sent', res)"
  shows "\<exists>s'. ts_emits s0 (concat sent') s'"
proof (cases "started s")
  case True
  obtain tl s' where f: "ts_finish s = (tl, s')" by fastforce
  have "ts_emits s0 (concat sent @ tl) s'"
    using ts_finish_ok [OF assms(1) f] assms(2) ts_emits_append by blast
  moreover have "concat sent' = concat sent @ tl" using assms(3) True f by (auto simp: copy_tail_def)
  ultimately show ?thesis by auto
qed (use assms in \<open>auto simp: copy_tail_def\<close>)

lemma copy_loop_emits:
  assumes "ts_ok s" "ts_emits s0 (concat sent) s" "copy_loop dec accepts cancelled is s sent = (sent', res)"
  shows "\<exists>s'. ts_emits s0 (concat sent') s'"
  using assms
proof (induction dec accepts cancelled "is" s sent rule: copy_loop.induct)
  case (4 dec accepts cancelled packet "is" s sent)
  show ?case
  proof (cases "packet = [] \<or> isl (ts_feed dec packet s)")
    case True
    then show ?thesis using "4.IH"(1) "4.prems" by (auto split: if_splits sum.splits)
  next
    case False
    then obtain chunk s1 where f: "ts_feed dec packet s = Inr (chunk, s1)"
      by (cases "ts_feed dec packet s") auto
    have ok: "ts_ok s1" "ts_emits s0 (concat (sent @ [chunk])) s1"
      using ts_feed_ok [OF "4.prems"(1) f] ts_emits_append [OF "4.prems"(2)] by auto
    then show ?thesis
      using "4.IH"(2,3) "4.prems"(3) False f by (auto split: if_splits)
  qed
next
  case (3 dec accepts cancelled e "is" s sent)
  then show ?case by auto
qed (auto intro: copy_tail_emits)


section \<open>Bounded memory\<close>

fun ts_run :: "block_cipher \<Rightarrow> bytes list \<Rightarrow> rtp_to_ts \<Rightarrow> bridge_error + rtp_to_ts" where
  "ts_run dec [] s = Inr s"
| "ts_run dec (p # ps) s = try_bind (ts_feed dec p s) (\<lambda>(_, s'). ts_run dec ps s')"

definition unit_fits :: "rtp_to_ts \<Rightarrow> bool" where
  "unit_fits s \<longleftrightarrow> length (ts_unit s) \<le> MAX_UNIT_BYTES"

lemma release_held_unit: "release_held fs s = (out, s') \<Longrightarrow> ts_unit s' = ts_unit s"
  by (auto simp: release_held_def Let_def split: option.splits if_splits prod.splits)

lemma flush_unit_fits: "unit_fits s \<Longrightarrow> flush_unit s = (out, s') \<Longrightarrow> unit_fits s'"
  by (auto simp: flush_unit_def Let_def unit_fits_def hold_unit_same split: option.splits if_splits
      dest!: release_held_unit)

lemma audio_packet_fits: "audio_packet p ts payload s = (out, s') \<Longrightarrow> ts_unit s' = ts_unit s"
  by (auto simp: audio_packet_def Let_def split: option.splits if_splits prod.splits
      dest!: release_held_unit)

lemma take_item_fits:
  assumes "unit_fits s" "take_item i s = Inr (out, s')"
  shows "unit_fits s'"
proof (cases i)
  case (OutVideo timestamp marker data)
  obtain a s1 where a: "(if unit_timestamp s \<noteq> None \<and> unit_timestamp s \<noteq> Some timestamp
      then flush_unit s else ([], s)) = (a, s1)" by fastforce
  have 1: "unit_fits s1" using a assms(1) flush_unit_fits by (auto split: if_splits)
  define s2 where "s2 = (if data \<noteq> [] then s1\<lparr>unit_timestamp := Some timestamp, ts_unit := ts_unit s1 @ data\<rparr> else s1)"
  obtain b s3 where b: "(if marker then flush_unit s2 else ([], s2)) = (b, s3)" by fastforce
  have r: "unit_fits s2 \<and> s' = s3"
    using assms(2) a b 1 unfolding OutVideo take_item.simps
    by (auto simp: Let_def s2_def unit_fits_def split: if_splits)
  then show ?thesis using b flush_unit_fits by (auto split: if_splits)
next
  case (OutOther ptype timestamp payload)
  then show ?thesis using assms audio_packet_fits by (auto simp: unit_fits_def)
qed

lemma take_items_fits: "unit_fits s \<Longrightarrow> take_items is s = Inr (out, s') \<Longrightarrow> unit_fits s'"
proof (induction "is" arbitrary: s out)
  case (Cons i "is")
  from Cons.prems(2) obtain a s1 b where "take_item i s = Inr (a, s1)" "take_items is s1 = Inr (b, s')"
    by (auto simp: try_bind_eq_Inr)
  with Cons take_item_fits show ?case by blast
qed simp

lemma ts_feed_fits: "unit_fits s \<Longrightarrow> ts_feed dec p s = Inr (out, s') \<Longrightarrow> unit_fits s'"
  by (auto simp: ts_feed_def try_bind_eq_Inr unit_fits_def dest!: take_items_fits [rotated])

lemma ts_run_ok: "ts_ok s \<Longrightarrow> unit_fits s \<Longrightarrow> ts_run dec ps s = Inr s' \<Longrightarrow> ts_ok s' \<and> unit_fits s'"
proof (induction ps arbitrary: s)
  case (Cons p ps)
  then obtain out s1 where "ts_feed dec p s = Inr (out, s1)" "ts_run dec ps s1 = Inr s'"
    by (auto simp: try_bind_eq_Inr)
  with Cons ts_feed_ok ts_feed_fits show ?case by blast
qed simp

text \<open>C4. The converter's memory is bounded whatever a camera sends: after any packets processed
  without error it holds back fewer than 64 access units, fewer than 16 MiB and less than one second
  of video, none at all once the audio question is settled, and the access unit being assembled has at
  most 8 MiB.\<close>
theorem held_video_bounded:
  assumes "ts_run dec ps (rtp_to_ts_new v) = Inr s"
  shows "length (held_units s) < MAX_HELD_UNITS \<and> held_total (held_units s) < MAX_HELD_BYTES \<and>
    (held_units s \<noteq> [] \<longrightarrow> track_probe (ts_audio s) = Undecided \<and>
       hu_pts (last (held_units s)) - hu_pts (hd (held_units s)) < AUDIO_WAIT) \<and>
    length (ts_unit s) \<le> MAX_UNIT_BYTES"
proof -
  have "unit_fits (rtp_to_ts_new v)" by (simp add: unit_fits_def rtp_to_ts_new_def)
  from ts_run_ok [OF ts_ok_new this assms] show ?thesis
    by (auto simp: ts_ok_def held_fits_def unit_fits_def MAX_HELD_UNITS_def MAX_HELD_BYTES_def held_total_def
        split: if_splits)
qed

theorem held_video_bounded_witness:
  "\<exists>s. ts_run xor_cipher [[0x80, 0xe0, 0, 1, 0, 0, 0, 0, 0, 0, 0, 9, 0x65, 1]] (rtp_to_ts_new rv_clear) = Inr s \<and>
    length (held_units s) = 1 \<and> length (held_units s) < MAX_HELD_UNITS"
proof -
  let ?r = "ts_run xor_cipher [[0x80, 0xe0, 0, 1, 0, 0, 0, 0, 0, 0, 0, 9, 0x65, 1]] (rtp_to_ts_new rv_clear)"
  have "case ?r of Inr s \<Rightarrow> length (held_units s) = 1 | Inl _ \<Rightarrow> False" by code_simp
  then obtain s where "?r = Inr s" "length (held_units s) = 1" by (auto split: sum.splits)
  with held_video_bounded [OF this(1)] show ?thesis by blast
qed

end
