(* ===== verification/Alarm_Model.thy ===== *)
theory Alarm_Model
  imports Json_Value "HOL-Library.Signed_Division"
begin

text \<open>
  Parsing of EZVIZ unified messages into bounded public alarm records (\<open>alarms/model.rs\<close>).
  SHA-256 (crate \<open>sha2\<close>, hex-encoded) is the argument \<open>sha\<close>, the date parser of \<open>chrono\<close> is
  \<open>parse_local\<close> and the current time is \<open>now\<close>.
\<close>

definition MAX_TITLE_CHARS :: nat where "MAX_TITLE_CHARS = 120"
definition MAX_ID_CHARS :: nat where "MAX_ID_CHARS = 96"

record alarm_record =
  ar_id :: string
  occurred_at :: int
  alarm_type :: int
  ar_category :: string
  ar_title :: string
  has_picture :: bool
  picture_size :: nat

record picture_source =
  ps_url :: string
  ps_crypt :: int
  ps_checksum :: "string option"

record parsed_message =
  pm_record :: alarm_record
  pm_channel :: "nat option"
  time_ms :: "int option"
  pm_picture :: "picture_source option"

record device_summary =
  ds_serial :: string
  ds_total :: nat
  top_id :: "string option"
  ds_offset :: "int option"

definition category :: "int \<Rightarrow> int \<Rightarrow> string" where
  "category kind sub_type =
     (if kind \<in> {10000, 10002, 10013, 10014, 10140} then ''motion''
      else if kind \<in> {10010, 10015, 10079, 10120, 10121, 10131, 15500} then ''person''
      else if kind = 10130 then ''vehicle''
      else if kind \<in> {2701, 10016} then ''doorbell''
      else if kind \<in> {10003, 10022, 15008} then ''sound''
      else if kind = 15003 then ''pet''
      else if kind \<in> {10032, 10071, 30010} then ''offline''
      else if kind \<in> {10011, 12021, 12027} then ''tamper''
      else if sub_type = 2701 then ''doorbell''
      else if sub_type = 2402 then ''motion''
      else if sub_type = 2403 then ''person''
      else if sub_type = 2404 then ''vehicle''
      else if sub_type = 2405 then ''sound''
      else ''other'')"

definition is_token :: "string \<Rightarrow> bool" where
  "is_token v \<longleftrightarrow> v \<noteq> [] \<and> length v \<le> MAX_ID_CHARS \<and>
     list_all (\<lambda>c. ascii_alphanumeric c \<or> c = CHR ''-'' \<or> c = CHR ''_'') v"

definition sanitize_title :: "string \<Rightarrow> string" where
  "sanitize_title raw =
     (let collapsed = join_with '' ''
            (filter (\<lambda>p. p \<noteq> []) (split_runs (\<lambda>c. is_whitespace c \<or> is_control c) (chars raw) []))
      in concat (take MAX_TITLE_CHARS (chars collapsed)))"

definition hashed_id :: "(string \<Rightarrow> string) \<Rightarrow> string \<Rightarrow> string" where
  "hashed_id sha raw = CHR ''h'' # take 40 (sha raw)"

definition message_id :: "(string \<Rightarrow> string) \<Rightarrow> json \<Rightarrow> string option" where
  "message_id sha item =
     (case json_field item ''msgId'' (\<lambda>v. case as_str v of Some s \<Rightarrow> Some s | None \<Rightarrow> map_option show_int (as_i64 v)) of
        None \<Rightarrow> None
      | Some raw \<Rightarrow> if raw = [] then None else if is_token raw then Some raw else Some (hashed_id sha raw))"

definition fallback_id :: "(string \<Rightarrow> string) \<Rightarrow> json \<Rightarrow> int \<Rightarrow> string option" where
  "fallback_id sha item kind =
     (case json_field item ''deviceSerial'' as_str of
        None \<Rightarrow> None
      | Some serial \<Rightarrow>
          let channel = (case json_field item ''channel'' json_integer of Some c \<Rightarrow> c | None \<Rightarrow> 0) in
          (case json_field item ''timeStr'' as_str of
             None \<Rightarrow> None
           | Some time \<Rightarrow> Some (hashed_id sha
               (serial @ ''|'' @ show_int channel @ ''|'' @ show_int kind @ ''|'' @ time))))"

definition utc_offset :: "(string \<Rightarrow> int option) \<Rightarrow> json \<Rightarrow> int option" where
  "utc_offset parse_local item =
     (case json_field item ''time'' json_integer of
        None \<Rightarrow> None
      | Some ms \<Rightarrow>
          let epoch = ms sdiv 1000 in
          (case json_field item ''timeStr'' as_str of
             None \<Rightarrow> None
           | Some text' \<Rightarrow>
               (case parse_local (trim text') of
                  None \<Rightarrow> None
                | Some local \<Rightarrow>
                    let raw = local - epoch; rounded = (raw + 450) div 900 * 900 in
                    if - (2 ^ 31) \<le> rounded \<and> rounded < 2 ^ 31 \<and> abs rounded \<le> 14 * 3600
                    then Some rounded else None)))"

definition http_url :: "string \<Rightarrow> bool" where
  "http_url u \<longleftrightarrow> starts_with u ''https://'' \<or> starts_with u ''http://''"

definition parse_picture :: "json \<Rightarrow> picture_source option" where
  "parse_picture item =
     (case json_field item ''pic'' as_str of
        None \<Rightarrow> None
      | Some raw \<Rightarrow>
          let url = trim raw in
          if http_url url then Some \<lparr>ps_url = url,
            ps_crypt = (case json_field item ''picCrypt'' json_integer of Some n \<Rightarrow> n | None \<Rightarrow> 0),
            ps_checksum = json_field item ''picChecksum'' as_str\<rparr>
          else None)"

definition message_title :: "json \<Rightarrow> string" where
  "message_title item =
     (let ext = json_get item ''ext'';
          raw = (case json_field item ''title'' as_str of
              Some t \<Rightarrow> Some t
            | None \<Rightarrow> (case json_field item ''detail'' as_str of
                Some t \<Rightarrow> Some t
              | None \<Rightarrow> Option.bind ext (\<lambda>e. json_field e ''alarmName'' as_str)))
      in case raw of Some t \<Rightarrow> sanitize_title t | None \<Rightarrow> [])"

definition parse_message :: "(string \<Rightarrow> string) \<Rightarrow> int \<Rightarrow> json \<Rightarrow> parsed_message option" where
  "parse_message sha now item =
     (let ext = json_get item ''ext'';
          ms = json_field item ''time'' json_integer;
          sub_type = (case json_field item ''subType'' json_integer of Some n \<Rightarrow> n | None \<Rightarrow> 0);
          kind = (case Option.bind ext (\<lambda>e. json_field e ''alarmType'' json_integer) of Some n \<Rightarrow> n | None \<Rightarrow> 0)
      in case (case message_id sha item of Some i \<Rightarrow> Some i | None \<Rightarrow> fallback_id sha item kind) of
           None \<Rightarrow> None
         | Some ident \<Rightarrow> Some \<lparr>pm_record = \<lparr>ar_id = ident,
               occurred_at = (case ms of None \<Rightarrow> now | Some n \<Rightarrow> n sdiv 1000),
               alarm_type = kind, ar_category = category kind sub_type,
               ar_title = message_title item, has_picture = False, picture_size = 0\<rparr>,
             pm_channel = Option.bind (json_field item ''channel'' json_integer)
               (\<lambda>c. if 0 \<le> c \<and> c < 2 ^ 16 then Some (nat c) else None),
             time_ms = ms, pm_picture = parse_picture item\<rparr>)"

definition parse_list :: "(string \<Rightarrow> string) \<Rightarrow> int \<Rightarrow> json \<Rightarrow> parsed_message list \<times> bool" where
  "parse_list sha now v =
     (let has_next = (case json_get v ''hasNext'' of
            None \<Rightarrow> False
          | Some flag \<Rightarrow> as_bool flag = Some True \<or> json_integer flag = Some 1);
          messages = (case json_field v ''message'' as_array of
            None \<Rightarrow> [] | Some items \<Rightarrow> List.map_filter (parse_message sha now) items)
      in (messages, has_next))"

definition parse_summary_entry ::
  "(string \<Rightarrow> string) \<Rightarrow> (string \<Rightarrow> int option) \<Rightarrow> json \<Rightarrow> device_summary option" where
  "parse_summary_entry sha parse_local entry =
     (case json_field entry ''deviceSerial'' as_str of
        None \<Rightarrow> None
      | Some serial \<Rightarrow>
          let top = json_get entry ''topMessage'' in
          Some \<lparr>ds_serial = serial,
            ds_total = (case Option.bind (json_field entry ''total'' json_integer)
                (\<lambda>t. if 0 \<le> t then Some (nat t) else None) of Some t \<Rightarrow> t | None \<Rightarrow> 0),
            top_id = Option.bind top (message_id sha),
            ds_offset = Option.bind top (utc_offset parse_local)\<rparr>)"

definition parse_summary ::
  "(string \<Rightarrow> string) \<Rightarrow> (string \<Rightarrow> int option) \<Rightarrow> json \<Rightarrow> device_summary list" where
  "parse_summary sha parse_local v = (case json_field v ''summaries'' as_array of
     None \<Rightarrow> [] | Some entries \<Rightarrow> List.map_filter (parse_summary_entry sha parse_local) entries)"

section \<open>Identifiers are safe tokens\<close>

lemma hexdigit_alphanumeric: "ascii_hexdigit c \<Longrightarrow> ascii_alphanumeric c"
  by (auto simp: ascii_hexdigit_def ascii_alphanumeric_def ascii_upper_def ascii_lower_def)

lemma ascii_h: "ascii_alphanumeric CHR ''h''"
  by (simp add: ascii_alphanumeric_def ascii_lower_def)

lemma hashed_id_token:
  assumes "list_all ascii_hexdigit (sha raw)"
  shows "is_token (hashed_id sha raw)"
proof -
  have "\<forall>c \<in> set (take 40 (sha raw)). ascii_alphanumeric c"
    using assms hexdigit_alphanumeric by (auto simp: list_all_iff dest: in_set_takeD)
  then show ?thesis
    using ascii_h by (auto simp: is_token_def hashed_id_def MAX_ID_CHARS_def list_all_iff)
qed

lemma token_no_path: "is_token s \<Longrightarrow> CHR ''/'' \<notin> set s \<and> CHR ''.'' \<notin> set s"
  by (auto simp: is_token_def list_all_iff ascii_alphanumeric_def ascii_digit_def ascii_upper_def ascii_lower_def)

text \<open>C13. Every alarm parsed from the cloud carries an identifier that is a safe path token (1 to 96
  letters, digits, dashes and underscores, hence no path separator and no dot), whatever the message
  says, given only that the digest prints as hexadecimal; its picture, if any, is an HTTP(S) URL and
  no picture is claimed before one is stored.\<close>
theorem parsed_alarm_safe:
  assumes "\<forall>s. list_all ascii_hexdigit (sha s)" and "parse_message sha now item = Some m"
  shows "is_token (ar_id (pm_record m)) \<and> CHR ''/'' \<notin> set (ar_id (pm_record m)) \<and>
    CHR ''.'' \<notin> set (ar_id (pm_record m)) \<and> \<not> has_picture (pm_record m) \<and>
    (\<forall>p. pm_picture m = Some p \<longrightarrow> http_url (ps_url p))"
proof -
  have mi: "is_token i" if "message_id sha item = Some i" for i
    using that assms(1) hashed_id_token by (auto simp: message_id_def split: option.splits if_splits)
  have fi: "is_token i" if "fallback_id sha item k = Some i" for i k
    using that assms(1) hashed_id_token by (auto simp: fallback_id_def Let_def split: option.splits)
  have "is_token (ar_id (pm_record m))"
    using assms(2) mi fi by (auto simp: parse_message_def Let_def split: option.splits)
  moreover have "\<not> has_picture (pm_record m)" "pm_picture m = parse_picture item"
    using assms(2) by (auto simp: parse_message_def Let_def split: option.splits)
  moreover have "http_url (ps_url p)" if "parse_picture item = Some p" for p
    using that by (auto simp: parse_picture_def Let_def split: option.splits if_splits)
  ultimately show ?thesis using token_no_path by auto
qed

theorem parsed_alarm_safe_witness:
  "let sha = (\<lambda>_ :: string. replicate 64 CHR ''a'');
       item = JObject [(''msgId'', JString ''../../etc''), (''time'', JInt 1700000000000)]
   in (\<forall>s. list_all ascii_hexdigit (sha s)) \<and>
      (\<exists>m. parse_message sha 0 item = Some m \<and> is_token (ar_id (pm_record m)))"
proof -
  let ?sha = "\<lambda>_ :: string. replicate 64 CHR ''a''"
  let ?item = "JObject [(''msgId'', JString ''../../etc''), (''time'', JInt 1700000000000)]"
  have h: "\<forall>s. list_all ascii_hexdigit (?sha s)"
    by (simp add: list_all_iff ascii_hexdigit_def)
  have "\<exists>m. parse_message ?sha 0 ?item = Some m"
    by (simp add: parse_message_def message_id_def json_field_def json_get_def as_str_def Let_def)
  then obtain m where "parse_message ?sha 0 ?item = Some m" by blast
  with parsed_alarm_safe [OF h this] h show ?thesis unfolding Let_def by blast
qed

end
