(* ===== verification/Alarm_Store.thy ===== *)
theory Alarm_Store
  imports Alarm_Model Bridge_Error
begin

text \<open>
  The bounded, persisted alarm history of one camera (\<open>alarms/store.rs\<close>, \<open>alarms/store_read.rs\<close>)
  and its picture directory (\<open>alarms/pictures.rs\<close>). The directory is a map from alarm identifiers to
  files; what the file system answers is an input: \<open>write_outcome\<close> for a picture (a failure may come
  after the file was already renamed into place) and a Boolean for the history file.
\<close>

section \<open>Pictures\<close>

definition MAX_PICTURE_BYTES :: nat where "MAX_PICTURE_BYTES = 4 * 1024 * 1024"

type_synonym picture_dir = "string \<rightharpoonup> bytes"

datatype write_outcome = Written | NotWritten | WrittenUnsynced

definition is_jpeg :: "bytes \<Rightarrow> bool" where
  "is_jpeg data \<longleftrightarrow> starts_with data [0xff, 0xd8, 0xff]"

definition picture_write ::
  "write_outcome \<Rightarrow> string \<Rightarrow> bytes \<Rightarrow> picture_dir \<Rightarrow> (bridge_error + nat) \<times> picture_dir" where
  "picture_write io ident jpeg dir =
     (if \<not> is_token ident then (Inl (Upstream ''alarm ID is not a safe token''), dir)
      else if MAX_PICTURE_BYTES < length jpeg \<or> \<not> is_jpeg jpeg
      then (Inl (Upstream ''alarm picture is not a bounded JPEG''), dir)
      else case io of
        Written \<Rightarrow> (Inr (length jpeg), dir(ident \<mapsto> jpeg))
      | NotWritten \<Rightarrow> (Inl (Io OtherIo), dir)
      | WrittenUnsynced \<Rightarrow> (Inl (Io OtherIo), dir(ident \<mapsto> jpeg)))"

definition picture_read :: "string \<Rightarrow> picture_dir \<Rightarrow> bytes option" where
  "picture_read ident dir =
     (if \<not> is_token ident then None
      else case dir ident of None \<Rightarrow> None
        | Some data \<Rightarrow> if length data \<le> MAX_PICTURE_BYTES \<and> is_jpeg data then Some data else None)"

definition picture_exists :: "string \<Rightarrow> picture_dir \<Rightarrow> bool" where
  "picture_exists ident dir \<longleftrightarrow> is_token ident \<and> dir ident \<noteq> None"

definition picture_remove :: "string \<Rightarrow> picture_dir \<Rightarrow> picture_dir" where
  "picture_remove ident dir = (if is_token ident then dir(ident := None) else dir)"

definition remove_orphans :: "string set \<Rightarrow> picture_dir \<Rightarrow> picture_dir" where
  "remove_orphans keep dir = (\<lambda>i. if i \<in> keep then dir i else None)"

section \<open>History\<close>

definition DEFAULT_HISTORY_LIMIT :: nat where "DEFAULT_HISTORY_LIMIT = 200"
definition SCHEMA_VERSION :: nat where "SCHEMA_VERSION = 1"

record history_file =
  schema_version :: nat
  hf_binding :: string
  hf_events :: "alarm_record list"

record entry =
  seqno :: nat
  rec :: alarm_record

record insert_outcome =
  inserted :: nat
  pictures_stored :: nat
  pictures_failed :: nat

record camera_history =
  ch_file :: "history_file option"
  ch_binding :: string
  pictures :: picture_dir
  events :: "entry list"
  index :: "string set"
  head :: nat
  floor :: nat
  picture_budget :: nat
  limit :: nat

definition knows :: "string \<Rightarrow> camera_history \<Rightarrow> bool" where
  "knows ident h \<longleftrightarrow> ident \<in> index h"

text \<open>The loop \<open>while self.events.len() > self.limit\<close>.\<close>

fun evict :: "entry list \<Rightarrow> camera_history \<Rightarrow> camera_history" where
  "evict [] h = h\<lparr>events := []\<rparr>"
| "evict (e # es) h =
     (if limit h < length (e # es)
      then evict es (h\<lparr>index := index h - {ar_id (rec e)}, pictures := picture_remove (ar_id (rec e)) (pictures h)\<rparr>)
      else h\<lparr>events := e # es\<rparr>)"

definition push :: "alarm_record \<Rightarrow> camera_history \<Rightarrow> camera_history" where
  "push r h =
     (let h1 = h\<lparr>head := head h + 1, index := insert (ar_id r) (index h)\<rparr>
      in evict (events h @ [\<lparr>seqno = head h1, rec = r\<rparr>]) h1)"

text \<open>Rust orders tuples and strings lexicographically, by bytes.\<close>

fun str_less :: "string \<Rightarrow> string \<Rightarrow> bool" where
  "str_less _ [] = False"
| "str_less [] (_ # _) = True"
| "str_less (a # as) (b # bs) =
     ((of_char a :: nat) < of_char b \<or> (a = b \<and> str_less as bs))"

definition alarm_before :: "alarm_record \<Rightarrow> alarm_record \<Rightarrow> bool" where
  "alarm_before a b \<longleftrightarrow> occurred_at a < occurred_at b \<or>
     (occurred_at a = occurred_at b \<and> str_less (ar_id a) (ar_id b))"

definition predates_full_history :: "alarm_record \<Rightarrow> camera_history \<Rightarrow> bool" where
  "predates_full_history r h \<longleftrightarrow> limit h \<le> length (events h) \<and>
     (case events h of [] \<Rightarrow> False | oldest # _ \<Rightarrow> alarm_before r (rec oldest))"

definition newest_occurred_at :: "camera_history \<Rightarrow> int option" where
  "newest_occurred_at h = (case map (\<lambda>e. occurred_at (rec e)) (events h) of
     [] \<Rightarrow> None | t # ts \<Rightarrow> Some (foldl max t ts))"

definition picture_total :: "entry list \<Rightarrow> nat" where
  "picture_total es = sum_list (map (\<lambda>e. picture_size (rec e)) es)"

definition without_picture :: "entry \<Rightarrow> entry" where
  "without_picture e = e\<lparr>rec := (rec e)\<lparr>has_picture := False, picture_size := 0\<rparr>\<rparr>"

text \<open>The loop of \<open>enforce_picture_budget\<close>: entries, directory and whether any picture was dropped.\<close>

fun drop_pictures :: "nat \<Rightarrow> nat \<Rightarrow> entry list \<Rightarrow> picture_dir \<Rightarrow> entry list \<times> picture_dir \<times> bool" where
  "drop_pictures budget used [] dir = ([], dir, False)"
| "drop_pictures budget used (e # es) dir =
     (if used \<le> budget then (e # es, dir, False)
      else if has_picture (rec e) then
        (case drop_pictures budget (used - picture_size (rec e)) es (picture_remove (ar_id (rec e)) dir) of
           (es', dir', _) \<Rightarrow> (without_picture e # es', dir', True))
      else case drop_pictures budget used es dir of (es', dir', d) \<Rightarrow> (e # es', dir', d))"

definition enforce_picture_budget :: "camera_history \<Rightarrow> bool \<times> camera_history" where
  "enforce_picture_budget h =
     (case drop_pictures (picture_budget h) (picture_total (events h)) (events h) (pictures h) of
        (es, dir, dropped) \<Rightarrow> (dropped, h\<lparr>events := es, pictures := dir\<rparr>))"

definition persist :: "bool \<Rightarrow> camera_history \<Rightarrow> (bridge_error + unit) \<times> camera_history" where
  "persist io h = (if io then (Inr (), h\<lparr>ch_file := Some \<lparr>schema_version = SCHEMA_VERSION,
       hf_binding = ch_binding h, hf_events = map rec (events h)\<rparr>\<rparr>)
     else (Inl (Io OtherIo), h))"

type_synonym batch_item = "alarm_record \<times> bytes option \<times> write_outcome"

definition insert_one :: "batch_item \<Rightarrow> insert_outcome \<times> camera_history \<Rightarrow> insert_outcome \<times> camera_history" where
  "insert_one = (\<lambda>(r, jpeg, io) (o', h).
     if \<not> is_token (ar_id r) \<or> knows (ar_id r) h \<or> predates_full_history r h then (o', h)
     else
       let r0 = r\<lparr>has_picture := False, picture_size := 0\<rparr> in
       case jpeg of
         None \<Rightarrow> (o'\<lparr>inserted := inserted o' + 1\<rparr>, push r0 h)
       | Some data \<Rightarrow>
           (case picture_write io (ar_id r0) data (pictures h) of
              (Inr n, dir) \<Rightarrow> (o'\<lparr>inserted := inserted o' + 1, pictures_stored := pictures_stored o' + 1\<rparr>,
                push (r0\<lparr>has_picture := True, picture_size := n\<rparr>) (h\<lparr>pictures := dir\<rparr>))
            | (Inl _, dir) \<Rightarrow> (o'\<lparr>inserted := inserted o' + 1, pictures_failed := pictures_failed o' + 1\<rparr>,
                push r0 (h\<lparr>pictures := dir\<rparr>))))"

definition insert_batch :: "bool \<Rightarrow> batch_item list \<Rightarrow> bool \<Rightarrow> camera_history \<Rightarrow> (bridge_error + insert_outcome) \<times> camera_history" where
  "insert_batch io batch live h =
     (let (o', h1) = foldl (\<lambda>st i. insert_one i st)
            (\<lparr>inserted = 0, pictures_stored = 0, pictures_failed = 0\<rparr>, h) batch;
          h2 = (if live then h1 else h1\<lparr>floor := head h1\<rparr>);
          h3 = snd (enforce_picture_budget h2)
      in if 0 < inserted o' then
           (case persist io h3 of (Inr _, h4) \<Rightarrow> (Inr o', h4) | (Inl e, h4) \<Rightarrow> (Inl e, h4))
         else (Inr o', h3))"

section \<open>Loading\<close>

definition load_one :: "alarm_record \<Rightarrow> camera_history \<Rightarrow> camera_history" where
  "load_one r h =
     (if \<not> is_token (ar_id r) \<or> knows (ar_id r) h then h
      else
        let r1 = r\<lparr>ar_title := sanitize_title (ar_title r)\<rparr>;
            r2 = (if has_picture r1 \<and> \<not> picture_exists (ar_id r1) (pictures h)
                  then r1\<lparr>has_picture := False, picture_size := 0\<rparr> else r1)
        in push r2 h)"

definition picture_ids :: "camera_history \<Rightarrow> string set" where
  "picture_ids h = set (map (ar_id \<circ> rec) (filter (\<lambda>e. has_picture (rec e)) (events h)))"

definition load :: "bool \<Rightarrow> history_file option \<Rightarrow> picture_dir \<Rightarrow> string \<Rightarrow> nat \<Rightarrow> nat \<Rightarrow> camera_history" where
  "load io file dir bind budget lim =
     (let stored = (case file of
            Some f \<Rightarrow> if schema_version f = SCHEMA_VERSION \<and> hf_binding f = bind then hf_events f else []
          | None \<Rightarrow> []);
          h0 = \<lparr>ch_file = file, ch_binding = bind, pictures = dir, events = [], index = {}, head = 0,
                floor = 0, picture_budget = budget, limit = lim\<rparr>;
          skip = length stored - lim;
          h1 = foldl (\<lambda>h r. load_one r h) h0 (drop skip stored);
          h2 = h1\<lparr>floor := head h1\<rparr>;
          h3 = h2\<lparr>pictures := remove_orphans (picture_ids h2) (pictures h2)\<rparr>;
          (dropped, h4) = enforce_picture_budget h3
      in if 0 < skip \<or> dropped then snd (persist io h4) else h4)"

section \<open>Reading\<close>

definition page :: "nat option \<Rightarrow> nat \<Rightarrow> camera_history \<Rightarrow> entry list \<times> nat option" where
  "page before lim h =
     (let below = filter (\<lambda>e. case before of None \<Rightarrow> True | Some b \<Rightarrow> seqno e < b) (events h);
          skip = length below - lim;
          pg = drop skip below;
          older = (case pg of e # _ \<Rightarrow> if 0 < skip then Some (seqno e) else None | [] \<Rightarrow> None)
      in (pg, older))"

definition recent :: "nat \<Rightarrow> camera_history \<Rightarrow> entry list" where
  "recent lim h = fst (page None lim h)"

definition after :: "nat \<Rightarrow> nat \<Rightarrow> camera_history \<Rightarrow> entry list \<times> nat" where
  "after a lim h =
     (if head h < a then ([], head h)
      else
        let cursor = max a (floor h);
            es = take lim (filter (\<lambda>e. cursor < seqno e) (events h));
            nxt = (if es = [] then cursor else seqno (last es))
        in (es, nxt))"

definition picture_bytes :: "string \<Rightarrow> camera_history \<Rightarrow> nat option" where
  "picture_bytes ident h = map_option (\<lambda>e. picture_size (rec e))
     (find (\<lambda>e. ar_id (rec e) = ident \<and> has_picture (rec e)) (events h))"

section \<open>The invariant\<close>

abbreviation entry_id :: "entry \<Rightarrow> string" where
  "entry_id e \<equiv> ar_id (rec e)"

definition hist_ok :: "camera_history \<Rightarrow> bool" where
  "hist_ok h \<longleftrightarrow> length (events h) \<le> limit h \<and> length (events h) \<le> head h \<and>
     map seqno (events h) = [head h + 1 - length (events h)..<head h + 1] \<and>
     distinct (map entry_id (events h)) \<and> index h = set (map entry_id (events h)) \<and>
     (\<forall>e \<in> set (events h). is_token (entry_id e)) \<and> floor h \<le> head h \<and>
     (\<forall>e \<in> set (events h). has_picture (rec e) \<longrightarrow> pictures h (entry_id e) \<noteq> None)"

lemma evict_fields:
  "events (evict es h) = drop (length es - limit h) es"
  "index (evict es h) = index h - set (map entry_id (take (length es - limit h) es))"
  "head (evict es h) = head h" "floor (evict es h) = floor h" "limit (evict es h) = limit h"
  "picture_budget (evict es h) = picture_budget h"
  by (induction es h rule: evict.induct) (auto simp: Suc_diff_le)

lemma evict_pictures:
  "i \<notin> set (map entry_id (take (length es - limit h) es)) \<Longrightarrow> pictures (evict es h) i = pictures h i"
  by (induction es h rule: evict.induct) (auto simp: Suc_diff_le picture_remove_def)

lemma push_fields:
  "events (push r h) = drop (length (events h) + 1 - limit h) (events h @ [\<lparr>seqno = head h + 1, rec = r\<rparr>])"
  "head (push r h) = head h + 1" "floor (push r h) = floor h" "limit (push r h) = limit h"
  "picture_budget (push r h) = picture_budget h"
  by (simp_all add: push_def evict_fields)

lemma push_seqnos:
  assumes "hist_ok h"
  shows "map seqno (events (push r h)) =
    [head (push r h) + 1 - length (events (push r h))..<head (push r h) + 1]"
proof -
  let ?n = "length (events h)" and ?k = "length (events h) + 1 - limit h"
  have s: "map seqno (events h) = [head h + 1 - ?n..<head h + 1]" "?n \<le> head h"
    using assms by (auto simp: hist_ok_def)
  have "map seqno (events h @ [\<lparr>seqno = head h + 1, rec = r\<rparr>]) = [head h + 1 - ?n..<head h + 2]"
    using s by simp
  then have "map seqno (events (push r h)) = drop ?k [head h + 1 - ?n..<head h + 2]"
    by (simp only: push_fields flip: drop_map)
  also have "\<dots> = [head h + 1 - ?n + ?k..<head h + 2]" by (rule drop_upt)
  also have "head h + 1 - ?n + ?k = head (push r h) + 1 - length (events (push r h))"
    using s(2) assms by (cases "limit h = 0") (auto simp: push_fields hist_ok_def)
  finally show ?thesis by (simp add: push_fields)
qed

lemma push_ok:
  assumes h: "hist_ok h" and new: "ar_id r \<notin> index h" "is_token (ar_id r)"
    and pic: "has_picture r \<Longrightarrow> pictures h (ar_id r) \<noteq> None"
  shows "hist_ok (push r h)"
proof -
  let ?new = "\<lparr>seqno = head h + 1, rec = r\<rparr>"
  let ?es = "events h @ [?new]" and ?k = "length (events h) + 1 - limit h"
  have d: "distinct (map entry_id ?es)" using h new by (auto simp: hist_ok_def)
  have ix: "insert (ar_id r) (index h) = set (map entry_id ?es)" using h by (auto simp: hist_ok_def)
  have split: "map entry_id ?es = map entry_id (take ?k ?es) @ map entry_id (drop ?k ?es)"
    by (metis append_take_drop_id map_append)
  have disj: "set (map entry_id (take ?k ?es)) \<inter> set (map entry_id (drop ?k ?es)) = {}"
    using d unfolding split distinct_append by blast
  have "index (push r h) = set (map entry_id ?es) - set (map entry_id (take ?k ?es))"
    using ix by (simp add: push_def evict_fields)
  also have "\<dots> = set (map entry_id (drop ?k ?es))"
    using disj unfolding split set_append by blast
  finally have "index (push r h) = set (map entry_id (events (push r h)))" by (simp add: push_fields)
  moreover have "distinct (map entry_id (events (push r h)))"
    using distinct_drop [OF d, of ?k] by (simp only: push_fields drop_map)
  moreover have "length (events (push r h)) \<le> limit h" "length (events (push r h)) \<le> head h + 1"
    using h by (auto simp: push_fields hist_ok_def)
  moreover have sub: "e \<in> set (events h) \<or> e = ?new" if "e \<in> set (events (push r h))" for e
    using that by (auto simp only: push_fields dest!: in_set_dropD) auto
  moreover have "pictures (push r h) (entry_id e) \<noteq> None"
    if e: "e \<in> set (events (push r h))" "has_picture (rec e)" for e
  proof -
    have "entry_id e \<in> set (map entry_id (events (push r h)))" using e(1) by auto
    then have "entry_id e \<in> set (map entry_id (drop ?k ?es))" by (simp only: push_fields)
    then have "entry_id e \<notin> set (map entry_id (take ?k ?es))" using disj by blast
    then have "pictures (push r h) (entry_id e) = pictures h (entry_id e)"
      by (simp add: push_def Let_def evict_pictures)
    then show ?thesis using sub [OF e(1)] e(2) h pic by (auto simp: hist_ok_def)
  qed
  moreover have "is_token (entry_id e)" if "e \<in> set (events (push r h))" for e
    using sub [OF that] h new(2) by (auto simp: hist_ok_def)
  ultimately show ?thesis
    unfolding hist_ok_def using push_seqnos [OF h, of r] h by (simp add: push_fields hist_ok_def)
qed

lemma without_picture_simps [simp]:
  "entry_id (without_picture e) = entry_id e" "seqno (without_picture e) = seqno e"
  "\<not> has_picture (rec (without_picture e))" "picture_size (rec (without_picture e)) = 0"
  by (simp_all add: without_picture_def)

lemma drop_pictures_same:
  "drop_pictures b t es dir = (es', dir', d) \<Longrightarrow>
   map seqno es' = map seqno es \<and> map entry_id es' = map entry_id es"
  by (induction b t es dir arbitrary: es' dir' d rule: drop_pictures.induct)
    (auto split: if_splits prod.splits)

lemma drop_pictures_keeps:
  "drop_pictures b t es dir = (es', dir', d) \<Longrightarrow> i \<notin> set (map entry_id es) \<Longrightarrow> dir' i = dir i"
proof (induction b t es dir arbitrary: es' dir' d rule: drop_pictures.induct)
  case (2 b t e es dir)
  then show ?case by (fastforce simp: picture_remove_def split: if_splits prod.splits)
qed simp

lemma drop_pictures_has:
  "drop_pictures b t es dir = (es', dir', d) \<Longrightarrow> distinct (map entry_id es) \<Longrightarrow>
   (\<forall>e \<in> set es. has_picture (rec e) \<longrightarrow> dir (entry_id e) \<noteq> None) \<Longrightarrow>
   (\<forall>e \<in> set es'. has_picture (rec e) \<longrightarrow> dir' (entry_id e) \<noteq> None)"
proof (induction b t es dir arbitrary: es' dir' d rule: drop_pictures.induct)
  case (2 b t e es dir)
  show ?case
  proof (cases "t \<le> b")
    case True
    then show ?thesis using 2 by auto
  next
    case False
    have dist: "entry_id e \<notin> set (map entry_id es)" "distinct (map entry_id es)" using 2(4) by auto
    have ne: "entry_id x \<noteq> entry_id e" if "x \<in> set es" for x
      using that dist(1) unfolding set_map image_iff by metis
    show ?thesis
    proof (cases "has_picture (rec e)")
      case True
      obtain es1 d1 where r: "drop_pictures b (t - picture_size (rec e)) es (picture_remove (entry_id e) dir) =
          (es1, dir', d1)" and es': "es' = without_picture e # es1"
        using 2(3) False True by (auto split: prod.splits)
      have "\<forall>x \<in> set es. has_picture (rec x) \<longrightarrow> picture_remove (entry_id e) dir (entry_id x) \<noteq> None"
        using 2(5) ne by (auto simp: picture_remove_def)
      from 2(1) [OF False True r dist(2) this] show ?thesis using es' by simp
    next
      case no: False
      obtain es1 d1 where r: "drop_pictures b t es dir = (es1, dir', d1)" and es': "es' = e # es1"
        using 2(3) False no by (auto split: prod.splits)
      have "\<forall>x \<in> set es1. has_picture (rec x) \<longrightarrow> dir' (entry_id x) \<noteq> None"
        using 2(2) [OF False no r dist(2)] 2(5) by simp
      then show ?thesis using es' no by simp
    qed
  qed
qed simp

text \<open>The budget is met whenever sizes are recorded only for entries with a picture.\<close>

lemma drop_pictures_budget:
  "drop_pictures b t es dir = (es', dir', d) \<Longrightarrow> picture_total es + s = t \<Longrightarrow>
   (\<forall>e \<in> set es. \<not> has_picture (rec e) \<longrightarrow> picture_size (rec e) = 0) \<Longrightarrow>
   picture_total es' + s \<le> max b s"
proof (induction b t es dir arbitrary: es' dir' d rule: drop_pictures.induct)
  case (2 b t e es dir)
  then show ?case
    by (fastforce simp: picture_total_def split: if_splits prod.splits)
qed (simp add: picture_total_def)

definition sizes_ok :: "camera_history \<Rightarrow> bool" where
  "sizes_ok h \<longleftrightarrow> (\<forall>e \<in> set (events h). \<not> has_picture (rec e) \<longrightarrow> picture_size (rec e) = 0)"

lemma enforce_ok:
  assumes "hist_ok h" "enforce_picture_budget h = (d, h')"
  shows "hist_ok h'" "map seqno (events h') = map seqno (events h)" "head h' = head h" "floor h' = floor h"
    "limit h' = limit h" "picture_budget h' = picture_budget h"
    "sizes_ok h \<Longrightarrow> picture_total (events h') \<le> picture_budget h'"
proof -
  obtain es dir where r: "drop_pictures (picture_budget h) (picture_total (events h)) (events h) (pictures h) =
      (es, dir, d)" and h': "h' = h\<lparr>events := es, pictures := dir\<rparr>"
    using assms(2) by (auto simp: enforce_picture_budget_def split: prod.splits)
  note same = drop_pictures_same [OF r]
  then have len: "length es = length (events h)" by (metis length_map)
  have ids: "set (map entry_id es) = set (map entry_id (events h))" using same by simp
  have tok: "is_token (entry_id e)" if "e \<in> set es" for e
  proof -
    have "entry_id e \<in> set (map entry_id (events h))" using that ids by fastforce
    then show ?thesis using assms(1) by (auto simp: hist_ok_def)
  qed
  have "\<forall>e \<in> set es. has_picture (rec e) \<longrightarrow> dir (entry_id e) \<noteq> None"
    by (rule drop_pictures_has [OF r]) (use assms(1) in \<open>auto simp: hist_ok_def\<close>)
  then show "hist_ok h'"
    using assms(1) same len ids tok unfolding hist_ok_def h' by simp
  show "map seqno (events h') = map seqno (events h)" "head h' = head h" "floor h' = floor h"
    "limit h' = limit h" "picture_budget h' = picture_budget h"
    using same by (simp_all add: h')
  show "picture_total (events h') \<le> picture_budget h'" if "sizes_ok h"
    using drop_pictures_budget [OF r, of 0] that by (simp add: h' sizes_ok_def)
qed

section \<open>Inserting and loading keep the invariant\<close>

lemma picture_write_ok:
  "picture_write io i data dir = (res, dir') \<Longrightarrow>
   (\<forall>j. dir j \<noteq> None \<longrightarrow> dir' j \<noteq> None) \<and> (\<forall>n. res = Inr n \<longrightarrow> dir' i \<noteq> None)"
  by (auto simp: picture_write_def split: if_splits write_outcome.splits)

lemma more_pictures_ok:
  "hist_ok h \<Longrightarrow> \<forall>j. pictures h j \<noteq> None \<longrightarrow> dir j \<noteq> None \<Longrightarrow> hist_ok (h\<lparr>pictures := dir\<rparr>)"
  by (fastforce simp: hist_ok_def)

text \<open>One item either changes nothing or pushes a record of its own identifier.\<close>

lemma insert_one_cases:
  assumes "insert_one (r, jpeg, io) (o', h) = (o'', h')"
  obtains (skip) "o'' = o'" "h' = h"
  | (push) r' dir where "h' = push r' (h\<lparr>pictures := dir\<rparr>)" "ar_id r' = ar_id r"
      "ar_id r \<notin> index h" "is_token (ar_id r)" "\<forall>j. pictures h j \<noteq> None \<longrightarrow> dir j \<noteq> None"
      "has_picture r' \<longrightarrow> dir (ar_id r) \<noteq> None" "\<not> has_picture r' \<longrightarrow> picture_size r' = 0"
      "inserted o'' = inserted o' + 1"
proof (cases "\<not> is_token (ar_id r) \<or> knows (ar_id r) h \<or> predates_full_history r h")
  case True
  then show thesis using assms skip by (auto simp: insert_one_def)
next
  case False
  then have new: "is_token (ar_id r)" "ar_id r \<notin> index h" by (auto simp: knows_def)
  show thesis
  proof (cases jpeg)
    case None
    then have h': "h' = push (r\<lparr>has_picture := False, picture_size := 0\<rparr>) (h\<lparr>pictures := pictures h\<rparr>)"
      "inserted o'' = inserted o' + 1" using assms False by (auto simp: insert_one_def)
    show thesis by (rule push [OF h'(1)]) (use new h' in auto)
  next
    case (Some data)
    obtain res dir where w: "picture_write io (ar_id r) data (pictures h) = (res, dir)" by fastforce
    note wo = picture_write_ok [OF w]
    show thesis
    proof (cases res)
      case (Inl e)
      then have h': "h' = push (r\<lparr>has_picture := False, picture_size := 0\<rparr>) (h\<lparr>pictures := dir\<rparr>)"
        "inserted o'' = inserted o' + 1" using assms False Some w by (auto simp: insert_one_def)
      show thesis by (rule push [OF h'(1)]) (use new h' wo in auto)
    next
      case (Inr n)
      then have h': "h' = push (r\<lparr>has_picture := True, picture_size := n\<rparr>) (h\<lparr>pictures := dir\<rparr>)"
        "inserted o'' = inserted o' + 1" using assms False Some w by (auto simp: insert_one_def)
      show thesis by (rule push [OF h'(1)]) (use new h' wo Inr in auto)
    qed
  qed
qed

lemma push_sizes: "sizes_ok h \<Longrightarrow> (\<not> has_picture r \<longrightarrow> picture_size r = 0) \<Longrightarrow> sizes_ok (push r h)"
  unfolding sizes_ok_def push_fields by (auto dest!: in_set_dropD)

lemma insert_one_ok:
  assumes "hist_ok h" "insert_one i (o', h) = (o'', h')"
  shows "hist_ok h' \<and> (sizes_ok h \<longrightarrow> sizes_ok h') \<and> limit h' = limit h \<and> picture_budget h' = picture_budget h \<and>
    floor h' = floor h \<and> head h \<le> head h' \<and> head h' + inserted o' = head h + inserted o''"
proof -
  obtain r jpeg io where i: "i = (r, jpeg, io)" by (cases i)
  from assms(2) [unfolded i] show ?thesis
  proof (cases rule: insert_one_cases)
    case (push r' dir)
    have "hist_ok (h\<lparr>pictures := dir\<rparr>)" by (rule more_pictures_ok [OF assms(1) push(5)])
    then have "hist_ok (push r' (h\<lparr>pictures := dir\<rparr>))" by (rule push_ok) (use push in auto)
    moreover have "sizes_ok h \<longrightarrow> sizes_ok (push r' (h\<lparr>pictures := dir\<rparr>))"
      using push(7) push_sizes [of "h\<lparr>pictures := dir\<rparr>" r'] by (simp add: sizes_ok_def)
    ultimately show ?thesis using push by (simp add: push_fields)
  qed (use assms(1) in simp)
qed

lemma insert_all_ok:
  "hist_ok h \<Longrightarrow> foldl (\<lambda>st i. insert_one i st) (o', h) batch = (o'', h') \<Longrightarrow>
   hist_ok h' \<and> (sizes_ok h \<longrightarrow> sizes_ok h') \<and> limit h' = limit h \<and> picture_budget h' = picture_budget h \<and>
   floor h' = floor h \<and> head h \<le> head h' \<and> head h' + inserted o' = head h + inserted o''"
proof (induction batch arbitrary: h o')
  case (Cons i batch)
  obtain o1 h1 where s: "insert_one i (o', h) = (o1, h1)" by fastforce
  from insert_one_ok [OF Cons.prems(1) s] Cons.IH [of h1 o1] Cons.prems(2) s show ?case by auto
qed simp

lemma persist_ok: "persist io h = (res, h') \<Longrightarrow> hist_ok h' = hist_ok h \<and> events h' = events h \<and>
    head h' = head h \<and> floor h' = floor h \<and> limit h' = limit h \<and> picture_budget h' = picture_budget h"
  by (auto simp: persist_def hist_ok_def split: if_splits)

lemma insert_batch_ok:
  assumes h: "hist_ok h" and r: "insert_batch io batch live h = (res, h')"
  shows "hist_ok h' \<and> limit h' = limit h \<and> picture_budget h' = picture_budget h \<and> head h \<le> head h' \<and>
    (sizes_ok h \<longrightarrow> picture_total (events h') \<le> picture_budget h') \<and>
    floor h' = (if live then floor h else head h') \<and>
    (\<forall>o'. res = Inr o' \<longrightarrow> head h' = head h + inserted o')"
proof -
  obtain o1 h1 where f: "foldl (\<lambda>st i. insert_one i st)
      (\<lparr>inserted = 0, pictures_stored = 0, pictures_failed = 0\<rparr>, h) batch = (o1, h1)" by fastforce
  note a = insert_all_ok [OF h f]
  define h2 where "h2 = (if live then h1 else h1\<lparr>floor := head h1\<rparr>)"
  have 2: "hist_ok h2" "sizes_ok h1 \<longrightarrow> sizes_ok h2" "head h2 = head h1" "limit h2 = limit h1"
    "picture_budget h2 = picture_budget h1" "floor h2 = (if live then floor h1 else head h1)"
    using a by (auto simp: h2_def hist_ok_def sizes_ok_def)
  obtain d h3 where e: "enforce_picture_budget h2 = (d, h3)" by fastforce
  note 3 = enforce_ok [OF 2(1) e]
  have "h' = h3 \<and> res = Inr o1 \<or> (\<exists>q. persist io h3 = (q, h') \<and> (res = Inr o1 \<or> (\<exists>x. res = Inl x)))"
    using r f e by (auto simp: insert_batch_def Let_def h2_def [symmetric] split: if_splits prod.splits sum.splits)
  then have "hist_ok h' \<and> events h' = events h3 \<and> head h' = head h3 \<and> floor h' = floor h3 \<and>
      limit h' = limit h3 \<and> picture_budget h' = picture_budget h3 \<and> (\<forall>o'. res = Inr o' \<longrightarrow> o' = o1)"
    using 3(1) persist_ok by fastforce
  then show ?thesis using a 2 3 by auto
qed

lemma load_one_ok: "hist_ok h \<Longrightarrow> hist_ok (load_one r h) \<and> limit (load_one r h) = limit h"
  by (auto simp: load_one_def knows_def picture_exists_def Let_def push_fields intro!: push_ok)

lemma load_all_ok:
  "hist_ok h \<Longrightarrow> hist_ok (foldl (\<lambda>h r. load_one r h) h rs) \<and> limit (foldl (\<lambda>h r. load_one r h) h rs) = limit h"
  by (induction rs arbitrary: h) (simp_all add: load_one_ok)

lemma hist_ok_loaded:
  assumes "hist_ok h"
  shows "hist_ok (h\<lparr>floor := head h, pictures := remove_orphans (picture_ids (h\<lparr>floor := head h\<rparr>)) (pictures h)\<rparr>)"
  using assms by (auto simp: hist_ok_def remove_orphans_def picture_ids_def)

lemma load_ok: "hist_ok (load io file dir bind budget lim) \<and> limit (load io file dir bind budget lim) = lim \<and>
    floor (load io file dir bind budget lim) = head (load io file dir bind budget lim)"
proof -
  define stored where "stored = (case file of
      Some f \<Rightarrow> if schema_version f = SCHEMA_VERSION \<and> hf_binding f = bind then hf_events f else []
    | None \<Rightarrow> [])"
  define h0 where "h0 = \<lparr>ch_file = file, ch_binding = bind, pictures = dir, events = [], index = {}, head = 0,
    floor = 0, picture_budget = budget, limit = lim\<rparr>"
  define h1 where "h1 = foldl (\<lambda>h r. load_one r h) h0 (drop (length stored - lim) stored)"
  define h3 where "h3 = h1\<lparr>floor := head h1,
    pictures := remove_orphans (picture_ids (h1\<lparr>floor := head h1\<rparr>)) (pictures h1)\<rparr>"
  have "hist_ok h0" by (simp add: h0_def hist_ok_def)
  then have 1: "hist_ok h1" "limit h1 = lim" using load_all_ok by (simp_all add: h1_def h0_def)
  have 3: "hist_ok h3" "limit h3 = lim" "floor h3 = head h3"
    using hist_ok_loaded [OF 1(1)] 1(2) by (simp_all add: h3_def)
  obtain d h4 where e: "enforce_picture_budget h3 = (d, h4)" by fastforce
  note 4 = enforce_ok [OF 3(1) e]
  have "load io file dir bind budget lim = h4 \<or> load io file dir bind budget lim = snd (persist io h4)"
    using e unfolding load_def Let_def stored_def [symmetric] h0_def [symmetric] h1_def [symmetric]
    by (auto simp: h3_def split: if_splits)
  then show ?thesis
    using 3 4 persist_ok [of io h4 "fst (persist io h4)" "snd (persist io h4)"] by auto
qed

section \<open>Reading\<close>

text \<open>Sequence numbers are consecutive and end at the head, so a bound on them is a position.\<close>

lemma seq_at: "hist_ok h \<Longrightarrow> i < length (events h) \<Longrightarrow>
    seqno (events h ! i) = head h + 1 - length (events h) + i"
proof -
  assume h: "hist_ok h" and i: "i < length (events h)"
  have "map seqno (events h) ! i = [head h + 1 - length (events h)..<head h + 1] ! i"
    using h by (simp add: hist_ok_def)
  then show ?thesis using h i by (simp add: hist_ok_def del: upt_Suc)
qed

lemma filter_take:
  assumes "\<And>i. i < length xs \<Longrightarrow> P (xs ! i) \<longleftrightarrow> i < j"
  shows "filter P xs = take j xs"
proof -
  have "filter P (take j xs) = take j xs"
    using assms by (auto simp: filter_id_conv in_set_conv_nth)
  moreover have "filter P (drop j xs) = []"
    using assms by (auto simp: filter_empty_conv in_set_conv_nth)
  ultimately show ?thesis by (metis append_Nil2 append_take_drop_id filter_append)
qed

lemma filter_drop:
  assumes "\<And>i. i < length xs \<Longrightarrow> P (xs ! i) \<longleftrightarrow> j \<le> i"
  shows "filter P xs = drop j xs"
proof -
  have "filter P (take j xs) = []"
    using assms by (auto simp: filter_empty_conv in_set_conv_nth)
  moreover have "filter P (drop j xs) = drop j xs"
    using assms by (auto simp: filter_id_conv in_set_conv_nth)
  ultimately show ?thesis by (metis append_Nil append_take_drop_id filter_append)
qed

text \<open>Following the \<open>older\<close> cursors from the newest page, as a client does.\<close>

fun walk :: "nat \<Rightarrow> nat option \<Rightarrow> nat \<Rightarrow> camera_history \<Rightarrow> entry list list" where
  "walk 0 before lim h = []"
| "walk (Suc n) before lim h = (case page before lim h of
     (pg, None) \<Rightarrow> [pg]
   | (pg, Some b) \<Rightarrow> walk n (Some b) lim h @ [pg])"

lemma page_at:
  assumes "hist_ok h" "j \<le> length (events h)" "0 < lim"
    "filter (\<lambda>e. case before of None \<Rightarrow> True | Some b \<Rightarrow> seqno e < b) (events h) = take j (events h)"
  shows "page before lim h = (drop (j - lim) (take j (events h)),
    if lim < j then Some (seqno (events h ! (j - lim))) else None)"
proof -
  have lt: "length (take j (events h)) = j" using assms(2) by simp
  show ?thesis
  proof (cases "lim < j")
    case True
    then have "drop (j - lim) (take j (events h)) =
        events h ! (j - lim) # drop (Suc (j - lim)) (take j (events h))"
      using assms(2,3) by (simp add: Cons_nth_drop_Suc [symmetric])
    then show ?thesis using True unfolding page_def assms(4) Let_def lt by simp
  next
    case False
    then show ?thesis unfolding page_def assms(4) Let_def lt by (simp split: list.splits)
  qed
qed

lemma walk_from:
  assumes "hist_ok h" "0 < lim"
  shows "j \<le> length (events h) \<Longrightarrow> j < n \<Longrightarrow>
    filter (\<lambda>e. case before of None \<Rightarrow> True | Some b \<Rightarrow> seqno e < b) (events h) = take j (events h) \<Longrightarrow>
    concat (walk n before lim h) = take j (events h) \<and> (\<forall>pg \<in> set (walk n before lim h). length pg \<le> lim)"
proof (induction n arbitrary: j before)
  case (Suc n)
  note p = page_at [OF assms(1) Suc.prems(1) assms(2) Suc.prems(3)]
  show ?case
  proof (cases "lim < j")
    case False
    then show ?thesis using p by simp
  next
    case True
    let ?k = "j - lim"
    have k: "?k < length (events h)" using True Suc.prems(1) assms(2) by simp
    have "filter (\<lambda>e. seqno e < seqno (events h ! ?k)) (events h) = take ?k (events h)"
      by (rule filter_take) (use seq_at [OF assms(1)] k in auto)
    then have ih: "concat (walk n (Some (seqno (events h ! ?k))) lim h) = take ?k (events h) \<and>
        (\<forall>pg \<in> set (walk n (Some (seqno (events h ! ?k))) lim h). length pg \<le> lim)"
      using Suc.IH [of ?k "Some (seqno (events h ! ?k))"] k Suc.prems(2) True assms(2) by auto
    have "take ?k (events h) @ drop ?k (take j (events h)) = take j (events h)"
      by (metis append_take_drop_id diff_le_self min.absorb1 take_take)
    then show ?thesis using p True ih by auto
  qed
qed simp

section \<open>The live cursor\<close>

lemma after_set:
  assumes "hist_ok h" "c \<le> head h" "after c lim h = (es, nxt)"
  shows "es = take lim (filter (\<lambda>e. max c (floor h) < seqno e) (events h))"
    "nxt = (if es = [] then max c (floor h) else seqno (last es))"
  using assms by (auto simp: after_def Let_def)

lemma after_positions:
  assumes "hist_ok h" "c \<le> head h" "after c lim h = (es, nxt)"
  obtains j where "es = take lim (drop j (events h))" "\<And>i. i < length (events h) \<Longrightarrow>
      (max c (floor h) < seqno (events h ! i)) = (j \<le> i)"
proof -
  define j where "j = max c (floor h) + length (events h) - head h"
  have j: "(max c (floor h) < seqno (events h ! i)) = (j \<le> i)" if "i < length (events h)" for i
    using seq_at [OF assms(1) that] assms(1,2) that by (auto simp: j_def hist_ok_def)
  then have "filter (\<lambda>e. max c (floor h) < seqno e) (events h) = drop j (events h)"
    by (rule filter_drop)
  then show thesis using that [of j] after_set(1) [OF assms] j by simp
qed

lemma after_exact:
  assumes h: "hist_ok h" and c: "c \<le> head h" and a: "after c lim h = (es, nxt)"
  shows "sorted_wrt (<) (map seqno es)" "\<forall>e \<in> set es. c < seqno e \<and> floor h < seqno e \<and> seqno e \<le> nxt"
    "c \<le> nxt" "nxt \<le> head h"
    "\<forall>e \<in> set (events h). max c (floor h) < seqno e \<and> seqno e \<le> nxt \<longrightarrow> e \<in> set es"
    "0 < lim \<Longrightarrow> es = [] \<Longrightarrow> \<forall>e \<in> set (events h). seqno e \<le> max c (floor h)"
proof -
  obtain j where es: "es = take lim (drop j (events h))" and
    j: "\<And>i. i < length (events h) \<Longrightarrow> (max c (floor h) < seqno (events h ! i)) = (j \<le> i)"
    using after_positions [OF h c a] by metis
  note nxt = after_set(2) [OF h c a]
  have sorted: "sorted_wrt (<) (map seqno (events h))" using h by (simp add: hist_ok_def del: upt_Suc)
  then show s: "sorted_wrt (<) (map seqno es)"
    unfolding es by (simp add: sorted_wrt_take sorted_wrt_drop flip: take_map drop_map)
  have nth: "es ! i = events h ! (j + i)" "j + i < length (events h)" if "i < length es" for i
    using that by (auto simp: es)
  have last_max: "seqno e \<le> seqno (last es)" if "e \<in> set es" for e
    using s that by (cases es rule: rev_cases) (auto simp: sorted_wrt_append intro: less_imp_le)
  have gt: "max c (floor h) < seqno e" if e: "e \<in> set es" for e
  proof -
    obtain i where i: "i < length es" "e = es ! i" using e by (auto simp: in_set_conv_nth)
    then show ?thesis using j [OF nth(2) [OF i(1)]] nth(1) [OF i(1)] by simp
  qed
  then show "\<forall>e \<in> set es. c < seqno e \<and> floor h < seqno e \<and> seqno e \<le> nxt"
    using last_max nxt by fastforce
  have sub: "set es \<subseteq> set (events h)" by (auto simp: es dest!: in_set_takeD in_set_dropD)
  have le_head: "seqno e \<le> head h" if e: "e \<in> set (events h)" for e
  proof -
    obtain i where "i < length (events h)" "e = events h ! i" using e by (auto simp: in_set_conv_nth)
    then show ?thesis using seq_at [OF h] h by (auto simp: hist_ok_def)
  qed
  have last: "last es \<in> set es" "last es \<in> set (events h)" if "es \<noteq> []"
    using that sub last_in_set by blast+
  show "c \<le> nxt" using nxt gt [OF last(1)] by (cases "es = []") auto
  show "nxt \<le> head h" using nxt le_head [OF last(2)] h c by (cases "es = []") (auto simp: hist_ok_def)
  show "\<forall>e \<in> set (events h). max c (floor h) < seqno e \<and> seqno e \<le> nxt \<longrightarrow> e \<in> set es"
  proof (intro ballI impI)
    fix e assume e: "e \<in> set (events h)" "max c (floor h) < seqno e \<and> seqno e \<le> nxt"
    then obtain i where i: "i < length (events h)" "e = events h ! i" by (auto simp: in_set_conv_nth)
    have ji: "j \<le> i" using j [OF i(1)] e i(2) by simp
    have ne: "es \<noteq> []" using e(2) nxt by auto
    have "last es = events h ! (j + (length es - 1))" using nth(1) [of "length es - 1"] ne
      by (simp add: last_conv_nth)
    moreover have "j + (length es - 1) < length (events h)" using nth(2) [of "length es - 1"] ne by simp
    ultimately have "i \<le> j + (length es - 1)"
      using e(2) nxt ne seq_at [OF h i(1)] seq_at [OF h, of "j + (length es - 1)"] i(2) by simp
    then have "i - j < length es" using ne ji by (cases es) auto
    then show "e \<in> set es" using nth(1) [of "i - j"] ji i(2) by (metis le_add_diff_inverse nth_mem)
  qed
  show "\<forall>e \<in> set (events h). seqno e \<le> max c (floor h)" if "0 < lim" "es = []"
  proof
    fix e assume "e \<in> set (events h)"
    then obtain i where i: "i < length (events h)" "e = events h ! i" by (auto simp: in_set_conv_nth)
    have "length (events h) \<le> j" using that es by auto
    then show "seqno e \<le> max c (floor h)" using j [OF i(1)] i by auto
  qed
qed

text \<open>A client that polls with the cursor it was last given, while the poller inserts.\<close>

type_synonym client = "camera_history \<times> nat \<times> nat list"

inductive client_step :: "client \<Rightarrow> client \<Rightarrow> bool" where
  poll: "after c lim h = (es, nxt) \<Longrightarrow> client_step (h, c, d) (h, nxt, d @ map seqno es)"
| arrive: "insert_batch io batch live h = (res, h') \<Longrightarrow> client_step (h, c, d) (h', c, d)"

inductive_cases client_stepE: "client_step (h, c, d) t"

definition client_ok :: "nat \<Rightarrow> client \<Rightarrow> bool" where
  "client_ok c0 = (\<lambda>(h, c, d). hist_ok h \<and> c0 \<le> c \<and> c \<le> head h \<and> sorted_wrt (<) d \<and>
     (\<forall>q \<in> set d. c0 < q \<and> q \<le> c) \<and>
     (\<forall>e \<in> set (events h). max c0 (floor h) < seqno e \<and> seqno e \<le> c \<longrightarrow> seqno e \<in> set d))"

lemma insert_one_old:
  assumes "hist_ok h" "insert_one i (o', h) = (o'', h')" "e \<in> set (events h')" "seqno e \<le> head h"
  shows "seqno e \<in> seqno ` set (events h)"
proof -
  obtain r jpeg io where i: "i = (r, jpeg, io)" by (cases i)
  from assms(2) [unfolded i] show ?thesis
  proof (cases rule: insert_one_cases)
    case (push r' dir)
    have "e \<in> set (events h @ [\<lparr>seqno = head h + 1, rec = r'\<rparr>])"
      using assms(3) unfolding push(1) push_fields by (auto dest: in_set_dropD)
    then show ?thesis using assms(4) by auto
  qed (use assms(3) in auto)
qed

lemma insert_all_old:
  "hist_ok h \<Longrightarrow> foldl (\<lambda>st i. insert_one i st) (o', h) batch = (o'', h') \<Longrightarrow> e \<in> set (events h') \<Longrightarrow>
   seqno e \<le> head h \<Longrightarrow> seqno e \<in> seqno ` set (events h)"
proof (induction batch arbitrary: h o')
  case (Cons i batch)
  obtain o1 h1 where s: "insert_one i (o', h) = (o1, h1)" by fastforce
  note ok = insert_one_ok [OF Cons.prems(1) s]
  have "seqno e \<in> seqno ` set (events h1)"
    using Cons.IH [of h1 o1] Cons.prems s ok by auto
  then obtain e1 where "e1 \<in> set (events h1)" "seqno e1 = seqno e" by auto
  then show ?case using insert_one_old [OF Cons.prems(1) s, of e1] Cons.prems(4) by simp
qed auto

lemma insert_batch_old:
  assumes "hist_ok h" "insert_batch io batch live h = (res, h')" "e \<in> set (events h')" "seqno e \<le> head h"
  shows "seqno e \<in> seqno ` set (events h)"
proof -
  obtain o1 h1 where f: "foldl (\<lambda>st i. insert_one i st)
      (\<lparr>inserted = 0, pictures_stored = 0, pictures_failed = 0\<rparr>, h) batch = (o1, h1)" by fastforce
  define h2 where "h2 = (if live then h1 else h1\<lparr>floor := head h1\<rparr>)"
  obtain dr h3 where en: "enforce_picture_budget h2 = (dr, h3)" by fastforce
  have ok2: "hist_ok h2" "events h2 = events h1"
    using insert_all_ok [OF assms(1) f] by (auto simp: h2_def hist_ok_def)
  have "events h' = events h3"
    using assms(2) f en persist_ok by (auto simp: insert_batch_def Let_def h2_def [symmetric]
        split: if_splits prod.splits sum.splits)
  then have "seqno e \<in> set (map seqno (events h1))"
    using assms(3) enforce_ok(2) [OF ok2(1) en] ok2(2) by (metis image_eqI list.set_map)
  then obtain e1 where "e1 \<in> set (events h1)" "seqno e1 = seqno e" by auto
  then show ?thesis using insert_all_old [OF assms(1) f, of e1] assms(4) by simp
qed

lemma client_okD:
  assumes "client_ok c0 (h, c, d)"
  shows "hist_ok h" "c0 \<le> c" "c \<le> head h" "sorted_wrt (<) d" "\<forall>q \<in> set d. c0 < q \<and> q \<le> c"
    "\<forall>e \<in> set (events h). max c0 (floor h) < seqno e \<and> seqno e \<le> c \<longrightarrow> seqno e \<in> set d"
  using assms unfolding client_ok_def prod.case by blast+

lemma client_poll_ok:
  assumes "client_ok c0 (h, c, d)" "after c lim h = (es, nxt)"
  shows "client_ok c0 (h, nxt, d @ map seqno es)"
proof -
  note ok = client_okD [OF assms(1)]
  note a = after_exact [OF ok(1,3) assms(2)]
  have "x < seqno e" if "x \<in> set d" "e \<in> set es" for x e
    using that ok(5) a(2) by (meson le_less_trans)
  then have s: "sorted_wrt (<) (d @ map seqno es)"
    using ok(4) a(1) by (auto simp: sorted_wrt_append)
  have q: "c0 < q \<and> q \<le> nxt" if mem: "q \<in> set (d @ map seqno es)" for q
  proof (cases "q \<in> set d")
    case True
    then show ?thesis using ok(5) a(3) by (meson order_trans)
  next
    case False
    then obtain e where "e \<in> set es" "q = seqno e" using mem by auto
    then show ?thesis using a(2) ok(2) by (meson le_less_trans)
  qed
  have r: "seqno e \<in> set (d @ map seqno es)"
    if "e \<in> set (events h)" "max c0 (floor h) < seqno e" "seqno e \<le> nxt" for e
  proof (cases "seqno e \<le> c")
    case True
    then show ?thesis using that ok(6) by simp
  next
    case False
    then have "e \<in> set es" using that a(5) by simp
    then show ?thesis by simp
  qed
  have "c0 \<le> nxt" using ok(2) a(3) by simp
  then show ?thesis using ok(1) a(4) s q r unfolding client_ok_def prod.case by blast
qed

lemma client_arrive_ok:
  assumes "client_ok c0 (h, c, d)" "insert_batch io batch live h = (res, h')"
  shows "client_ok c0 (h', c, d)"
proof -
  note ok = client_okD [OF assms(1)]
  note b = insert_batch_ok [OF ok(1) assms(2)]
  have fl: "floor h \<le> floor h'" using b ok(1) by (auto simp: hist_ok_def)
  have "seqno e \<in> set d" if e: "e \<in> set (events h')" "max c0 (floor h') < seqno e" "seqno e \<le> c" for e
  proof -
    have "seqno e \<le> head h" using e(3) ok(3) by simp
    then obtain e1 where "e1 \<in> set (events h)" "seqno e = seqno e1"
      using insert_batch_old [OF ok(1) assms(2) e(1)] by blast
    then show ?thesis using ok(6) e(2,3) fl by simp
  qed
  moreover have "c \<le> head h'" using ok(3) b by linarith
  ultimately show ?thesis using ok(2,4,5) b unfolding client_ok_def prod.case by blast
qed

lemma client_step_ok: "client_step s t \<Longrightarrow> client_ok c0 s \<Longrightarrow> client_ok c0 t"
  by (induction rule: client_step.induct) (blast intro: client_poll_ok client_arrive_ok)+

interpretation client_machine: invariant_machine client_step "client_ok c0" for c0
  by unfold_locales (rule client_step_ok)

lemma client_ok_start: "hist_ok h \<Longrightarrow> c \<le> head h \<Longrightarrow> client_ok c (h, c, [])"
  unfolding client_ok_def by simp

section \<open>Properties\<close>

definition insert_all :: "(bool \<times> batch_item list \<times> bool) list \<Rightarrow> camera_history \<Rightarrow> camera_history" where
  "insert_all = fold (\<lambda>(io, batch, live) h. snd (insert_batch io batch live h))"

lemma insert_all_hist_ok: "hist_ok h \<Longrightarrow> hist_ok (insert_all bs h) \<and> limit (insert_all bs h) = limit h"
proof (induction bs arbitrary: h)
  case (Cons b bs)
  obtain io batch live where b: "b = (io, batch, live)" by (cases b)
  have "hist_ok (snd (insert_batch io batch live h)) \<and> limit (snd (insert_batch io batch live h)) = limit h"
    using insert_batch_ok [OF Cons.prems, of io batch live] by (metis prod.collapse)
  then show ?case using Cons.IH b by (simp add: insert_all_def)
qed (simp add: insert_all_def)

text \<open>C10. The alarm history keeps its invariant from any state on disk: loaded from any history file
  and picture directory, corrupt or foreign ones included, and after any batches, live or priming,
  with any disk failures, the history holds at most its limit of alarms, their identifiers are
  distinct safe tokens and exactly the index, their sequence numbers are consecutive and end at the
  head, and every alarm that claims a picture has one on disk.\<close>
theorem history_invariant:
  "let h = insert_all bs (load io file dir bind budget lim) in
   length (events h) \<le> lim \<and> distinct (map entry_id (events h)) \<and>
   index h = set (map entry_id (events h)) \<and> list_all (\<lambda>e. is_token (entry_id e)) (events h) \<and>
   map seqno (events h) = [head h + 1 - length (events h)..<head h + 1] \<and> floor h \<le> head h \<and>
   list_all (\<lambda>e. pictures h (entry_id e) \<noteq> None) (filter (\<lambda>e. has_picture (rec e)) (events h))"
proof -
  let ?h0 = "load io file dir bind budget lim"
  have h0: "hist_ok ?h0" "limit ?h0 = lim" using load_ok by blast+
  then have "hist_ok (insert_all bs ?h0)" "limit (insert_all bs ?h0) = lim" using insert_all_hist_ok by simp_all
  then show ?thesis unfolding Let_def hist_ok_def by (auto simp: list_all_iff)
qed

text \<open>C11. History pages are complete: a client that starts at the newest page and follows the
  \<open>older\<close> cursors, with any page size, receives every retained alarm exactly once and in order, in
  pages of at most that size, and the walk ends.\<close>
theorem history_pages_complete:
  assumes "hist_ok h" and "0 < lim"
  shows "concat (walk (length (events h) + 1) None lim h) = events h \<and>
    (\<forall>pg \<in> set (walk (length (events h) + 1) None lim h). length pg \<le> lim)"
  using walk_from [OF assms, of "length (events h)" "length (events h) + 1" None] by simp

text \<open>C9. The live cursor delivers without duplicate or gap: for a client that polls with the cursor
  it was last given while batches arrive, evictions and priming included, the sequence numbers it has
  received are strictly increasing, and every alarm still retained above the replay floor and at or
  below its cursor is among them.\<close>
theorem live_cursor_no_gap:
  assumes "hist_ok h0" and "c0 \<le> head h0" and "client_step\<^sup>*\<^sup>* (h0, c0, []) (h, c, d)"
  shows "sorted_wrt (<) d \<and> c \<le> head h \<and>
    (\<forall>e \<in> set (events h). max c0 (floor h) < seqno e \<and> seqno e \<le> c \<longrightarrow> seqno e \<in> set d)"
  using client_machine.invariant_run [OF assms(3) client_ok_start [OF assms(1,2)]] unfolding client_ok_def prod.case by blast

text \<open>Two live alarms in an empty history of at most three.\<close>

definition sample_alarm :: "string \<Rightarrow> int \<Rightarrow> alarm_record" where
  "sample_alarm i t = \<lparr>ar_id = i, occurred_at = t, alarm_type = 10000, ar_category = ''motion'',
     ar_title = [], has_picture = False, picture_size = 0\<rparr>"

definition sample_history :: camera_history where
  "sample_history = insert_all [(True, [(sample_alarm ''a'' 10, None, Written), (sample_alarm ''b'' 20, None, Written)], True)]
     (load True None Map.empty ''x'' 100 3)"

lemma sample_history_ok: "hist_ok sample_history"
  unfolding sample_history_def using insert_all_hist_ok load_ok by blast

lemma sample_history_events: "map seqno (events sample_history) = [1, 2]" "head sample_history = 2"
  "floor sample_history = 0"
  by code_simp+

theorem history_pages_complete_witness:
  "hist_ok sample_history \<and> length (events sample_history) = 2 \<and>
   concat (walk (length (events sample_history) + 1) None 1 sample_history) = events sample_history"
proof -
  have "length (events sample_history) = 2"
    using arg_cong [OF sample_history_events(1), of length] by simp
  then show ?thesis using history_pages_complete [OF sample_history_ok, of 1] sample_history_ok by simp
qed

lemma sample_after: "map seqno (fst (after 0 50 sample_history)) = [1, 2]"
  by code_simp

theorem live_cursor_no_gap_witness:
  "\<exists>c. client_step\<^sup>*\<^sup>* (sample_history, 0, []) (sample_history, c, [1, 2]) \<and>
     sorted_wrt (<) [1 :: nat, 2] \<and> c \<le> head sample_history"
proof -
  obtain es nxt where a: "after 0 50 sample_history = (es, nxt)" by fastforce
  have "client_step (sample_history, 0, []) (sample_history, nxt, [] @ map seqno es)"
    by (rule poll [OF a])
  then have "client_step\<^sup>*\<^sup>* (sample_history, 0, []) (sample_history, nxt, [1, 2])"
    using sample_after a by simp
  with live_cursor_no_gap [OF sample_history_ok _ this] show ?thesis by blast
qed

end
