(* ===== verification/Bridge_Config.thy ===== *)
theory Bridge_Config
  imports Rust_Str Bridge_Error
begin

text \<open>
  The bridge configuration (\<open>config.rs\<close>): bounded integers from the environment, camera validation
  and the alarm limits. The environment is a map from names to values; reading the camera file and
  decoding its JSON (crate \<open>serde_json\<close>) is an argument, \<open>None\<close> when either fails.
\<close>

type_synonym env = "string \<Rightarrow> string option"

record camera_config =
  serial :: string
  channel :: nat
  substream :: bool
  decrypt_video :: bool
  media_key_file :: "string option"

definition default_channel :: nat where "default_channel = 1"

record alarm_limits =
  al_history :: nat
  al_picture_bytes :: nat

definition alarm_limits_default :: alarm_limits where
  "alarm_limits_default = \<lparr>al_history = 200, al_picture_bytes = 256 * 1024 * 1024\<rparr>"

record bridge_config =
  bind_host :: string
  bind_port :: nat
  api_token_file :: string
  ezviz_token_file :: string
  cameras :: "(string \<times> camera_config) list"
  data_dir :: string
  ffmpeg_path :: string
  upstream_timeout_seconds :: nat
  max_live_session_seconds :: nat
  idle_grace_seconds :: nat
  queue_chunks :: nat
  max_subscribers :: nat
  max_recording_seconds :: nat
  max_recording_bytes :: nat
  recording_quota_bytes :: nat
  snapshot_cache_seconds :: nat
  snapshot_stale_seconds :: nat
  alarm_poll_seconds :: nat
  config_alarm_limits :: alarm_limits

definition env_value :: "env \<Rightarrow> string \<Rightarrow> string \<Rightarrow> string" where
  "env_value env name dflt = (case env name of Some v \<Rightarrow> v | None \<Rightarrow> dflt)"

definition env_integer :: "env \<Rightarrow> string \<Rightarrow> nat \<Rightarrow> nat \<Rightarrow> nat \<Rightarrow> bridge_error + nat" where
  "env_integer env name dflt minimum maximum =
     (case parse_u64 (env_value env name (show_nat dflt)) of
        None \<Rightarrow> Inl (Configuration (name @ '' must be an integer''))
      | Some parsed \<Rightarrow>
          if minimum \<le> parsed \<and> parsed \<le> maximum then Inr parsed
          else Inl (Configuration (name @ '' must be between '' @ show_nat minimum @ '' and '' @ show_nat maximum)))"

definition bounded :: "string option \<Rightarrow> nat \<Rightarrow> nat \<Rightarrow> nat \<Rightarrow> nat \<times> bool" where
  "bounded raw dflt minimum maximum =
     (case map_option (\<lambda>r. parse_i64 (trim r)) raw of
        None \<Rightarrow> (dflt, False)
      | Some None \<Rightarrow> (dflt, True)
      | Some (Some parsed) \<Rightarrow>
          let v = max minimum (min maximum (nat parsed)) in (v, int v \<noteq> parsed))"

definition clamped :: "env \<Rightarrow> string \<Rightarrow> nat \<Rightarrow> nat \<Rightarrow> nat \<Rightarrow> nat" where
  "clamped env name dflt minimum maximum = fst (bounded (env name) dflt minimum maximum)"

definition token_char :: "char \<Rightarrow> bool" where
  "token_char c \<longleftrightarrow> ascii_alphanumeric c \<or> c = CHR ''-'' \<or> c = CHR ''_''"

fun validate_each :: "(string \<times> camera_config) list \<Rightarrow> bridge_error + unit" where
  "validate_each [] = Inr ()"
| "validate_each ((alias, camera) # rest) =
     (if alias = [] \<or> \<not> list_all token_char alias
      then Inl (Configuration (''camera aliases must be alphanumeric with '' @ [CHR 0x27] @ ''-'' @ [CHR 0x27]
        @ '' or '' @ [CHR 0x27] @ ''_'' @ [CHR 0x27]))
      else if serial camera = [] \<or> 64 < length (serial camera) \<or> \<not> list_all token_char (serial camera)
      then Inl (Configuration (''camera '' @ alias @ '' has an invalid serial''))
      else if \<not> (1 \<le> channel camera \<and> channel camera \<le> 256)
      then Inl (Configuration (''camera '' @ alias @ '' channel must be between 1 and 256''))
      else validate_each rest)"

definition validate_cameras :: "(string \<times> camera_config) list \<Rightarrow> bridge_error + unit" where
  "validate_cameras cs = (if cs = [] then Inl (Configuration ''at least one camera must be configured'')
     else validate_each cs)"

definition alarm_interval :: "env \<Rightarrow> bridge_error + nat" where
  "alarm_interval env =
     try_bind (env_integer env ''EZVIZ_BRIDGE_ALARM_POLL_SECONDS'' 15 0 300) (\<lambda>seconds.
       if 1 \<le> seconds \<and> seconds < 10
       then Inl (Configuration ''EZVIZ_BRIDGE_ALARM_POLL_SECONDS must be 0 or between 10 and 300'')
       else Inr seconds)"

definition MIB :: nat where "MIB = 1024 * 1024"

definition alarm_limits_of :: "env \<Rightarrow> alarm_limits" where
  "alarm_limits_of env =
     (let defaults = alarm_limits_default;
          history = clamped env ''EZVIZ_BRIDGE_ALARM_HISTORY_LIMIT'' (al_history defaults) 50 2000;
          picture_mib = clamped env ''EZVIZ_BRIDGE_ALARM_PICTURE_BUDGET_MIB''
            (al_picture_bytes defaults div MIB) 64 2048
      in \<lparr>al_history = history, al_picture_bytes = picture_mib * MIB\<rparr>)"

definition from_env :: "env \<Rightarrow> (string \<Rightarrow> (string \<times> camera_config) list option) \<Rightarrow> bridge_error + bridge_config" where
  "from_env env read_cameras =
     try_bind (ok_or (read_cameras (env_value env ''EZVIZ_BRIDGE_CAMERAS_FILE'' ''/config/cameras.json''))
        (Configuration ''camera configuration is unavailable or invalid'')) (\<lambda>cs.
     try_bind (validate_cameras cs) (\<lambda>_.
     try_bind (env_integer env ''EZVIZ_BRIDGE_BIND_PORT'' 8765 1024 65535) (\<lambda>port.
     try_bind (env_integer env ''EZVIZ_BRIDGE_UPSTREAM_TIMEOUT'' 20 5 60) (\<lambda>timeout.
     try_bind (env_integer env ''EZVIZ_BRIDGE_MAX_LIVE_SESSION_SECONDS'' 90 30 900) (\<lambda>session.
     try_bind (env_integer env ''EZVIZ_BRIDGE_IDLE_GRACE'' 15 0 120) (\<lambda>grace.
     try_bind (env_integer env ''EZVIZ_BRIDGE_QUEUE_CHUNKS'' 32 2 256) (\<lambda>queue.
     try_bind (env_integer env ''EZVIZ_BRIDGE_MAX_SUBSCRIBERS'' 8 1 64) (\<lambda>subs.
     try_bind (env_integer env ''EZVIZ_BRIDGE_MAX_RECORDING_SECONDS'' 120 5 600) (\<lambda>rsec.
     try_bind (env_integer env ''EZVIZ_BRIDGE_MAX_RECORDING_BYTES'' (256 * 1024 * 1024) (1024 * 1024) 2147483648) (\<lambda>rbytes.
     try_bind (env_integer env ''EZVIZ_BRIDGE_RECORDING_QUOTA_BYTES'' (2 * 1024 * 1024 * 1024) (1024 * 1024) 1099511627776) (\<lambda>quota.
     try_bind (env_integer env ''EZVIZ_BRIDGE_SNAPSHOT_CACHE'' 3 0 300) (\<lambda>cache.
     try_bind (env_integer env ''EZVIZ_BRIDGE_SNAPSHOT_STALE'' 900 30 3600) (\<lambda>stale.
     try_bind (alarm_interval env) (\<lambda>interval.
     Inr \<lparr>bind_host = env_value env ''EZVIZ_BRIDGE_BIND_HOST'' ''0.0.0.0'', bind_port = port,
       api_token_file = env_value env ''EZVIZ_BRIDGE_API_TOKEN_FILE'' ''/run/secrets/api_token'',
       ezviz_token_file = env_value env ''EZVIZ_BRIDGE_EZVIZ_TOKEN_FILE'' ''/data/token.json'',
       cameras = cs, data_dir = env_value env ''EZVIZ_BRIDGE_DATA_DIR'' ''/data'',
       ffmpeg_path = env_value env ''EZVIZ_BRIDGE_FFMPEG_PATH'' ''/usr/bin/ffmpeg'',
       upstream_timeout_seconds = timeout, max_live_session_seconds = session,
       idle_grace_seconds = grace, queue_chunks = queue, max_subscribers = subs,
       max_recording_seconds = rsec, max_recording_bytes = rbytes, recording_quota_bytes = quota,
       snapshot_cache_seconds = cache, snapshot_stale_seconds = stale,
       alarm_poll_seconds = interval, config_alarm_limits = alarm_limits_of env\<rparr>))))))))))))))"

definition health_url_for :: "string \<Rightarrow> nat \<Rightarrow> string" where
  "health_url_for host port =
     (let h = (if host \<in> {''0.0.0.0'', ''::'', []} then ''127.0.0.1'' else host)
      in ''http://'' @ h @ '':'' @ show_nat port @ ''/healthz'')"

definition health_url :: "env \<Rightarrow> string" where
  "health_url env = health_url_for (env_value env ''EZVIZ_BRIDGE_BIND_HOST'' ''0.0.0.0'')
     (clamped env ''EZVIZ_BRIDGE_BIND_PORT'' 8765 1024 65535)"

section \<open>Every accepted configuration is in range\<close>

lemma env_integer_range: "env_integer env name d lo hi = Inr n \<Longrightarrow> lo \<le> n \<and> n \<le> hi"
  by (auto simp: env_integer_def split: option.splits if_splits)

lemma parse_show_nat: "n < 2 ^ 64 \<Longrightarrow> parse_u64 (show_nat n) = Some n"
proof -
  assume n: "n < 2 ^ 64"
  obtain c r where s: "show_nat n = c # r" using show_nat_nonempty by (meson list.exhaust)
  have d: "list_all ascii_digit (c # r)" using show_nat_digits [of n] s by simp
  then have "c \<noteq> CHR ''+''" by (auto simp: ascii_digit_def)
  then show ?thesis using n d digits_val_show_nat [of n] by (simp add: parse_u64_def s Let_def)
qed

lemma env_integer_default:
  "env name = None \<Longrightarrow> lo \<le> d \<Longrightarrow> d \<le> hi \<Longrightarrow> d < 2 ^ 64 \<Longrightarrow> env_integer env name d lo hi = Inr d"
  by (simp add: env_integer_def env_value_def parse_show_nat)

lemma clamped_range: "lo \<le> d \<Longrightarrow> d \<le> hi \<Longrightarrow> lo \<le> clamped env name d lo hi \<and> clamped env name d lo hi \<le> hi"
  by (auto simp: clamped_def bounded_def Let_def split: option.splits)

lemma validate_each_ok:
  "validate_each cs = Inr () \<longleftrightarrow> list_all (\<lambda>(alias, c). alias \<noteq> [] \<and> list_all token_char alias \<and>
     serial c \<noteq> [] \<and> length (serial c) \<le> 64 \<and> list_all token_char (serial c) \<and>
     1 \<le> channel c \<and> channel c \<le> 256) cs"
  by (induction cs rule: validate_each.induct) (auto simp: not_le)

definition config_ok :: "bridge_config \<Rightarrow> bool" where
  "config_ok c \<longleftrightarrow> cameras c \<noteq> [] \<and> 1024 \<le> bind_port c \<and> bind_port c \<le> 65535 \<and>
     5 \<le> upstream_timeout_seconds c \<and> upstream_timeout_seconds c \<le> 60 \<and>
     30 \<le> max_live_session_seconds c \<and> max_live_session_seconds c \<le> 900 \<and> idle_grace_seconds c \<le> 120 \<and>
     2 \<le> queue_chunks c \<and> queue_chunks c \<le> 256 \<and> 1 \<le> max_subscribers c \<and> max_subscribers c \<le> 64 \<and>
     5 \<le> max_recording_seconds c \<and> max_recording_seconds c \<le> 600 \<and>
     MIB \<le> max_recording_bytes c \<and> max_recording_bytes c \<le> 2 ^ 31 \<and>
     MIB \<le> recording_quota_bytes c \<and> recording_quota_bytes c \<le> 2 ^ 40 \<and>
     snapshot_cache_seconds c \<le> 300 \<and> 30 \<le> snapshot_stale_seconds c \<and> snapshot_stale_seconds c \<le> 3600 \<and>
     (alarm_poll_seconds c = 0 \<or> 10 \<le> alarm_poll_seconds c) \<and> alarm_poll_seconds c \<le> 300 \<and>
     50 \<le> al_history (config_alarm_limits c) \<and> al_history (config_alarm_limits c) \<le> 2000 \<and>
     64 * MIB \<le> al_picture_bytes (config_alarm_limits c) \<and> al_picture_bytes (config_alarm_limits c) \<le> 2048 * MIB"

lemma alarm_limits_range:
  "50 \<le> al_history (alarm_limits_of env)" "al_history (alarm_limits_of env) \<le> 2000"
  "64 * MIB \<le> al_picture_bytes (alarm_limits_of env)" "al_picture_bytes (alarm_limits_of env) \<le> 2048 * MIB"
  using clamped_range [of 50 200 2000 env] clamped_range [of 64 256 2048 env]
  by (simp_all add: alarm_limits_of_def alarm_limits_default_def MIB_def Let_def)

lemma alarm_interval_range:
  "alarm_interval env = Inr n \<Longrightarrow> (n = 0 \<or> 10 \<le> n) \<and> n \<le> 300"
  by (auto simp: alarm_interval_def try_bind_eq_Inr split: if_splits dest!: env_integer_range)

lemma from_env_error: "from_env env read_cameras = Inl e \<Longrightarrow> \<exists>d. e = Configuration d"
proof -
  have i: "\<exists>d. e = Configuration d" if "env_integer env name d lo hi = Inl e" for name d lo hi e
    using that by (auto simp: env_integer_def split: option.splits if_splits)
  have a: "\<exists>d. e = Configuration d" if "alarm_interval env = Inl e" for e
    using that i by (auto simp: alarm_interval_def try_bind_eq_Inl split: if_splits)
  have v: "\<exists>d. e = Configuration d" if "validate_each cs = Inl e" for cs e
    using that by (induction cs rule: validate_each.induct) (auto split: if_splits)
  have o: "e = Configuration x" if "ok_or y (Configuration x) = Inl e" for e x and y :: "(string \<times> camera_config) list option"
    using that by (cases y) auto
  assume "from_env env read_cameras = Inl e"
  then show ?thesis
    unfolding from_env_def try_bind_eq_Inl validate_cameras_def
    using i a v by (elim disjE exE conjE) (auto split: if_splits dest: o)
qed

lemma from_env_default:
  assumes "read_cameras ''/config/cameras.json'' = Some cs" "validate_cameras cs = Inr ()"
  shows "\<exists>c. from_env (\<lambda>_. None) read_cameras = Inr c"
proof -
  have "env_integer (\<lambda>_. None) name d lo hi = Inr d" if "lo \<le> d" "d \<le> hi" "d < 2 ^ 64" for name d lo hi
    using that by (intro env_integer_default) auto
  then show ?thesis
    using assms by (simp add: from_env_def env_value_def alarm_interval_def)
qed

text \<open>Configuration is safe: any environment and camera file either stop startup with a
  configuration error or give a configuration whose every limit is inside its documented range, with
  at least one camera, and every camera alias and serial a safe token with a channel in 1..256.\<close>
theorem config_in_range:
  "case from_env env read_cameras of
     Inr c \<Rightarrow> config_ok c \<and> list_all (\<lambda>(alias, k). alias \<noteq> [] \<and> list_all token_char alias \<and>
       serial k \<noteq> [] \<and> length (serial k) \<le> 64 \<and> list_all token_char (serial k) \<and>
       1 \<le> channel k \<and> channel k \<le> 256) (cameras c)
   | Inl e \<Rightarrow> (\<exists>d. e = Configuration d)"
proof (cases "from_env env read_cameras")
  case (Inl e)
  then show ?thesis using from_env_error by simp
next
  case (Inr c)
  then have "config_ok c \<and> validate_cameras (cameras c) = Inr ()"
    unfolding from_env_def
    by (clarsimp simp: try_bind_eq_Inr ok_or_eq_Inr)
      (auto simp: config_ok_def MIB_def validate_cameras_def alarm_limits_range [unfolded MIB_def, simplified]
        split: if_splits dest!: env_integer_range alarm_interval_range)
  then show ?thesis using Inr validate_each_ok by (auto simp: validate_cameras_def split: if_splits)
qed

end
