(* ===== verification/Storage.thy ===== *)
theory Storage
  imports Bridge_Error
begin

text \<open>
  Private files (\<open>storage.rs\<close>): the atomic replacement of a JSON file and the reading of a secret. The
  steps of the file system may fail; what they leave is stated on the old and the new content.
\<close>

text \<open>The steps of \<open>write_and_publish\<close> in order: everything before the rename (creating the parent and
  the temporary file, serialising, writing, syncing), the rename, and syncing the directory.\<close>

datatype write_outcome = Saved | Refused | Unsynced

definition atomic_write_json :: "write_outcome \<Rightarrow> 'a \<Rightarrow> 'a option \<Rightarrow> (bridge_error + unit) \<times> 'a option" where
  "atomic_write_json outcome content old =
     (case outcome of
        Saved \<Rightarrow> (Inr (), Some content)
      | Refused \<Rightarrow> (Inl (Io OtherIo), old)
      | Unsynced \<Rightarrow> (Inl (Io OtherIo), Some content))"

lemma atomic_write_simps [simp]:
  "atomic_write_json Saved content old = (Inr (), Some content)"
  "atomic_write_json Refused content old = (Inl (Io OtherIo), old)"
  "atomic_write_json Unsynced content old = (Inl (Io OtherIo), Some content)"
  by (simp_all add: atomic_write_json_def)

lemma atomic_write_either:
  "snd (atomic_write_json outcome content old) = old \<or> snd (atomic_write_json outcome content old) = Some content"
  by (cases outcome) simp_all

lemma atomic_write_Inr:
  "fst (atomic_write_json outcome content old) = Inr u \<Longrightarrow> snd (atomic_write_json outcome content old) = Some content"
  by (cases outcome) simp_all

text \<open>What \<open>symlink_metadata\<close> says of a path, with the name shown in errors.\<close>

record secret_file =
  sf_name :: string
  sf_regular :: bool
  sf_mode :: nat
  sf_text :: "bridge_error + string"

definition ensure_private_regular :: "string \<Rightarrow> secret_file option \<Rightarrow> nat \<Rightarrow> bridge_error + string" where
  "ensure_private_regular display_name f minimum_length =
     (case f of
        None \<Rightarrow> Inl (Configuration (''secret file is unavailable: '' @ display_name))
      | Some f \<Rightarrow>
          if \<not> sf_regular f then Inl (Configuration (''secret path is not a regular file: '' @ display_name))
          else if sf_mode f mod 64 \<noteq> 0
          then Inl (Configuration (''secret file permissions are too broad: '' @ display_name))
          else try_bind (sf_text f) (\<lambda>raw.
            let v = trim raw
            in if length v < minimum_length
               then Inl (Configuration (''secret file is empty or too short: '' @ display_name))
               else Inr v))"

lemma ensure_private_regular_Inr:
  assumes "ensure_private_regular n f k = Inr v"
  shows "\<exists>s. f = Some s \<and> sf_regular s \<and> sf_mode s mod 64 = 0 \<and> k \<le> length v"
  using assms by (auto simp: ensure_private_regular_def Let_def try_bind_eq_Inr split: option.splits if_splits)

end
