(* ===== verification/Ezviz_Session.thy ===== *)
theory Ezviz_Session
  imports Storage
begin

text \<open>
  The account session: its reported health (\<open>session_health.rs\<close>), the stored token (\<open>transport/token.rs\<close>),
  bounded response bodies and the retry of an expired call (\<open>transport/authed.rs\<close>), the classification of a
  refresh answer (\<open>transport/session_outcome.rs\<close>) and the single-flight refresh (\<open>transport/session.rs\<close>).

  A refresh owns the lock until its task has ended, even when its caller is gone, so it is one step of the
  store that reads the clock when it starts (\<open>now\<close>) and when its failure is recorded (\<open>later\<close>); instants are
  milliseconds. HTTP responses, file writes and URL parsing are arguments.
\<close>

section \<open>Health\<close>

datatype session_state = SessionOk | Degraded | SessionReauth

fun state_str :: "session_state \<Rightarrow> string" where
  "state_str SessionOk = ''ok''"
| "state_str Degraded = ''degraded''"
| "state_str SessionReauth = ''reauth_required''"

fun state_code :: "session_state \<Rightarrow> u8" where
  "state_code SessionOk = 0"
| "state_code Degraded = 1"
| "state_code SessionReauth = 2"

definition state_from_code :: "u8 \<Rightarrow> session_state" where
  "state_from_code code = (if code = 0 then SessionOk else if code = 2 then SessionReauth else Degraded)"

lemma state_code_inverse [simp]: "state_from_code (state_code s) = s"
  by (cases s) (simp_all add: state_from_code_def)

record session_health =
  h_state :: u8
  h_refresh_ok :: u64
  h_refresh_failed :: u64
  h_rejected :: u64
  h_persist_failed :: u64

definition health_default :: session_health where
  "health_default = \<lparr>h_state = state_code Degraded, h_refresh_ok = 0, h_refresh_failed = 0, h_rejected = 0,
     h_persist_failed = 0\<rparr>"

definition health_state :: "session_health \<Rightarrow> session_state" where
  "health_state h = state_from_code (h_state h)"

definition health_reauth :: "session_health \<Rightarrow> bool" where
  "health_reauth h \<longleftrightarrow> health_state h = SessionReauth"

definition health_set :: "session_state \<Rightarrow> session_health \<Rightarrow> session_health" where
  "health_set s h = h\<lparr>h_state := state_code s\<rparr>"

definition confirmed :: "session_health \<Rightarrow> session_health" where
  "confirmed h = health_set SessionOk h"

definition refresh_succeeded :: "session_health \<Rightarrow> session_health" where
  "refresh_succeeded h = health_set SessionOk (h\<lparr>h_refresh_ok := h_refresh_ok h + 1\<rparr>)"

definition session_rejected :: "session_health \<Rightarrow> session_health" where
  "session_rejected h = health_set SessionReauth (h\<lparr>h_rejected := h_rejected h + 1\<rparr>)"

definition refresh_failed :: "bool \<Rightarrow> session_health \<Rightarrow> session_health" where
  "refresh_failed rejected h =
     (let h' = h\<lparr>h_refresh_failed := h_refresh_failed h + 1\<rparr>
      in if rejected then session_rejected h'
         else if \<not> health_reauth h' then health_set Degraded h' else h')"

definition persist_failed :: "session_health \<Rightarrow> session_health" where
  "persist_failed h = h\<lparr>h_persist_failed := h_persist_failed h + 1\<rparr>"

section \<open>Tokens\<close>

record ezviz_token =
  session_id :: string
  rf_session_id :: string
  api_url :: string
  username :: "string option"
  feature_code :: "string option"
  service_urls :: "json option"
  token_extra :: "(string \<times> json) list"

definition validate_token :: "ezviz_token \<Rightarrow> bridge_error + unit" where
  "validate_token t =
     (if length (session_id t) < 20 \<or> length (rf_session_id t) < 20 \<or> trim (api_url t) = []
      then Inl (Configuration ''EZVIZ token file is incomplete'') else Inr ())"

text \<open>\<open>trim_end_matches\<close> of one character and \<open>trim_start_matches\<close> of a prefix, both repeated.\<close>

definition trim_end_char :: "char \<Rightarrow> string \<Rightarrow> string" where
  "trim_end_char c s = rev (dropWhile (\<lambda>x. x = c) (rev s))"

function trim_start_str :: "string \<Rightarrow> string \<Rightarrow> string" where
  "trim_start_str p s = (if p \<noteq> [] \<and> starts_with s p then trim_start_str p (drop (length p) s) else s)"
  by pat_completeness auto
termination
proof (relation "measure (\<lambda>(p, s). length s)")
  fix p s :: string
  assume "p \<noteq> [] \<and> starts_with s p"
  then have "s \<noteq> []" "p \<noteq> []" by (auto simp: starts_with_def)
  then show "((p, drop (length p) s), p, s) \<in> measure (\<lambda>(p, s). length s)" by simp
qed simp

declare trim_start_str.simps [simp del]

definition with_https :: "string \<Rightarrow> string" where
  "with_https v =
     ''https://'' @ trim_start_str ''http://'' (trim_start_str ''https://'' (trim_end_char CHR ''/'' v))"

definition usable_auth_address :: "(string \<Rightarrow> string option) \<Rightarrow> string \<Rightarrow> string option" where
  "usable_auth_address url_host v =
     (let address = with_https (trim v)
      in case url_host address of
           None \<Rightarrow> None
         | Some h \<Rightarrow> if to_ascii_lowercase h \<in> {'''', ''none'', ''null''} then None else Some address)"

definition strip_region :: "string \<Rightarrow> string option" where
  "strip_region v =
     (let suffix = ''.ezvizlife.com'' in
      if \<not> starts_with v ''apii'' then None
      else let r = drop 4 v in
           if length suffix \<le> length r \<and> drop (length r - length suffix) r = suffix
           then let region = take (length r - length suffix) r in if region = [] then None else Some region
           else None)"

definition auth_address :: "(string \<Rightarrow> string option) \<Rightarrow> ezviz_token \<Rightarrow> bridge_error + string" where
  "auth_address url_host t =
     (case Option.bind (Option.bind (service_urls t) (\<lambda>v. json_field v ''authAddr'' as_str)) (usable_auth_address url_host) of
        Some address \<Rightarrow> Inr address
      | None \<Rightarrow>
          (case strip_region (api_url t) of
             None \<Rightarrow> Inl (Upstream ''EZVIZ token has no usable auth service'')
           | Some region \<Rightarrow> Inr (''https://'' @ region @ ''auth.ezvizlife.com'')))"

definition read_token :: "(string \<Rightarrow> ezviz_token option) \<Rightarrow> string \<Rightarrow> secret_file option \<Rightarrow> bridge_error + ezviz_token" where
  "read_token parse name f =
     try_bind (ensure_private_regular name f 20) (\<lambda>raw.
     try_bind (ok_or (parse raw) (Configuration ''EZVIZ token file is invalid'')) (\<lambda>t.
     try_bind (validate_token t) (\<lambda>_. Inr t)))"

section \<open>Responses\<close>

definition MAX_JSON_BYTES :: nat where "MAX_JSON_BYTES = 8 * 1024 * 1024"
definition SESSION_EXPIRED :: int where "SESSION_EXPIRED = 99997"

record response =
  rs_status :: nat
  rs_length :: "nat option"
  rs_chunks :: "(http_error + bytes) list"

definition is_success :: "nat \<Rightarrow> bool" where
  "is_success status \<longleftrightarrow> 200 \<le> status \<and> status < 300"

definition is_server_error :: "nat \<Rightarrow> bool" where
  "is_server_error status \<longleftrightarrow> 500 \<le> status \<and> status < 600"

fun read_chunks :: "nat \<Rightarrow> bytes \<Rightarrow> (http_error + bytes) list \<Rightarrow> bridge_error + bytes" where
  "read_chunks limit got [] = Inr got"
| "read_chunks limit got (Inl e # cs) = Inl (Http e)"
| "read_chunks limit got (Inr c # cs) =
     (if limit < length got + length c then Inl (Upstream ''EZVIZ response exceeds the size limit'')
      else read_chunks limit (got @ c) cs)"

definition read_limited :: "response \<Rightarrow> nat \<Rightarrow> bridge_error + bytes" where
  "read_limited r limit =
     (case rs_length r of
        Some n \<Rightarrow> if limit < n then Inl (Upstream ''EZVIZ response exceeds the size limit'')
                  else read_chunks limit [] (rs_chunks r)
      | None \<Rightarrow> read_chunks limit [] (rs_chunks r))"

definition read_json :: "(bytes \<Rightarrow> json option) \<Rightarrow> response \<Rightarrow> bool \<Rightarrow> bridge_error + json" where
  "read_json parse r strict =
     try_bind (read_limited r MAX_JSON_BYTES) (\<lambda>raw.
       case parse raw of
         Some v \<Rightarrow> Inr v
       | None \<Rightarrow> if strict then Inl Json else Inr JNull)"

definition meta_code :: "json \<Rightarrow> int option" where
  "meta_code v = Option.bind (json_get v ''meta'') (\<lambda>m. json_field m ''code'' as_i64)"

definition required_string :: "json \<Rightarrow> string \<Rightarrow> bridge_error + string" where
  "required_string v key =
     ok_or (json_field v key as_str) (Upstream (''EZVIZ response omitted '' @ key))"

definition session_expired :: "nat \<Rightarrow> json \<Rightarrow> bool" where
  "session_expired status v \<longleftrightarrow> status = 401 \<or> meta_code v = Some SESSION_EXPIRED"

definition refreshed_session :: "nat \<Rightarrow> json \<Rightarrow> bridge_error + json" where
  "refreshed_session status v =
     (let code = meta_code v;
          transient = (is_server_error status \<or> status = 429
            \<or> (case code of None \<Rightarrow> True | Some c \<Rightarrow> 500 \<le> c \<and> c < 600))
      in if is_success status \<and> code = Some 200
         then ok_or (json_get v ''sessionInfo'') (Upstream ''refresh response omitted sessionInfo'')
         else if status = 401 \<or> status = 403 \<or> \<not> transient then Inl ReauthRequired
         else Inl (Upstream (''EZVIZ session refresh returned HTTP '' @ show_nat status)))"

section \<open>The session store\<close>

definition TRANSIENT_COOLDOWN :: nat where "TRANSIENT_COOLDOWN = 10 * 1000"
definition REJECTED_COOLDOWN :: nat where "REJECTED_COOLDOWN = 30 * 60 * 1000"

record refresh_failure =
  f_generation :: u64
  f_at :: nat
  f_rejected :: bool

record session_store =
  st_token :: ezviz_token
  st_generation :: u64
  st_file :: "ezviz_token option"
  st_failure :: "refresh_failure option"
  st_health :: session_health

definition load_session :: "(string \<Rightarrow> ezviz_token option) \<Rightarrow> string \<Rightarrow> secret_file option \<Rightarrow> session_health
    \<Rightarrow> bridge_error + session_store" where
  "load_session parse name f health =
     try_bind (read_token parse name f) (\<lambda>t.
       Inr \<lparr>st_token = t, st_generation = 0, st_file = Some t, st_failure = None, st_health = health\<rparr>)"

definition current_session :: "session_store \<Rightarrow> ezviz_token \<times> u64" where
  "current_session s = (st_token s, st_generation s)"

definition publish :: "write_outcome \<Rightarrow> ezviz_token \<Rightarrow> bool \<Rightarrow> session_store \<Rightarrow> session_store" where
  "publish outcome t rotated s =
     (let (res, f) = atomic_write_json outcome t (st_file s);
          s1 = s\<lparr>st_file := f, st_health := (case res of Inl _ \<Rightarrow> persist_failed (st_health s) | Inr _ \<Rightarrow> st_health s)\<rparr>;
          s2 = s1\<lparr>st_token := t\<rparr>
      in if rotated then s2\<lparr>st_generation := st_generation s2 + 1\<rparr> else s2)"

definition update_token :: "write_outcome \<Rightarrow> (ezviz_token \<Rightarrow> ezviz_token) \<Rightarrow> session_store \<Rightarrow> session_store" where
  "update_token outcome change s = publish outcome (change (st_token s)) False s"

text \<open>Adopting a staged token file; \<open>moved\<close> is the outcome of the rename.\<close>

definition adopt :: "(string \<Rightarrow> ezviz_token option) \<Rightarrow> string \<Rightarrow> secret_file option \<Rightarrow> bridge_error + unit \<Rightarrow> session_store
    \<Rightarrow> (bridge_error + unit) \<times> session_store" where
  "adopt parse name f moved s =
     (case read_token parse name f of
        Inl e \<Rightarrow> (Inl e, s)
      | Inr t \<Rightarrow>
          (case moved of
             Inl e \<Rightarrow> (Inl e, s)
           | Inr _ \<Rightarrow> (Inr (), s\<lparr>st_file := Some t, st_token := t, st_generation := st_generation s + 1,
                              st_failure := None, st_health := health_set SessionOk (st_health s)\<rparr>)))"

text \<open>The request of a refresh offers the refresh token; the answer is a transport error or a response.\<close>

definition rotate :: "(bytes \<Rightarrow> json option) \<Rightarrow> bridge_error + response \<Rightarrow> write_outcome \<Rightarrow> session_store
    \<Rightarrow> (bridge_error + unit) \<times> session_store" where
  "rotate parse answer outcome s =
     (case feature_code (st_token s) of
        None \<Rightarrow> (Inl (Configuration ''EZVIZ token has no feature code''), s)
      | Some _ \<Rightarrow>
          (case try_bind answer (\<lambda>r. try_bind (read_json parse r False) (\<lambda>v.
                  try_bind (refreshed_session (rs_status r) v) (\<lambda>session.
                  try_bind (required_string session ''sessionId'') (\<lambda>sid.
                  try_bind (required_string session ''refreshSessionId'') (\<lambda>rid. Inr (sid, rid)))))) of
             Inl e \<Rightarrow> (Inl e, s)
           | Inr (sid, rid) \<Rightarrow>
               (Inr (), publish outcome ((st_token s)\<lparr>session_id := sid, rf_session_id := rid\<rparr>) True s)))"

definition record_refresh :: "u64 \<Rightarrow> nat \<Rightarrow> bridge_error + unit \<Rightarrow> session_store \<Rightarrow> session_store" where
  "record_refresh generation at res s =
     (case res of
        Inr _ \<Rightarrow> s\<lparr>st_failure := None, st_health := refresh_succeeded (st_health s)\<rparr>
      | Inl e \<Rightarrow> let rejected = (e = ReauthRequired) in
          s\<lparr>st_failure := Some \<lparr>f_generation = generation, f_at = at, f_rejected = rejected\<rparr>,
            st_health := refresh_failed rejected (st_health s)\<rparr>)"

definition recent_failure :: "u64 \<Rightarrow> nat \<Rightarrow> session_store \<Rightarrow> bridge_error option" where
  "recent_failure generation now s =
     (case st_failure s of
        None \<Rightarrow> None
      | Some f \<Rightarrow>
          if f_generation f \<noteq> generation then None
          else if f_rejected f
          then (if now - f_at f < REJECTED_COOLDOWN then Some ReauthRequired else None)
          else (if now - f_at f < TRANSIENT_COOLDOWN
                then Some (Upstream ''EZVIZ session refresh failed moments ago'') else None))"

text \<open>The flag says whether a refresh was attempted.\<close>

definition refresh_session :: "(bytes \<Rightarrow> json option) \<Rightarrow> u64 \<Rightarrow> nat \<Rightarrow> bridge_error + response \<Rightarrow> write_outcome \<Rightarrow> nat
    \<Rightarrow> session_store \<Rightarrow> (bridge_error + unit) \<times> session_store \<times> bool" where
  "refresh_session parse seen now answer outcome later s =
     (if st_generation s \<noteq> seen then (Inr (), s, False)
      else case recent_failure seen now s of
             Some e \<Rightarrow> (Inl e, s, False)
           | None \<Rightarrow> let (res, s') = rotate parse answer outcome s
                     in (res, record_refresh seen later res s', True))"

section \<open>Authenticated calls\<close>

record reply =
  reply_status :: nat
  reply_value :: json

text \<open>\<open>others i\<close> is what the other tasks did to the session before the \<open>i\<close>-th of the three points at which the call
  looks at it; \<open>send\<close> answers the request of an attempt with a token. The tokens of the requests sent are returned.\<close>

definition read_reply :: "(bytes \<Rightarrow> json option) \<Rightarrow> response \<Rightarrow> bridge_error + json" where
  "read_reply parse r = (if rs_status r = 401 then Inr JNull else read_json parse r (is_success (rs_status r)))"

definition confirm_reply :: "nat \<Rightarrow> json \<Rightarrow> session_store \<Rightarrow> session_store" where
  "confirm_reply status v s =
     (if is_success status \<and> (meta_code v = None \<or> meta_code v = Some 200)
      then s\<lparr>st_health := confirmed (st_health s)\<rparr> else s)"

fun authed_from :: "(bytes \<Rightarrow> json option) \<Rightarrow> (nat \<Rightarrow> session_store \<Rightarrow> session_store) \<Rightarrow> (nat \<Rightarrow> ezviz_token \<Rightarrow> bridge_error + response)
    \<Rightarrow> (u64 \<Rightarrow> session_store \<Rightarrow> (bridge_error + unit) \<times> session_store) \<Rightarrow> nat \<Rightarrow> nat \<Rightarrow> session_store
    \<Rightarrow> (bridge_error + reply) \<times> session_store \<times> ezviz_token list" where
  "authed_from parse others send refresh attempt 0 s = (Inl SessionExpired, s, [])"
| "authed_from parse others send refresh attempt (Suc left) s =
     (let s1 = others attempt s; (t, generation) = current_session s1 in
      case send attempt t of
        Inl e \<Rightarrow> (Inl e, s1, [t])
      | Inr r \<Rightarrow>
          (case read_reply parse r of
             Inl e \<Rightarrow> (Inl e, s1, [t])
           | Inr v \<Rightarrow>
               if \<not> session_expired (rs_status r) v
               then (Inr \<lparr>reply_status = rs_status r, reply_value = v\<rparr>, confirm_reply (rs_status r) v s1, [t])
               else if attempt = 0
               then (case refresh generation s1 of
                       (Inl e, s2) \<Rightarrow> (Inl e, s2, [t])
                     | (Inr _, s2) \<Rightarrow>
                         let (res, s3, ts) = authed_from parse others send refresh (Suc attempt) left s2 in (res, s3, t # ts))
               else let (res, s3, ts) = authed_from parse others send refresh (Suc attempt) left s1 in (res, s3, t # ts)))"

definition authed :: "(bytes \<Rightarrow> json option) \<Rightarrow> (nat \<Rightarrow> session_store \<Rightarrow> session_store) \<Rightarrow> (nat \<Rightarrow> ezviz_token \<Rightarrow> bridge_error + response)
    \<Rightarrow> (u64 \<Rightarrow> session_store \<Rightarrow> (bridge_error + unit) \<times> session_store) \<Rightarrow> session_store
    \<Rightarrow> (bridge_error + reply) \<times> session_store \<times> ezviz_token list" where
  "authed parse others send refresh s = authed_from parse others send refresh 0 2 s"

section \<open>Authenticated calls end\<close>

lemma authed_from_requests: "length (snd (snd (authed_from parse others send refresh attempt left s))) \<le> left"
  by (induction parse others send refresh attempt left s rule: authed_from.induct)
    (auto simp: Let_def split: sum.splits prod.splits)

lemma authed_from_asks: "snd (snd (authed_from parse others send refresh attempt (Suc left) s)) \<noteq> []"
  by (auto simp: Let_def split: sum.splits prod.splits)

lemma authed_from_reply:
  "fst (authed_from parse others send refresh attempt left s) = Inr r \<Longrightarrow>
     \<not> session_expired (reply_status r) (reply_value r)"
  by (induction parse others send refresh attempt left s rule: authed_from.induct)
    (fastforce simp: Let_def split: sum.splits prod.splits if_splits)+

lemma authed_bounds:
  "length (snd (snd (authed parse others send refresh s))) \<le> 2"
  "fst (authed parse others send refresh s) = Inr r \<Longrightarrow> \<not> session_expired (reply_status r) (reply_value r)"
  unfolding authed_def by (rule authed_from_requests, erule authed_from_reply)

lemma read_chunks_bounded: "read_chunks limit got cs = Inr b \<Longrightarrow> length got \<le> limit \<Longrightarrow> length b \<le> limit"
  by (induction limit got cs rule: read_chunks.induct) (auto split: if_splits)

lemma read_limited_bounded: "read_limited r limit = Inr b \<Longrightarrow> length b \<le> limit"
  by (auto simp: read_limited_def intro: read_chunks_bounded split: option.splits if_splits)

section \<open>Refreshes in sequence\<close>

text \<open>The log holds the attempts: the number of session changes before it, when it was started and when
  its outcome was recorded, and the outcome.\<close>

type_synonym attempt = "nat \<times> nat \<times> nat \<times> (bridge_error + unit)"

record sess_world =
  sw_store :: session_store
  sw_changes :: nat
  sw_log :: "attempt list"

definition one_if :: "bool \<Rightarrow> nat" where
  "one_if b = (if b then 1 else 0)"

inductive sess_step :: "(bytes \<Rightarrow> json option) \<Rightarrow> (string \<Rightarrow> ezviz_token option) \<Rightarrow> sess_world \<Rightarrow> sess_world \<Rightarrow> bool"
  for parse parse_token where
  sess_refresh: "refresh_session parse seen now answer outcome later (sw_store w) = (res, s, attempted) \<Longrightarrow> now \<le> later \<Longrightarrow>
    sess_step parse parse_token w \<lparr>sw_store = s, sw_changes = sw_changes w + one_if (attempted \<and> res = Inr ()),
      sw_log = sw_log w @ (if attempted then [(sw_changes w, now, later, res)] else [])\<rparr>"
| sess_update: "sess_step parse parse_token w (w\<lparr>sw_store := update_token outcome change (sw_store w)\<rparr>)"
| sess_adopt: "adopt parse_token name f moved (sw_store w) = (res, s) \<Longrightarrow>
    sess_step parse parse_token w (w\<lparr>sw_store := s, sw_changes := sw_changes w + one_if (res = Inr ())\<rparr>)"
| sess_confirm: "sess_step parse parse_token w
    (w\<lparr>sw_store := (sw_store w)\<lparr>st_health := confirmed (st_health (sw_store w))\<rparr>\<rparr>)"

definition cooldown :: "bridge_error + unit \<Rightarrow> nat" where
  "cooldown res =
     (case res of Inl e \<Rightarrow> if e = ReauthRequired then REJECTED_COOLDOWN else TRANSIENT_COOLDOWN | Inr _ \<Rightarrow> 0)"

text \<open>Attempts for one session: all but the last failed, and each waited for the cooldown of the one before.\<close>

definition single_flight :: "attempt list \<Rightarrow> bool" where
  "single_flight log \<longleftrightarrow>
     sorted_wrt (\<lambda>(b, _, at, res) (b', started, _, _).
       b \<le> b' \<and> (b = b' \<longrightarrow> isl res \<and> at + cooldown res \<le> started)) log"

definition rejected_last :: "attempt list \<Rightarrow> bool" where
  "rejected_last log \<longleftrightarrow>
     (\<exists>pre b started at post. log = pre @ (b, started, at, Inl ReauthRequired) # post
        \<and> list_all (\<lambda>(_, _, _, res). isl res) post)"

definition failure_covers :: "session_store \<Rightarrow> nat \<Rightarrow> bool" where
  "failure_covers s t \<longleftrightarrow>
     (\<exists>f. st_failure s = Some f \<and> f_generation f = st_generation s
        \<and> t \<le> f_at f + (if f_rejected f then REJECTED_COOLDOWN else TRANSIENT_COOLDOWN))"

definition sess_inv :: "sess_world \<Rightarrow> bool" where
  "sess_inv w \<longleftrightarrow> single_flight (sw_log w)
     \<and> (\<forall>(b, started, at, res) \<in> set (sw_log w). b \<le> sw_changes w
          \<and> (b = sw_changes w \<longrightarrow> isl res \<and> failure_covers (sw_store w) (at + cooldown res)))
     \<and> (health_reauth (st_health (sw_store w)) \<longrightarrow> rejected_last (sw_log w))"

lemma health_set_reauth [simp]: "health_reauth (health_set x h) \<longleftrightarrow> x = SessionReauth"
  by (simp add: health_reauth_def health_state_def health_set_def)

lemma health_simps [simp]:
  "\<not> health_reauth (confirmed h)"
  "\<not> health_reauth (refresh_succeeded h)" "health_reauth (session_rejected h)"
  "health_reauth (persist_failed h) = health_reauth h"
  by (auto simp: health_reauth_def health_state_def health_set_def confirmed_def refresh_succeeded_def
      session_rejected_def persist_failed_def state_from_code_def)

lemma health_refresh_failed [simp]: "health_reauth (refresh_failed rejected h) \<longleftrightarrow> rejected \<or> health_reauth h"
  by (auto simp: refresh_failed_def Let_def health_reauth_def health_state_def health_set_def session_rejected_def
      state_from_code_def)

lemma publish_effect:
  "st_failure (publish outcome t rotated s) = st_failure s"
  "st_generation (publish outcome t rotated s) = st_generation s + (if rotated then 1 else 0)"
  "health_reauth (st_health (publish outcome t rotated s)) = health_reauth (st_health s)"
  "st_token (publish outcome t rotated s) = t"
  by (cases outcome; auto simp: publish_def Let_def)+

text \<open>The file follows the memory unless the write was refused.\<close>

lemma publish_file: "outcome \<noteq> Refused \<Longrightarrow> st_file (publish outcome t rotated s) = Some t"
  by (cases outcome) (auto simp: publish_def Let_def)

lemma rejected_last_snoc: "isl res \<Longrightarrow> rejected_last log \<Longrightarrow> rejected_last (log @ [(b, x, y, res)])"
  unfolding rejected_last_def by fastforce

lemma rejected_last_reject: "rejected_last (log @ [(b, x, y, Inl ReauthRequired)])"
  unfolding rejected_last_def by fastforce

lemma rotate_failed: "rotate parse answer outcome s = (Inl e, s') \<Longrightarrow> s' = s"
  by (auto simp: rotate_def split: option.splits sum.splits)

lemma refresh_keeps_inv:
  assumes inv: "sess_inv w"
    and run: "refresh_session parse seen now answer outcome later (sw_store w) = (res, s, True)" "now \<le> later"
  shows "sess_inv \<lparr>sw_store = s, sw_changes = sw_changes w + one_if (res = Inr ()),
    sw_log = sw_log w @ [(sw_changes w, now, later, res)]\<rparr>"
proof -
  let ?s = "sw_store w"
  obtain s1 where g: "st_generation ?s = seen" "recent_failure seen now ?s = None"
      "rotate parse answer outcome ?s = (res, s1)" "s = record_refresh seen later res s1"
    using run(1) by (auto simp: refresh_session_def Let_def split: if_splits option.splits prod.splits)
  have waited: "t \<le> now" if "failure_covers ?s t" for t
    using that g(1,2)
    by (auto simp: failure_covers_def recent_failure_def REJECTED_COOLDOWN_def TRANSIENT_COOLDOWN_def
        split: if_splits)
  have spaced: "single_flight (sw_log w @ [(sw_changes w, now, later, res)])"
    using inv waited by (fastforce simp: sess_inv_def single_flight_def sorted_wrt_append)
  show ?thesis
  proof (cases res)
    case (Inl e)
    have s: "s1 = ?s" using g(3) Inl rotate_failed by blast
    have last: "failure_covers s (later + cooldown res)"
      using g(1,4) s Inl by (auto simp: failure_covers_def record_refresh_def cooldown_def Let_def)
    moreover have "failure_covers s t" if "failure_covers ?s t" for t
      using waited [OF that] run(2) g(1,4) s Inl by (auto simp: failure_covers_def record_refresh_def Let_def)
    moreover have "rejected_last (sw_log w @ [(sw_changes w, now, later, res)])"
      if "health_reauth (st_health s)"
      using that inv g(4) s Inl rejected_last_snoc [of res] rejected_last_reject
      by (auto simp: record_refresh_def Let_def sess_inv_def)
    ultimately show ?thesis
      using spaced inv Inl by (fastforce simp: sess_inv_def one_if_def)
  next
    case (Inr u)
    have "\<not> health_reauth (st_health s)" using g(4) Inr by (simp add: record_refresh_def)
    with spaced inv Inr show ?thesis by (fastforce simp: sess_inv_def one_if_def)
  qed
qed

lemma sess_inv_step: "sess_step parse parse_token w w' \<Longrightarrow> sess_inv w \<Longrightarrow> sess_inv w'"
proof (induction rule: sess_step.induct)
  case (sess_refresh seen now answer outcome later w res s attempted)
  show ?case
  proof (cases attempted)
    case True
    with sess_refresh refresh_keeps_inv show ?thesis by simp
  next
    case False
    then have "s = sw_store w"
      using sess_refresh(1) by (auto simp: refresh_session_def Let_def split: if_splits option.splits prod.splits)
    with False sess_refresh(3) show ?thesis by (simp add: sess_inv_def one_if_def)
  qed
next
  case (sess_update w outcome change)
  then show ?case by (simp add: sess_inv_def update_token_def publish_effect failure_covers_def)
next
  case (sess_adopt name f moved w res s)
  show ?case
  proof (cases "res = Inr ()")
    case True
    then have "\<not> health_reauth (st_health s)"
      using sess_adopt(1) by (auto simp: adopt_def split: sum.splits)
    with True sess_adopt(2) show ?thesis by (fastforce simp: sess_inv_def one_if_def)
  next
    case False
    then have "s = sw_store w" using sess_adopt(1) by (auto simp: adopt_def split: sum.splits)
    with False sess_adopt(2) show ?thesis by (simp add: sess_inv_def one_if_def)
  qed
next
  case (sess_confirm w)
  then show ?case by (simp add: sess_inv_def failure_covers_def)
qed

interpretation sess_machine: invariant_machine "sess_step parse parse_token" sess_inv for parse parse_token
  by unfold_locales (rule sess_inv_step)


text \<open>A session whose first refresh fails: the next one is refused during the cooldown, and the one after it succeeds.\<close>

definition demo_token :: ezviz_token where
  "demo_token = \<lparr>session_id = replicate 20 CHR ''s'', rf_session_id = replicate 20 CHR ''r'', api_url = ''host'',
     username = None, feature_code = Some ''f'', service_urls = None, token_extra = []\<rparr>"

definition demo_file :: "secret_file option" where
  "demo_file = Some \<lparr>sf_name = ''token'', sf_regular = True, sf_mode = 384, sf_text = Inr (replicate 20 CHR ''t'')\<rparr>"

definition demo_session :: session_store where
  "demo_session = \<lparr>st_token = demo_token, st_generation = 0, st_file = Some demo_token, st_failure = None,
     st_health = health_default\<rparr>"

definition demo_json :: "bytes \<Rightarrow> json option" where
  "demo_json raw = Some (JObject [(''meta'', JObject [(''code'', JInt 200)]),
     (''sessionInfo'', JObject [(''sessionId'', JString ''s2''), (''refreshSessionId'', JString ''r2'')])])"

definition demo_answer :: response where
  "demo_answer = \<lparr>rs_status = 200, rs_length = None, rs_chunks = []\<rparr>"

definition "demo_first = snd (refresh_session demo_json 0 0 (Inl Timeout) Saved 100 demo_session)"
definition "demo_second = snd (refresh_session demo_json 0 5000 (Inl Timeout) Saved 5000 (fst demo_first))"
definition "demo_third = refresh_session demo_json 0 10100 (Inr demo_answer) Saved 10200 (fst demo_second)"


end
