(* ===== verification/Picture.thy ===== *)
theory Picture
  imports Ezviz_Session
begin

text \<open>
  Still pictures: the download of pre-signed URLs (\<open>transport/media.rs\<close>), the search for the picture URL, the
  decryption of a camera snapshot and the JPEG cut (\<open>transport/image.rs\<close>), and the alarm picture formats
  (\<open>alarms/crypto.rs\<close>). MD5, hexadecimal coding and AES-128-CBC with PKCS\#7 padding come from libraries and are
  the fields of \<open>picture_lib\<close>; \<open>cbc_decrypt\<close> is \<open>None\<close> when the padding is wrong. A slice in memory is shorter
  than \<open>usize::MAX\<close>, so a range that overflows it is out of range in the model as well.
\<close>

section \<open>Download\<close>

record media_url =
  mu_scheme :: string
  mu_host :: "string option"

definition PLAIN_HTTP_MEDIA_DOMAINS :: "string list" where
  "PLAIN_HTTP_MEDIA_DOMAINS = [''ezvizlife.com'', ''ezvizru.com'', ''ezviz.com'']"

definition MAX_REDIRECTS :: nat where "MAX_REDIRECTS = 3"

definition ezviz_media_host :: "string \<Rightarrow> bool" where
  "ezviz_media_host h =
     (let host = to_ascii_lowercase (case strip_suffix ''.'' h of Some r \<Rightarrow> r | None \<Rightarrow> h)
      in list_ex (\<lambda>domain. host = domain
           \<or> (case strip_suffix domain host of
                Some label \<Rightarrow> 1 < length label \<and> ends_with label ''.''
              | None \<Rightarrow> False)) PLAIN_HTTP_MEDIA_DOMAINS)"

definition media_url_allowed :: "media_url \<Rightarrow> bool" where
  "media_url_allowed u =
     (if mu_scheme u = ''https'' then mu_host u \<noteq> None
      else if mu_scheme u = ''http'' then (case mu_host u of Some h \<Rightarrow> ezviz_media_host h | None \<Rightarrow> False)
      else False)"

definition origin :: "media_url \<Rightarrow> string" where
  "origin u = ''scheme '' @ mu_scheme u @ '', host '' @ (case mu_host u of Some h \<Rightarrow> h | None \<Rightarrow> ''none'')"

text \<open>The redirect policy: \<open>previous\<close> counts the URLs requested so far, the first one included.\<close>

definition media_redirect :: "nat \<Rightarrow> media_url \<Rightarrow> bool" where
  "media_redirect previous u \<longleftrightarrow> previous < MAX_REDIRECTS \<and> media_url_allowed u"

text \<open>An answer carries the URL that gave it and, for a redirect, the target its location names.\<close>

record media_answer =
  ma_response :: response
  ma_url :: media_url
  ma_target :: "media_url option"

definition failed_download :: "media_answer \<Rightarrow> string" where
  "failed_download a =
     (let status = rs_status (ma_response a);
          detail = ''media download returned HTTP '' @ show_nat status @ '' ('' @ origin (ma_url a) @ '')''
      in if \<not> (300 \<le> status \<and> status < 400) \<or> status = 304 then detail
         else case ma_target a of
                None \<Rightarrow> detail @ '', redirect without a usable location''
              | Some t \<Rightarrow> detail @ '', redirect refused to '' @ origin t)"

text \<open>\<open>get\<close> is the HTTP client: given a redirect policy and a URL it answers, with the URLs it requested.\<close>

type_synonym media_get = "(nat \<Rightarrow> media_url \<Rightarrow> bool) \<Rightarrow> media_url \<Rightarrow> (bridge_error + media_answer) \<times> media_url list"

definition download_presigned :: "(string \<Rightarrow> media_url option) \<Rightarrow> media_get \<Rightarrow> string \<Rightarrow> nat
    \<Rightarrow> (bridge_error + bytes) \<times> media_url list" where
  "download_presigned parse_url get url limit =
     (case parse_url url of
        None \<Rightarrow> (Inl (Upstream ''media URL is malformed''), [])
      | Some u \<Rightarrow>
          if \<not> media_url_allowed u
          then (Inl (Upstream (''media URL is not HTTPS or an EZVIZ host ('' @ origin u @ '')'')), [])
          else let (res, asked) = get media_redirect u in
               (try_bind res (\<lambda>a. if is_success (rs_status (ma_response a)) then read_limited (ma_response a) limit
                                   else Inl (Upstream (failed_download a))), asked))"

section \<open>Snapshot\<close>

record picture_lib =
  md5 :: "bytes \<Rightarrow> bytes"
  hex_encode :: "bytes \<Rightarrow> string"
  hex_decode :: "string \<Rightarrow> bytes option"
  cbc_decrypt :: "bytes \<Rightarrow> bytes \<Rightarrow> bytes \<Rightarrow> bytes option"

definition HEADER :: bytes where "HEADER = str_bytes ''hikencodepicture''"
lemma length_HEADER [simp]: "length HEADER = 16"
  by (simp add: HEADER_def)

definition HASH_BYTES :: nat where "HASH_BYTES = 32"
definition IV :: bytes where "IV = str_bytes ''01234567'' @ replicate 8 0"

definition IMAGE_KEYS :: "string list" where
  "IMAGE_KEYS = [''picUrl'', ''picURL'', ''imageUrl'', ''imageURL'', ''captureUrl'', ''captureURL'', ''pic'', ''pics'',
     ''image'', ''url'']"

definition http_part :: "json \<Rightarrow> string option" where
  "http_part v = Option.bind (as_str v) (\<lambda>s. find_map (\<lambda>part.
     let candidate = trim part in
     if starts_with candidate ''https://'' then Some candidate
     else if starts_with candidate ''http://'' then Some candidate else None) (split_char CHR '';'' s))"

fun first_image_url :: "json \<Rightarrow> string option" and first_in_values :: "(string \<times> json) list \<Rightarrow> string option"
  and first_in_items :: "json list \<Rightarrow> string option" where
  "first_image_url (JObject m) =
     (case find_map (\<lambda>k. Option.bind (map_of m k) http_part) IMAGE_KEYS of
        Some found \<Rightarrow> Some found
      | None \<Rightarrow> first_in_values m)"
| "first_image_url (JArray vs) = first_in_items vs"
| "first_image_url _ = None"
| "first_in_values [] = None"
| "first_in_values ((k, v) # m) = (case first_image_url v of Some u \<Rightarrow> Some u | None \<Rightarrow> first_in_values m)"
| "first_in_items [] = None"
| "first_in_items (v # vs) = (case first_image_url v of Some u \<Rightarrow> Some u | None \<Rightarrow> first_in_items vs)"

definition image_hash :: "picture_lib \<Rightarrow> string \<Rightarrow> bytes" where
  "image_hash lib password =
     (let first = hex_encode lib (md5 lib (str_bytes password))
      in str_bytes (hex_encode lib (md5 lib (str_bytes first))))"

definition padded_key :: "bytes \<Rightarrow> bytes" where
  "padded_key k = take 16 k @ replicate (16 - length k) 0"

definition image_block :: "picture_lib \<Rightarrow> string \<Rightarrow> bytes \<Rightarrow> bridge_error + bytes" where
  "image_block lib password block =
     (let hash_end = length HEADER + HASH_BYTES in
      if length block \<le> hash_end then Inl (Upstream ''encrypted image is truncated'')
      else if take HASH_BYTES (drop (length HEADER) block) \<noteq> image_hash lib password
      then Inl (Upstream ''camera image key was rejected'')
      else let aligned = (length block - hash_end) div 16 * 16;
               ciphertext = take aligned (drop hash_end block)
           in ok_or (cbc_decrypt lib (padded_key (str_bytes password)) IV ciphertext)
                (Upstream ''encrypted image padding is invalid''))"

definition block_end :: "bytes \<Rightarrow> nat" where
  "block_end data = (case find_sub HEADER (drop (length HEADER) data) of
     None \<Rightarrow> length data | Some i \<Rightarrow> length HEADER + i)"

function image_blocks :: "picture_lib \<Rightarrow> string \<Rightarrow> bytes \<Rightarrow> bridge_error + bytes" where
  "image_blocks lib password data =
     (if \<not> starts_with data HEADER then Inr []
      else try_bind (image_block lib password (take (block_end data) data)) (\<lambda>part.
           try_bind (image_blocks lib password (drop (block_end data) data)) (\<lambda>rest. Inr (part @ rest))))"
  by pat_completeness auto
termination
proof (relation "measure (\<lambda>(lib, password, data). length data)")
  fix lib password data x
  assume "\<not> \<not> starts_with data HEADER"
  then have "0 < length data" by (auto simp: starts_with_def)
  then show "((lib, password, drop (block_end data) data), lib, password, data)
    \<in> measure (\<lambda>(lib, password, data). length data)"
    by (auto simp: block_end_def split: option.splits)
qed simp

declare image_blocks.simps [simp del]

definition decrypt_image :: "picture_lib \<Rightarrow> bytes \<Rightarrow> string \<Rightarrow> bridge_error + bytes" where
  "decrypt_image lib inp password =
     (case find_sub HEADER inp of
        None \<Rightarrow> Inr inp
      | Some start \<Rightarrow> try_bind (image_blocks lib password (drop start inp)) (\<lambda>out.
          if out = [] then Inl (Upstream ''invalid encrypted image payload'') else Inr out))"

definition jpeg_slice :: "bytes \<Rightarrow> bridge_error + bytes" where
  "jpeg_slice data =
     (let refused = Inl (Upstream ''snapshot payload is not a JPEG'') in
      case find_sub [0xff, 0xd8, 0xff] data of
        None \<Rightarrow> refused
      | Some start \<Rightarrow>
          (case rfind_sub [0xff, 0xd9] data of
             None \<Rightarrow> refused
           | Some stop \<Rightarrow> if stop < start then refused else Inr (take (stop + 2 - start) (drop start data))))"

section \<open>Alarm pictures\<close>

datatype picture_error = Unsupported | Invalid

definition BLOCK_HEADER :: nat where "BLOCK_HEADER = 48"
definition MAX_CONTAINER_BLOCKS :: nat where "MAX_CONTAINER_BLOCKS = 16"

definition validated_jpeg :: "bytes \<Rightarrow> picture_error + bytes" where
  "validated_jpeg data =
     (if \<not> starts_with data [0xff, 0xd8, 0xff] then Inl Unsupported
      else case jpeg_slice data of Inl _ \<Rightarrow> Inl Invalid | Inr j \<Rightarrow> Inr j)"

definition read_u16 :: "bytes \<Rightarrow> nat \<Rightarrow> u16 option" where
  "read_u16 data offset =
     (case get_range data offset (offset + 2) of Some b \<Rightarrow> Some (from_be16 (b ! 0) (b ! 1)) | None \<Rightarrow> None)"

definition read_u32 :: "bytes \<Rightarrow> nat \<Rightarrow> nat option" where
  "read_u32 data offset =
     (case get_range data offset (offset + 4) of
        Some b \<Rightarrow> Some (unat (from_be32 (b ! 0) (b ! 1) (b ! 2) (b ! 3))) | None \<Rightarrow> None)"

definition slice_at :: "bytes \<Rightarrow> nat \<Rightarrow> nat \<Rightarrow> bytes option" where
  "slice_at data offset len = get_range data offset (offset + len)"

definition checksum_key :: "picture_lib \<Rightarrow> string \<Rightarrow> bytes option" where
  "checksum_key lib checksum =
     (let t = trim checksum in
      if length t < 2 \<or> 128 < length t \<or> length t mod 2 \<noteq> 0 then None
      else map_option padded_key (hex_decode lib t))"

definition checksum_block :: "picture_lib \<Rightarrow> bytes \<Rightarrow> bytes \<Rightarrow> picture_error + bytes" where
  "checksum_block lib key block =
     (if length block < BLOCK_HEADER then Inl Unsupported
      else let ciphertext = drop BLOCK_HEADER block in
           if ciphertext = [] \<or> length ciphertext mod 16 \<noteq> 0 then Inl Unsupported
           else try_bind (ok_or (cbc_decrypt lib key IV ciphertext) Invalid) validated_jpeg)"

text \<open>One block of a \<open>hiklittlepic\<close> container: its index, its bytes and where the next one starts.\<close>

definition next_block :: "u16 \<Rightarrow> bytes \<Rightarrow> nat \<Rightarrow> picture_error + u16 \<times> bytes \<times> nat" where
  "next_block version raw cursor =
     try_bind (ok_or (read_u16 raw (cursor + 4)) Invalid) (\<lambda>index.
     try_bind (ok_or (read_u32 raw (cursor + 6)) Invalid) (\<lambda>len.
     try_bind (ok_or (slice_at raw (cursor + 10) len) Invalid) (\<lambda>block.
       let after_block = cursor + 10 + length block in
       if version = 3
       then try_bind (ok_or (read_u32 raw (after_block + 2)) Invalid) (\<lambda>detection.
            try_bind (ok_or (slice_at raw (after_block + 6) detection) Invalid) (\<lambda>d.
              Inr (index, block, after_block + 6 + length d)))
       else Inr (index, block, after_block))))"

fun little_blocks :: "picture_lib \<Rightarrow> bytes \<Rightarrow> u16 \<Rightarrow> bytes \<Rightarrow> nat \<Rightarrow> nat \<Rightarrow> bytes option \<Rightarrow> picture_error + bytes" where
  "little_blocks lib key version raw 0 cursor first = ok_or first Invalid"
| "little_blocks lib key version raw (Suc left) cursor first =
     (if length raw \<le> cursor then ok_or first Invalid
      else try_bind (next_block version raw cursor) (\<lambda>(index, block, cursor').
        case checksum_block lib key block of
          Inl _ \<Rightarrow> little_blocks lib key version raw left cursor' first
        | Inr picture \<Rightarrow>
            if index = 1 then Inr picture
            else little_blocks lib key version raw left cursor'
                   (case first of None \<Rightarrow> Some picture | Some _ \<Rightarrow> first)))"

definition little_container :: "picture_lib \<Rightarrow> bytes \<Rightarrow> bytes \<Rightarrow> picture_error + bytes" where
  "little_container lib raw key =
     try_bind (ok_or (read_u16 raw 12) Invalid) (\<lambda>version.
       little_blocks lib key version raw MAX_CONTAINER_BLOCKS 14 None)"

definition decrypt_checksum_picture :: "picture_lib \<Rightarrow> bytes \<Rightarrow> string \<Rightarrow> picture_error + bytes" where
  "decrypt_checksum_picture lib raw checksum =
     try_bind (ok_or (checksum_key lib checksum) Invalid) (\<lambda>key.
       if starts_with raw [0xff, 0xd8, 0xff] then validated_jpeg raw
       else if starts_with raw (str_bytes ''hiklittlepic'') then little_container lib raw key
       else if starts_with raw (str_bytes ''hikpic'')
       then try_bind (ok_or (read_u32 raw 9) Invalid) (\<lambda>len.
            try_bind (ok_or (slice_at raw 13 len) Invalid) (\<lambda>block. checksum_block lib key block))
       else checksum_block lib key raw)"

definition decode_picture :: "picture_lib \<Rightarrow> bytes \<Rightarrow> int \<Rightarrow> string option \<Rightarrow> string option \<Rightarrow> picture_error + bytes" where
  "decode_picture lib raw crypt checksum device_key =
     (if crypt = 0 then validated_jpeg raw
      else if crypt = 1
      then try_bind (ok_or device_key Invalid) (\<lambda>key.
             case decrypt_image lib raw key of Inl _ \<Rightarrow> Inl Invalid | Inr clear \<Rightarrow> validated_jpeg clear)
      else if crypt = 2 then try_bind (ok_or checksum Invalid) (decrypt_checksum_picture lib raw)
      else Inl Unsupported)"

fun decode_rest :: "picture_lib \<Rightarrow> bytes \<Rightarrow> int \<Rightarrow> string option \<Rightarrow> string list \<Rightarrow> picture_error + bytes \<Rightarrow> picture_error + bytes" where
  "decode_rest lib raw crypt checksum [] res = res"
| "decode_rest lib raw crypt checksum (k # ks) res =
     (case res of
        Inr _ \<Rightarrow> res
      | Inl _ \<Rightarrow> decode_rest lib raw crypt checksum ks (decode_picture lib raw crypt checksum (Some k)))"

definition decode_with_keys :: "picture_lib \<Rightarrow> bytes \<Rightarrow> int \<Rightarrow> string option \<Rightarrow> string list \<Rightarrow> picture_error + bytes" where
  "decode_with_keys lib raw crypt checksum keys =
     decode_rest lib raw crypt checksum (drop 1 keys)
       (decode_picture lib raw crypt checksum (case keys of [] \<Rightarrow> None | k # _ \<Rightarrow> Some k))"

section \<open>Pictures are JPEG\<close>

definition jpeg_file :: "bytes \<Rightarrow> bool" where
  "jpeg_file j \<longleftrightarrow> starts_with j [0xff, 0xd8, 0xff] \<and> ends_with j [0xff, 0xd9]"

lemma starts_with_nth: "starts_with (drop i xs) p \<Longrightarrow> k < length p \<Longrightarrow> xs ! (i + k) = p ! k \<and> i + k < length xs"
proof -
  assume s: "starts_with (drop i xs) p" and k: "k < length p"
  then have "length p \<le> length xs - i" by (simp add: starts_with_def)
  then have bound: "i + k < length xs" using k by linarith
  have "p ! k = take (length p) (drop i xs) ! k" using s by (simp add: starts_with_def)
  then show ?thesis using k bound by simp
qed

lemma jpeg_slice_shape:
  assumes "jpeg_slice data = Inr j"
  shows "jpeg_file j \<and> sublist j data"
proof -
  obtain a b where a: "find_sub [0xff, 0xd8, 0xff] data = Some a" and b: "rfind_sub [0xff, 0xd9] data = Some b"
    and ab: "a \<le> b" and j: "j = take (b + 2 - a) (drop a data)"
    using assms by (auto simp: jpeg_slice_def Let_def split: option.splits if_splits)
  note s = find_sub_Some [OF a, THEN conjunct2] and t = rfind_sub_Some [OF b, THEN conjunct2]
  have d: "data ! a = 0xff" "data ! (a + 1) = 0xd8" "data ! (a + 2) = 0xff" "a + 2 < length data"
    using starts_with_nth [OF s, of 0] starts_with_nth [OF s, of 1] starts_with_nth [OF s, of 2] by simp_all
  have e: "data ! b = 0xff" "data ! (b + 1) = 0xd9" "b + 1 < length data"
    using starts_with_nth [OF t, of 0] starts_with_nth [OF t, of 1] by simp_all
  have "b \<noteq> a" "b \<noteq> a + 1" using d e by auto
  then have far: "a + 2 \<le> b" using ab by linarith
  have len: "length j = b + 2 - a" using e j by simp
  have three: "take (length [0xff, 0xd8, 0xff :: u8]) j = take (length [0xff, 0xd8, 0xff :: u8]) (drop a data)"
    using j far by (simp add: min_def)
  have "length [0xff, 0xd8, 0xff :: u8] \<le> length j" using len far by simp
  with three s have start: "starts_with j [0xff, 0xd8, 0xff]" unfolding starts_with_def by argo
  have two: "drop (length j - length [0xff, 0xd9 :: u8]) j = take (length [0xff, 0xd9 :: u8]) (drop b data)"
    using len far j by (simp add: drop_take add.commute numeral_2_eq_2)
  have "length [0xff, 0xd9 :: u8] \<le> length j" using len far by simp
  with two t have stop: "ends_with j [0xff, 0xd9]" unfolding ends_with_def starts_with_def by argo
  have "sublist j data" unfolding j sublist_def by (metis append_take_drop_id)
  with start stop show ?thesis by (simp add: jpeg_file_def)
qed

lemma validated_jpeg_shape: "validated_jpeg data = Inr j \<Longrightarrow> jpeg_file j"
  by (auto simp: validated_jpeg_def dest: jpeg_slice_shape split: if_splits sum.splits)

lemma checksum_block_shape: "checksum_block lib key block = Inr j \<Longrightarrow> jpeg_file j"
  by (auto simp: checksum_block_def Let_def result_simps dest: validated_jpeg_shape split: if_splits)

lemma little_blocks_shape:
  "little_blocks lib key version raw left cursor first = Inr j \<Longrightarrow> (\<forall>p. first = Some p \<longrightarrow> jpeg_file p) \<Longrightarrow> jpeg_file j"
proof (induction lib key version raw left cursor first rule: little_blocks.induct)
  case (2 lib key version raw left cursor first)
  show ?case
  proof (cases "length raw \<le> cursor")
    case False
    then obtain index block cursor' where nb: "next_block version raw cursor = Inr (index, block, cursor')"
      using "2.prems"(1) by (auto simp: result_simps)
    show ?thesis
    proof (cases "checksum_block lib key block")
      case (Inl e)
      then show ?thesis using 2 False nb by simp
    next
      case (Inr picture)
      then have "jpeg_file picture" by (rule checksum_block_shape)
      then show ?thesis using 2 False nb Inr by (auto split: if_splits option.splits)
    qed
  qed (use 2 in \<open>auto simp: ok_or_eq_Inr\<close>)
qed (auto simp: ok_or_eq_Inr)

lemma decrypt_checksum_shape: "decrypt_checksum_picture lib raw checksum = Inr j \<Longrightarrow> jpeg_file j"
  by (auto simp: decrypt_checksum_picture_def little_container_def result_simps
      dest: validated_jpeg_shape checksum_block_shape little_blocks_shape split: if_splits)

lemma decode_picture_shape: "decode_picture lib raw crypt checksum key = Inr j \<Longrightarrow> jpeg_file j"
  unfolding decode_picture_def try_bind_def ok_or_def
  by (auto dest: validated_jpeg_shape decrypt_checksum_shape split: if_splits sum.splits option.splits)

lemma decode_rest_shape:
  "decode_rest lib raw crypt checksum ks res = Inr j \<Longrightarrow> (\<forall>p. res = Inr p \<longrightarrow> jpeg_file p) \<Longrightarrow> jpeg_file j"
  by (induction lib raw crypt checksum ks res rule: decode_rest.induct)
    (auto dest: decode_picture_shape split: sum.splits)

lemma decode_with_keys_shape: "decode_with_keys lib raw crypt checksum keys = Inr j \<Longrightarrow> jpeg_file j"
  unfolding decode_with_keys_def by (erule decode_rest_shape) (auto dest: decode_picture_shape)

section \<open>The container\<close>

text \<open>The layout of a container: reserved bytes, index, length and bytes of a picture, and in version 3 the
  bytes of a detection.\<close>

record little_item =
  li_reserved :: bytes
  li_index :: u16
  li_block :: bytes
  li_gap :: bytes
  li_detection :: bytes

definition item_bytes :: "u16 \<Rightarrow> little_item \<Rightarrow> bytes" where
  "item_bytes version it =
     li_reserved it @ to_be16 (li_index it) @ to_be32 (of_nat (length (li_block it))) @ li_block it
     @ (if version = 3 then li_gap it @ to_be32 (of_nat (length (li_detection it))) @ li_detection it else [])"

definition item_ok :: "little_item \<Rightarrow> bool" where
  "item_ok it \<longleftrightarrow> length (li_reserved it) = 4 \<and> length (li_gap it) = 2
     \<and> length (li_block it) < 2 ^ 32 \<and> length (li_detection it) < 2 ^ 32"

definition container_bytes :: "u16 \<Rightarrow> little_item list \<Rightarrow> bytes" where
  "container_bytes version items =
     str_bytes ''hiklittlepic'' @ to_be16 version @ concat (map (item_bytes version) items)"

text \<open>The pictures of a container that decrypt, and the one to show: the first with index 1, else the first.\<close>

definition readable :: "picture_lib \<Rightarrow> bytes \<Rightarrow> little_item list \<Rightarrow> (u16 \<times> bytes) list" where
  "readable lib key items =
     List.map_filter (\<lambda>it. map_option (Pair (li_index it)) (result_ok (checksum_block lib key (li_block it)))) items"

definition shown :: "(u16 \<times> bytes) list \<Rightarrow> bytes option" where
  "shown ps = (case find (\<lambda>(i, _). i = 1) ps of
     Some (_, p) \<Rightarrow> Some p
   | None \<Rightarrow> (case ps of [] \<Rightarrow> None | (_, p) # _ \<Rightarrow> Some p))"

lemma readable_simps [simp]:
  "readable lib key [] = []"
  "readable lib key (it # items) = (case checksum_block lib key (li_block it) of
     Inl _ \<Rightarrow> readable lib key items | Inr p \<Rightarrow> (li_index it, p) # readable lib key items)"
  by (simp_all add: readable_def map_filter_simps split: sum.splits)

lemma get_range_at: "get_range (pre @ bs @ rest) (length pre) (length pre + length bs) = Some bs"
  by (simp add: get_range_def)

lemma read_u16_at: "read_u16 (pre @ to_be16 w @ rest) (length pre) = Some w"
  using get_range_at [of pre "to_be16 w" rest] by (simp add: read_u16_def) (simp add: to_be16_def from_to_be16)

lemma read_u32_at:
  assumes "n < 2 ^ 32"
  shows "read_u32 (pre @ to_be32 (of_nat n) @ rest) (length pre) = Some n"
proof -
  have "unat (of_nat n :: u32) = n" using assms by (simp only: unat_of_nat) (simp add: take_bit_nat_eq_self)
  then show ?thesis
    using get_range_at [of pre "to_be32 (of_nat n)" rest]
    by (simp add: read_u32_def) (simp add: to_be32_def from_to_be32)
qed

lemma slice_at_here: "slice_at (pre @ bs @ rest) (length pre) (length bs) = Some bs"
  by (simp add: slice_at_def get_range_def)

lemma next_block_item:
  assumes "item_ok it"
  shows "next_block version (pre @ item_bytes version it @ rest) (length pre)
    = Inr (li_index it, li_block it, length pre + length (item_bytes version it))"
proof -
  let ?b = "to_be32 (of_nat (length (li_block it)))" and ?d = "to_be32 (of_nat (length (li_detection it)))"
  let ?tail = "if version = 3 then li_gap it @ ?d @ li_detection it else []"
  let ?raw = "pre @ item_bytes version it @ rest"
  note len = assms [unfolded item_ok_def]
  have index: "read_u16 ?raw (length pre + 4) = Some (li_index it)"
    using read_u16_at [of "pre @ li_reserved it" "li_index it" "?b @ li_block it @ ?tail @ rest"] len
    by (simp add: item_bytes_def)
  have size: "read_u32 ?raw (length pre + 6) = Some (length (li_block it))"
    using read_u32_at [of "length (li_block it)" "pre @ li_reserved it @ to_be16 (li_index it)" "li_block it @ ?tail @ rest"]
      len by (simp add: item_bytes_def)
  have block: "slice_at ?raw (length pre + 10) (length (li_block it)) = Some (li_block it)"
    using slice_at_here [of "pre @ li_reserved it @ to_be16 (li_index it) @ ?b" "li_block it" "?tail @ rest"] len
    by (simp add: item_bytes_def)
  show ?thesis
  proof (cases "version = 3")
    case True
    let ?front = "pre @ li_reserved it @ to_be16 (li_index it) @ ?b @ li_block it @ li_gap it"
    have det: "read_u32 ?raw (length pre + 10 + length (li_block it) + 2) = Some (length (li_detection it))"
      using read_u32_at [of "length (li_detection it)" ?front "li_detection it @ rest"] len True
      by (simp add: item_bytes_def add.commute add.left_commute)
    have detb: "slice_at ?raw (length pre + 10 + length (li_block it) + 6) (length (li_detection it)) = Some (li_detection it)"
      using slice_at_here [of "?front @ ?d" "li_detection it" rest] len True
      by (simp add: item_bytes_def add.commute add.left_commute)
    show ?thesis
      using index size block det detb True len by (simp add: next_block_def Let_def) (simp add: item_bytes_def)
  next
    case False
    then show ?thesis
      using index size block len by (simp add: next_block_def Let_def) (simp add: item_bytes_def)
  qed
qed

lemma little_blocks_items:
  "list_all item_ok items \<Longrightarrow> length items \<le> left \<Longrightarrow>
   little_blocks lib key version (pre @ concat (map (item_bytes version) items)) left (length pre) first
   = ok_or (case find (\<lambda>(i, _). i = 1) (readable lib key items) of
              Some (_, p) \<Rightarrow> Some p
            | None \<Rightarrow> (case first of Some p \<Rightarrow> Some p | None \<Rightarrow> shown (readable lib key items))) Invalid"
proof (induction items arbitrary: pre left first)
  case Nil
  then show ?case by (cases left) (auto simp: shown_def split: option.splits)
next
  case (Cons it items)
  then obtain l where l: "left = Suc l" by (cases left) auto
  let ?raw = "pre @ concat (map (item_bytes version) (it # items))"
  have nb: "next_block version ?raw (length pre) = Inr (li_index it, li_block it, length (pre @ item_bytes version it))"
    using next_block_item [of it version pre "concat (map (item_bytes version) items)"] Cons.prems(1) by simp
  have more: "item_bytes version it \<noteq> []" using Cons.prems(1) by (auto simp: item_bytes_def item_ok_def)
  note ih = Cons.IH [of l "pre @ item_bytes version it"]
  show ?case
  proof (cases "checksum_block lib key (li_block it)")
    case (Inl e)
    then show ?thesis
      using ih [of first] Cons.prems l nb more by (auto split: option.splits)
  next
    case (Inr p)
    then show ?thesis
      using ih [of "Some p"] ih [of first] Cons.prems l nb more
      by (cases first) (auto simp: shown_def split: option.splits)
  qed
qed

text \<open>The pictures of a \<open>hiklittlepic\<close> container: of a well-formed container of at most 16 pictures,
  in either version, the decoder returns the first readable picture with index 1, else the first readable one, and
  fails only when none is readable.\<close>

theorem container_picture_chosen:
  assumes "list_all item_ok items" and "length items \<le> MAX_CONTAINER_BLOCKS"
  shows "little_container lib (container_bytes version items) key = ok_or (shown (readable lib key items)) Invalid"
proof -
  let ?pre = "str_bytes ''hiklittlepic'' @ to_be16 version"
  have v: "read_u16 (container_bytes version items) 12 = Some version"
    using read_u16_at [of "str_bytes ''hiklittlepic''" version "concat (map (item_bytes version) items)"]
    by (simp add: container_bytes_def numeral_eq_Suc)
  have "little_blocks lib key version (container_bytes version items) MAX_CONTAINER_BLOCKS 14 None
      = ok_or (shown (readable lib key items)) Invalid"
    using little_blocks_items [OF assms, of lib key version ?pre None]
    by (simp add: container_bytes_def shown_def numeral_eq_Suc split: option.splits prod.splits)
  with v show ?thesis by (simp add: little_container_def)
qed

text \<open>Two pictures of a version 3 container, of which the second has index 1; the key library is the identity.\<close>

definition clear_lib :: picture_lib where
  "clear_lib = \<lparr>md5 = (\<lambda>b. b), hex_encode = bytes_str, hex_decode = (\<lambda>_. None), cbc_decrypt = (\<lambda>_ _ c. Some c)\<rparr>"

definition demo_picture :: "u8 \<Rightarrow> bytes" where
  "demo_picture b = [0xff, 0xd8, 0xff] @ replicate 11 b @ [0xff, 0xd9]"

definition demo_item :: "u16 \<Rightarrow> bytes \<Rightarrow> little_item" where
  "demo_item i p = \<lparr>li_reserved = [0, 0, 0, 0], li_index = i, li_block = replicate 48 0 @ p, li_gap = [0, 0],
     li_detection = [1, 2, 3]\<rparr>"

definition demo_items :: "little_item list" where
  "demo_items = [demo_item 4 (demo_picture 9), demo_item 7 [1], demo_item 1 (demo_picture 5)]"

theorem container_picture_chosen_witness:
  "list_all item_ok demo_items \<and> length demo_items \<le> MAX_CONTAINER_BLOCKS
   \<and> little_container clear_lib (container_bytes 3 demo_items) [] = Inr (demo_picture 5)"
proof -
  have ok: "list_all item_ok demo_items" "length demo_items \<le> MAX_CONTAINER_BLOCKS" by code_simp+
  have "shown (readable clear_lib [] demo_items) = Some (demo_picture 5)" by code_simp
  with ok container_picture_chosen [OF ok, of clear_lib 3 "[]"] show ?thesis by simp
qed

section \<open>Snapshot decryption\<close>

lemma find_sub_None: "find_sub pat xs = None \<longleftrightarrow> (\<forall>i < length xs. \<not> starts_with (drop i xs) pat)"
  by (induction xs) (auto simp: less_Suc_eq_0_disj)

lemma find_sub_first:
  "pat \<noteq> [] \<Longrightarrow> (\<forall>i < length a. \<not> starts_with (drop i (a @ pat @ r)) pat) \<Longrightarrow> find_sub pat (a @ pat @ r) = Some (length a)"
proof (induction a)
  case Nil
  then show ?case by (cases pat) (auto simp: starts_with_def)
next
  case (Cons x a)
  have "\<not> starts_with (drop 0 (x # a @ pat @ r)) pat" using Cons.prems(2) by (metis append_Cons length_greater_0_conv list.distinct(1))
  moreover have "\<forall>i < length a. \<not> starts_with (drop i (a @ pat @ r)) pat"
    using Cons.prems(2) by (metis Suc_less_eq append_Cons drop_Suc_Cons length_Cons)
  ultimately show ?case using Cons by simp
qed

text \<open>No occurrence of the marker starts inside \<open>a\<close>, whatever part of the next marker it would need.\<close>

definition unmarked :: "bytes \<Rightarrow> bool" where
  "unmarked a \<longleftrightarrow> find_sub HEADER (a @ take 15 HEADER) = None"

lemma unmarked_starts:
  assumes "unmarked a" "i < length a"
  shows "\<not> starts_with (drop i (a @ HEADER @ r)) HEADER"
proof
  assume s: "starts_with (drop i (a @ HEADER @ r)) HEADER"
  let ?k = "16 - (length a - i)"
  have k: "?k \<le> 15" using assms(2) by linarith
  have "take 16 (drop i (a @ HEADER @ r)) = take 16 (drop i a) @ take ?k HEADER" using k by simp
  also have "\<dots> = take 16 (drop i (a @ take 15 HEADER))" using k by (simp add: min_absorb1)
  finally have "starts_with (drop i (a @ take 15 HEADER)) HEADER" using s assms(2) by (simp add: starts_with_def)
  moreover have "\<not> starts_with (drop i (a @ take 15 HEADER)) HEADER"
  proof -
    have "\<forall>j < length (a @ take 15 HEADER). \<not> starts_with (drop j (a @ take 15 HEADER)) HEADER"
      using assms(1) unfolding unmarked_def find_sub_None .
    moreover have "i < length (a @ take 15 HEADER)" using assms(2) by simp
    ultimately show ?thesis by blast
  qed
  ultimately show False by simp
qed

lemma find_next_marker: "unmarked a \<Longrightarrow> find_sub HEADER (a @ HEADER @ r) = Some (length a)"
  by (rule find_sub_first) (use length_HEADER in fastforce, use unmarked_starts in blast)

lemma find_no_marker:
  assumes "unmarked a"
  shows "find_sub HEADER a = None"
proof -
  have "\<not> starts_with (drop i a) HEADER" if "i < length a" for i
    using unmarked_starts [OF assms that, of "[]"] by (auto simp: starts_with_def)
  then show ?thesis by (simp add: find_sub_None)
qed

definition image_part :: "picture_lib \<Rightarrow> string \<Rightarrow> (bytes \<Rightarrow> bytes) \<Rightarrow> bytes \<Rightarrow> bytes" where
  "image_part lib password enc p = HEADER @ image_hash lib password @ enc p"

text \<open>What the codec libraries promise: an MD5 digest has 32 hexadecimal digits, and decryption with the key of
  the camera inverts encryption, which fills whole cipher blocks.\<close>

definition camera_cipher :: "picture_lib \<Rightarrow> string \<Rightarrow> (bytes \<Rightarrow> bytes) \<Rightarrow> bool" where
  "camera_cipher lib password enc \<longleftrightarrow> length (image_hash lib password) = HASH_BYTES
     \<and> (\<forall>p. enc p \<noteq> [] \<and> length (enc p) mod 16 = 0
          \<and> cbc_decrypt lib (padded_key (str_bytes password)) IV (enc p) = Some p)"

lemma image_block_part: "camera_cipher lib password enc \<Longrightarrow> image_block lib password (image_part lib password enc p) = Inr p"
  by (auto simp: camera_cipher_def image_block_def image_part_def Let_def HASH_BYTES_def minus_mod_eq_div_mult [symmetric])

lemma image_blocks_parts:
  assumes "camera_cipher lib password enc"
  shows "list_all (\<lambda>p. unmarked (image_hash lib password @ enc p)) parts \<Longrightarrow>
    image_blocks lib password (concat (map (image_part lib password enc) parts)) = Inr (concat parts)"
proof (induction parts)
  case Nil
  then show ?case by (simp add: image_blocks.simps [of lib password "[]"] starts_with_def)
next
  case (Cons p parts)
  let ?rest = "concat (map (image_part lib password enc) parts)"
  let ?data = "image_part lib password enc p @ ?rest"
  have "find_sub HEADER (image_hash lib password @ enc p @ ?rest)
      = (if parts = [] then None else Some (length (image_hash lib password @ enc p)))"
    using find_next_marker [of "image_hash lib password @ enc p"] find_no_marker [of "image_hash lib password @ enc p"]
      Cons.prems by (cases parts) (simp_all add: image_part_def)
  then have e: "block_end ?data = length (image_part lib password enc p)"
    by (auto simp: block_end_def image_part_def)
  have "starts_with ?data HEADER" by (simp add: image_part_def)
  then show ?case
    using Cons e image_block_part [OF assms, of p] by (simp add: image_blocks.simps [of lib password ?data])
qed

text \<open>Encrypted snapshots: whatever comes before the first marker, a payload of encrypted parts decrypts to the
  concatenation of their plaintexts.\<close>

theorem encrypted_image_recovered:
  assumes "camera_cipher lib password enc" and "unmarked before"
    and "list_all (\<lambda>p. unmarked (image_hash lib password @ enc p)) parts" and "concat parts \<noteq> []"
  shows "decrypt_image lib (before @ concat (map (image_part lib password enc) parts)) password = Inr (concat parts)"
proof -
  let ?data = "concat (map (image_part lib password enc) parts)"
  obtain r where "?data = HEADER @ r" using assms(4) by (cases parts) (auto simp: image_part_def)
  then have "find_sub HEADER (before @ ?data) = Some (length before)" using find_next_marker [OF assms(2)] by simp
  then show ?thesis using image_blocks_parts [OF assms(1,3)] assms(4) by (simp add: decrypt_image_def)
qed

text \<open>A cipher that appends sixteen padding bytes, for the password \<open>k\<close>.\<close>

definition demo_enc :: "bytes \<Rightarrow> bytes" where
  "demo_enc p = p @ replicate (16 - length p mod 16) (of_nat (16 - length p mod 16))"

definition demo_lib :: picture_lib where
  "demo_lib = \<lparr>md5 = (\<lambda>_. [0]), hex_encode = (\<lambda>_. replicate 32 CHR ''0''), hex_decode = (\<lambda>_. Some [1]),
     cbc_decrypt = (\<lambda>key iv c. if c = [] \<or> length c < unat (last c) then None else Some (take (length c - unat (last c)) c))\<rparr>"

lemma demo_cipher: "camera_cipher demo_lib ''k'' demo_enc"
proof -
  have "unat (of_nat (16 - n mod 16) :: u8) = 16 - n mod 16" for n :: nat
    by (simp only: unat_of_nat) (simp add: take_bit_nat_eq_self)
  moreover have "(length p + (16 - length p mod 16)) mod 16 = 0" for p :: bytes by presburger
  moreover have "\<not> n + 16 - n mod 16 < 16 - n mod 16" for n :: nat by simp
  ultimately show ?thesis
    by (simp add: camera_cipher_def demo_enc_def demo_lib_def image_hash_def HASH_BYTES_def Let_def)
qed

theorem encrypted_image_recovered_witness:
  "camera_cipher demo_lib ''k'' demo_enc \<and> unmarked [1]
   \<and> list_all (\<lambda>p. unmarked (image_hash demo_lib ''k'' @ demo_enc p)) [[7, 8], [9]]
   \<and> decrypt_image demo_lib ([1] @ concat (map (image_part demo_lib ''k'' demo_enc) [[7, 8], [9]])) ''k'' = Inr [7, 8, 9]"
proof -
  have u: "unmarked [1]" "list_all (\<lambda>p. unmarked (image_hash demo_lib ''k'' @ demo_enc p)) [[7, 8], [9]]"
    by code_simp+
  show ?thesis using encrypted_image_recovered [OF demo_cipher u] u demo_cipher by simp
qed

section \<open>Where pictures are fetched\<close>

definition owned_host :: "string \<Rightarrow> bool" where
  "owned_host h \<longleftrightarrow> (\<exists>d \<in> set PLAIN_HTTP_MEDIA_DOMAINS. h = d \<or> (\<exists>label. label \<noteq> [] \<and> h = label @ ''.'' @ d))"

definition trusted_url :: "media_url \<Rightarrow> bool" where
  "trusted_url u \<longleftrightarrow> (\<exists>h. mu_host u = Some h \<and>
     (mu_scheme u = ''https''
      \<or> mu_scheme u = ''http'' \<and> (\<exists>g. (h = g \<or> h = g @ ''.'') \<and> owned_host (to_ascii_lowercase g))))"

lemma ezviz_media_host_owned: "ezviz_media_host h \<Longrightarrow> \<exists>g. (h = g \<or> h = g @ ''.'') \<and> owned_host (to_ascii_lowercase g)"
proof -
  assume h: "ezviz_media_host h"
  define g where "g = (case strip_suffix ''.'' h of Some r \<Rightarrow> r | None \<Rightarrow> h)"
  have "h = g \<or> h = g @ ''.''" by (auto simp: g_def strip_suffix_Some split: option.splits)
  moreover have "owned_host (to_ascii_lowercase g)"
  proof -
    obtain d where d: "d \<in> set PLAIN_HTTP_MEDIA_DOMAINS" and e: "to_ascii_lowercase g = d
        \<or> (\<exists>l. strip_suffix d (to_ascii_lowercase g) = Some l \<and> 1 < length l \<and> ends_with l ''.'')"
      using h by (auto simp: ezviz_media_host_def Let_def list_ex_iff simp flip: g_def split: option.splits)
    have dot: "\<exists>label. label \<noteq> [] \<and> l @ d = label @ ''.'' @ d" if "1 < length l" "ends_with l ''.''" for l
    proof -
      have "l = take (length l - 1) l @ ''.''" using that(2) by (auto simp: ends_with_def) (metis append_take_drop_id)
      moreover have "take (length l - 1) l \<noteq> []" using that(1) by auto
      ultimately show ?thesis by (metis append_assoc)
    qed
    show ?thesis
    proof (cases "to_ascii_lowercase g = d")
      case True
      then show ?thesis using d unfolding owned_host_def by blast
    next
      case False
      then obtain l where "to_ascii_lowercase g = l @ d" "1 < length l" "ends_with l ''.''"
        using e by (auto simp: strip_suffix_Some)
      then show ?thesis using d dot [of l] unfolding owned_host_def by metis
    qed
  qed
  ultimately show ?thesis by blast
qed

lemma media_url_allowed_trusted: "media_url_allowed u \<Longrightarrow> trusted_url u"
  by (auto simp: media_url_allowed_def trusted_url_def dest: ezviz_media_host_owned split: if_splits option.splits)

text \<open>The documented behaviour of the HTTP client: it asks for the URL it is given first, and for another one only
  after its policy has accepted it, with the number of URLs asked for so far.\<close>

definition respects_policy :: "media_get \<Rightarrow> bool" where
  "respects_policy get \<longleftrightarrow> (\<forall>policy u. case get policy u of (_, asked) \<Rightarrow>
     \<forall>i < length asked. if i = 0 then asked ! i = u else policy i (asked ! i))"

text \<open>C28. Pre-signed downloads: every URL that is requested, redirects included, is an HTTPS URL or a plain
  HTTP URL on a host that EZVIZ owns, at most three are requested, and the picture fits the limit.\<close>

theorem media_hosts_trusted:
  assumes "respects_policy get"
  shows "case download_presigned parse_url get url limit of (res, asked) \<Rightarrow>
    list_all trusted_url asked \<and> length asked \<le> MAX_REDIRECTS
    \<and> (case res of Inr data \<Rightarrow> length data \<le> limit | Inl _ \<Rightarrow> True)"
proof -
  have "list_all trusted_url asked \<and> length asked \<le> MAX_REDIRECTS"
    if u: "media_url_allowed u" and g: "get media_redirect u = (res, asked)" for u res asked
  proof -
    have "\<forall>i < length asked. if i = 0 then asked ! i = u else media_redirect i (asked ! i)"
      using assms [unfolded respects_policy_def, THEN spec [of _ media_redirect], THEN spec [of _ u]] g by simp
    then have p: "if i = 0 then asked ! i = u else media_redirect i (asked ! i)" if "i < length asked" for i
      using that by blast
    have "trusted_url (asked ! i)" if "i < length asked" for i
      using p [OF that] u by (auto simp: media_redirect_def intro: media_url_allowed_trusted split: if_splits)
    moreover have "length asked \<le> MAX_REDIRECTS"
      using p [of MAX_REDIRECTS] by (fastforce simp: media_redirect_def MAX_REDIRECTS_def not_le split: if_splits)
    ultimately show ?thesis by (simp add: list_all_length)
  qed
  moreover have "length data \<le> limit" if "fst (download_presigned parse_url get url limit) = Inr data" for data
    using that by (auto simp: download_presigned_def result_simps dest: read_limited_bounded
        split: option.splits prod.splits if_splits)
  ultimately show ?thesis by (fastforce simp: download_presigned_def split: option.splits prod.splits sum.splits if_splits)
qed

text \<open>A client that is redirected forever: the third URL is the last one asked for.\<close>

definition loop_url :: media_url where
  "loop_url = \<lparr>mu_scheme = ''http'', mu_host = Some ''Img.EZVIZ.com''\<rparr>"

definition loop_get :: media_get where
  "loop_get policy u = (Inl Timeout, if policy 1 loop_url then (if policy 2 loop_url then [u, loop_url, loop_url] else [u, loop_url]) else [u])"

theorem media_hosts_trusted_witness:
  "respects_policy loop_get
   \<and> snd (download_presigned (\<lambda>_. Some loop_url) loop_get ''u'' 9) = [loop_url, loop_url, loop_url]
   \<and> list_all trusted_url [loop_url, loop_url, loop_url]"
proof -
  have r: "respects_policy loop_get"
    by (auto simp: respects_policy_def loop_get_def nth_Cons' less_Suc_eq numeral_2_eq_2)
  have "snd (download_presigned (\<lambda>_. Some loop_url) loop_get ''u'' 9) = [loop_url, loop_url, loop_url]"
    by code_simp
  with r media_hosts_trusted [OF r, where parse_url = "\<lambda>_. Some loop_url" and url = "''u''" and limit = 9] show ?thesis
    by (metis (mono_tags, lifting) case_prod_beta)
qed

end
