(* ===== verification/Alarm_Poll.thy ===== *)
theory Alarm_Poll
  imports Alarm_Store Bridge_Config Picture "HOL-Library.AList" "HOL-Library.Multiset"
begin

text \<open>
  The alarm poller (\<open>alarms/fetch.rs\<close>, \<open>alarms/poller.rs\<close>, \<open>alarms/poller/support.rs\<close>) and the reads
  of the feed (\<open>alarms/mod.rs\<close>, \<open>alarms/read.rs\<close>). The cloud (\<open>AlarmSource\<close>) is a trait: its answers
  are functions from requests to results. Calendar days are day numbers; formatting them (\<open>chrono\<close>)
  and the process time zone are arguments. Metrics and log lines are omitted.
\<close>

section \<open>Fetching\<close>

definition LIVE_PAGES :: nat where "LIVE_PAGES = 3"
definition PRIME_PAGES :: nat where "PRIME_PAGES = 1"

record fetch_result =
  fr_messages :: "parsed_message list"
  truncated :: bool

definition local_day :: "int option \<Rightarrow> int \<Rightarrow> int \<Rightarrow> int" where
  "local_day offset tz now = (now + (case offset of None \<Rightarrow> tz | Some s \<Rightarrow> s)) div 86400"

definition local_midnight :: "int \<Rightarrow> int option \<Rightarrow> int \<Rightarrow> int" where
  "local_midnight day offset tz = day * 86400 - (case offset of None \<Rightarrow> tz | Some s \<Rightarrow> s)"

record fetch_state =
  collected :: "parsed_message list"
  seen_ids :: "string set"
  pages :: nat
  reached :: bool
  exhausted_day :: bool

abbreviation msg_id :: "parsed_message \<Rightarrow> string" where
  "msg_id m \<equiv> ar_id (pm_record m)"

text \<open>The loop over the messages of one page; the flag says whether the page made progress.\<close>

fun absorb :: "(string \<Rightarrow> bool) \<Rightarrow> parsed_message list \<Rightarrow> fetch_state \<times> bool \<Rightarrow> fetch_state \<times> bool" where
  "absorb known [] st = st"
| "absorb known (m # ms) (st, progressed) =
     (if known (msg_id m) then absorb known ms (st\<lparr>reached := True\<rparr>, progressed)
      else if msg_id m \<notin> seen_ids st
      then absorb known ms (st\<lparr>seen_ids := insert (msg_id m) (seen_ids st), collected := collected st @ [m]\<rparr>, True)
      else absorb known ms (st, progressed))"

type_synonym page_source = "string \<Rightarrow> string \<Rightarrow> bridge_error + json"

text \<open>\<open>while pages < max_pages\<close>: the first argument after the day is the pages left.\<close>

fun fetch_day :: "(string \<Rightarrow> bool) \<Rightarrow> (json \<Rightarrow> parsed_message list \<times> bool) \<Rightarrow> (string \<Rightarrow> bridge_error + json)
    \<Rightarrow> nat \<Rightarrow> string \<Rightarrow> fetch_state \<Rightarrow> bridge_error + fetch_state" where
  "fetch_day known parse list' 0 end_time st = Inr st"
| "fetch_day known parse list' (Suc left) end_time st =
     try_bind (list' end_time) (\<lambda>pg.
       let (messages, has_next) = parse pg;
           last_time = (if messages = [] then None else time_ms (last messages));
           (st1, progressed) = absorb known messages (st\<lparr>pages := pages st + 1\<rparr>, False)
       in if reached st1 then Inr st1
          else case last_time of
            Some time \<Rightarrow>
              if has_next \<and> progressed then fetch_day known parse list' left (show_int time) st1
              else Inr (st1\<lparr>exhausted_day := \<not> has_next\<rparr>)
          | None \<Rightarrow> Inr (st1\<lparr>exhausted_day := \<not> has_next\<rparr>))"

fun insert_alarm :: "parsed_message \<Rightarrow> parsed_message list \<Rightarrow> parsed_message list" where
  "insert_alarm m [] = [m]"
| "insert_alarm m (x # xs) = (if alarm_before (pm_record m) (pm_record x) then m # x # xs else x # insert_alarm m xs)"

text \<open>\<open>sort_by\<close> on time and identifier is stable.\<close>

definition sort_alarms :: "parsed_message list \<Rightarrow> parsed_message list" where
  "sort_alarms ms = foldl (\<lambda>acc m. insert_alarm m acc) [] ms"

definition fetch_unknown ::
  "(json \<Rightarrow> parsed_message list \<times> bool) \<Rightarrow> page_source \<Rightarrow> (int \<Rightarrow> string) \<Rightarrow> int \<Rightarrow> int \<Rightarrow> int option \<Rightarrow> int option
    \<Rightarrow> (string \<Rightarrow> bool) \<Rightarrow> nat \<Rightarrow> bridge_error + fetch_result" where
  "fetch_unknown parse src api_date now tz offset newest_known known max_pages =
     (let today = local_day offset tz now;
          st0 = \<lparr>collected = [], seen_ids = {}, pages = 0, reached = False, exhausted_day = False\<rparr>
      in try_bind (fetch_day known parse (src (api_date today)) max_pages [] st0) (\<lambda>st1.
           let gap = (case newest_known of None \<Rightarrow> False | Some k \<Rightarrow> k < local_midnight today offset tz) in
           try_bind (if reached st1 \<or> max_pages \<le> pages st1 \<or> \<not> exhausted_day st1 \<or> \<not> gap then Inr st1
                     else fetch_day known parse (src (api_date (today - 1))) (max_pages - pages st1) []
                            (st1\<lparr>exhausted_day := False\<rparr>)) (\<lambda>st2.
             Inr \<lparr>fr_messages = sort_alarms (collected st2),
                  truncated = (\<not> reached st2 \<and> \<not> exhausted_day st2 \<and> max_pages \<le> pages st2)\<rparr>)))"

section \<open>The poller\<close>

definition MAX_BACKOFF :: nat where "MAX_BACKOFF = 300"
definition PICTURES_PER_CYCLE :: nat where "PICTURES_PER_CYCLE = 10"
definition SEEN_PER_SERIAL :: nat where "SEEN_PER_SERIAL = 512"

record serial_state =
  baseline :: "(string option \<times> nat) option"
  ss_offset :: "int option"
  seen :: "string list"

definition serial_state_default :: serial_state where
  "serial_state_default = \<lparr>baseline = None, ss_offset = None, seen = []\<rparr>"

definition next_delay :: "nat \<Rightarrow> bool \<Rightarrow> nat \<Rightarrow> nat" where
  "next_delay interval failed delay = (if failed then min (max delay interval * 2) MAX_BACKOFF else interval)"

record feed_slot =
  slot_config :: camera_config
  slot_history :: camera_history

type_synonym feed = "(string \<times> feed_slot) list"

text \<open>What the cloud answers for one camera's pictures: candidate keys, a download within the time
  limit, and the libraries of the decoder (\<open>alarms/crypto.rs\<close>).\<close>

record picture_cloud =
  picture_keys :: "camera_config \<Rightarrow> string list"
  alarm_picture :: "string \<Rightarrow> bytes option"
  picture_codec :: picture_lib

fun picture_loop :: "picture_cloud \<Rightarrow> camera_config \<Rightarrow> nat \<Rightarrow> nat \<Rightarrow> string list option \<Rightarrow> parsed_message list
    \<Rightarrow> (alarm_record \<times> bytes option) list" where
  "picture_loop cloud cfg first i keys [] = []"
| "picture_loop cloud cfg first i keys (m # ms) =
     (case (first \<le> i, pm_picture m) of
        (True, Some p) \<Rightarrow>
          let keys' = (if ps_crypt p = 1 \<and> keys = None then Some (picture_keys cloud cfg) else keys);
              jpeg = Option.bind (alarm_picture cloud (ps_url p))
                (\<lambda>raw. result_ok (decode_with_keys (picture_codec cloud) raw (ps_crypt p) (ps_checksum p)
                   (case keys' of Some k \<Rightarrow> k | None \<Rightarrow> [])))
          in (pm_record m, jpeg) # picture_loop cloud cfg first (i + 1) keys' ms
      | _ \<Rightarrow> (pm_record m, None) # picture_loop cloud cfg first (i + 1) keys ms)"

definition with_pictures :: "picture_cloud \<Rightarrow> camera_config \<Rightarrow> parsed_message list \<Rightarrow> (alarm_record \<times> bytes option) list" where
  "with_pictures cloud cfg ms = picture_loop cloud cfg (length ms - PICTURES_PER_CYCLE) 0 None ms"

text \<open>The outcome of every disk operation of a publish: one per picture and one for the file.\<close>

type_synonym disk = "(string \<Rightarrow> Alarm_Store.write_outcome) \<times> bool"

definition publish :: "disk \<Rightarrow> (alarm_record \<times> bytes option) list \<Rightarrow> bool \<Rightarrow> feed_slot \<Rightarrow> (bridge_error + insert_outcome) \<times> feed_slot" where
  "publish disk batch live slot =
     (case insert_batch (snd disk) (map (\<lambda>(r, j). (r, j, fst disk (ar_id r))) batch) live (slot_history slot) of
        (res, h) \<Rightarrow> (res, slot\<lparr>slot_history := h\<rparr>))"

definition known_ids :: "string list \<Rightarrow> serial_state \<Rightarrow> feed \<Rightarrow> string set \<times> int option" where
  "known_ids aliases st fd =
     foldl (\<lambda>(known, newest) alias. case map_of fd alias of
         None \<Rightarrow> (known, newest)
       | Some slot \<Rightarrow>
           (let h = slot_history slot;
                n = newest_occurred_at h
            in (known \<union> set (map entry_id (recent (limit h) h)),
                (case (newest, n) of (None, y) \<Rightarrow> y | (Some x, None) \<Rightarrow> Some x | (Some x, Some y) \<Rightarrow> Some (max x y)))))
       (set (seen st), None) aliases"

definition message_channel :: "parsed_message \<Rightarrow> nat" where
  "message_channel m = (case pm_channel m of Some c \<Rightarrow> if 0 < c then c else 1 | None \<Rightarrow> 1)"

fun publish_all :: "disk \<Rightarrow> picture_cloud \<Rightarrow> parsed_message list \<Rightarrow> bool \<Rightarrow> string list \<Rightarrow> feed \<Rightarrow> (bridge_error + unit) \<times> feed" where
  "publish_all disk cloud messages live [] fd = (Inr (), fd)"
| "publish_all disk cloud messages live (alias # rest) fd =
     (case map_of fd alias of
        None \<Rightarrow> publish_all disk cloud messages live rest fd
      | Some slot \<Rightarrow>
          let mine = filter (\<lambda>m. message_channel m = channel (slot_config slot)) messages in
          if mine = [] then publish_all disk cloud messages live rest fd
          else case publish disk (with_pictures cloud (slot_config slot) mine) live slot of
            (Inl e, slot') \<Rightarrow> (Inl e, AList.update alias slot' fd)
          | (Inr _, slot') \<Rightarrow> publish_all disk cloud messages live rest (AList.update alias slot' fd))"

definition remember :: "parsed_message list \<Rightarrow> string list \<Rightarrow> string list" where
  "remember ms old = (let all = old @ map msg_id ms in drop (length all - SEEN_PER_SERIAL) all)"

definition sync_serial ::
  "disk \<Rightarrow> picture_cloud \<Rightarrow> (serial_state \<Rightarrow> int option \<Rightarrow> (string \<Rightarrow> bool) \<Rightarrow> nat \<Rightarrow> bridge_error + fetch_result)
    \<Rightarrow> string list \<Rightarrow> bool \<Rightarrow> serial_state \<Rightarrow> feed \<Rightarrow> (bridge_error + unit) \<times> serial_state \<times> feed" where
  "sync_serial disk cloud fetch aliases live st fd =
     (case known_ids aliases st fd of (known, newest) \<Rightarrow>
      case fetch st newest (\<lambda>i. i \<in> known) (if live then LIVE_PAGES else PRIME_PAGES) of
        Inl e \<Rightarrow> (Inl e, st, fd)
      | Inr result \<Rightarrow>
          (case publish_all disk cloud (fr_messages result) live aliases fd of
             (Inl e, fd') \<Rightarrow> (Inl e, st, fd')
           | (Inr _, fd') \<Rightarrow> (Inr (), st\<lparr>seen := remember (fr_messages result) (seen st)\<rparr>, fd')))"

definition poll_serial ::
  "disk \<Rightarrow> picture_cloud \<Rightarrow> (serial_state \<Rightarrow> int option \<Rightarrow> (string \<Rightarrow> bool) \<Rightarrow> nat \<Rightarrow> bridge_error + fetch_result)
    \<Rightarrow> device_summary option \<Rightarrow> string list \<Rightarrow> serial_state \<Rightarrow> feed \<Rightarrow> bool \<times> serial_state \<times> feed" where
  "poll_serial disk cloud fetch device aliases st0 fd =
     (let st = (case Option.bind device ds_offset of Some o' \<Rightarrow> st0\<lparr>ss_offset := Some o'\<rparr> | None \<Rightarrow> st0);
          current = (case device of None \<Rightarrow> (None, 0) | Some d \<Rightarrow> (top_id d, ds_total d))
      in if baseline st = Some current then (False, st, fd)
         else case sync_serial disk cloud fetch aliases (baseline st \<noteq> None) st fd of
           (Inl _, st', fd') \<Rightarrow> (True, st', fd')
         | (Inr _, st', fd') \<Rightarrow> (False, st'\<lparr>baseline := Some current\<rparr>, fd'))"

section \<open>Reads\<close>

definition MAX_BATCH :: nat where "MAX_BATCH = 50"
definition MAX_WAIT_SECONDS :: nat where "MAX_WAIT_SECONDS = 25"

record alarm_event =
  ev_sequence :: nat
  ev_id :: string
  ev_occurred_at :: int
  ev_alarm_type :: int
  ev_category :: string
  ev_title :: string
  ev_has_picture :: bool

record alarm_batch =
  batch_camera :: string
  batch_older :: "nat option"
  next_sequence :: nat
  batch_events :: "alarm_event list"

definition envelope :: "string \<Rightarrow> nat \<Rightarrow> entry list \<Rightarrow> nat option \<Rightarrow> alarm_batch" where
  "envelope camera nxt es older = \<lparr>batch_camera = camera, batch_older = older, next_sequence = nxt,
     batch_events = map (\<lambda>e. \<lparr>ev_sequence = seqno e, ev_id = entry_id e,
       ev_occurred_at = occurred_at (rec e), ev_alarm_type = alarm_type (rec e),
       ev_category = ar_category (rec e), ev_title = ar_title (rec e),
       ev_has_picture = has_picture (rec e)\<rparr>) es\<rparr>"

text \<open>The long poll: the history as it is at each wake-up; the last one is the deadline, a
  shutdown or a closed channel.\<close>

fun batch_wait :: "string \<Rightarrow> nat \<Rightarrow> camera_history \<Rightarrow> camera_history list \<Rightarrow> alarm_batch" where
  "batch_wait camera a h wakes =
     (case after a MAX_BATCH h of (es, nxt) \<Rightarrow>
        if es \<noteq> [] \<or> nxt < a then envelope camera nxt es None
        else case wakes of [] \<Rightarrow> envelope camera nxt es None | h' # hs \<Rightarrow> batch_wait camera a h' hs)"

definition batch :: "string \<Rightarrow> nat option \<Rightarrow> feed \<Rightarrow> camera_history list \<Rightarrow> bridge_error + alarm_batch" where
  "batch camera a fd wakes = (case map_of fd camera of
     None \<Rightarrow> Inl CameraNotFound
   | Some slot \<Rightarrow> let h = slot_history slot in
       (case a of
          None \<Rightarrow> (case page None MAX_BATCH h of (es, older) \<Rightarrow> Inr (envelope camera (head h) es older))
        | Some c \<Rightarrow> Inr (batch_wait camera c h wakes)))"

definition history :: "string \<Rightarrow> nat \<Rightarrow> feed \<Rightarrow> bridge_error + alarm_batch" where
  "history camera before fd = (case map_of fd camera of
     None \<Rightarrow> Inl CameraNotFound
   | Some slot \<Rightarrow> (case page (Some before) MAX_BATCH (slot_history slot) of
       (es, older) \<Rightarrow> Inr (envelope camera (head (slot_history slot)) es older)))"

definition feed_picture :: "string \<Rightarrow> string \<Rightarrow> feed \<Rightarrow> bridge_error + bytes option" where
  "feed_picture camera ident fd = (case map_of fd camera of
     None \<Rightarrow> Inl CameraNotFound
   | Some slot \<Rightarrow>
       if \<not> is_token ident then Inr None
       else if picture_bytes ident (slot_history slot) = None then Inr None
       else Inr (picture_read ident (pictures (slot_history slot))))"

section \<open>Fetching is sound\<close>

definition fetch_ok :: "(string \<Rightarrow> bool) \<Rightarrow> fetch_state \<Rightarrow> bool" where
  "fetch_ok known st \<longleftrightarrow> distinct (map msg_id (collected st)) \<and>
     seen_ids st = set (map msg_id (collected st)) \<and> (\<forall>m \<in> set (collected st). \<not> known (msg_id m))"

lemma absorb_ok: "fetch_ok known st \<Longrightarrow> absorb known ms (st, p) = (st', p') \<Longrightarrow>
    fetch_ok known st' \<and> pages st' = pages st"
proof (induction ms arbitrary: st p)
  case (Cons m ms)
  let ?r = "st\<lparr>reached := True\<rparr>"
  let ?n = "st\<lparr>seen_ids := insert (msg_id m) (seen_ids st), collected := collected st @ [m]\<rparr>"
  have r: "fetch_ok known ?r" using Cons.prems(1) by (simp add: fetch_ok_def)
  have n: "fetch_ok known ?n" if "\<not> known (msg_id m)" "msg_id m \<notin> seen_ids st"
    using Cons.prems(1) that by (auto simp: fetch_ok_def)
  show ?case
    using Cons.prems(2) Cons.IH [OF r, of p] Cons.IH [OF n, of True] Cons.IH [OF Cons.prems(1), of p]
    by (simp split: if_splits)
qed simp

lemma fetch_day_Suc:
  assumes "fetch_day known parse l (Suc n) e st = Inr st'"
  obtains ms st1 pr where "absorb known ms (st\<lparr>pages := pages st + 1\<rparr>, False) = (st1, pr)"
    "st' = st1 \<or> (\<exists>b. st' = st1\<lparr>exhausted_day := b\<rparr>) \<or> (\<exists>e'. fetch_day known parse l n e' st1 = Inr st')"
proof -
  obtain pg where l: "l e = Inr pg" using assms by (auto simp: try_bind_eq_Inr)
  obtain ms hn where p: "parse pg = (ms, hn)" by fastforce
  obtain st1 pr where a: "absorb known ms (st\<lparr>pages := pages st + 1\<rparr>, False) = (st1, pr)" by fastforce
  have "st' = st1 \<or> (\<exists>b. st' = st1\<lparr>exhausted_day := b\<rparr>) \<or> (\<exists>e'. fetch_day known parse l n e' st1 = Inr st')"
    using assms l p a by (auto simp: Let_def split: if_splits option.splits)
  with a show thesis by (rule that)
qed

lemma fetch_day_ok:
  "fetch_ok known st \<Longrightarrow> fetch_day known parse l n e st = Inr st' \<Longrightarrow>
   fetch_ok known st' \<and> pages st' \<le> pages st + n"
proof (induction n arbitrary: e st)
  case (Suc n)
  from Suc.prems(2) obtain ms st1 pr where
    a: "absorb known ms (st\<lparr>pages := pages st + 1\<rparr>, False) = (st1, pr)" and
    r: "st' = st1 \<or> (\<exists>b. st' = st1\<lparr>exhausted_day := b\<rparr>) \<or> (\<exists>e'. fetch_day known parse l n e' st1 = Inr st')"
    by (rule fetch_day_Suc)
  have "fetch_ok known (st\<lparr>pages := pages st + 1\<rparr>)" using Suc.prems(1) by (simp add: fetch_ok_def)
  from absorb_ok [OF this a] have 1: "fetch_ok known st1" "pages st1 = pages st + 1" by auto
  from r show ?case
  proof (elim disjE exE)
    fix e' assume "fetch_day known parse l n e' st1 = Inr st'"
    from Suc.IH [OF 1(1) this] show ?thesis using 1(2) by simp
  qed (use 1 in \<open>simp_all add: fetch_ok_def\<close>)
qed simp

text \<open>The order of alarms.\<close>

lemma char_less_trichotomy: "(of_char a :: nat) < of_char b \<or> a = b \<or> (of_char b :: nat) < of_char a"
  using of_char_eq_iff [of a b, where ?'a = nat] by linarith

lemma str_less_trans: "str_less x y \<Longrightarrow> str_less y z \<Longrightarrow> str_less x z"
proof (induction x y arbitrary: z rule: str_less.induct)
  case (3 a as b bs)
  then show ?case by (cases z) (auto intro: less_trans)
next
  case (2 b bs)
  then show ?case by (cases z) auto
qed simp

lemma str_less_total: "str_less x y \<or> x = y \<or> str_less y x"
proof (induction x y rule: str_less.induct)
  case (3 a as b bs)
  then show ?case using char_less_trichotomy [of a b] by auto
next
  case (1 uu)
  then show ?case by (cases uu) auto
qed simp

lemma str_less_irrefl: "\<not> str_less x x"
  by (induction x) auto

lemma alarm_before_trans: "alarm_before a b \<Longrightarrow> alarm_before b c \<Longrightarrow> alarm_before a c"
  unfolding alarm_before_def using str_less_trans [of "ar_id a" "ar_id b" "ar_id c"] by auto

lemma alarm_before_asym: "alarm_before a b \<Longrightarrow> \<not> alarm_before b a"
  unfolding alarm_before_def
  using str_less_trans [of "ar_id a" "ar_id b" "ar_id a"] str_less_irrefl [of "ar_id a"] by auto

definition in_order :: "parsed_message list \<Rightarrow> bool" where
  "in_order ms \<longleftrightarrow> sorted_wrt (\<lambda>a b. \<not> alarm_before (pm_record b) (pm_record a)) ms"

lemma set_insert_alarm: "set (insert_alarm m xs) = insert m (set xs)"
  by (induction xs) auto

lemma insert_alarm_sorted: "in_order xs \<Longrightarrow> in_order (insert_alarm m xs)"
proof (induction xs)
  case (Cons x xs)
  show ?case
  proof (cases "alarm_before (pm_record m) (pm_record x)")
    case True
    have "\<not> alarm_before (pm_record y) (pm_record x)" if "y \<in> set xs" for y
      using that Cons.prems by (simp add: in_order_def)
    then have "\<not> alarm_before (pm_record y) (pm_record m)" if "y \<in> set (x # xs)" for y
      using that True alarm_before_asym [of "pm_record m" "pm_record x"]
        alarm_before_trans [of "pm_record y" "pm_record m" "pm_record x"] by auto
    then show ?thesis using Cons.prems True by (simp add: in_order_def)
  next
    case False
    then show ?thesis using Cons by (simp add: in_order_def set_insert_alarm)
  qed
qed (simp add: in_order_def)

lemma sort_alarms_ok: "in_order (sort_alarms ms) \<and> mset (sort_alarms ms) = mset ms"
proof -
  have "in_order (foldl (\<lambda>acc m. insert_alarm m acc) acc ms) \<and>
      mset (foldl (\<lambda>acc m. insert_alarm m acc) acc ms) = mset acc + mset ms" if "in_order acc" for acc
    using that
  proof (induction ms arbitrary: acc)
    case (Cons m ms)
    have "mset (insert_alarm m acc) = add_mset m (mset acc)" for acc
      by (induction acc) auto
    then show ?case using Cons insert_alarm_sorted by simp
  qed simp
  from this [of "[]"] show ?thesis by (simp add: sort_alarms_def in_order_def)
qed

lemma fetch_unknown_cases:
  assumes "fetch_unknown parse src api_date now tz offset newest known n = Inr r"
  shows "\<exists>st. fetch_ok known st \<and> pages st \<le> n \<and> fr_messages r = sort_alarms (collected st) \<and>
    truncated r = (\<not> reached st \<and> \<not> exhausted_day st \<and> n \<le> pages st)"
proof -
  let ?st0 = "\<lparr>collected = [], seen_ids = {}, pages = 0, reached = False, exhausted_day = False\<rparr>"
  have 0: "fetch_ok known ?st0" by (simp add: fetch_ok_def)
  obtain st1 where s1: "fetch_day known parse (src (api_date (local_day offset tz now))) n [] ?st0 = Inr st1"
    using assms by (auto simp: fetch_unknown_def Let_def try_bind_eq_Inr)
  note 1 = fetch_day_ok [OF 0 s1]
  have x: "fetch_ok known (st1\<lparr>exhausted_day := False\<rparr>)" using 1 by (simp add: fetch_ok_def)
  from assms s1 obtain st2 where
    s2: "st2 = st1 \<or> fetch_day known parse (src (api_date (local_day offset tz now - 1))) (n - pages st1) []
        (st1\<lparr>exhausted_day := False\<rparr>) = Inr st2" and
    r: "r = \<lparr>fr_messages = sort_alarms (collected st2),
      truncated = (\<not> reached st2 \<and> \<not> exhausted_day st2 \<and> n \<le> pages st2)\<rparr>"
    by (auto simp: fetch_unknown_def Let_def try_bind_eq_Inr split: if_splits option.splits)
  have "fetch_ok known st2 \<and> pages st2 \<le> n"
    using s2 1 fetch_day_ok [OF x] by fastforce
  then show ?thesis using r by auto
qed

text \<open>A fetch returns only news: for any answers of the cloud, the messages returned have distinct
  identifiers, none of them already known, ordered by time and then identifier, collected from at most
  the allowed number of pages.\<close>
theorem fetch_returns_news:
  assumes "fetch_unknown parse src api_date now tz offset newest known n = Inr r"
  shows "distinct (map msg_id (fr_messages r)) \<and> list_all (\<lambda>m. \<not> known (msg_id m)) (fr_messages r) \<and>
    in_order (fr_messages r)"
proof -
  obtain st where st: "fetch_ok known st" "fr_messages r = sort_alarms (collected st)"
    using fetch_unknown_cases [OF assms] by blast
  note s = sort_alarms_ok [of "collected st"]
  have "mset (map msg_id (fr_messages r)) = mset (map msg_id (collected st))"
    using s st(2) by simp
  then have "distinct (map msg_id (fr_messages r))"
    using mset_eq_imp_distinct_iff st(1) unfolding fetch_ok_def by blast
  moreover have "set (fr_messages r) = set (collected st)" using s st(2) by (metis mset_eq_setD)
  ultimately show ?thesis using st s by (auto simp: fetch_ok_def list_all_iff)
qed

theorem fetch_returns_news_witness:
  "\<exists>r. fetch_unknown (\<lambda>_. ([\<lparr>pm_record = sample_alarm ''b'' 20, pm_channel = None, time_ms = None, pm_picture = None\<rparr>,
        \<lparr>pm_record = sample_alarm ''a'' 20, pm_channel = None, time_ms = None, pm_picture = None\<rparr>], False))
      (\<lambda>_ _. Inr JNull) (\<lambda>_. []) 0 0 None None (\<lambda>_. False) 3 = Inr r \<and> in_order (fr_messages r)"
proof -
  let ?f = "fetch_unknown (\<lambda>_. ([\<lparr>pm_record = sample_alarm ''b'' 20, pm_channel = None, time_ms = None, pm_picture = None\<rparr>,
        \<lparr>pm_record = sample_alarm ''a'' 20, pm_channel = None, time_ms = None, pm_picture = None\<rparr>], False))
      (\<lambda>_ _. Inr JNull) (\<lambda>_. []) 0 0 None None (\<lambda>_. False) 3"
  have "\<not> isl ?f"
    by (simp add: fetch_unknown_def Let_def sample_alarm_def numeral_3_eq_3)
  then obtain r where "?f = Inr r" by (cases ?f) auto
  with fetch_returns_news [OF this] show ?thesis by blast
qed

section \<open>Polling\<close>



lemma sync_serial_failed:
  assumes "sync_serial disk cloud fetch aliases live st fd = (Inl e, st', fd')"
  shows "st' = st"
proof -
  obtain known newest where k: "known_ids aliases st fd = (known, newest)" by fastforce
  show ?thesis
    using assms unfolding sync_serial_def k prod.case
    by (cases "fetch st newest (\<lambda>i. i \<in> known) (if live then LIVE_PAGES else PRIME_PAGES)")
      (auto split: prod.splits sum.splits)
qed

lemma poll_serial_failed:
  assumes "poll_serial disk cloud fetch device aliases st fd = (True, st', fd')"
  shows "baseline st' = baseline st \<and> seen st' = seen st"
proof -
  define st1 where "st1 = (case Option.bind device ds_offset of Some o' \<Rightarrow> st\<lparr>ss_offset := Some o'\<rparr> | None \<Rightarrow> st)"
  have 1: "baseline st1 = baseline st" "seen st1 = seen st" by (simp_all add: st1_def split: option.splits)
  obtain r s f where s: "sync_serial disk cloud fetch aliases (baseline st1 \<noteq> None) st1 fd = (r, s, f)"
    by (metis prod_cases3)
  have "isl r \<and> st' = s"
    using assms s unfolding poll_serial_def Let_def st1_def [symmetric]
    by (cases r) (auto split: if_splits)
  then obtain e where "r = Inl e" "st' = s" by (cases r) auto
  moreover from this have "s = st1" using s sync_serial_failed by blast
  ultimately show ?thesis using 1 by simp
qed

text \<open>Poll delays stay between the configured interval and five minutes whatever fails, and a
  success returns to the interval; the identifiers remembered per device stay within 512; a device's
  baseline moves only when its alarms were stored, so a failed cycle is retried.\<close>
theorem poll_backoff_bounded:
  "(interval \<le> MAX_BACKOFF \<and> d \<le> MAX_BACKOFF \<longrightarrow>
      interval \<le> next_delay interval failed d \<and> next_delay interval failed d \<le> MAX_BACKOFF) \<and>
   length (remember ms old) \<le> SEEN_PER_SERIAL \<and>
   (\<forall>st' fd'. poll_serial disk cloud fetch device aliases st fd = (True, st', fd') \<longrightarrow>
      baseline st' = baseline st \<and> seen st' = seen st)"
  using poll_serial_failed by (auto simp: next_delay_def remember_def Let_def)

theorem poll_backoff_bounded_witness:
  "next_delay 15 True 0 = 30 \<and> 15 \<le> next_delay 15 True 300 \<and> next_delay 15 True 300 \<le> MAX_BACKOFF"
  using poll_backoff_bounded [of 15 300 True "[]" "[]"] by (simp add: next_delay_def MAX_BACKOFF_def)

section \<open>Pictures of a cycle\<close>

definition pictures_ok :: "(alarm_record \<times> bytes option) list \<Rightarrow> bool" where
  "pictures_ok items \<longleftrightarrow> list_all (\<lambda>(_, j). case j of Some p \<Rightarrow> jpeg_file p | None \<Rightarrow> True) items"

lemma result_ok_Some: "result_ok r = Some x \<longleftrightarrow> r = Inr x"
  by (cases r) auto

lemma picture_loop_shape:
  "map fst (picture_loop cloud cfg first i keys ms) = map pm_record ms
   \<and> pictures_ok (picture_loop cloud cfg first i keys ms)
   \<and> list_all (\<lambda>(_, j). j = None) (take (first - i) (picture_loop cloud cfg first i keys ms))"
proof (induction ms arbitrary: i keys)
  case (Cons m ms)
  show ?case
  proof (cases "first \<le> i \<and> pm_picture m \<noteq> None")
    case True
    then obtain p where p: "pm_picture m = Some p" by auto
    define keys' where "keys' = (if ps_crypt p = 1 \<and> keys = None then Some (picture_keys cloud cfg) else keys)"
    have "pictures_ok (picture_loop cloud cfg first (i + 1) keys' ms)
        \<and> map fst (picture_loop cloud cfg first (i + 1) keys' ms) = map pm_record ms"
      using Cons.IH by blast
    moreover have "jpeg_file j" if "Option.bind (alarm_picture cloud (ps_url p)) (\<lambda>raw. result_ok
        (decode_with_keys (picture_codec cloud) raw (ps_crypt p) (ps_checksum p) (case keys' of Some k \<Rightarrow> k | None \<Rightarrow> [])))
        = Some j" for j
      using that by (auto simp: bind_eq_Some_conv result_ok_Some dest: decode_with_keys_shape)
    ultimately show ?thesis
      using True p by (simp add: keys'_def [symmetric] Let_def pictures_ok_def split: option.splits)
  next
    case False
    then have e: "picture_loop cloud cfg first i keys (m # ms) = (pm_record m, None) # picture_loop cloud cfg first (i + 1) keys ms"
      by (cases "first \<le> i") (auto split: option.splits)
    have "map fst (picture_loop cloud cfg first (i + 1) keys ms) = map pm_record ms
       \<and> pictures_ok (picture_loop cloud cfg first (i + 1) keys ms)
       \<and> list_all (\<lambda>(_, j). j = None) (take (first - (i + 1)) (picture_loop cloud cfg first (i + 1) keys ms))"
      by (rule Cons.IH)
    then show ?thesis unfolding e by (simp add: pictures_ok_def take_Cons')
  qed
qed (simp add: pictures_ok_def)

text \<open>C27. Pictures of alarms: whatever the cloud sends, a cycle keeps every alarm and its order, and a picture
  that goes with an alarm is a JPEG file, from its start marker to its end marker; only the ten newest alarms of the
  cycle get one.\<close>

theorem alarm_pictures_are_jpeg:
  "let items = with_pictures cloud cfg ms in
   map fst items = map pm_record ms \<and> pictures_ok items
   \<and> list_all (\<lambda>(_, j). j = None) (take (length ms - PICTURES_PER_CYCLE) items)"
  using picture_loop_shape [of cloud cfg "length ms - PICTURES_PER_CYCLE" 0 None ms]
  by (simp add: with_pictures_def Let_def)

end
