(* ===== verification/Recording_Writer.thy ===== *)
theory Recording_Writer
  imports Bridge_Error "HOL-Library.Sublist"
begin

text \<open>
  The spool writer of one recording (\<open>recordings/writer.rs\<close>): alignment on the first MPEG-PS pack or
  MPEG-TS synchronisation, the byte bound and the published file; and the inspection of a published
  file after a restart (\<open>inspect_media\<close> of \<open>recordings/recovery.rs\<close>). A received chunk is paired with
  the answer of the clock when the loop asks whether the recording has lasted long enough. SHA-256
  (crate \<open>sha2\<close>, as hexadecimal text) is an argument.
\<close>

definition TS_PACKET_BYTES :: nat where "TS_PACKET_BYTES = 188"
definition PACK_START :: bytes where "PACK_START = [0x00, 0x00, 0x01, 0xba]"
definition MAX_ALIGNMENT :: nat where "MAX_ALIGNMENT = 1024 * 1024"

datatype recording_format = MpegPs | MpegTs

fun extension :: "recording_format \<Rightarrow> string" where
  "extension MpegPs = ''mpegps''"
| "extension MpegTs = ''ts''"

fun media_type_of :: "recording_format \<Rightarrow> string" where
  "media_type_of MpegPs = ''video/mpeg''"
| "media_type_of MpegTs = ''video/mp2t''"

definition ts_sync_at :: "bytes \<Rightarrow> nat \<Rightarrow> bool" where
  "ts_sync_at data offset \<longleftrightarrow>
     get_at data offset = Some 0x47 \<and> get_at data (offset + TS_PACKET_BYTES) = Some 0x47
     \<and> get_at data (offset + TS_PACKET_BYTES * 2) = Some 0x47"

definition media_alignment :: "bytes \<Rightarrow> (nat \<times> recording_format) option" where
  "media_alignment data =
     (case find (\<lambda>i. take (length PACK_START) (drop i data) = PACK_START)
             [0..<length data + 1 - length PACK_START] of
        Some offset \<Rightarrow> Some (offset, MpegPs)
      | None \<Rightarrow> map_option (\<lambda>offset. (offset, MpegTs))
          (find (ts_sync_at data) [0..<min (length data) TS_PACKET_BYTES]))"

text \<open>The loop variables of \<open>write_partial\<close>; \<open>media\<close> is the content of the partial file, whose
  length is the counter \<open>written\<close>, and the format is known exactly when the recording has started.\<close>

record writer =
  alignment :: bytes
  media :: bytes
  w_format :: "recording_format option"

definition writer_new :: writer where
  "writer_new = \<lparr>alignment = [], media = [], w_format = None\<rparr>"

definition put_chunk :: "nat \<Rightarrow> bytes \<Rightarrow> writer \<Rightarrow> bridge_error + writer" where
  "put_chunk max_bytes chunk w =
     (if max_bytes < sat_add (length (media w)) (length chunk)
      then Inl (Capacity ''recording reached the configured byte limit'')
      else Inr (w\<lparr>media := media w @ chunk\<rparr>))"

definition write_chunk :: "nat \<Rightarrow> bytes \<Rightarrow> writer \<Rightarrow> bridge_error + writer" where
  "write_chunk max_bytes source w =
     (case w_format w of
        Some _ \<Rightarrow> put_chunk max_bytes source w
      | None \<Rightarrow>
          let buffered = alignment w @ source
          in case media_alignment buffered of
               None \<Rightarrow> if MAX_ALIGNMENT < length buffered
                       then Inl (Recording ''MPEG-PS or MPEG-TS alignment was not found'')
                       else Inr (w\<lparr>alignment := buffered\<rparr>)
             | Some (marker, detected) \<Rightarrow>
                 put_chunk max_bytes (drop marker buffered)
                   (w\<lparr>alignment := take marker buffered, w_format := Some detected\<rparr>))"

text \<open>The receive loop: the flag of a chunk is \<open>elapsed() >= limit\<close> after it was written.\<close>

fun write_loop :: "nat \<Rightarrow> (bytes \<times> bool) list \<Rightarrow> writer \<Rightarrow> bridge_error + writer" where
  "write_loop max_bytes [] w = Inr w"
| "write_loop max_bytes ((source, elapsed) # rest) w =
     try_bind (write_chunk max_bytes source w) (\<lambda>w'.
       if w_format w' \<noteq> None \<and> elapsed then Inr w' else write_loop max_bytes rest w')"

record written =
  wr_started_at :: string
  wr_bytes :: nat
  wr_sha256 :: string
  wr_format :: recording_format

definition write_finish :: "(bytes \<Rightarrow> string) \<Rightarrow> string \<Rightarrow> writer \<Rightarrow> bridge_error + written" where
  "write_finish sha256 started w =
     (case w_format w of
        None \<Rightarrow> Inl (Recording ''recording contained no aligned media'')
      | Some fmt \<Rightarrow> Inr \<lparr>wr_started_at = started, wr_bytes = length (media w),
                         wr_sha256 = sha256 (media w), wr_format = fmt\<rparr>)"

definition write_media :: "(bytes \<Rightarrow> string) \<Rightarrow> string \<Rightarrow> nat \<Rightarrow> (bytes \<times> bool) list
    \<Rightarrow> bridge_error + (written \<times> bytes)" where
  "write_media sha256 started max_bytes chunks =
     try_bind (write_loop max_bytes chunks writer_new) (\<lambda>w.
       try_bind (write_finish sha256 started w) (\<lambda>r. Inr (r, media w)))"

definition inspect_media :: "(bytes \<Rightarrow> string) \<Rightarrow> bytes option \<Rightarrow> bridge_error + (nat \<times> string) option" where
  "inspect_media sha256 file =
     (case file of
        None \<Rightarrow> Inr None
      | Some content \<Rightarrow>
          let prefix = take (TS_PACKET_BYTES * 3) content;
              valid_ps = (length PACK_START \<le> length prefix \<and> starts_with prefix PACK_START);
              valid_ts = (TS_PACKET_BYTES * 3 \<le> length prefix \<and> ts_sync_at prefix 0)
          in if \<not> valid_ps \<and> \<not> valid_ts
             then Inl (Recording ''recovered media has no MPEG-PS or MPEG-TS header'')
             else Inr (Some (length content, sha256 content)))"

section \<open>What the writer publishes\<close>

text \<open>The header the format promises.\<close>

fun has_header :: "recording_format \<Rightarrow> bytes \<Rightarrow> bool" where
  "has_header MpegPs content \<longleftrightarrow> starts_with content PACK_START"
| "has_header MpegTs content \<longleftrightarrow> ts_sync_at content 0"

lemma ts_sync_at_drop: "ts_sync_at data i \<Longrightarrow> ts_sync_at (drop i data) 0"
  by (auto simp: ts_sync_at_def get_at_Some)

lemma ts_sync_at_append: "ts_sync_at data i \<Longrightarrow> ts_sync_at (data @ rest) i"
  by (auto simp: ts_sync_at_def get_at_Some nth_append)

lemma has_header_append: "has_header fmt content \<Longrightarrow> has_header fmt (content @ rest)"
  by (cases fmt) (auto simp: ts_sync_at_append starts_with_def)

lemma media_alignment_header:
  assumes "media_alignment data = Some (i, fmt)"
  shows "i \<le> length data \<and> has_header fmt (drop i data)"
proof (cases fmt)
  case MpegPs
  then have "take (length PACK_START) (drop i data) = PACK_START" "i < length data + 1 - length PACK_START"
    using assms by (auto simp: media_alignment_def find_Some_iff split: option.splits)
  then show ?thesis
    using MpegPs by (auto simp: starts_with_def less_diff_conv)
next
  case MpegTs
  then have "ts_sync_at data i" "i < length data"
    using assms by (auto simp: media_alignment_def find_Some_iff split: option.splits)
  then show ?thesis
    using MpegTs by (simp add: ts_sync_at_drop)
qed

text \<open>Relative to the bytes received so far: before the start everything is buffered and holds no
  alignment; afterwards buffer and file together are what was received.\<close>

definition writer_ok :: "nat \<Rightarrow> bytes \<Rightarrow> writer \<Rightarrow> bool" where
  "writer_ok max_bytes received w \<longleftrightarrow>
     received = alignment w @ media w \<and> length (media w) \<le> max_bytes \<and>
     (case w_format w of
        None \<Rightarrow> media w = [] \<and> (received = [] \<or> media_alignment received = None)
      | Some fmt \<Rightarrow> has_header fmt (media w))"

lemma put_chunk_Inr:
  assumes "put_chunk m chunk w = Inr w'" "m < USIZE_MAX"
  shows "w' = w\<lparr>media := media w @ chunk\<rparr> \<and> length (media w @ chunk) \<le> m"
proof -
  have "sat_add (length (media w)) (length chunk) \<le> m" "w' = w\<lparr>media := media w @ chunk\<rparr>"
    using assms(1) by (auto simp: put_chunk_def split: if_splits)
  then show ?thesis
    using sat_add_le_iff [OF assms(2)] by simp
qed

lemma write_chunk_ok:
  assumes ok: "writer_ok m received w" and step: "write_chunk m source w = Inr w'" and m: "m < USIZE_MAX"
  shows "writer_ok m (received @ source) w'"
proof (cases "w_format w")
  case (Some fmt)
  then have "put_chunk m source w = Inr w'"
    using step by (simp add: write_chunk_def)
  from put_chunk_Inr [OF this m] show ?thesis
    using ok Some by (simp add: writer_ok_def has_header_append)
next
  case None
  define b where "b = alignment w @ source"
  have b: "received @ source = b" and "media w = []"
    using ok None by (auto simp: writer_ok_def b_def)
  show ?thesis
  proof (cases "media_alignment b")
    case None': None
    then show ?thesis
      using step None b \<open>media w = []\<close>
      by (auto simp: write_chunk_def writer_ok_def b_def split: if_splits)
  next
    case (Some a)
    then obtain marker fmt where a: "media_alignment b = Some (marker, fmt)"
      by (cases a) auto
    then have "put_chunk m (drop marker b) (w\<lparr>alignment := take marker b, w_format := Some fmt\<rparr>) = Inr w'"
      using step None by (simp add: write_chunk_def b_def [symmetric])
    from put_chunk_Inr [OF this m] have
      "w' = w\<lparr>alignment := take marker b, w_format := Some fmt, media := drop marker b\<rparr>"
      "length (drop marker b) \<le> m"
      using \<open>media w = []\<close> by simp_all
    then show ?thesis
      using media_alignment_header [OF a] b by (simp add: writer_ok_def)
  qed
qed

lemma write_loop_ok:
  assumes "writer_ok m received w" "write_loop m chunks w = Inr w'" "m < USIZE_MAX"
  shows "\<exists>used. prefix used (map fst chunks) \<and> writer_ok m (received @ concat used) w'"
  using assms(1,2)
proof (induction chunks arbitrary: received w)
  case Nil
  then show ?case by (auto intro: exI [of _ "[]"])
next
  case (Cons c rest)
  obtain source elapsed where c: "c = (source, elapsed)"
    by (cases c)
  obtain w1 where w1: "write_chunk m source w = Inr w1"
    and rest: "(if w_format w1 \<noteq> None \<and> elapsed then Inr w1 else write_loop m rest w1) = Inr w'"
    using Cons.prems(2) by (auto simp: c try_bind_eq_Inr)
  have ok: "writer_ok m (received @ source) w1"
    using write_chunk_ok [OF Cons.prems(1) w1 assms(3)] .
  show ?case
  proof (cases "w_format w1 \<noteq> None \<and> elapsed")
    case True
    then show ?thesis
      using ok rest by (intro exI [of _ "[source]"]) (simp add: c)
  next
    case False
    then have "write_loop m rest w1 = Inr w'"
      using rest by (auto split: if_splits)
    from Cons.IH [OF ok this] obtain used
      where "prefix used (map fst rest)" "writer_ok m ((received @ source) @ concat used) w'"
      by blast
    then show ?thesis
      by (intro exI [of _ "source # used"]) (simp add: c)
  qed
qed

lemma writer_ok_new: "writer_ok m [] writer_new"
  by (simp add: writer_ok_def writer_new_def)

lemma has_header_inspected:
  assumes "has_header fmt content" "fmt = MpegPs \<or> TS_PACKET_BYTES * 3 \<le> length content"
  shows "inspect_media sha256 (Some content) = Inr (Some (length content, sha256 content))"
proof (cases fmt)
  case MpegPs
  then obtain rest where "content = PACK_START @ rest"
    using assms(1) starts_withE by auto
  then show ?thesis
    by (simp add: inspect_media_def Let_def PACK_START_def TS_PACKET_BYTES_def starts_with_def)
next
  case MpegTs
  then have "ts_sync_at (take (TS_PACKET_BYTES * 3) content) 0"
    using assms by (auto simp: ts_sync_at_def get_at_Some TS_PACKET_BYTES_def)
  then show ?thesis
    using MpegTs assms(2) by (simp add: inspect_media_def Let_def)
qed

text \<open>What a recording publishes is the tail of the received stream, cut at the end of some chunk,
  from an MPEG-PS pack or three MPEG-TS synchronisation bytes on; it is within the byte limit, the
  reported size and digest are its own, and the inspection after a restart accepts it and reports the
  same size and digest whenever it is a program stream or at least three transport packets long.\<close>

theorem published_media_aligned:
  assumes "write_media sha256 started max_bytes chunks = Inr (r, content)"
    and "max_bytes < USIZE_MAX"
  shows "(\<exists>used skipped. prefix used (map fst chunks) \<and> concat used = skipped @ content)
    \<and> has_header (wr_format r) content \<and> length content \<le> max_bytes
    \<and> wr_bytes r = length content \<and> wr_sha256 r = sha256 content
    \<and> (wr_format r = MpegPs \<or> TS_PACKET_BYTES * 3 \<le> length content \<longrightarrow>
          inspect_media sha256 (Some content) = Inr (Some (wr_bytes r, wr_sha256 r)))"
proof -
  obtain w fmt where loop: "write_loop max_bytes chunks writer_new = Inr w" and fmt: "w_format w = Some fmt"
    and r: "wr_format r = fmt" "wr_bytes r = length (media w)" "wr_sha256 r = sha256 (media w)" "content = media w"
    using assms(1) by (auto simp: write_media_def write_finish_def try_bind_eq_Inr split: option.splits)
  from write_loop_ok [OF writer_ok_new loop assms(2)] obtain used
    where "prefix used (map fst chunks)" "writer_ok max_bytes (concat used) w"
    by auto
  then show ?thesis
    using fmt r has_header_inspected [of fmt content] by (auto simp: writer_ok_def)
qed

theorem published_media_aligned_witness:
  "let r = \<lparr>wr_started_at = ''t'', wr_bytes = 5, wr_sha256 = ''s'', wr_format = MpegPs\<rparr>;
       content = PACK_START @ [1]
   in write_media (\<lambda>_. ''s'') ''t'' 100 [([0xaa, 0], False), (0 # 1 # 0xba # [1], True), ([9], False)] = Inr (r, content)
      \<and> inspect_media (\<lambda>_. ''s'') (Some content) = Inr (Some (5, ''s''))"
proof -
  let ?r = "\<lparr>wr_started_at = ''t'', wr_bytes = 5, wr_sha256 = ''s'', wr_format = MpegPs\<rparr>"
  let ?chunks = "[([0xaa, 0], False), (0 # 1 # 0xba # [1], True), ([9], False)] :: (bytes \<times> bool) list"
  have run: "write_media (\<lambda>_. ''s'') ''t'' 100 ?chunks = Inr (?r, PACK_START @ [1])"
    by code_simp
  have "(100::nat) < USIZE_MAX"
    by (simp add: USIZE_MAX_def)
  from published_media_aligned [OF run this] show ?thesis
    using run by simp
qed

end
