(* ===== verification/Ordered_Map.thy ===== *)
theory Ordered_Map
  imports Bridge_Prelude "HOL-Library.List_Lexorder" "HOL-Library.Char_ord"
begin

text \<open>
  The ordered maps of the standard library (\<open>BTreeMap\<close>) as association lists in strictly ascending
  key order: iteration visits the entries in list order. The contract a client relies on is the
  locale \<open>entry_map\<close>; its client lemmas say how the total weight of the entries reacts to the
  updates. \<open>String\<close> keys compare bytewise, the lexicographic order of \<open>List_Lexorder\<close>.
\<close>

type_synonym ('k, 'v) btree = "('k \<times> 'v) list"

abbreviation bt_get :: "('k, 'v) btree \<Rightarrow> 'k \<Rightarrow> 'v option" where
  "bt_get m k \<equiv> map_of m k"

fun bt_insert :: "'k::linorder \<Rightarrow> 'v \<Rightarrow> ('k, 'v) btree \<Rightarrow> ('k, 'v) btree" where
  "bt_insert k v [] = [(k, v)]"
| "bt_insert k v ((a, b) # m) =
     (if k < a then (k, v) # (a, b) # m else if k = a then (k, v) # m else (a, b) # bt_insert k v m)"

definition bt_retain :: "('k \<Rightarrow> 'v \<Rightarrow> bool) \<Rightarrow> ('k, 'v) btree \<Rightarrow> ('k, 'v) btree" where
  "bt_retain P m = filter (\<lambda>(k, v). P k v) m"

definition bt_remove :: "'k \<Rightarrow> ('k, 'v) btree \<Rightarrow> ('k, 'v) btree" where
  "bt_remove k m = bt_retain (\<lambda>a _. a \<noteq> k) m"

text \<open>\<open>get_mut\<close> followed by an assignment, and \<open>values_mut\<close>.\<close>

definition bt_modify :: "'k \<Rightarrow> ('v \<Rightarrow> 'v) \<Rightarrow> ('k, 'v) btree \<Rightarrow> ('k, 'v) btree" where
  "bt_modify k f m = map (\<lambda>(a, b). (a, if a = k then f b else b)) m"

text \<open>\<open>retain\<close> whose test changes the value it looks at, as \<open>try_send\<close> on a channel does.\<close>

definition bt_try_each :: "('v \<Rightarrow> 'v option) \<Rightarrow> ('k, 'v) btree \<Rightarrow> ('k, 'v) btree" where
  "bt_try_each f m = List.map_filter (\<lambda>(k, v). map_option (\<lambda>v'. (k, v')) (f v)) m"

definition bt_values :: "('k, 'v) btree \<Rightarrow> 'v list" where
  "bt_values m = map snd m"

definition bt_ordered :: "('k::linorder, 'v) btree \<Rightarrow> bool" where
  "bt_ordered m \<longleftrightarrow> sorted_wrt (<) (map fst m)"

text \<open>\<open>collect\<close> into an ordered map: later entries replace earlier ones.\<close>

definition bt_collect :: "('k::linorder \<times> 'v) list \<Rightarrow> ('k, 'v) btree" where
  "bt_collect xs = fold (\<lambda>(k, v). bt_insert k v) xs []"

section \<open>The laws of the operations\<close>

lemma bt_get_insert [simp]: "bt_get (bt_insert k v m) a = (if a = k then Some v else bt_get m a)"
  by (induction k v m rule: bt_insert.induct) auto

lemma bt_get_remove [simp]: "bt_get (bt_remove k m) a = (if a = k then None else bt_get m a)"
  by (induction m) (auto simp: bt_remove_def bt_retain_def)

lemma bt_get_modify [simp]:
  "bt_get (bt_modify k f m) a = (if a = k then map_option f (bt_get m a) else bt_get m a)"
  by (induction m) (auto simp: bt_modify_def)

lemma bt_try_each_entry: "(k, v') \<in> set (bt_try_each f m) \<longleftrightarrow> (\<exists>v. (k, v) \<in> set m \<and> f v = Some v')"
  by (force simp: bt_try_each_def List.map_filter_def)

lemma length_bt_try_each [simp]: "length (bt_try_each f m) \<le> length m"
  by (simp add: bt_try_each_def List.map_filter_def)

lemma set_bt_insert: "bt_ordered m \<Longrightarrow> set (bt_insert k v m) = insert (k, v) (set (bt_remove k m))"
  by (induction k v m rule: bt_insert.induct)
    (auto simp: bt_remove_def bt_retain_def bt_ordered_def)

lemma set_bt_remove [simp]: "set (bt_remove k m) = {e \<in> set m. fst e \<noteq> k}"
  by (auto simp: bt_remove_def bt_retain_def)

lemma keys_bt_insert [simp]: "fst ` set (bt_insert k v m) = insert k (fst ` set m)"
  by (induction k v m rule: bt_insert.induct) auto

lemma length_bt_insert: "length (bt_insert k v m) \<le> Suc (length m)"
  by (induction k v m rule: bt_insert.induct) auto

lemma bt_insert_entries: "set (bt_insert k v m) \<subseteq> insert (k, v) (set m)"
  by (induction k v m rule: bt_insert.induct) auto

lemma bt_ordered_Nil [simp]: "bt_ordered []"
  by (simp add: bt_ordered_def)

lemma bt_ordered_insert [simp]: "bt_ordered m \<Longrightarrow> bt_ordered (bt_insert k v m)"
proof (induction k v m rule: bt_insert.induct)
  case (2 k v a b m)
  have keys: "x \<in> fst ` set (bt_insert k v m) \<Longrightarrow> x = k \<or> x \<in> fst ` set m" for x
    by simp
  show ?case
    using 2 keys by (fastforce simp: bt_ordered_def)
qed (simp add: bt_ordered_def)

lemma bt_ordered_retain [simp]: "bt_ordered m \<Longrightarrow> bt_ordered (bt_retain P m)"
proof (induction m)
  case (Cons e m)
  have "fst ` set (bt_retain P m) \<subseteq> fst ` set m"
    by (auto simp: bt_retain_def)
  with Cons show ?case
    by (fastforce simp: bt_ordered_def bt_retain_def split: prod.splits)
qed (simp add: bt_retain_def)

lemma bt_ordered_remove [simp]: "bt_ordered m \<Longrightarrow> bt_ordered (bt_remove k m)"
  by (simp add: bt_remove_def)

lemma keys_bt_modify [simp]: "map fst (bt_modify k f m) = map fst m"
  by (induction m) (auto simp: bt_modify_def)

lemma bt_ordered_modify [simp]: "bt_ordered (bt_modify k f m) = bt_ordered m"
  by (simp add: bt_ordered_def)

lemma bt_ordered_collect [simp]: "bt_ordered (bt_collect xs)"
proof -
  have "bt_ordered m \<Longrightarrow> bt_ordered (fold (\<lambda>(k, v). bt_insert k v) xs m)" for m :: "('a, 'b) btree"
    by (induction xs arbitrary: m) auto
  then show ?thesis
    by (simp add: bt_collect_def)
qed

lemma set_bt_collect: "set (bt_collect xs) \<subseteq> set xs"
proof -
  have "bt_ordered m \<Longrightarrow> set (fold (\<lambda>(k, v). bt_insert k v) xs m) \<subseteq> set xs \<union> set m" for m
  proof (induction xs arbitrary: m)
    case (Cons e xs)
    obtain k v where e: "e = (k, v)" by (cases e)
    have "set (bt_insert k v m) \<subseteq> insert (k, v) (set m)"
      using Cons.prems by (auto simp: set_bt_insert)
    then show ?case
      using Cons.IH [of "bt_insert k v m"] Cons.prems by (auto simp: e)
  qed simp
  from this [of "[]"] show ?thesis
    by (simp add: bt_collect_def)
qed

lemma bt_ordered_distinct: "bt_ordered m \<Longrightarrow> distinct (map fst m)"
  by (metis bt_ordered_def strict_sorted_iff)

section \<open>The contract of an ordered map\<close>

text \<open>A map seen through its entries: what the clients below rely on.\<close>

locale entry_map =
  fixes ordered :: "'m \<Rightarrow> bool"
    and entries :: "'m \<Rightarrow> ('k \<times> 'v) list"
    and put :: "'k \<Rightarrow> 'v \<Rightarrow> 'm \<Rightarrow> 'm"
    and remove :: "'k \<Rightarrow> 'm \<Rightarrow> 'm"
    and modify :: "'k \<Rightarrow> ('v \<Rightarrow> 'v) \<Rightarrow> 'm \<Rightarrow> 'm"
  assumes distinct_keys: "ordered m \<Longrightarrow> distinct (map fst (entries m))"
    and ordered_put: "ordered m \<Longrightarrow> ordered (put k v m)"
    and ordered_remove: "ordered m \<Longrightarrow> ordered (remove k m)"
    and ordered_modify: "ordered m \<Longrightarrow> ordered (modify k f m)"
    and entries_put: "ordered m \<Longrightarrow> set (entries (put k v m)) = insert (k, v) {e \<in> set (entries m). fst e \<noteq> k}"
    and entries_remove: "ordered m \<Longrightarrow> set (entries (remove k m)) = {e \<in> set (entries m). fst e \<noteq> k}"
    and entries_modify: "ordered m \<Longrightarrow> set (entries (modify k f m)) =
      (\<lambda>(a, b). (a, if a = k then f b else b)) ` set (entries m)"
begin

definition weight :: "('k \<times> 'v \<Rightarrow> nat) \<Rightarrow> 'm \<Rightarrow> nat" where
  "weight f m = sum_list (map f (entries m))"

lemma weight_sum:
  assumes "ordered m"
  shows "weight f m = sum f (set (entries m))"
proof -
  have "distinct (entries m)"
    using distinct_keys [OF assms] by (simp add: distinct_map)
  then show ?thesis
    by (simp add: weight_def sum_list_distinct_conv_sum_set)
qed

lemma weight_mono: "(\<And>e. e \<in> set (entries m) \<Longrightarrow> f e \<le> g e) \<Longrightarrow> weight f m \<le> weight g m"
  by (simp add: weight_def sum_list_mono)

lemma weight_cong: "(\<And>e. e \<in> set (entries m) \<Longrightarrow> f e = g e) \<Longrightarrow> weight f m = weight g m"
  by (simp add: weight_def cong: map_cong)

lemma weight_add: "weight (\<lambda>e. f e + g e) m = weight f m + weight g m"
  by (simp add: weight_def sum_list_addf)

lemma weight_zero: "(\<And>e. e \<in> set (entries m) \<Longrightarrow> f e = 0) \<Longrightarrow> weight f m = 0"
  by (simp add: weight_def)

lemma entries_split:
  assumes "ordered m" "(k, v) \<in> set (entries m)"
  shows "set (entries m) = insert (k, v) (set (entries (remove k m)))"
proof (rule set_eqI)
  fix e :: "'k \<times> 'v"
  obtain a b where e: "e = (a, b)"
    by (cases e)
  have "(k, b) \<in> set (entries m) \<Longrightarrow> b = v"
    using eq_key_imp_eq_value [OF distinct_keys [OF assms(1)] _ assms(2)] .
  then show "e \<in> set (entries m) \<longleftrightarrow> e \<in> insert (k, v) (set (entries (remove k m)))"
    using assms(2) unfolding e entries_remove [OF assms(1)] by (cases "a = k") auto
qed

lemma weight_remove:
  assumes "ordered m" "(k, v) \<in> set (entries m)"
  shows "weight f m = weight f (remove k m) + f (k, v)"
  unfolding weight_sum [OF assms(1)] weight_sum [OF ordered_remove [OF assms(1)]] entries_split [OF assms]
  by (simp add: entries_remove [OF assms(1)])

lemma weight_remove_le: "ordered m \<Longrightarrow> weight f (remove k m) \<le> weight f m"
  by (simp add: weight_sum ordered_remove entries_remove sum_mono2)

lemma weight_remove_zero:
  assumes "ordered m" "\<And>v. f (k, v) = 0"
  shows "weight f (remove k m) = weight f m"
proof -
  have "sum f {e \<in> set (entries m). fst e = k} = 0"
    using assms(2) by (auto intro!: sum.neutral)
  moreover have "set (entries m) = {e \<in> set (entries m). fst e \<noteq> k} \<union> {e \<in> set (entries m). fst e = k}"
    by auto
  then have "sum f (set (entries m)) = sum f {e \<in> set (entries m). fst e \<noteq> k} + sum f {e \<in> set (entries m). fst e = k}"
    by (metis (no_types, lifting) disjoint_iff finite_Un finite_set mem_Collect_eq sum.union_disjoint)
  ultimately show ?thesis
    using assms(1) by (simp add: weight_sum ordered_remove entries_remove)
qed

lemma weight_put_new:
  assumes "ordered m" "k \<notin> fst ` set (entries m)"
  shows "weight f (put k v m) = weight f m + f (k, v)"
proof -
  have "(k, v) \<notin> set (entries m)" "{e \<in> set (entries m). fst e \<noteq> k} = set (entries m)"
    using assms(2) by force+
  then show ?thesis
    using assms(1) by (simp add: weight_sum ordered_put entries_put)
qed

lemma weight_put:
  assumes "ordered m"
  shows "weight f (put k v m) = weight f (remove k m) + f (k, v)"
  using assms by (simp add: weight_sum ordered_put ordered_remove entries_put entries_remove)

lemma weight_put_zero:
  assumes "ordered m" "\<And>v. f (k, v) = 0"
  shows "weight f (put k v m) = weight f m"
  using assms by (simp add: weight_put weight_remove_zero)

lemma weight_modify:
  assumes "ordered m" "(k, v) \<in> set (entries m)"
  shows "weight f (modify k g m) + f (k, v) = weight f m + f (k, g v)"
proof -
  have "(k, g v) \<in> set (entries (modify k g m))"
    using assms by (force simp: entries_modify)
  then have "weight f (modify k g m) = weight f (remove k (modify k g m)) + f (k, g v)"
    using assms(1) by (simp add: weight_remove ordered_modify)
  moreover have "set (entries (remove k (modify k g m))) = set (entries (remove k m))"
    using assms(1) by (force simp: entries_remove entries_modify ordered_modify)
  then have "weight f (remove k (modify k g m)) = weight f (remove k m)"
    using assms(1) by (simp add: weight_sum ordered_remove ordered_modify)
  ultimately show ?thesis
    using weight_remove [OF assms] by simp
qed

end

text \<open>The association lists satisfy the contract.\<close>

interpretation bt: entry_map bt_ordered "\<lambda>m. m" bt_insert bt_remove bt_modify
proof
  fix m :: "('a::linorder \<times> 'b) list" and k v f
  assume "bt_ordered m"
  then show "set (bt_insert k v m) = insert (k, v) {e \<in> set m. fst e \<noteq> k}"
    by (auto simp: set_bt_insert bt_remove_def bt_retain_def)
  show "set (bt_remove k m) = {e \<in> set m. fst e \<noteq> k}"
    by (auto simp: bt_remove_def bt_retain_def)
  show "set (bt_modify k f m) = (\<lambda>(a, b). (a, if a = k then f b else b)) ` set m"
    by (simp add: bt_modify_def)
qed (simp_all add: bt_ordered_distinct)

lemma bt_get_entry: "bt_ordered m \<Longrightarrow> bt_get m k = Some v \<longleftrightarrow> (k, v) \<in> set m"
  using bt_ordered_distinct map_of_eq_Some_iff by fast

section \<open>Bounded channels\<close>

text \<open>The sending half of a bounded channel as the hubs fan out to it: a piece is accepted only while there is room,
  and what has been accepted is only ever appended to.\<close>

locale bounded_channel =
  fixes send :: "'c \<Rightarrow> 's \<Rightarrow> 's option" and sent :: "'s \<Rightarrow> 'c list" and unread :: "'s \<Rightarrow> nat" and capacity :: nat
  assumes send_appends: "send c s = Some s' \<Longrightarrow> sent s' = sent s @ [c]"
    and send_room: "send c s = Some s' \<Longrightarrow> unread s' \<le> capacity"
begin

lemma fan_out_entry:
  "(i, s') \<in> set (bt_try_each (send c) subs) \<Longrightarrow>
   \<exists>s. (i, s) \<in> set subs \<and> send c s = Some s' \<and> sent s' = sent s @ [c] \<and> unread s' \<le> capacity"
  using send_appends send_room by (auto simp: bt_try_each_entry)

end

end
