(* ===== verification/Recording_Store.thy ===== *)
theory Recording_Store
  imports Recording_Writer Ordered_Map Storage
begin

text \<open>
  The recording manager (\<open>recordings/{mod,model,catalog,quota,recovery,job,sd}.rs\<close>): the manifest, the
  journalled state, admission with idempotency keys and quota, the state changes of a running job,
  acknowledgement, reads, and recovery after a restart. The spool directory is an ordered map from
  file names to contents. The clock, fresh identifiers, SHA-256 and \<open>Uuid::parse_str\<close> are arguments;
  so is the outcome of a journal write or file removal. Durations are whole milliseconds. Metrics and
  log lines are omitted.
\<close>

section \<open>Manifests\<close>

record manifest =
  schema_version :: nat
  recording_id :: string
  camera :: string
  status :: string
  requested_at :: string
  started_at :: "string option"
  completed_at :: "string option"
  requested_duration_seconds :: nat
  actual_duration_ms :: "nat option"
  media_type :: string
  media_bytes :: "nat option"
  sha256 :: "string option"
  error_code :: "string option"
  rec_source :: "string option"
  sd_start :: "int option"
  sd_end :: "int option"

definition pending :: "string \<Rightarrow> string \<Rightarrow> string \<Rightarrow> nat \<Rightarrow> manifest" where
  "pending uuid now cam duration =
     \<lparr>schema_version = 1, recording_id = uuid, camera = cam, status = ''pending'', requested_at = now,
      started_at = None, completed_at = None, requested_duration_seconds = duration,
      actual_duration_ms = None, media_type = ''application/octet-stream'', media_bytes = None,
      sha256 = None, error_code = None, rec_source = None, sd_start = None, sd_end = None\<rparr>"

text \<open>\<open>i64::saturating_sub\<close>.\<close>

definition sat_sub_i64 :: "int \<Rightarrow> int \<Rightarrow> int" where
  "sat_sub_i64 a b = max (- (2 ^ 63)) (min (2 ^ 63 - 1) (a - b))"

definition pending_sd :: "string \<Rightarrow> string \<Rightarrow> string \<Rightarrow> int \<Rightarrow> int \<Rightarrow> manifest" where
  "pending_sd uuid now cam start stop =
     (pending uuid now cam (nat (sat_sub_i64 stop start)))
       \<lparr>rec_source := Some ''sd'', sd_start := Some start, sd_end := Some stop\<rparr>"

definition same_request :: "manifest \<Rightarrow> manifest \<Rightarrow> bool" where
  "same_request a b \<longleftrightarrow> camera a = camera b
     \<and> requested_duration_seconds a = requested_duration_seconds b
     \<and> rec_source a = rec_source b \<and> sd_start a = sd_start b \<and> sd_end a = sd_end b"

definition is_active :: "manifest \<Rightarrow> bool" where
  "is_active m \<longleftrightarrow> status m = ''pending'' \<or> status m = ''recording''"

definition fail_with :: "string \<Rightarrow> string \<Rightarrow> manifest \<Rightarrow> manifest" where
  "fail_with now code m = m\<lparr>status := ''failed'', completed_at := Some now, error_code := Some code\<rparr>"

section \<open>The spool directory\<close>

type_synonym spool = "(string, bytes) btree"

definition media_name :: "string \<Rightarrow> string \<Rightarrow> string" where
  "media_name i ext = i @ ''.'' @ ext"

definition partial_name :: "string \<Rightarrow> string" where
  "partial_name i = ''.'' @ i @ ''.partial''"

text \<open>\<open>Path::extension\<close>: what follows the last dot, unless nothing precedes it.\<close>

definition path_extension :: "string \<Rightarrow> string option" where
  "path_extension n =
     (if CHR ''.'' \<in> set n \<and> n \<noteq> ''..'' \<and> tl (dropWhile (\<lambda>c. c \<noteq> CHR ''.'') (rev n)) \<noteq> []
      then Some (rev (takeWhile (\<lambda>c. c \<noteq> CHR ''.'') (rev n))) else None)"

definition is_media_file :: "string \<Rightarrow> bool" where
  "is_media_file n \<longleftrightarrow> path_extension n = Some ''mpegps'' \<or> path_extension n = Some ''ts''"

definition spool_bytes :: "spool \<Rightarrow> nat" where
  "spool_bytes dir = fold (\<lambda>(n, c) acc. if is_media_file n then sat_add acc (length c) else acc) dir 0"

definition media_path :: "spool \<Rightarrow> manifest \<Rightarrow> string" where
  "media_path dir m =
     (let preferred = media_name (recording_id m) (if media_type m = ''video/mp2t'' then ''ts'' else ''mpegps'');
          fallback = media_name (recording_id m) (if media_type m = ''video/mp2t'' then ''mpegps'' else ''ts'')
      in if bt_get dir preferred \<noteq> None then preferred
         else if bt_get dir fallback \<noteq> None then fallback else preferred)"

definition strip_partial :: "string \<Rightarrow> string option" where
  "strip_partial n =
     (if starts_with n ''.'' \<and> 8 \<le> length (drop 1 n) \<and> drop (length (drop 1 n) - 8) (drop 1 n) = ''.partial''
      then Some (take (length (drop 1 n) - 8) (drop 1 n)) else None)"

definition remove_partial_files :: "(string \<Rightarrow> bool) \<Rightarrow> spool \<Rightarrow> spool" where
  "remove_partial_files is_uuid dir =
     bt_retain (\<lambda>n _. case strip_partial n of None \<Rightarrow> True | Some i \<Rightarrow> \<not> is_uuid i) dir"

section \<open>State, journal and recovery\<close>

definition MAX_ACK_TOMBSTONES :: nat where "MAX_ACK_TOMBSTONES = 4096"

record ack_tombstone =
  ack_recording_id :: string
  ack_key :: "string option"
  acknowledged_at :: string

record rec_state =
  manifests :: "(string, manifest) btree"
  idempotency :: "(string, string) btree"
  acknowledgements :: "ack_tombstone list"

record rec_journal =
  j_schema_version :: nat
  j_recordings :: "manifest list"
  j_idempotency :: "(string, string) btree"
  j_acknowledgements :: "ack_tombstone list"

record recorder =
  rstate :: rec_state
  dir :: spool
  journal :: "rec_journal option"

definition persist :: "write_outcome \<Rightarrow> recorder \<Rightarrow> (bridge_error + unit) \<times> recorder" where
  "persist outcome r =
     (let s = rstate r;
          j = \<lparr>j_schema_version = 2, j_recordings = bt_values (manifests s),
               j_idempotency = idempotency s, j_acknowledgements = acknowledgements s\<rparr>;
          (res, file) = atomic_write_json outcome j (journal r)
      in (res, r\<lparr>journal := file\<rparr>))"

definition load_state :: "rec_journal option \<Rightarrow> rec_state" where
  "load_state j = (case j of
      None \<Rightarrow> \<lparr>manifests = [], idempotency = [], acknowledgements = []\<rparr>
    | Some j \<Rightarrow> \<lparr>manifests = bt_collect (map (\<lambda>m. (recording_id m, m)) (j_recordings j)),
                  idempotency = j_idempotency j, acknowledgements = j_acknowledgements j\<rparr>)"

definition recover_manifest :: "(bytes \<Rightarrow> string) \<Rightarrow> string \<Rightarrow> spool \<Rightarrow> manifest \<Rightarrow> manifest" where
  "recover_manifest sha now d m =
     (let path = media_path d m
      in if status m = ''pending'' \<or> status m = ''recording'' then
           (case inspect_media sha (bt_get d path) of
              Inr (Some (n, digest)) \<Rightarrow>
                m\<lparr>status := ''ready'',
                  media_type := (if path_extension path = Some ''ts'' then ''video/mp2t'' else ''video/mpeg''),
                  started_at := (case started_at m of None \<Rightarrow> Some (requested_at m) | t \<Rightarrow> t),
                  completed_at := Some now,
                  actual_duration_ms := (case actual_duration_ms m of
                      None \<Rightarrow> Some (requested_duration_seconds m * 1000) | t \<Rightarrow> t),
                  media_bytes := Some n, sha256 := Some digest, error_code := None\<rparr>
            | Inr None \<Rightarrow> fail_with now ''interrupted'' m
            | Inl _ \<Rightarrow> fail_with now ''invalid_media'' m)
         else if status m = ''ready'' \<and> bt_get d path = None
         then (fail_with now ''missing_media'' m)\<lparr>media_bytes := None, sha256 := None\<rparr>
         else m)"

definition recover :: "(bytes \<Rightarrow> string) \<Rightarrow> string \<Rightarrow> (string \<Rightarrow> bool) \<Rightarrow> spool \<Rightarrow> rec_state \<Rightarrow> rec_state \<times> spool" where
  "recover sha now is_uuid d s =
     (s\<lparr>manifests := map (\<lambda>(k, m). (k, recover_manifest sha now d m)) (manifests s)\<rparr>,
      remove_partial_files is_uuid d)"

definition load :: "(bytes \<Rightarrow> string) \<Rightarrow> string \<Rightarrow> (string \<Rightarrow> bool) \<Rightarrow> write_outcome \<Rightarrow> spool \<Rightarrow> rec_journal option
    \<Rightarrow> (bridge_error + unit) \<times> recorder" where
  "load sha now is_uuid outcome d j =
     (let (s, d') = recover sha now is_uuid d (load_state j)
      in persist outcome \<lparr>rstate = s, dir = d', journal = j\<rparr>)"

section \<open>Admission\<close>

definition admits :: "nat \<Rightarrow> nat \<Rightarrow> nat \<Rightarrow> nat \<Rightarrow> bool" where
  "admits used active max_bytes quota \<longleftrightarrow> sat_add used (sat_mul (sat_add active 1) max_bytes) \<le> quota"

record rec_config =
  hub_aliases :: "string list"
  max_duration :: nat
  max_bytes :: nat
  quota_bytes :: nat

definition active_count :: "rec_state \<Rightarrow> nat" where
  "active_count s = length (filter is_active (bt_values (manifests s)))"

text \<open>The result, the new state and whether a job was spawned.\<close>

definition enqueue :: "rec_config \<Rightarrow> write_outcome \<Rightarrow> string \<Rightarrow> manifest \<Rightarrow> bool \<Rightarrow> recorder
    \<Rightarrow> (bridge_error + manifest) \<times> recorder \<times> bool" where
  "enqueue cfg outcome key m exclusive r =
     (let s = rstate r
      in if \<not> (8 \<le> length key \<and> length key \<le> 128)
         then (Inl (Recording ''Idempotency-Key must contain 8 to 128 characters''), r, False)
         else if list_ex (\<lambda>t. ack_key t = Some key) (acknowledgements s)
         then (Inl (Recording ''Idempotency-Key belongs to an acknowledged recording''), r, False)
         else case bt_get (idempotency s) key of
           Some existing_id \<Rightarrow>
             (case bt_get (manifests s) existing_id of
                None \<Rightarrow> (Inl (Recording ''recording journal is inconsistent''), r, False)
              | Some existing \<Rightarrow>
                  if same_request existing m then (Inr existing, r, False)
                  else (Inl (Recording ''Idempotency-Key was reused with a different request''), r, False))
         | None \<Rightarrow>
             if exclusive \<and> list_ex (\<lambda>x. camera x = camera m \<and> is_active x) (bt_values (manifests s))
             then (Inl RecordingActive, r, False)
             else if \<not> admits (spool_bytes (dir r)) (active_count s) (max_bytes cfg) (quota_bytes cfg)
             then (Inl (Capacity ''recording quota does not have safe headroom''), r, False)
             else let s' = s\<lparr>idempotency := bt_insert key (recording_id m) (idempotency s),
                             manifests := bt_insert (recording_id m) m (manifests s)\<rparr>;
                      (saved, r') = persist outcome (r\<lparr>rstate := s'\<rparr>)
                  in case saved of Inl e \<Rightarrow> (Inl e, r', False) | Inr _ \<Rightarrow> (Inr m, r', True))"

definition start :: "rec_config \<Rightarrow> write_outcome \<Rightarrow> string \<Rightarrow> string \<Rightarrow> string \<Rightarrow> nat \<Rightarrow> string \<Rightarrow> recorder
    \<Rightarrow> (bridge_error + manifest) \<times> recorder \<times> bool" where
  "start cfg outcome uuid now cam duration key r =
     (if cam \<notin> set (hub_aliases cfg) then (Inl (Recording ''camera alias is not configured''), r, False)
      else if \<not> (1 \<le> duration \<and> duration \<le> max_duration cfg)
      then (Inl (Recording (''duration must be between 1 and '' @ show_nat (max_duration cfg) @ '' seconds'')), r, False)
      else enqueue cfg outcome key (pending uuid now cam duration) False r)"

definition start_sd :: "rec_config \<Rightarrow> write_outcome \<Rightarrow> string \<Rightarrow> string \<Rightarrow> bool \<Rightarrow> string \<Rightarrow> int \<Rightarrow> int \<Rightarrow> string \<Rightarrow> recorder
    \<Rightarrow> (bridge_error + manifest) \<times> recorder \<times> bool" where
  "start_sd cfg outcome uuid now live cam from_s to_s key r =
     (if cam \<notin> set (hub_aliases cfg) then (Inl (Recording ''camera alias is not configured''), r, False)
      else let len = sat_sub_i64 to_s from_s
           in if \<not> (1 \<le> len \<and> len \<le> min (int (max_duration cfg)) (2 ^ 63 - 1))
              then (Inl (Recording (''microSD interval must last between 1 and ''
                      @ show_nat (max_duration cfg) @ '' seconds'')), r, False)
              else if bt_get (idempotency (rstate r)) key = None \<and> live
              then (Inl (Capacity ''camera is streaming live; save the clip after live view ends''), r, False)
              else enqueue cfg outcome key (pending_sd uuid now cam from_s to_s) True r)"

section \<open>The state changes of a job\<close>

definition set_manifest :: "string \<Rightarrow> (manifest \<Rightarrow> manifest) \<Rightarrow> recorder \<Rightarrow> recorder" where
  "set_manifest i f r = r\<lparr>rstate := (rstate r)\<lparr>manifests := bt_modify i f (manifests (rstate r))\<rparr>\<rparr>"

definition begin_job :: "write_outcome \<Rightarrow> string \<Rightarrow> recorder \<Rightarrow> (bridge_error + string \<times> nat) \<times> recorder" where
  "begin_job outcome i r =
     (case bt_get (manifests (rstate r)) i of
        None \<Rightarrow> (Inl (Recording ''recording disappeared''), r)
      | Some m \<Rightarrow>
          let (saved, r') = persist outcome (set_manifest i (\<lambda>m. m\<lparr>status := ''recording''\<rparr>) r)
          in (case saved of Inl e \<Rightarrow> Inl e | Inr _ \<Rightarrow> Inr (camera m, requested_duration_seconds m), r'))"

definition ready_with :: "string \<Rightarrow> written \<Rightarrow> nat \<Rightarrow> manifest \<Rightarrow> manifest" where
  "ready_with now wr ms m =
     m\<lparr>status := ''ready'', started_at := Some (wr_started_at wr), completed_at := Some now,
       actual_duration_ms := Some ms, media_bytes := Some (wr_bytes wr), sha256 := Some (wr_sha256 wr),
       media_type := media_type_of (wr_format wr), error_code := None\<rparr>"

definition complete :: "string \<Rightarrow> string \<Rightarrow> written \<Rightarrow> nat \<Rightarrow> recorder \<Rightarrow> (bridge_error + unit) \<times> recorder" where
  "complete now i wr ms r =
     (case bt_get (manifests (rstate r)) i of
        None \<Rightarrow> (Inl (Recording ''recording disappeared''), r)
      | Some _ \<Rightarrow> (Inr (), set_manifest i (ready_with now wr ms) r))"

fun failure_code :: "bridge_error \<Rightarrow> string" where
  "failure_code (Capacity _) = ''capacity''"
| "failure_code (Recording _) = ''invalid_media''"
| "failure_code CameraOffline = ''camera_offline''"
| "failure_code SdNoRecording = ''sd_no_recording''"
| "failure_code _ = ''upstream_failure''"

text \<open>What \<open>record\<close> does once the capture has returned.\<close>

definition record_end :: "string \<Rightarrow> write_outcome \<Rightarrow> string \<Rightarrow> bridge_error + unit \<Rightarrow> recorder \<Rightarrow> recorder" where
  "record_end now outcome i res r =
     (case bt_get (manifests (rstate r)) i of
        None \<Rightarrow> r
      | Some _ \<Rightarrow>
          let r1 = (case res of Inl e \<Rightarrow> set_manifest i (fail_with now (failure_code e)) r | Inr _ \<Rightarrow> r)
          in snd (persist outcome r1))"

text \<open>How \<open>capture_sd\<close> combines the writer's and the session's results; the flag asks to remove the
  published file.\<close>

fun sd_verdict :: "bridge_error + written \<Rightarrow> bridge_error + unit \<Rightarrow> bool \<Rightarrow> (bridge_error + written) \<times> bool" where
  "sd_verdict (Inl _) (Inl e) overflow = (Inl e, False)"
| "sd_verdict (Inl e) (Inr _) overflow = (Inl e, False)"
| "sd_verdict (Inr wr) (Inl e) overflow = (Inl e, True)"
| "sd_verdict (Inr wr) (Inr _) overflow =
     (if overflow then (Inl (Capacity ''microSD transfer outran the spool''), True) else (Inr wr, False))"

section \<open>Acknowledgement and reads\<close>

datatype remove_outcome = Removed | RemovedUnsynced | RemoveFailed

definition forget :: "string \<Rightarrow> string \<Rightarrow> rec_state \<Rightarrow> rec_state" where
  "forget now i s =
     (let key = map_option fst (find (\<lambda>(_, v). v = i) (idempotency s));
          acks = acknowledgements s @ [\<lparr>ack_recording_id = i, ack_key = key, acknowledged_at = now\<rparr>]
      in s\<lparr>manifests := bt_remove i (manifests s),
           idempotency := bt_retain (\<lambda>_ v. v \<noteq> i) (idempotency s),
           acknowledgements := drop (length acks - MAX_ACK_TOMBSTONES) acks\<rparr>)"

definition drop_media :: "remove_outcome \<Rightarrow> manifest \<Rightarrow> recorder \<Rightarrow> (bridge_error + unit) \<times> recorder" where
  "drop_media removal m r =
     (if status m \<noteq> ''ready'' then (Inr (), r)
      else let path = media_path (dir r) m
           in if bt_get (dir r) path = None then (Inr (), r)
              else case removal of
                     Removed \<Rightarrow> (Inr (), r\<lparr>dir := bt_remove path (dir r)\<rparr>)
                   | RemovedUnsynced \<Rightarrow> (Inl (Io OtherIo), r\<lparr>dir := bt_remove path (dir r)\<rparr>)
                   | RemoveFailed \<Rightarrow> (Inl (Io OtherIo), r))"

definition acknowledge :: "string \<Rightarrow> remove_outcome \<Rightarrow> write_outcome \<Rightarrow> string \<Rightarrow> recorder
    \<Rightarrow> (bridge_error + bool) \<times> recorder" where
  "acknowledge now removal outcome i r =
     (case bt_get (manifests (rstate r)) i of
        None \<Rightarrow> (Inr False, r)
      | Some m \<Rightarrow>
          if status m = ''pending'' \<or> status m = ''recording'' then (Inl RecordingActive, r)
          else case drop_media removal m r of
            (Inl e, r1) \<Rightarrow> (Inl e, r1)
          | (Inr _, r1) \<Rightarrow>
              let (saved, r2) = persist outcome (r1\<lparr>rstate := forget now i (rstate r1)\<rparr>)
              in (case saved of Inl e \<Rightarrow> Inl e | Inr _ \<Rightarrow> Inr True, r2))"

text \<open>\<open>sort_by\<close> with the comparison reversed is stable: ties keep the order of identifiers.\<close>

definition list_recordings :: "recorder \<Rightarrow> manifest list" where
  "list_recordings r = rev (sort_key requested_at (rev (bt_values (manifests (rstate r)))))"

definition media_of :: "string \<Rightarrow> recorder \<Rightarrow> (string \<times> string) option" where
  "media_of i r =
     (case bt_get (manifests (rstate r)) i of
        None \<Rightarrow> None
      | Some m \<Rightarrow>
          if status m \<noteq> ''ready'' then None
          else let path = media_path (dir r) m
               in if bt_get (dir r) path \<noteq> None then Some (path, media_type m) else None)"

definition storage_descriptor :: "rec_config \<Rightarrow> recorder \<Rightarrow> nat \<times> nat \<times> nat" where
  "storage_descriptor cfg r =
     (let used = spool_bytes (dir r) in (used, quota_bytes cfg, quota_bytes cfg - used))"

end
