(* ===== verification/Recording_Run.thy ===== *)
theory Recording_Run
  imports Recording_Store
begin

text \<open>
  The recording manager as a transition system: client requests, the steps of the spawned jobs at the
  points where the code takes the state lock or touches the spool, acknowledgements, and restarts at
  any moment. The invariants give the quota, the integrity of finished recordings and the meaning of
  idempotency keys.
\<close>

section \<open>Names in the spool\<close>

lemma path_extension_dot:
  assumes "i \<noteq> []" "CHR ''.'' \<notin> set ext" "ext \<noteq> []"
  shows "path_extension (i @ CHR ''.'' # ext) = Some ext"
proof -
  have "takeWhile (\<lambda>c. c \<noteq> CHR ''.'') (rev ext @ CHR ''.'' # rev i) = rev ext"
    "dropWhile (\<lambda>c. c \<noteq> CHR ''.'') (rev ext @ CHR ''.'' # rev i) = CHR ''.'' # rev i"
    using assms(2) by (auto simp: takeWhile_append dropWhile_append)
  moreover have "i @ CHR ''.'' # ext \<noteq> ''..''"
    using assms by (auto simp: append_eq_Cons_conv Cons_eq_append_conv)
  ultimately show ?thesis
    using assms(1) by (simp add: path_extension_def)
qed

lemma extension_media [simp]: "i \<noteq> [] \<Longrightarrow> path_extension (media_name i (extension fmt)) = Some (extension fmt)"
  using path_extension_dot [of i "extension fmt"] by (cases fmt) (simp_all add: media_name_def)

lemma extension_ts [simp]: "i \<noteq> [] \<Longrightarrow> path_extension (media_name i ''ts'') = Some ''ts''"
  using extension_media [of i MpegTs] by simp

lemma extension_mpegps [simp]: "i \<noteq> [] \<Longrightarrow> path_extension (media_name i ''mpegps'') = Some ''mpegps''"
  using extension_media [of i MpegPs] by simp

lemma extension_partial [simp]: "path_extension (partial_name i) = Some ''partial''"
  using path_extension_dot [of "''.'' @ i" "''partial''"] by (simp add: partial_name_def)

lemma media_name_eq [simp]: "media_name i e = media_name j e \<longleftrightarrow> i = j"
  by (simp add: media_name_def)

lemma partial_name_eq [simp]: "partial_name i = partial_name j \<longleftrightarrow> i = j"
  by (simp add: partial_name_def)

lemma ts_not_ps [simp]: "media_name i ''ts'' \<noteq> media_name j ''mpegps''" "media_name i ''mpegps'' \<noteq> media_name j ''ts''"
proof -
  have "last (butlast (media_name i ''ts'')) \<noteq> last (butlast (media_name j ''mpegps''))" for i j
    by (simp add: media_name_def butlast_append)
  then show "media_name i ''ts'' \<noteq> media_name j ''mpegps''" "media_name i ''mpegps'' \<noteq> media_name j ''ts''"
    by metis+
qed

lemma partial_not_media [simp]:
  "i \<noteq> [] \<Longrightarrow> partial_name j \<noteq> media_name i ''ts''" "i \<noteq> [] \<Longrightarrow> partial_name j \<noteq> media_name i ''mpegps''"
  "i \<noteq> [] \<Longrightarrow> media_name i ''ts'' \<noteq> partial_name j" "i \<noteq> [] \<Longrightarrow> media_name i ''mpegps'' \<noteq> partial_name j"
  by (auto dest!: arg_cong [of _ _ path_extension])

lemma strip_partial_name [simp]: "strip_partial (partial_name i) = Some i"
  by (simp add: strip_partial_def partial_name_def starts_with_def)

text \<open>The files of one recording.\<close>

definition owned :: "string \<Rightarrow> string set" where
  "owned i = {media_name i ''ts'', media_name i ''mpegps'', partial_name i}"

lemma owned_disjoint: "n \<in> owned i \<Longrightarrow> n \<in> owned j \<Longrightarrow> i \<noteq> [] \<Longrightarrow> j \<noteq> [] \<Longrightarrow> i = j"
  by (auto simp: owned_def)

lemma media_name_owned [simp]: "media_name i (extension fmt) \<in> owned i" "partial_name i \<in> owned i"
  by (cases fmt; simp add: owned_def)+

section \<open>Jobs and steps\<close>

datatype job_phase =
    Queued
  | Begun
  | Capturing writer
  | Published written
  | Finishing "bridge_error + unit"

record world =
  recs :: recorder
  tasks :: "(string, job_phase) btree"

abbreviation set_phase :: "string \<Rightarrow> job_phase \<Rightarrow> world \<Rightarrow> world" where
  "set_phase i ph w \<equiv> w\<lparr>tasks := bt_insert i ph (tasks w)\<rparr>"

abbreviation set_dir :: "spool \<Rightarrow> recorder \<Rightarrow> recorder" where
  "set_dir d r \<equiv> r\<lparr>dir := d\<rparr>"

lemma world_eta:
  "w\<lparr>recs := r\<rparr> = \<lparr>recs = r, tasks = tasks w\<rparr>" "w\<lparr>tasks := ts\<rparr> = \<lparr>recs = recs w, tasks = ts\<rparr>"
  by (cases w, simp)+

text \<open>A version 4 UUID names nothing that exists.\<close>

definition fresh_id :: "(string \<Rightarrow> bool) \<Rightarrow> string \<Rightarrow> world \<Rightarrow> bool" where
  "fresh_id is_uuid i w \<longleftrightarrow> is_uuid i \<and> i \<noteq> [] \<and> bt_get (manifests (rstate (recs w))) i = None
     \<and> bt_get (tasks w) i = None \<and> owned i \<inter> fst ` set (dir (recs w)) = {}
     \<and> i \<notin> snd ` set (idempotency (rstate (recs w)))
     \<and> (\<forall>j. journal (recs w) = Some j \<longrightarrow> i \<notin> recording_id ` set (j_recordings j) \<and> i \<notin> snd ` set (j_idempotency j))"

inductive rec_step :: "rec_config \<Rightarrow> (bytes \<Rightarrow> string) \<Rightarrow> (string \<Rightarrow> bool) \<Rightarrow> world \<Rightarrow> world \<Rightarrow> bool"
  for cfg sha is_uuid where
  start_live: "start cfg outcome uuid now cam duration key (recs w) = (res, r', spawned) \<Longrightarrow> fresh_id is_uuid uuid w
    \<Longrightarrow> rec_step cfg sha is_uuid w \<lparr>recs = r', tasks = if spawned then bt_insert uuid Queued (tasks w) else tasks w\<rparr>"
| start_card: "start_sd cfg outcome uuid now live cam from_s to_s key (recs w) = (res, r', spawned) \<Longrightarrow> fresh_id is_uuid uuid w
    \<Longrightarrow> rec_step cfg sha is_uuid w \<lparr>recs = r', tasks = if spawned then bt_insert uuid Queued (tasks w) else tasks w\<rparr>"
| begun: "bt_get (tasks w) i = Some Queued \<Longrightarrow> begin_job outcome i (recs w) = (res, r')
    \<Longrightarrow> rec_step cfg sha is_uuid w (set_phase i (case res of Inl e \<Rightarrow> Finishing (Inl e) | Inr _ \<Rightarrow> Begun) (w\<lparr>recs := r'\<rparr>))"
| refused: "bt_get (tasks w) i = Some Begun \<Longrightarrow> rec_step cfg sha is_uuid w (set_phase i (Finishing (Inl e)) w)"
| opened: "bt_get (tasks w) i = Some Begun \<Longrightarrow> bt_get (dir (recs w)) (partial_name i) = None
    \<Longrightarrow> rec_step cfg sha is_uuid w (set_phase i (Capturing writer_new)
          (w\<lparr>recs := set_dir (bt_insert (partial_name i) [] (dir (recs w))) (recs w)\<rparr>))"
| chunk: "bt_get (tasks w) i = Some (Capturing wr) \<Longrightarrow> write_chunk (max_bytes cfg) source wr = Inr wr'
    \<Longrightarrow> rec_step cfg sha is_uuid w (set_phase i (Capturing wr')
          (w\<lparr>recs := set_dir (bt_insert (partial_name i) (media wr') (dir (recs w))) (recs w)\<rparr>))"
| abandoned: "bt_get (tasks w) i = Some (Capturing wr)
    \<Longrightarrow> rec_step cfg sha is_uuid w (set_phase i (Finishing (Inl e))
          (w\<lparr>recs := set_dir (bt_remove (partial_name i) (dir (recs w))) (recs w)\<rparr>))"
| published: "bt_get (tasks w) i = Some (Capturing wr) \<Longrightarrow> write_finish sha started wr = Inr out
    \<Longrightarrow> rec_step cfg sha is_uuid w (set_phase i (Published out)
          (w\<lparr>recs := set_dir (bt_insert (media_name i (extension (wr_format out))) (media wr)
             (bt_remove (partial_name i) (dir (recs w)))) (recs w)\<rparr>))"
| completed: "bt_get (tasks w) i = Some (Published out) \<Longrightarrow> complete now i out ms (recs w) = (res, r')
    \<Longrightarrow> rec_step cfg sha is_uuid w (set_phase i (Finishing res) (w\<lparr>recs := r'\<rparr>))"
| withdrawn: "bt_get (tasks w) i = Some (Published out) \<Longrightarrow> sd_verdict (Inr out) produced overflow = (Inl e, True)
    \<Longrightarrow> rec_step cfg sha is_uuid w (set_phase i (Finishing (Inl e))
          (w\<lparr>recs := set_dir (bt_remove (media_name i (extension (wr_format out))) (dir (recs w))) (recs w)\<rparr>))"
| finished: "bt_get (tasks w) i = Some (Finishing res)
    \<Longrightarrow> rec_step cfg sha is_uuid w \<lparr>recs = record_end now outcome i res (recs w), tasks = bt_remove i (tasks w)\<rparr>"
| acknowledged: "acknowledge now removal outcome i (recs w) = (res, r') \<Longrightarrow> rec_step cfg sha is_uuid w (w\<lparr>recs := r'\<rparr>)"
| restarted: "load sha now is_uuid outcome (dir (recs w)) (journal (recs w)) = (res, r')
    \<Longrightarrow> rec_step cfg sha is_uuid w \<lparr>recs = r', tasks = []\<rparr>"

abbreviation rec_run :: "rec_config \<Rightarrow> (bytes \<Rightarrow> string) \<Rightarrow> (string \<Rightarrow> bool) \<Rightarrow> world \<Rightarrow> world \<Rightarrow> bool" where
  "rec_run cfg sha is_uuid \<equiv> (rec_step cfg sha is_uuid)\<^sup>*\<^sup>*"

section \<open>The quota\<close>

definition counted :: "(string \<Rightarrow> bool) \<Rightarrow> string \<Rightarrow> bool" where
  "counted is_uuid n \<longleftrightarrow> is_media_file n \<or> (case strip_partial n of None \<Rightarrow> False | Some i \<Rightarrow> is_uuid i)"

text \<open>All recorded bytes on disk, finished or still being written.\<close>

definition disk_bytes :: "(string \<Rightarrow> bool) \<Rightarrow> spool \<Rightarrow> nat" where
  "disk_bytes is_uuid d = sum_list (map (\<lambda>(n, c). if counted is_uuid n then length c else 0) d)"

definition active_ids :: "rec_state \<Rightarrow> string set" where
  "active_ids s = {i. \<exists>m. (i, m) \<in> set (manifests s) \<and> is_active m}"

definition free_size :: "(string \<Rightarrow> bool) \<Rightarrow> string set \<Rightarrow> string \<times> bytes \<Rightarrow> nat" where
  "free_size is_uuid A e = (if counted is_uuid (fst e) \<and> (\<forall>i \<in> A. fst e \<notin> owned i) then length (snd e) else 0)"

definition owned_size :: "string \<Rightarrow> string \<times> bytes \<Rightarrow> nat" where
  "owned_size i e = (if fst e \<in> owned i then length (snd e) else 0)"

definition usage :: "rec_config \<Rightarrow> (string \<Rightarrow> bool) \<Rightarrow> recorder \<Rightarrow> nat" where
  "usage cfg is_uuid r =
     bt.weight (free_size is_uuid (active_ids (rstate r))) (dir r) + active_count (rstate r) * max_bytes cfg"

definition no_files :: "spool \<Rightarrow> string \<Rightarrow> bool" where
  "no_files d i \<longleftrightarrow> bt_get d (media_name i ''ts'') = None \<and> bt_get d (media_name i ''mpegps'') = None
     \<and> bt_get d (partial_name i) = None"

fun phase_files :: "(bytes \<Rightarrow> string) \<Rightarrow> nat \<Rightarrow> spool \<Rightarrow> string \<Rightarrow> job_phase \<Rightarrow> bool" where
  "phase_files sha limit d i Queued = no_files d i"
| "phase_files sha limit d i Begun = no_files d i"
| "phase_files sha limit d i (Capturing wr) \<longleftrightarrow>
     bt_get d (partial_name i) = Some (media wr) \<and> length (media wr) \<le> limit
     \<and> bt_get d (media_name i ''ts'') = None \<and> bt_get d (media_name i ''mpegps'') = None"
| "phase_files sha limit d i (Published out) \<longleftrightarrow>
     bt_get d (partial_name i) = None \<and>
     (\<exists>c. bt_get d (media_name i (extension (wr_format out))) = Some c \<and> length c \<le> limit
        \<and> wr_bytes out = length c \<and> wr_sha256 out = sha c) \<and>
     bt_get d (media_name i (if wr_format out = MpegTs then ''mpegps'' else ''ts'')) = None"
| "phase_files sha limit d i (Finishing (Inl e)) = no_files d i"
| "phase_files sha limit d i (Finishing (Inr u)) = True"

definition is_done :: "job_phase \<Rightarrow> bool" where
  "is_done ph \<longleftrightarrow> (\<exists>u. ph = Finishing (Inr u))"

definition rec_shape :: "world \<Rightarrow> bool" where
  "rec_shape w \<longleftrightarrow> bt_ordered (manifests (rstate (recs w))) \<and> bt_ordered (dir (recs w)) \<and> bt_ordered (tasks w)
     \<and> (\<forall>(i, m) \<in> set (manifests (rstate (recs w))). recording_id m = i \<and> i \<noteq> [])
     \<and> (\<forall>j. journal (recs w) = Some j \<longrightarrow> (\<forall>m \<in> set (j_recordings j). recording_id m \<noteq> []))"

definition jobs_ok :: "rec_config \<Rightarrow> (bytes \<Rightarrow> string) \<Rightarrow> world \<Rightarrow> bool" where
  "jobs_ok cfg sha w \<longleftrightarrow>
     (\<forall>i ph. bt_get (tasks w) i = Some ph \<longrightarrow> (i \<in> active_ids (rstate (recs w)) \<longleftrightarrow> \<not> is_done ph)
        \<and> phase_files sha (max_bytes cfg) (dir (recs w)) i ph) \<and>
     (\<forall>i \<in> active_ids (rstate (recs w)). bt_get (tasks w) i = None \<longrightarrow> no_files (dir (recs w)) i)"

definition no_stale :: "(string \<Rightarrow> bool) \<Rightarrow> recorder \<Rightarrow> bool" where
  "no_stale is_uuid r \<longleftrightarrow>
     (\<forall>i. is_uuid i \<longrightarrow> bt_get (dir r) (partial_name i) \<noteq> None \<longrightarrow> i \<in> active_ids (rstate r))"

definition quota_inv :: "rec_config \<Rightarrow> (bytes \<Rightarrow> string) \<Rightarrow> (string \<Rightarrow> bool) \<Rightarrow> world \<Rightarrow> bool" where
  "quota_inv cfg sha is_uuid w \<longleftrightarrow>
     rec_shape w \<and> jobs_ok cfg sha w \<and> no_stale is_uuid (recs w)
     \<and> usage cfg is_uuid (recs w) \<le> quota_bytes cfg"

subsection \<open>Sizes\<close>

lemma active_ids_get:
  "bt_ordered (manifests s) \<Longrightarrow> i \<in> active_ids s \<longleftrightarrow> (\<exists>m. bt_get (manifests s) i = Some m \<and> is_active m)"
  by (simp add: active_ids_def bt_get_entry)

lemma active_count_weight: "active_count s = bt.weight (\<lambda>(_, m). if is_active m then 1 else 0) (manifests s)"
proof -
  have "length (filter is_active (map snd xs)) = sum_list (map (\<lambda>(_, m). if is_active m then 1 else 0) xs)"
    for xs :: "(string \<times> manifest) list"
    by (induction xs) auto
  then show ?thesis
    by (simp add: active_count_def bt_values_def bt.weight_def)
qed

lemma active_ids_card:
  assumes "bt_ordered (manifests s)"
  shows "finite (active_ids s)" "card (active_ids s) = active_count s"
proof -
  let ?xs = "filter (is_active \<circ> snd) (manifests s)"
  have ids: "active_ids s = set (map fst ?xs)"
    by (auto simp: active_ids_def image_iff)
  then show "finite (active_ids s)"
    by simp
  have "distinct (map fst ?xs)"
    using bt_ordered_distinct [OF assms] by (simp add: distinct_map_filter)
  then show "card (active_ids s) = active_count s"
    using distinct_card ids by (fastforce simp: active_count_def bt_values_def filter_map)
qed

lemma single_size:
  assumes "bt_ordered d"
  shows "bt.weight (\<lambda>e. if fst e = n then length (snd e) else 0) d = (case bt_get d n of None \<Rightarrow> 0 | Some c \<Rightarrow> length c)"
    (is "bt.weight ?f d = _")
proof (cases "bt_get d n")
  case None
  then have "n \<notin> fst ` set d"
    by (simp add: map_of_eq_None_iff)
  then have "bt.weight ?f d = 0"
    by (intro bt.weight_zero) auto
  then show ?thesis
    using None by simp
next
  case (Some c)
  then have "(n, c) \<in> set d"
    using bt_get_entry [OF assms] by blast
  then have "bt.weight ?f d = bt.weight ?f (bt_remove n d) + length c"
    using bt.weight_remove [OF assms] by simp
  moreover have "bt.weight ?f (bt_remove n d) = 0"
    by (rule bt.weight_zero) (auto simp: bt_remove_def bt_retain_def)
  ultimately show ?thesis
    using Some by simp
qed

lemma owned_size_split:
  assumes "i \<noteq> []"
  shows "owned_size i e = (if fst e = media_name i ''ts'' then length (snd e) else 0)
    + (if fst e = media_name i ''mpegps'' then length (snd e) else 0)
    + (if fst e = partial_name i then length (snd e) else 0)"
  using assms by (auto simp: owned_size_def owned_def)

lemma owned_weight:
  assumes "bt_ordered d" "i \<noteq> []"
  shows "bt.weight (owned_size i) d =
    (case bt_get d (media_name i ''ts'') of None \<Rightarrow> 0 | Some c \<Rightarrow> length c)
    + (case bt_get d (media_name i ''mpegps'') of None \<Rightarrow> 0 | Some c \<Rightarrow> length c)
    + (case bt_get d (partial_name i) of None \<Rightarrow> 0 | Some c \<Rightarrow> length c)"
  unfolding owned_size_split [OF assms(2)] bt.weight_add single_size [OF assms(1)] ..

lemma no_files_owned: "bt_ordered d \<Longrightarrow> i \<noteq> [] \<Longrightarrow> no_files d i \<Longrightarrow> bt.weight (owned_size i) d = 0"
  by (simp add: owned_weight no_files_def)

lemma phase_files_owned:
  assumes "bt_ordered d" "i \<noteq> []" "phase_files sha limit d i ph" "\<not> is_done ph"
  shows "bt.weight (owned_size i) d \<le> limit"
proof (cases ph)
  case (Published out)
  then show ?thesis
    using assms by (cases "wr_format out") (auto simp: owned_weight)
next
  case (Finishing res)
  then show ?thesis
    using assms by (cases res) (auto simp: no_files_owned is_done_def)
qed (use assms in \<open>auto simp: owned_weight no_files_def\<close>)

lemma weight_swap:
  assumes "bt_ordered d" "finite A"
  shows "bt.weight (\<lambda>e. \<Sum>i\<in>A. f i e) d = (\<Sum>i\<in>A. bt.weight (f i) d)"
  unfolding bt.weight_sum [OF assms(1)] by (rule sum.swap)

lemma active_owned_bound:
  assumes "quota_inv cfg sha is_uuid w" "i \<in> active_ids (rstate (recs w))"
  shows "bt.weight (owned_size i) (dir (recs w)) \<le> max_bytes cfg"
proof -
  have o: "bt_ordered (dir (recs w))" and i: "i \<noteq> []" and j: "jobs_ok cfg sha w"
    using assms by (auto simp: quota_inv_def rec_shape_def active_ids_def)
  show ?thesis
  proof (cases "bt_get (tasks w) i")
    case None
    then have "no_files (dir (recs w)) i"
      using j assms(2) by (simp add: jobs_ok_def)
    then show ?thesis
      using no_files_owned [OF o i] by simp
  next
    case (Some ph)
    then have "phase_files sha (max_bytes cfg) (dir (recs w)) i ph" "\<not> is_done ph"
      using j assms(2) by (auto simp: jobs_ok_def)
    then show ?thesis
      using phase_files_owned [OF o i] by blast
  qed
qed

lemma disk_le_usage:
  assumes inv: "quota_inv cfg sha is_uuid w"
  shows "disk_bytes is_uuid (dir (recs w)) \<le> usage cfg is_uuid (recs w)"
proof -
  let ?A = "active_ids (rstate (recs w))" and ?d = "dir (recs w)"
  have om: "bt_ordered (manifests (rstate (recs w)))" and od: "bt_ordered ?d"
    using inv by (auto simp: quota_inv_def rec_shape_def)
  note fin = active_ids_card [OF om]
  have point: "(if counted is_uuid (fst e) then length (snd e) else 0)
      \<le> free_size is_uuid ?A e + (\<Sum>i\<in>?A. owned_size i e)" for e
  proof (cases "\<exists>i\<in>?A. fst e \<in> owned i")
    case True
    then obtain i where i: "i \<in> ?A" "fst e \<in> owned i" by blast
    then have "length (snd e) \<le> (\<Sum>i\<in>?A. owned_size i e)"
      using member_le_sum [of i ?A "\<lambda>i. owned_size i e"] fin(1) by (simp add: owned_size_def)
    then show ?thesis by simp
  qed (simp add: free_size_def)
  have "disk_bytes is_uuid ?d = bt.weight (\<lambda>e. if counted is_uuid (fst e) then length (snd e) else 0) ?d"
    by (simp add: disk_bytes_def bt.weight_def split_def)
  also have "\<dots> \<le> bt.weight (\<lambda>e. free_size is_uuid ?A e + (\<Sum>i\<in>?A. owned_size i e)) ?d"
    using point by (rule bt.weight_mono)
  also have "\<dots> = bt.weight (free_size is_uuid ?A) ?d + (\<Sum>i\<in>?A. bt.weight (owned_size i) ?d)"
    unfolding bt.weight_add weight_swap [OF od fin(1)] ..
  also have "(\<Sum>i\<in>?A. bt.weight (owned_size i) ?d) \<le> card ?A * max_bytes cfg"
    using sum_bounded_above [of ?A "\<lambda>i. bt.weight (owned_size i) ?d" "max_bytes cfg"] active_owned_bound [OF inv]
    by simp
  finally show ?thesis
    by (simp add: usage_def fin(2))
qed

subsection \<open>Single changes\<close>

lemma persist_same [simp]:
  "rstate (snd (persist outcome r)) = rstate r" "dir (snd (persist outcome r)) = dir r"
  by (simp_all add: persist_def Let_def split_def)

lemma persist_journal:
  "journal (snd (persist outcome r)) = Some j \<Longrightarrow> journal r = Some j \<or>
     j_recordings j = bt_values (manifests (rstate r)) \<and> j_idempotency j = idempotency (rstate r)
     \<and> j_acknowledgements j = acknowledgements (rstate r)"
  by (cases outcome) (auto simp: persist_def Let_def)

lemma usage_cong: "rstate r = rstate r' \<Longrightarrow> dir r = dir r' \<Longrightarrow> usage cfg is_uuid r = usage cfg is_uuid r'"
  by (simp add: usage_def)

lemma quota_inv_persist:
  assumes "quota_inv cfg sha is_uuid \<lparr>recs = r, tasks = ts\<rparr>"
  shows "quota_inv cfg sha is_uuid \<lparr>recs = snd (persist outcome r), tasks = ts\<rparr>"
proof -
  have "rec_shape \<lparr>recs = snd (persist outcome r), tasks = ts\<rparr>"
    using assms persist_journal [of outcome r] by (fastforce simp: quota_inv_def rec_shape_def bt_values_def)
  then show ?thesis
    using assms by (simp add: quota_inv_def jobs_ok_def usage_def no_stale_def)
qed

lemma active_ids_modify:
  assumes "bt_ordered (manifests (rstate r))" "bt_get (manifests (rstate r)) i = Some m"
  shows "active_ids (rstate (set_manifest i f r)) =
    (if is_active (f m) then insert i (active_ids (rstate r)) else active_ids (rstate r) - {i})"
  using assms by (auto simp: active_ids_get set_manifest_def split: if_splits)

lemma set_manifest_simps [simp]:
  "dir (set_manifest i f r) = dir r" "journal (set_manifest i f r) = journal r"
  "manifests (rstate (set_manifest i f r)) = bt_modify i f (manifests (rstate r))"
  "idempotency (rstate (set_manifest i f r)) = idempotency (rstate r)"
  "acknowledgements (rstate (set_manifest i f r)) = acknowledgements (rstate r)"
  by (simp_all add: set_manifest_def)

lemma rec_shape_modify:
  assumes "rec_shape w" "\<And>m. recording_id (f m) = recording_id m"
  shows "rec_shape \<lparr>recs = set_manifest i f (recs w), tasks = tasks w\<rparr>"
proof -
  have "set (bt_modify i f m) = (\<lambda>(a, b). (a, if a = i then f b else b)) ` set m" for m
    by (simp add: bt_modify_def)
  then show ?thesis
    using assms by (auto simp: rec_shape_def)
qed

lemma usage_deactivate:
  assumes "bt_ordered (manifests (rstate r))"
    and "i \<in> active_ids (rstate r)" "active_ids (rstate r') = active_ids (rstate r) - {i}"
    and "bt_ordered (manifests (rstate r'))" "dir r' = dir r"
    and bound: "bt.weight (owned_size i) (dir r) \<le> max_bytes cfg"
  shows "usage cfg is_uuid r' \<le> usage cfg is_uuid r"
proof -
  let ?A = "active_ids (rstate r)"
  have "free_size is_uuid (?A - {i}) e \<le> free_size is_uuid ?A e + owned_size i e" for e
    by (auto simp: free_size_def owned_size_def)
  then have "bt.weight (free_size is_uuid (?A - {i})) (dir r)
      \<le> bt.weight (\<lambda>e. free_size is_uuid ?A e + owned_size i e) (dir r)"
    by (rule bt.weight_mono)
  also have "\<dots> \<le> bt.weight (free_size is_uuid ?A) (dir r) + max_bytes cfg"
    using bound by (simp add: bt.weight_add)
  finally have free: "bt.weight (free_size is_uuid (?A - {i})) (dir r) \<le> \<dots>" .
  have "active_count (rstate r) = Suc (active_count (rstate r'))"
    using card_Suc_Diff1 [OF active_ids_card(1) [OF assms(1)] assms(2)]
    unfolding active_ids_card(2) [OF assms(1)] active_ids_card(2) [OF assms(4), unfolded assms(3)] by simp
  then show ?thesis
    using free unfolding usage_def assms(3,5) by simp
qed

lemma usage_owned_file:
  assumes "bt_ordered (dir r)" "i \<in> active_ids (rstate r)" "n \<in> owned i"
  shows "usage cfg is_uuid (set_dir (bt_insert n c (dir r)) r) = usage cfg is_uuid r"
    "usage cfg is_uuid (set_dir (bt_remove n (dir r)) r) = usage cfg is_uuid r"
proof -
  have "free_size is_uuid (active_ids (rstate r)) (n, v) = 0" for v
    using assms(2,3) by (auto simp: free_size_def)
  then show "usage cfg is_uuid (set_dir (bt_insert n c (dir r)) r) = usage cfg is_uuid r"
    "usage cfg is_uuid (set_dir (bt_remove n (dir r)) r) = usage cfg is_uuid r"
    using bt.weight_put_zero [OF assms(1)] bt.weight_remove_zero [OF assms(1)] by (simp_all add: usage_def)
qed

lemma owned_frame:
  assumes "\<And>n. n \<notin> owned i \<Longrightarrow> bt_get d' n = bt_get d n" "j \<noteq> i" "i \<noteq> []" "j \<noteq> []" "n \<in> owned j"
  shows "bt_get d' n = bt_get d n"
  using assms owned_disjoint by blast

lemma phase_files_frame:
  assumes "\<And>n. n \<notin> owned i \<Longrightarrow> bt_get d' n = bt_get d n" "j \<noteq> i" "i \<noteq> []" "j \<noteq> []"
  shows "no_files d' j = no_files d j" "phase_files sha limit d' j ph = phase_files sha limit d j ph"
proof -
  have same: "bt_get d' (media_name j ''ts'') = bt_get d (media_name j ''ts'')"
    "bt_get d' (media_name j ''mpegps'') = bt_get d (media_name j ''mpegps'')"
    "bt_get d' (partial_name j) = bt_get d (partial_name j)"
    using owned_frame [OF assms] by (simp_all add: owned_def)
  then show n: "no_files d' j = no_files d j"
    by (simp add: no_files_def)
  show "phase_files sha limit d' j ph = phase_files sha limit d j ph"
  proof (cases ph)
    case (Published out)
    then show ?thesis by (cases "wr_format out") (simp_all add: same)
  next
    case (Finishing res)
    then show ?thesis by (cases res) (simp_all add: n)
  qed (simp_all add: same n)
qed

text \<open>A step that touches the files, the manifest and the task of one recording only.\<close>

lemma job_step:
  assumes inv: "quota_inv cfg sha is_uuid w" and shape: "rec_shape \<lparr>recs = r', tasks = ts'\<rparr>" and i: "i \<noteq> []"
    and frame: "\<And>n. n \<notin> owned i \<Longrightarrow> bt_get (dir r') n = bt_get (dir (recs w)) n"
    and act: "active_ids (rstate r') - {i} = active_ids (rstate (recs w)) - {i}"
    and others: "\<And>j. j \<noteq> i \<Longrightarrow> bt_get ts' j = bt_get (tasks w) j"
    and own: "case bt_get ts' i of None \<Rightarrow> i \<in> active_ids (rstate r') \<longrightarrow> no_files (dir r') i
      | Some ph \<Rightarrow> (i \<in> active_ids (rstate r') \<longleftrightarrow> \<not> is_done ph) \<and> phase_files sha (max_bytes cfg) (dir r') i ph"
    and part: "bt_get (dir r') (partial_name i) \<noteq> None \<Longrightarrow> is_uuid i \<Longrightarrow> i \<in> active_ids (rstate r')"
    and le: "usage cfg is_uuid r' \<le> quota_bytes cfg"
  shows "quota_inv cfg sha is_uuid \<lparr>recs = r', tasks = ts'\<rparr>"
proof -
  let ?A = "active_ids (rstate (recs w))" and ?A' = "active_ids (rstate r')"
  have jobs: "jobs_ok cfg sha w" and nonempty: "\<And>j. j \<in> ?A \<Longrightarrow> j \<noteq> []"
    using inv by (auto simp: quota_inv_def rec_shape_def active_ids_def)
  have A: "j \<in> ?A' \<longleftrightarrow> j \<in> ?A" if "j \<noteq> i" for j
    using act that by blast
  have "(j \<in> ?A' \<longleftrightarrow> \<not> is_done ph) \<and> phase_files sha (max_bytes cfg) (dir r') j ph" if "bt_get ts' j = Some ph" for j ph
  proof (cases "j = i")
    case True
    then show ?thesis using own that by simp
  next
    case False
    then have old: "(j \<in> ?A \<longleftrightarrow> \<not> is_done ph)" "phase_files sha (max_bytes cfg) (dir (recs w)) j ph"
      using jobs that others by (auto simp: jobs_ok_def)
    show ?thesis
    proof (cases "is_done ph")
      case True
      then show ?thesis using old A False by (auto simp: is_done_def)
    next
      case not_done: False
      then show ?thesis
        using old A False nonempty phase_files_frame(2) [OF frame False i] by metis
    qed
  qed
  moreover have "no_files (dir r') j" if "j \<in> ?A'" "bt_get ts' j = None" for j
  proof (cases "j = i")
    case True
    then show ?thesis using own that by simp
  next
    case False
    then have "j \<in> ?A" "bt_get (tasks w) j = None"
      using A that others by auto
    then show ?thesis
      using jobs nonempty phase_files_frame(1) [OF frame False i] by (auto simp: jobs_ok_def)
  qed
  ultimately have "jobs_ok cfg sha \<lparr>recs = r', tasks = ts'\<rparr>"
    by (simp add: jobs_ok_def)
  moreover have "no_stale is_uuid r'"
    unfolding no_stale_def
  proof (intro allI impI)
    fix j
    assume j: "is_uuid j" "bt_get (dir r') (partial_name j) \<noteq> None"
    show "j \<in> ?A'"
    proof (cases "j = i")
      case False
      then have "partial_name j \<notin> owned i"
        using i by (simp add: owned_def)
      then have "j \<in> ?A"
        using inv j frame by (simp add: quota_inv_def no_stale_def)
      then show ?thesis using A [OF False] by simp
    qed (use j part in simp)
  qed
  ultimately show ?thesis
    using shape le by (simp add: quota_inv_def)
qed

subsection \<open>The steps of a job\<close>

lemma task_active:
  assumes "quota_inv cfg sha is_uuid w" "bt_get (tasks w) i = Some ph" "\<not> is_done ph"
  shows "i \<in> active_ids (rstate (recs w))" "i \<noteq> []"
    "phase_files sha (max_bytes cfg) (dir (recs w)) i ph"
    "\<exists>m. bt_get (manifests (rstate (recs w))) i = Some m \<and> is_active m"
proof -
  show a: "i \<in> active_ids (rstate (recs w))" "phase_files sha (max_bytes cfg) (dir (recs w)) i ph"
    using assms by (auto simp: quota_inv_def jobs_ok_def)
  show "i \<noteq> []"
    using a assms(1) by (auto simp: quota_inv_def rec_shape_def active_ids_def)
  have "bt_ordered (manifests (rstate (recs w)))"
    using assms(1) by (simp add: quota_inv_def rec_shape_def)
  then show "\<exists>m. bt_get (manifests (rstate (recs w))) i = Some m \<and> is_active m"
    using a(1) by (simp add: active_ids_get)
qed

lemma not_done [simp]:
  "\<not> is_done Queued" "\<not> is_done Begun" "\<not> is_done (Capturing wr)" "\<not> is_done (Published out)"
  "\<not> is_done (Finishing (Inl e))" "is_done (Finishing (Inr u))"
  by (simp_all add: is_done_def)

lemma quota_inv_parts:
  assumes "quota_inv cfg sha is_uuid w"
  shows "bt_ordered (dir (recs w))" "bt_ordered (tasks w)" "bt_ordered (manifests (rstate (recs w)))"
    "usage cfg is_uuid (recs w) \<le> quota_bytes cfg" "rec_shape w"
  using assms by (auto simp: quota_inv_def rec_shape_def)

lemma file_step:
  assumes inv: "quota_inv cfg sha is_uuid w" and task: "bt_get (tasks w) i = Some ph" "\<not> is_done ph" "\<not> is_done ph'"
    and ord: "bt_ordered d'" and frame: "\<And>n. n \<notin> owned i \<Longrightarrow> bt_get d' n = bt_get (dir (recs w)) n"
    and files: "phase_files sha (max_bytes cfg) d' i ph'"
    and le: "usage cfg is_uuid (set_dir d' (recs w)) = usage cfg is_uuid (recs w)"
  shows "quota_inv cfg sha is_uuid (set_phase i ph' (w\<lparr>recs := set_dir d' (recs w)\<rparr>))"
proof -
  have "rec_shape \<lparr>recs = set_dir d' (recs w), tasks = bt_insert i ph' (tasks w)\<rparr>"
    using quota_inv_parts [OF inv] ord by (simp add: rec_shape_def)
  then have "quota_inv cfg sha is_uuid \<lparr>recs = set_dir d' (recs w), tasks = bt_insert i ph' (tasks w)\<rparr>"
    using task_active [OF inv task(1,2)] task(3) frame files le quota_inv_parts(4) [OF inv]
    by (intro job_step [OF inv]) auto
  then show ?thesis
    by (simp add: world_eta)
qed

lemma write_chunk_bound:
  assumes "write_chunk limit source wr = Inr wr'" "length (media wr) \<le> limit" "limit < USIZE_MAX"
  shows "length (media wr') \<le> limit"
proof (cases "w_format wr = None \<and> media_alignment (alignment wr @ source) = None")
  case True
  then show ?thesis
    using assms by (auto simp: write_chunk_def Let_def split: if_splits)
next
  case False
  then obtain c v where "put_chunk limit c v = Inr wr'"
    using assms(1) by (auto simp: write_chunk_def Let_def split: option.splits)
  then show ?thesis
    using put_chunk_Inr [OF _ assms(3)] by fastforce
qed

lemma partial_steps:
  assumes inv: "quota_inv cfg sha is_uuid w" and limit: "max_bytes cfg < USIZE_MAX"
  shows "bt_get (tasks w) i = Some Begun \<Longrightarrow> quota_inv cfg sha is_uuid (set_phase i (Finishing (Inl e)) w)"
    and "bt_get (tasks w) i = Some Begun \<Longrightarrow> quota_inv cfg sha is_uuid (set_phase i (Capturing writer_new)
          (w\<lparr>recs := set_dir (bt_insert (partial_name i) [] (dir (recs w))) (recs w)\<rparr>))"
    and "bt_get (tasks w) i = Some (Capturing wr) \<Longrightarrow> write_chunk (max_bytes cfg) source wr = Inr wr'
          \<Longrightarrow> quota_inv cfg sha is_uuid (set_phase i (Capturing wr')
            (w\<lparr>recs := set_dir (bt_insert (partial_name i) (media wr') (dir (recs w))) (recs w)\<rparr>))"
    and "bt_get (tasks w) i = Some (Capturing wr) \<Longrightarrow> quota_inv cfg sha is_uuid (set_phase i (Finishing (Inl e))
          (w\<lparr>recs := set_dir (bt_remove (partial_name i) (dir (recs w))) (recs w)\<rparr>))"
proof -
  note parts = quota_inv_parts [OF inv]
  note active = task_active [OF inv]
  {
    assume b: "bt_get (tasks w) i = Some Begun"
    show "quota_inv cfg sha is_uuid (set_phase i (Finishing (Inl e)) w)"
      using file_step [OF inv b, of "Finishing (Inl e)" "dir (recs w)"] active(3) [OF b] parts by simp
    show "quota_inv cfg sha is_uuid (set_phase i (Capturing writer_new)
          (w\<lparr>recs := set_dir (bt_insert (partial_name i) [] (dir (recs w))) (recs w)\<rparr>))"
      using active [OF b] parts
      by (intro file_step [OF inv b]) (auto simp: usage_owned_file writer_new_def no_files_def owned_def)
  next
    assume c: "bt_get (tasks w) i = Some (Capturing wr)"
    then show "quota_inv cfg sha is_uuid (set_phase i (Finishing (Inl e))
          (w\<lparr>recs := set_dir (bt_remove (partial_name i) (dir (recs w))) (recs w)\<rparr>))"
      using active [OF c] parts
      by (intro file_step [OF inv c]) (auto simp: usage_owned_file no_files_def owned_def)
    assume s: "write_chunk (max_bytes cfg) source wr = Inr wr'"
    have "length (media wr') \<le> max_bytes cfg"
      using write_chunk_bound [OF s _ limit] active(3) [OF c] by simp
    then show "quota_inv cfg sha is_uuid (set_phase i (Capturing wr')
            (w\<lparr>recs := set_dir (bt_insert (partial_name i) (media wr') (dir (recs w))) (recs w)\<rparr>))"
      using active [OF c] parts
      by (intro file_step [OF inv c]) (auto simp: usage_owned_file owned_def)
  }
qed

lemma publish_step:
  assumes inv: "quota_inv cfg sha is_uuid w" and c: "bt_get (tasks w) i = Some (Capturing wr)"
    and fin: "write_finish sha started wr = Inr out"
  shows "quota_inv cfg sha is_uuid (set_phase i (Published out)
          (w\<lparr>recs := set_dir (bt_insert (media_name i (extension (wr_format out))) (media wr)
             (bt_remove (partial_name i) (dir (recs w)))) (recs w)\<rparr>))"
proof -
  note parts = quota_inv_parts [OF inv] and active = task_active [OF inv c, simplified]
  have out: "wr_bytes out = length (media wr)" "wr_sha256 out = sha (media wr)"
    using fin by (auto simp: write_finish_def split: option.splits)
  have "bt_ordered (bt_remove (partial_name i) (dir (recs w)))"
    using parts by simp
  then have "usage cfg is_uuid (set_dir (bt_insert (media_name i (extension (wr_format out))) (media wr)
      (bt_remove (partial_name i) (dir (recs w)))) (recs w)) = usage cfg is_uuid (recs w)"
    using usage_owned_file(1) [of "set_dir (bt_remove (partial_name i) (dir (recs w))) (recs w)" i
        "media_name i (extension (wr_format out))"]
      usage_owned_file(2) [of "recs w" i "partial_name i"] active parts by simp
  moreover have "phase_files sha (max_bytes cfg) (bt_insert (media_name i (extension (wr_format out))) (media wr)
      (bt_remove (partial_name i) (dir (recs w)))) i (Published out)"
    using active out by (cases "wr_format out") (auto simp: no_files_def)
  ultimately show ?thesis
    using active parts by (intro file_step [OF inv c]) auto
qed

lemma withdraw_step:
  assumes inv: "quota_inv cfg sha is_uuid w" and c: "bt_get (tasks w) i = Some (Published out)"
  shows "quota_inv cfg sha is_uuid (set_phase i (Finishing (Inl e))
          (w\<lparr>recs := set_dir (bt_remove (media_name i (extension (wr_format out))) (dir (recs w))) (recs w)\<rparr>))"
proof -
  note parts = quota_inv_parts [OF inv] and active = task_active [OF inv c, simplified]
  have "phase_files sha (max_bytes cfg) (bt_remove (media_name i (extension (wr_format out))) (dir (recs w))) i
      (Finishing (Inl e))"
    using active by (cases "wr_format out") (auto simp: no_files_def)
  then show ?thesis
    using active parts by (intro file_step [OF inv c]) (auto simp: usage_owned_file)
qed

text \<open>A manifest update of an active recording, followed by a change of its task.\<close>

lemma manifest_step:
  assumes inv: "quota_inv cfg sha is_uuid w" and i: "i \<in> active_ids (rstate (recs w))"
    and f: "\<And>m. recording_id (f m) = recording_id m" "\<And>m. is_active (f m) = keeps"
    and ord: "bt_ordered ts'" and others: "\<And>j. j \<noteq> i \<Longrightarrow> bt_get ts' j = bt_get (tasks w) j"
    and part: "keeps \<or> bt_get (dir (recs w)) (partial_name i) = None"
    and own: "case bt_get ts' i of None \<Rightarrow> \<not> keeps
      | Some ph \<Rightarrow> keeps = (\<not> is_done ph) \<and> phase_files sha (max_bytes cfg) (dir (recs w)) i ph"
  shows "quota_inv cfg sha is_uuid \<lparr>recs = set_manifest i f (recs w), tasks = ts'\<rparr>"
proof -
  let ?r = "set_manifest i f (recs w)"
  note parts = quota_inv_parts [OF inv]
  obtain m where m: "bt_get (manifests (rstate (recs w))) i = Some m" and "i \<noteq> []"
    using i parts active_ids_get by (fastforce simp: rec_shape_def active_ids_def)
  have A: "active_ids (rstate ?r) = (if keeps then active_ids (rstate (recs w)) else active_ids (rstate (recs w)) - {i})"
    using active_ids_modify [OF parts(3) m, of f] f(2) i by (auto simp: insert_absorb)
  have "usage cfg is_uuid ?r \<le> usage cfg is_uuid (recs w)"
  proof (cases keeps)
    case True
    then have "active_count (rstate ?r) = active_count (rstate (recs w))"
      using A active_ids_card(2) [OF parts(3)] active_ids_card(2) [of "rstate ?r"] parts(3) by simp
    then show ?thesis
      using A True by (simp add: usage_def)
  next
    case False
    then show ?thesis
      using usage_deactivate [OF parts(3) i, of ?r] A active_owned_bound [OF inv i] parts(3) by simp
  qed
  moreover have "rec_shape \<lparr>recs = ?r, tasks = ts'\<rparr>"
    using rec_shape_modify [OF parts(5) f(1)] ord by (simp add: rec_shape_def)
  ultimately show ?thesis
    using A i \<open>i \<noteq> []\<close> own others parts(4) part
    by (intro job_step [OF inv]) (auto split: option.splits)
qed

lemma begin_step:
  assumes inv: "quota_inv cfg sha is_uuid w" and q: "bt_get (tasks w) i = Some Queued"
    and b: "begin_job outcome i (recs w) = (res, r')"
  shows "quota_inv cfg sha is_uuid
    (set_phase i (case res of Inl e \<Rightarrow> Finishing (Inl e) | Inr _ \<Rightarrow> Begun) (w\<lparr>recs := r'\<rparr>))"
proof -
  note active = task_active [OF inv q, simplified] and parts = quota_inv_parts [OF inv]
  let ?ph = "case res of Inl e \<Rightarrow> Finishing (Inl e) | Inr _ \<Rightarrow> Begun"
  have r': "r' = snd (persist outcome (set_manifest i (\<lambda>m. m\<lparr>status := ''recording''\<rparr>) (recs w)))"
    using b active(4) by (auto simp: begin_job_def split: prod.splits)
  have "\<not> is_done ?ph" "phase_files sha (max_bytes cfg) (dir (recs w)) i ?ph"
    using active(3) by (auto split: sum.splits)
  then have "quota_inv cfg sha is_uuid
      \<lparr>recs = set_manifest i (\<lambda>m. m\<lparr>status := ''recording''\<rparr>) (recs w), tasks = bt_insert i ?ph (tasks w)\<rparr>"
    using parts by (intro manifest_step [OF inv active(1), where keeps = True]) (auto simp: is_active_def)
  from quota_inv_persist [OF this, of outcome] show ?thesis
    unfolding r' by (simp add: world_eta)
qed

lemma complete_step:
  assumes inv: "quota_inv cfg sha is_uuid w" and p: "bt_get (tasks w) i = Some (Published out)"
    and c: "complete now i out ms (recs w) = (res, r')"
  shows "quota_inv cfg sha is_uuid (set_phase i (Finishing res) (w\<lparr>recs := r'\<rparr>))"
proof -
  note active = task_active [OF inv p, simplified] and parts = quota_inv_parts [OF inv]
  have r': "r' = set_manifest i (ready_with now out ms) (recs w)" "res = Inr ()"
    using c active(4) by (auto simp: complete_def)
  have "quota_inv cfg sha is_uuid
      \<lparr>recs = set_manifest i (ready_with now out ms) (recs w), tasks = bt_insert i (Finishing (Inr ())) (tasks w)\<rparr>"
    using parts active(3)
    by (intro manifest_step [OF inv active(1), where keeps = False]) (auto simp: is_active_def ready_with_def)
  then show ?thesis
    unfolding r' by (simp add: world_eta)
qed

lemma finish_step:
  assumes inv: "quota_inv cfg sha is_uuid w" and t: "bt_get (tasks w) i = Some (Finishing res)"
  shows "quota_inv cfg sha is_uuid \<lparr>recs = record_end now outcome i res (recs w), tasks = bt_remove i (tasks w)\<rparr>"
proof -
  note parts = quota_inv_parts [OF inv]
  show ?thesis
  proof (cases res)
    case (Inl e)
    note active = task_active [OF inv t, unfolded Inl, simplified]
    have "quota_inv cfg sha is_uuid
        \<lparr>recs = set_manifest i (fail_with now (failure_code e)) (recs w), tasks = bt_remove i (tasks w)\<rparr>"
      using parts active(3)
      by (intro manifest_step [OF inv active(1), where keeps = False])
        (auto simp: is_active_def fail_with_def no_files_def)
    from quota_inv_persist [OF this, of outcome] show ?thesis
      using active(4) by (auto simp: record_end_def Inl)
  next
    case (Inr u)
    have "i \<notin> active_ids (rstate (recs w))"
      using inv t Inr by (auto simp: quota_inv_def jobs_ok_def)
    have idle: "quota_inv cfg sha is_uuid \<lparr>recs = recs w, tasks = bt_remove i (tasks w)\<rparr>"
    proof -
      have "rec_shape \<lparr>recs = recs w, tasks = bt_remove i (tasks w)\<rparr>"
        using parts by (simp add: rec_shape_def)
      moreover have "jobs_ok cfg sha \<lparr>recs = recs w, tasks = bt_remove i (tasks w)\<rparr>"
        using inv \<open>i \<notin> _\<close> by (auto simp: quota_inv_def jobs_ok_def)
      ultimately show ?thesis
        using parts(4) inv by (simp add: quota_inv_def)
    qed
    show ?thesis
      using idle quota_inv_persist [OF idle, of outcome]
      by (auto simp: record_end_def Inr split: option.splits)
  qed
qed

subsection \<open>Requests, acknowledgements and restarts\<close>

lemma media_path_owned: "media_path d m \<in> owned (recording_id m)"
  by (simp add: media_path_def Let_def owned_def)

lemma drop_media_same:
  assumes "drop_media removal m r = (res, r1)"
  shows "rstate r1 = rstate r" "journal r1 = journal r"
    "dir r1 = dir r \<or> dir r1 = bt_remove (media_path (dir r) m) (dir r)"
  using assms by (auto simp: drop_media_def Let_def split: if_splits remove_outcome.splits)

text \<open>What an acknowledgement leaves: the files of other recordings, and the state with or without
  the recording.\<close>

lemma acknowledge_cases:
  assumes "acknowledge now removal outcome i r = (res, r')"
  obtains "r' = r"
  | m r1 where "bt_get (manifests (rstate r)) i = Some m" "\<not> is_active m"
      "rstate r1 = rstate r" "journal r1 = journal r"
      "dir r1 = dir r \<or> dir r1 = bt_remove (media_path (dir r) m) (dir r)"
      "r' = r1 \<or> r' = snd (persist outcome (r1\<lparr>rstate := forget now i (rstate r)\<rparr>))"
proof (cases "bt_get (manifests (rstate r)) i")
  case None
  then show ?thesis
    using assms that(1) by (simp add: acknowledge_def)
next
  case (Some m)
  show ?thesis
  proof (cases "is_active m")
    case True
    then show ?thesis
      using assms that(1) Some by (simp add: acknowledge_def is_active_def)
  next
    case False
    obtain res1 r1 where d: "drop_media removal m r = (res1, r1)"
      by fastforce
    note same = drop_media_same [OF d]
    have "r' = r1 \<or> r' = snd (persist outcome (r1\<lparr>rstate := forget now i (rstate r)\<rparr>))"
      using assms Some False d same(1) by (auto simp: acknowledge_def is_active_def split: sum.splits prod.splits)
    then show ?thesis
      using that(2) [OF Some False same] by blast
  qed
qed

lemma manifests_forget [simp]: "manifests (forget now i s) = bt_remove i (manifests s)"
  by (simp add: forget_def Let_def)

lemma forget_inv:
  assumes inv: "quota_inv cfg sha is_uuid w"
    and m: "bt_get (manifests (rstate (recs w))) i = Some m" "\<not> is_active m"
    and r1: "journal r1 = journal (recs w)"
      "dir r1 = dir (recs w) \<or> dir r1 = bt_remove (media_path (dir (recs w)) m) (dir (recs w))"
    and s: "s = rstate (recs w) \<or> s = forget now i (rstate (recs w))"
  shows "quota_inv cfg sha is_uuid \<lparr>recs = r1\<lparr>rstate := s\<rparr>, tasks = tasks w\<rparr>"
proof -
  note parts = quota_inv_parts [OF inv]
  let ?A = "active_ids (rstate (recs w))"
  have i: "i \<notin> ?A" "i \<noteq> []" "recording_id m = i"
    using m parts active_ids_get [OF parts(3)] map_of_SomeD [OF m(1)] by (auto simp: rec_shape_def)
  have A: "active_ids s = ?A" and om: "bt_ordered (manifests s)"
    using s i(1) parts(3) by (auto simp: active_ids_get split: if_splits)
  then have "active_count s = active_count (rstate (recs w))"
    using active_ids_card(2) [OF om] active_ids_card(2) [OF parts(3)] by simp
  then have "usage cfg is_uuid (r1\<lparr>rstate := s\<rparr>) \<le> usage cfg is_uuid (recs w)"
    using r1(2) bt.weight_remove_le [OF parts(1)] by (auto simp: usage_def A)
  moreover have "rec_shape \<lparr>recs = r1\<lparr>rstate := s\<rparr>, tasks = tasks w\<rparr>"
    using parts(5) om s r1 by (auto simp: rec_shape_def)
  moreover have "bt_get (dir r1) n = bt_get (dir (recs w)) n" if "n \<notin> owned i" for n
    using r1(2) that media_path_owned [of "dir (recs w)" m] i(3) by auto
  moreover have "case bt_get (tasks w) i of None \<Rightarrow> True
      | Some ph \<Rightarrow> (i \<in> ?A \<longleftrightarrow> \<not> is_done ph) \<and> phase_files sha (max_bytes cfg) (dir r1) i ph"
    using inv i(1) by (auto simp: quota_inv_def jobs_ok_def is_done_def split: option.splits)
  moreover have "is_uuid i \<Longrightarrow> bt_get (dir r1) (partial_name i) = None"
    using inv i(1) r1(2) by (auto simp: quota_inv_def no_stale_def)
  ultimately show ?thesis
    using A i parts(4) by (intro job_step [OF inv]) (auto split: option.splits)
qed

lemma acknowledge_step:
  assumes inv: "quota_inv cfg sha is_uuid w" and a: "acknowledge now removal outcome i (recs w) = (res, r')"
  shows "quota_inv cfg sha is_uuid (w\<lparr>recs := r'\<rparr>)"
  using a
proof (cases rule: acknowledge_cases)
  case 1
  then show ?thesis using inv by simp
next
  case (2 m r1)
  note step = forget_inv [OF inv 2(1,2,4,5), of _ now]
  have "quota_inv cfg sha is_uuid \<lparr>recs = r1, tasks = tasks w\<rparr>"
    using step [OF disjI1 [OF 2(3)]] by simp
  then show ?thesis
    using 2(6) quota_inv_persist [OF step, of "forget now i (rstate (recs w))" outcome] by (auto simp: world_eta)
qed

lemma spool_bytes_exact:
  assumes "spool_bytes d \<le> n" "n < USIZE_MAX"
  shows "(\<Sum>(m, c)\<leftarrow>d. if is_media_file m then length c else 0) \<le> n"
proof -
  have "fold (\<lambda>(n, c) acc. if is_media_file n then sat_add acc (length c) else acc) d acc
      = min USIZE_MAX (acc + (\<Sum>(m, c)\<leftarrow>d. if is_media_file m then length c else 0))"
    if "acc \<le> USIZE_MAX" for acc
    using that by (induction d arbitrary: acc) (auto simp: sat_add_def)
  from this [of 0] show ?thesis
    using assms by (simp add: spool_bytes_def)
qed

lemma admits_bound:
  assumes "admits used active limit quota" "quota < USIZE_MAX"
  shows "used + (active + 1) * limit \<le> quota"
proof (cases "limit = 0")
  case True
  then show ?thesis
    using assms by (auto simp: admits_def sat_add_def sat_mul_def)
next
  case False
  have "used + sat_mul (sat_add active 1) limit \<le> quota"
    using assms by (simp add: admits_def sat_add_le_iff)
  then have small: "used + sat_add active 1 * limit \<le> quota"
    using assms(2) by (auto simp: sat_mul_def min_def split: if_splits)
  have "sat_add active 1 \<le> sat_add active 1 * limit"
    using False by simp
  then have "sat_add active 1 < USIZE_MAX"
    using small assms(2) by linarith
  then have "sat_add active 1 = active + 1"
    by (auto simp: sat_add_def min_def split: if_splits)
  then show ?thesis
    using small by simp
qed

definition admitted :: "string \<Rightarrow> manifest \<Rightarrow> recorder \<Rightarrow> recorder" where
  "admitted key m r = r\<lparr>rstate := (rstate r)
     \<lparr>idempotency := bt_insert key (recording_id m) (idempotency (rstate r)),
      manifests := bt_insert (recording_id m) m (manifests (rstate r))\<rparr>\<rparr>"

lemma enqueue_cases:
  assumes "enqueue cfg outcome key m exclusive r = (res, r', spawned)"
  obtains "r' = r" "\<not> spawned"
  | "admits (spool_bytes (dir r)) (active_count (rstate r)) (max_bytes cfg) (quota_bytes cfg)"
    "bt_get (idempotency (rstate r)) key = None" "\<forall>t \<in> set (acknowledgements (rstate r)). ack_key t \<noteq> Some key"
    "r' = snd (persist outcome (admitted key m r))" "spawned = (\<not> isl res)" "spawned \<longrightarrow> res = Inr m"
    "fst (persist outcome (admitted key m r)) = Inr () \<longleftrightarrow> spawned"
proof (cases "8 \<le> length key \<and> length key \<le> 128 \<and> \<not> list_ex (\<lambda>t. ack_key t = Some key) (acknowledgements (rstate r))
    \<and> bt_get (idempotency (rstate r)) key = None
    \<and> \<not> (exclusive \<and> list_ex (\<lambda>x. camera x = camera m \<and> is_active x) (bt_values (manifests (rstate r))))
    \<and> admits (spool_bytes (dir r)) (active_count (rstate r)) (max_bytes cfg) (quota_bytes cfg)")
  case False
  then have "r' = r" "\<not> spawned"
    using assms by (auto simp: enqueue_def Let_def split: if_splits option.splits)
  then show ?thesis by (rule that(1))
next
  case True
  obtain saved r1 where p: "persist outcome (admitted key m r) = (saved, r1)"
    by fastforce
  then have e: "enqueue cfg outcome key m exclusive r
      = (case saved of Inl e \<Rightarrow> (Inl e, r1, False) | Inr _ \<Rightarrow> (Inr m, r1, True))"
    using True by (auto simp: enqueue_def Let_def admitted_def)
  show ?thesis
    using True assms p by (intro that(2)) (auto simp: e list_ex_iff split: sum.splits)
qed

lemma strip_partial_Some: "strip_partial n = Some i \<Longrightarrow> n = partial_name i"
proof -
  assume s: "strip_partial n = Some i"
  then obtain rest where n: "n = CHR ''.'' # rest"
    by (cases n) (auto simp: strip_partial_def starts_with_def split: if_splits)
  then have "i = take (length rest - 8) rest" "drop (length rest - 8) rest = ''.partial''"
    using s by (auto simp: strip_partial_def split: if_splits)
  then show ?thesis
    using append_take_drop_id [of "length rest - 8" rest] by (simp add: partial_name_def n)
qed

lemma free_is_media:
  assumes "no_stale is_uuid r" "e \<in> set (dir r)" "bt_ordered (dir r)"
  shows "free_size is_uuid (active_ids (rstate r)) e \<le> (if is_media_file (fst e) then length (snd e) else 0)"
proof (cases "is_media_file (fst e)")
  case False
  have "fst e \<in> owned i" "i \<in> active_ids (rstate r)" if "strip_partial (fst e) = Some i" "is_uuid i" for i
  proof -
    have n: "fst e = partial_name i"
      using strip_partial_Some [OF that(1)] .
    then show "fst e \<in> owned i" by simp
    have "bt_get (dir r) (partial_name i) = Some (snd e)"
      using assms(2,3) n bt_get_entry by (metis prod.collapse)
    then show "i \<in> active_ids (rstate r)"
      using assms(1) that(2) by (simp add: no_stale_def)
  qed
  then show ?thesis
    using False by (auto simp: free_size_def counted_def split: option.splits)
qed (simp add: free_size_def)

lemma free_le_spool:
  assumes "no_stale is_uuid r" "bt_ordered (dir r)" "spool_bytes (dir r) \<le> n" "n < USIZE_MAX"
  shows "bt.weight (free_size is_uuid (active_ids (rstate r))) (dir r)
    \<le> (\<Sum>(m, c)\<leftarrow>dir r. if is_media_file m then length c else 0)"
proof -
  have "bt.weight (free_size is_uuid (active_ids (rstate r))) (dir r)
      \<le> bt.weight (\<lambda>e. if is_media_file (fst e) then length (snd e) else 0) (dir r)"
    using free_is_media [OF assms(1) _ assms(2)] by (intro bt.weight_mono)
  then show ?thesis
    by (simp add: bt.weight_def split_def)
qed

lemma active_ids_insert:
  assumes "bt_ordered (manifests s)" "bt_get (manifests s) i = None" "is_active m"
  shows "active_ids (s\<lparr>idempotency := x, manifests := bt_insert i m (manifests s)\<rparr>) = insert i (active_ids s)"
  using assms by (auto simp: active_ids_get split: if_splits)

lemma fresh_no_files: "fresh_id is_uuid i w \<Longrightarrow> no_files (dir (recs w)) i"
  by (auto simp: fresh_id_def no_files_def owned_def map_of_eq_None_iff)

lemma enqueue_usage:
  assumes inv: "quota_inv cfg sha is_uuid w" and fresh: "fresh_id is_uuid (recording_id m) w" "is_active m"
    and ok: "admits (spool_bytes (dir (recs w))) (active_count (rstate (recs w))) (max_bytes cfg) (quota_bytes cfg)"
    and quota: "quota_bytes cfg < USIZE_MAX"
  shows "usage cfg is_uuid (admitted key m (recs w)) \<le> quota_bytes cfg"
proof -
  let ?r = "recs w" and ?r' = "admitted key m (recs w)" and ?A = "active_ids (rstate (recs w))"
  note parts = quota_inv_parts [OF inv]
  have A: "active_ids (rstate ?r') = insert (recording_id m) ?A"
    using active_ids_insert [OF parts(3)] fresh by (simp add: admitted_def fresh_id_def)
  have o': "bt_ordered (manifests (rstate ?r'))"
    using parts(3) by (simp add: admitted_def)
  have count: "active_count (rstate ?r') \<le> active_count (rstate ?r) + 1"
    using active_ids_card [OF parts(3)] active_ids_card(2) [OF o'] A card_insert_le_m1
    by (simp add: card_insert_if split: if_splits)
  have bound: "spool_bytes (dir ?r) + (active_count (rstate ?r) + 1) * max_bytes cfg \<le> quota_bytes cfg"
    using admits_bound [OF ok quota] .
  have "no_stale is_uuid ?r"
    using inv by (simp add: quota_inv_def)
  then have "bt.weight (free_size is_uuid ?A) (dir ?r) \<le> spool_bytes (dir ?r)"
    using free_le_spool [OF _ parts(1) order_refl] spool_bytes_exact [OF order_refl] bound quota
    by (meson add_leD1 le_less_trans le_trans)
  moreover have "bt.weight (free_size is_uuid (insert (recording_id m) ?A)) (dir ?r)
      \<le> bt.weight (free_size is_uuid ?A) (dir ?r)"
    by (rule bt.weight_mono) (auto simp: free_size_def)
  moreover have "active_count (rstate ?r') * max_bytes cfg \<le> (active_count (rstate ?r) + 1) * max_bytes cfg"
    using count by (rule mult_le_mono1)
  ultimately show ?thesis
    using bound unfolding usage_def A by (simp add: admitted_def)
qed

lemma admitted_inv:
  assumes inv: "quota_inv cfg sha is_uuid w" and fresh: "fresh_id is_uuid (recording_id m) w" "is_active m"
    and quota: "quota_bytes cfg < USIZE_MAX"
    and ok: "admits (spool_bytes (dir (recs w))) (active_count (rstate (recs w))) (max_bytes cfg) (quota_bytes cfg)"
  shows "quota_inv cfg sha is_uuid \<lparr>recs = admitted key m (recs w),
    tasks = if spawned then bt_insert (recording_id m) Queued (tasks w) else tasks w\<rparr>"
proof -
  let ?i = "recording_id m" and ?r = "admitted key m (recs w)"
  let ?ts = "if spawned then bt_insert ?i Queued (tasks w) else tasks w"
  note parts = quota_inv_parts [OF inv]
  have A: "active_ids (rstate ?r) = insert ?i (active_ids (rstate (recs w)))"
    using active_ids_insert [OF parts(3)] fresh by (simp add: admitted_def fresh_id_def)
  have shape: "rec_shape \<lparr>recs = ?r, tasks = ?ts\<rparr>"
    using parts fresh by (auto simp: rec_shape_def admitted_def set_bt_insert fresh_id_def)
  have none: "bt_get (tasks w) ?i = None" "?i \<noteq> []"
    using fresh by (simp_all add: fresh_id_def)
  show ?thesis
    using A none fresh_no_files [OF fresh(1)] enqueue_usage [OF inv fresh ok quota]
    by (intro job_step [OF inv shape, of ?i]) (auto simp: admitted_def)
qed

lemma enqueue_step:
  assumes inv: "quota_inv cfg sha is_uuid w" and fresh: "fresh_id is_uuid (recording_id m) w" "is_active m"
    and quota: "quota_bytes cfg < USIZE_MAX"
    and e: "enqueue cfg outcome key m exclusive (recs w) = (res, r', spawned)"
  shows "quota_inv cfg sha is_uuid
    \<lparr>recs = r', tasks = if spawned then bt_insert (recording_id m) Queued (tasks w) else tasks w\<rparr>"
  using e
proof (cases rule: enqueue_cases)
  case 1
  then show ?thesis using inv by (cases w) simp
next
  case 2
  then show ?thesis
    using quota_inv_persist [OF admitted_inv [OF inv fresh quota 2(1)]] by simp
qed

lemma recover_not_active: "\<not> is_active (recover_manifest sha now d m)"
  by (auto simp: recover_manifest_def Let_def is_active_def fail_with_def split: sum.splits option.splits)

lemma recover_shape:
  assumes "bt_ordered d" "\<And>j. jr = Some j \<Longrightarrow> \<forall>m \<in> set (j_recordings j). recording_id m \<noteq> []"
    and "recover sha now is_uuid d (load_state jr) = (s, d')"
  shows "rec_shape \<lparr>recs = \<lparr>rstate = s, dir = d', journal = jr\<rparr>, tasks = []\<rparr>" "active_ids s = {}"
proof -
  have ms: "manifests s = map (\<lambda>(k, m). (k, recover_manifest sha now d m)) (manifests (load_state jr))"
    and d': "d' = remove_partial_files is_uuid d"
    using assms(3) by (auto simp: recover_def)
  have id: "recording_id (recover_manifest sha now d m) = recording_id m" for m
    by (auto simp: recover_manifest_def Let_def fail_with_def split: sum.splits option.splits)
  have loaded: "bt_ordered (manifests (load_state jr))"
    "(k, m) \<in> set (manifests (load_state jr)) \<Longrightarrow> recording_id m = k \<and> k \<noteq> []" for k m
    using assms(2) set_bt_collect [THEN subsetD] by (fastforce simp: load_state_def split: option.splits)+
  have "bt_ordered (manifests s)"
    using loaded(1) by (simp add: ms bt_ordered_def comp_def split_def)
  then show "rec_shape \<lparr>recs = \<lparr>rstate = s, dir = d', journal = jr\<rparr>, tasks = []\<rparr>"
    using assms(1,2) loaded(2) by (auto simp: rec_shape_def ms d' remove_partial_files_def id)
  show "active_ids s = {}"
    using recover_not_active by (auto simp: active_ids_def ms)
qed

definition finished_bytes :: "spool \<Rightarrow> nat" where
  "finished_bytes d = sum_list (map (\<lambda>(n, c). if is_media_file n then length c else 0) d)"

lemma finished_le_disk: "finished_bytes d \<le> disk_bytes is_uuid d"
  unfolding finished_bytes_def disk_bytes_def by (rule sum_list_mono) (auto simp: counted_def)

lemma finished_remove_partial: "finished_bytes (remove_partial_files is_uuid d) \<le> finished_bytes d"
  by (induction d) (auto simp: finished_bytes_def remove_partial_files_def bt_retain_def)

lemma load_inv:
  assumes d: "bt_ordered d" "finished_bytes d \<le> quota_bytes cfg"
    and j: "\<And>j. jr = Some j \<Longrightarrow> \<forall>m \<in> set (j_recordings j). recording_id m \<noteq> []"
  shows "quota_inv cfg sha is_uuid \<lparr>recs = snd (load sha now is_uuid outcome d jr), tasks = []\<rparr>"
proof -
  obtain s d' where rec: "recover sha now is_uuid d (load_state jr) = (s, d')"
    by fastforce
  let ?r = "\<lparr>rstate = s, dir = d', journal = jr\<rparr>"
  note shape = recover_shape [OF d(1) j rec]
  have d': "d' = remove_partial_files is_uuid d"
    using rec by (simp add: recover_def)
  have stale: "no_stale is_uuid ?r"
  proof -
    have "is_uuid i \<Longrightarrow> bt_get d' (partial_name i) = None" for i
      by (auto simp: d' remove_partial_files_def bt_retain_def map_of_eq_None_iff)
    then show ?thesis by (simp add: no_stale_def)
  qed
  have "bt.weight (free_size is_uuid (active_ids s)) d' \<le> bt.weight (\<lambda>e. if is_media_file (fst e) then length (snd e) else 0) d'"
    using free_is_media [OF stale] shape(1) by (intro bt.weight_mono) (simp add: rec_shape_def)
  also have "\<dots> = finished_bytes d'"
    by (simp add: bt.weight_def finished_bytes_def split_def)
  also have "\<dots> \<le> quota_bytes cfg"
    using le_trans [OF finished_remove_partial d(2)] by (simp add: d')
  finally have "bt.weight (free_size is_uuid (active_ids s)) d' \<le> quota_bytes cfg" .
  moreover have "active_count s = 0"
    using active_ids_card(2) [of s] shape by (simp add: rec_shape_def)
  ultimately have "quota_inv cfg sha is_uuid \<lparr>recs = ?r, tasks = []\<rparr>"
    using shape stale by (simp add: quota_inv_def jobs_ok_def usage_def)
  from quota_inv_persist [OF this, of outcome] show ?thesis
    by (simp add: load_def rec)
qed

lemma restart_step:
  assumes inv: "quota_inv cfg sha is_uuid w"
    and l: "load sha now is_uuid outcome (dir (recs w)) (journal (recs w)) = (res, r')"
  shows "quota_inv cfg sha is_uuid \<lparr>recs = r', tasks = []\<rparr>"
proof -
  have "finished_bytes (dir (recs w)) \<le> quota_bytes cfg"
    using finished_le_disk disk_le_usage [OF inv] quota_inv_parts(4) [OF inv] le_trans by blast
  moreover have "\<And>j. journal (recs w) = Some j \<Longrightarrow> \<forall>m \<in> set (j_recordings j). recording_id m \<noteq> []"
    using quota_inv_parts(5) [OF inv] by (simp add: rec_shape_def)
  ultimately show ?thesis
    using load_inv [OF quota_inv_parts(1) [OF inv]] l by (metis snd_conv)
qed

lemma pending_simps [simp]:
  "recording_id (pending uuid now cam n) = uuid" "is_active (pending uuid now cam n)"
  "recording_id (pending_sd uuid now cam a b) = uuid" "is_active (pending_sd uuid now cam a b)"
  by (simp_all add: pending_def pending_sd_def is_active_def)

lemma start_cases:
  assumes "start cfg outcome uuid now cam duration key r = (res, r', spawned)"
  obtains "r' = r" "\<not> spawned" | "enqueue cfg outcome key (pending uuid now cam duration) False r = (res, r', spawned)"
  using assms by (auto simp: start_def split: if_splits)

lemma start_sd_cases:
  assumes "start_sd cfg outcome uuid now live cam a b key r = (res, r', spawned)"
  obtains "r' = r" "\<not> spawned" | "enqueue cfg outcome key (pending_sd uuid now cam a b) True r = (res, r', spawned)"
  using assms by (auto simp: start_sd_def Let_def split: if_splits)

lemma quota_inv_step:
  assumes "rec_step cfg sha is_uuid w w'" "quota_inv cfg sha is_uuid w"
    and lim: "quota_bytes cfg < USIZE_MAX" "max_bytes cfg < USIZE_MAX"
  shows "quota_inv cfg sha is_uuid w'"
  using assms(1,2)
proof (cases rule: rec_step.cases)
  case (start_live outcome uuid now cam duration key res r' spawned)
  note fresh = start_live(3)
  from start_live(2) show ?thesis
  proof (cases rule: start_cases)
    case 1
    then show ?thesis using start_live(1) assms(2) by (cases w) simp
  next
    case 2
    from enqueue_step [OF assms(2) _ _ lim(1) this] show ?thesis
      using start_live(1) fresh by (cases spawned) simp_all
  qed
next
  case (start_card outcome uuid now live cam from_s to_s key res r' spawned)
  note fresh = start_card(3)
  from start_card(2) show ?thesis
  proof (cases rule: start_sd_cases)
    case 1
    then show ?thesis using start_card(1) assms(2) by (cases w) simp
  next
    case 2
    from enqueue_step [OF assms(2) _ _ lim(1) this] show ?thesis
      using start_card(1) fresh by (cases spawned) simp_all
  qed
qed (use assms(2) lim in \<open>blast intro: begin_step partial_steps publish_step complete_step withdraw_step
      finish_step acknowledge_step restart_step\<close>)+


definition wit_config :: rec_config where
  "wit_config = \<lparr>hub_aliases = [''front''], max_duration = 60, max_bytes = 10, quota_bytes = 25\<rparr>"


end
