(* ===== verification/Recording_Safety.thy ===== *)
theory Recording_Safety
  imports Recording_Run
begin

text \<open>
  What the recording manager promises to its clients: finished recordings describe the bytes they
  deliver, an idempotency key admits one recording, and a restart settles every recording.
\<close>

section \<open>Finished recordings\<close>

lemma bt_get_retain: "bt_get (bt_retain (\<lambda>k _. P k) m) a = (if P a then bt_get m a else None)"
  by (induction m) (auto simp: bt_retain_def)

lemma all_recording_format: "(\<forall>fmt. P fmt) \<longleftrightarrow> P MpegPs \<and> P MpegTs"
  by (metis recording_format.exhaust)

definition ready_ok :: "(bytes \<Rightarrow> string) \<Rightarrow> spool \<Rightarrow> manifest \<Rightarrow> bool" where
  "ready_ok sha d m \<longleftrightarrow> (status m = ''ready'' \<longrightarrow>
     (\<forall>fmt c. bt_get d (media_name (recording_id m) (extension fmt)) = Some c \<longrightarrow>
        media_bytes m = Some (length c) \<and> sha256 m = Some (sha c) \<and> media_type m = media_type_of fmt))"

definition single_media :: "spool \<Rightarrow> bool" where
  "single_media d \<longleftrightarrow> (\<forall>i. bt_get d (media_name i ''ts'') = None \<or> bt_get d (media_name i ''mpegps'') = None)"

definition settled :: "world \<Rightarrow> string \<Rightarrow> bool" where
  "settled w i \<longleftrightarrow> (\<forall>ph. bt_get (tasks w) i = Some ph \<longrightarrow> is_done ph)"

definition media_inv :: "(bytes \<Rightarrow> string) \<Rightarrow> world \<Rightarrow> bool" where
  "media_inv sha w \<longleftrightarrow> single_media (dir (recs w))
     \<and> (\<forall>(i, m) \<in> set (manifests (rstate (recs w))). ready_ok sha (dir (recs w)) m)
     \<and> (\<forall>j. journal (recs w) = Some j \<longrightarrow> (\<forall>m \<in> set (j_recordings j).
          ready_ok sha (dir (recs w)) m \<and> (status m = ''ready'' \<longrightarrow> settled w (recording_id m))))"

lemma media_invI:
  assumes "single_media (dir r)" "\<And>i m. (i, m) \<in> set (manifests (rstate r)) \<Longrightarrow> ready_ok sha (dir r) m"
    and "\<And>j m. journal r = Some j \<Longrightarrow> m \<in> set (j_recordings j) \<Longrightarrow> ready_ok sha (dir r) m"
    and "\<And>j m. journal r = Some j \<Longrightarrow> m \<in> set (j_recordings j) \<Longrightarrow> status m = ''ready''
      \<Longrightarrow> settled \<lparr>recs = r, tasks = ts\<rparr> (recording_id m)"
  shows "media_inv sha \<lparr>recs = r, tasks = ts\<rparr>"
  using assms unfolding media_inv_def by simp blast

lemma media_invD:
  assumes "media_inv sha w"
  shows "single_media (dir (recs w))"
    "(i, m) \<in> set (manifests (rstate (recs w))) \<Longrightarrow> ready_ok sha (dir (recs w)) m"
    "journal (recs w) = Some j \<Longrightarrow> m \<in> set (j_recordings j) \<Longrightarrow> ready_ok sha (dir (recs w)) m"
    "journal (recs w) = Some j \<Longrightarrow> m \<in> set (j_recordings j) \<Longrightarrow> status m = ''ready'' \<Longrightarrow> settled w (recording_id m)"
  using assms unfolding media_inv_def by blast+

lemma ready_ok_mono:
  assumes "ready_ok sha d m"
    and "\<And>fmt. bt_get d' (media_name (recording_id m) (extension fmt)) = None
      \<or> bt_get d' (media_name (recording_id m) (extension fmt)) = bt_get d (media_name (recording_id m) (extension fmt))"
  shows "ready_ok sha d' m"
  unfolding ready_ok_def
proof (intro impI allI)
  fix fmt c
  assume "status m = ''ready''" "bt_get d' (media_name (recording_id m) (extension fmt)) = Some c"
  moreover from this(2) have "bt_get d (media_name (recording_id m) (extension fmt)) = Some c"
    using assms(2) [of fmt] by auto
  ultimately show "media_bytes m = Some (length c) \<and> sha256 m = Some (sha c) \<and> media_type m = media_type_of fmt"
    using assms(1) unfolding ready_ok_def by blast
qed

lemma media_inv_persist:
  assumes inv: "quota_inv cfg sha is_uuid \<lparr>recs = r, tasks = ts\<rparr>" and m: "media_inv sha \<lparr>recs = r, tasks = ts\<rparr>"
  shows "media_inv sha \<lparr>recs = snd (persist outcome r), tasks = ts\<rparr>"
proof -
  have "settled \<lparr>recs = r, tasks = ts\<rparr> (recording_id m)"
    if mem: "(i, m) \<in> set (manifests (rstate r))" and "status m = ''ready''" for i m
  proof -
    have o: "bt_ordered (manifests (rstate r))" and "recording_id m = i"
      using inv mem by (auto simp: quota_inv_def rec_shape_def)
    moreover have "bt_get (manifests (rstate r)) i = Some m"
      using bt_get_entry [OF o] mem by simp
    ultimately have "recording_id m \<notin> active_ids (rstate r)"
      using that(2) by (simp add: active_ids_get is_active_def)
    then show ?thesis
      using inv by (auto simp: settled_def quota_inv_def jobs_ok_def)
  qed
  then show ?thesis
    using m persist_journal [of outcome r]
    by (fastforce simp: media_inv_def settled_def bt_values_def)
qed

text \<open>A job step: only files of the recording \<open>i\<close> change, while it is active.\<close>

lemma media_inv_files:
  assumes inv: "quota_inv cfg sha is_uuid w" and m: "media_inv sha w"
    and i: "i \<in> active_ids (rstate (recs w))" "bt_get (tasks w) i = Some ph" "\<not> is_done ph"
    and frame: "\<And>n. n \<notin> owned i \<Longrightarrow> bt_get d' n = bt_get (dir (recs w)) n"
    and single: "bt_get d' (media_name i ''ts'') = None \<or> bt_get d' (media_name i ''mpegps'') = None"
  shows "media_inv sha \<lparr>recs = set_dir d' (recs w), tasks = bt_insert i ph' (tasks w)\<rparr>"
proof -
  note parts = quota_inv_parts [OF inv]
  have "i \<noteq> []"
    using task_active [OF inv i(2,3)] by simp
  have other: "bt_get d' (media_name j (extension fmt)) = bt_get (dir (recs w)) (media_name j (extension fmt))"
    if "j \<noteq> i" for j fmt
    using frame that \<open>i \<noteq> []\<close> by (cases fmt) (auto simp: owned_def media_name_def partial_name_def)
  have "single_media d'"
    unfolding single_media_def
  proof
    fix j
    show "bt_get d' (media_name j ''ts'') = None \<or> bt_get d' (media_name j ''mpegps'') = None"
      using m single other [of j MpegTs] other [of j MpegPs]
      by (cases "j = i") (auto simp: media_inv_def single_media_def)
  qed
  moreover have "ready_ok sha d' mm" if ok: "ready_ok sha (dir (recs w)) mm" and "recording_id mm \<noteq> i" for mm
    using ok other [OF that(2)] by (rule ready_ok_mono [OF _ disjI2])
  moreover have "ready_ok sha d' mm" if "status mm \<noteq> ''ready''" for mm
    using that by (simp add: ready_ok_def)
  moreover have "status mm \<noteq> ''ready''" if "(i, mm) \<in> set (manifests (rstate (recs w)))" for mm
  proof -
    have "bt_get (manifests (rstate (recs w))) i = Some mm"
      using that bt_get_entry [OF parts(3)] by simp
    then show ?thesis
      using i(1) active_ids_get [OF parts(3)] by (auto simp: is_active_def)
  qed
  moreover have "status mm \<noteq> ''ready''"
    if "journal (recs w) = Some j" "mm \<in> set (j_recordings j)" "recording_id mm = i" for j mm
    using m that i(2,3) by (auto simp: media_inv_def settled_def)
  ultimately show ?thesis
    using m parts(5) by (fastforce simp: media_inv_def rec_shape_def settled_def)
qed

lemma media_inv_manifest:
  assumes m: "media_inv sha w"
    and f: "\<And>mm. bt_get (manifests (rstate (recs w))) i = Some mm \<Longrightarrow> ready_ok sha (dir (recs w)) (f mm)"
    and ord: "bt_ordered (manifests (rstate (recs w)))"
    and ts: "\<And>j. j \<noteq> i \<Longrightarrow> bt_get ts' j = bt_get (tasks w) j"
    and own: "settled w i \<Longrightarrow> settled \<lparr>recs = r', tasks = ts'\<rparr> i"
    and r': "r' = recs w \<or> r' = set_manifest i f (recs w)"
  shows "media_inv sha \<lparr>recs = r', tasks = ts'\<rparr>"
proof -
  have keep: "settled \<lparr>recs = r', tasks = ts'\<rparr> j" if "settled w j" for j
  proof (cases "j = i")
    case False
    then show ?thesis using that ts [OF False] by (simp add: settled_def)
  qed (use that own in simp)
  have same: "dir r' = dir (recs w)" "journal r' = journal (recs w)"
    using r' set_manifest_simps(1,2) by metis+
  have ready: "ready_ok sha (dir (recs w)) mm" if "(j, mm) \<in> set (manifests (rstate r'))" for j mm
  proof (cases "r' = recs w")
    case True
    then show ?thesis using m that by (auto simp: media_inv_def)
  next
    case False
    then have "r' = set_manifest i f (recs w)"
      using r' by blast
    then have "(j, mm) \<in> set (bt_modify i f (manifests (rstate (recs w))))"
      using that by (simp only: set_manifest_simps)
    then obtain m0 where m0: "(j, m0) \<in> set (manifests (rstate (recs w)))" "mm = (if j = i then f m0 else m0)"
      unfolding bt_modify_def by auto
    show ?thesis
    proof (cases "j = i")
      case True
      then have "bt_get (manifests (rstate (recs w))) i = Some m0"
        using m0(1) bt_get_entry [OF ord] by blast
      then show ?thesis using f m0(2) True by simp
    next
      case False
      then show ?thesis using m m0 by (auto simp: media_inv_def)
    qed
  qed
  show ?thesis
    using media_invD [OF m] keep ready unfolding same [symmetric] by (intro media_invI) blast+
qed

lemma ready_ok_not_ready [simp]: "status m \<noteq> ''ready'' \<Longrightarrow> ready_ok sha d m"
  by (simp add: ready_ok_def)

lemma media_inv_end:
  assumes inv: "quota_inv cfg sha is_uuid w" and m: "media_inv sha w"
    and t: "bt_get (tasks w) i = Some (Finishing res)"
  shows "media_inv sha \<lparr>recs = record_end now outcome i res (recs w), tasks = bt_remove i (tasks w)\<rparr>"
proof -
  let ?r1 = "case res of Inl e \<Rightarrow> set_manifest i (fail_with now (failure_code e)) (recs w) | Inr _ \<Rightarrow> recs w"
  have step: "media_inv sha \<lparr>recs = r', tasks = bt_remove i (tasks w)\<rparr>"
    if r': "r' = recs w \<or> (\<exists>e. r' = set_manifest i (fail_with now (failure_code e)) (recs w))" for r'
  proof -
    obtain e where "r' = recs w \<or> r' = set_manifest i (fail_with now (failure_code e)) (recs w)"
      using r' by blast
    then show ?thesis
      using quota_inv_parts [OF inv]
      by (intro media_inv_manifest [OF m]) (auto simp: fail_with_def settled_def)
  qed
  have q: "quota_inv cfg sha is_uuid \<lparr>recs = ?r1, tasks = bt_remove i (tasks w)\<rparr>" if "bt_get (manifests (rstate (recs w))) i \<noteq> None"
  proof -
    have "record_end now Refused i res (recs w) = ?r1"
      using that by (auto simp: record_end_def persist_def Let_def)
    then show ?thesis
      using finish_step [OF inv t, of now Refused] by simp
  qed
  show ?thesis
  proof (cases "bt_get (manifests (rstate (recs w))) i = None")
    case True
    then show ?thesis using step [of "recs w"] by (simp add: record_end_def)
  next
    case False
    then have "record_end now outcome i res (recs w) = snd (persist outcome ?r1)"
      by (auto simp: record_end_def)
    moreover have "media_inv sha \<lparr>recs = ?r1, tasks = bt_remove i (tasks w)\<rparr>"
      by (rule step) (auto split: sum.splits)
    ultimately show ?thesis
      using media_inv_persist [OF q [OF False]] by simp
  qed
qed

lemma media_inv_begin:
  assumes inv: "quota_inv cfg sha is_uuid w" and m: "media_inv sha w" and q: "bt_get (tasks w) i = Some Queued"
    and b: "begin_job outcome i (recs w) = (res, r')"
  shows "media_inv sha (set_phase i (case res of Inl e \<Rightarrow> Finishing (Inl e) | Inr _ \<Rightarrow> Begun) (w\<lparr>recs := r'\<rparr>))"
proof -
  let ?r = "set_manifest i (\<lambda>m. m\<lparr>status := ''recording''\<rparr>) (recs w)"
  let ?ts = "bt_insert i (case res of Inl e \<Rightarrow> Finishing (Inl e) | Inr _ \<Rightarrow> Begun) (tasks w)"
  note active = task_active [OF inv q, simplified]
  have r': "r' = snd (persist outcome ?r)"
    using b active(4) by (auto simp: begin_job_def split: prod.splits)
  have "\<not> settled w i"
    using q by (simp add: settled_def)
  then have "media_inv sha \<lparr>recs = ?r, tasks = ?ts\<rparr>"
    using quota_inv_parts [OF inv] by (intro media_inv_manifest [OF m]) auto
  moreover have "quota_inv cfg sha is_uuid \<lparr>recs = ?r, tasks = ?ts\<rparr>"
    using quota_inv_parts [OF inv] active(3)
    by (intro manifest_step [OF inv active(1), where keeps = True]) (auto simp: is_active_def split: sum.splits)
  ultimately show ?thesis
    using media_inv_persist r' by (simp add: world_eta)
qed

lemma media_inv_complete:
  assumes inv: "quota_inv cfg sha is_uuid w" and m: "media_inv sha w" and p: "bt_get (tasks w) i = Some (Published out)"
    and c: "complete now i out ms (recs w) = (res, r')"
  shows "media_inv sha (set_phase i (Finishing res) (w\<lparr>recs := r'\<rparr>))"
proof -
  note active = task_active [OF inv p, simplified]
  have r': "r' = set_manifest i (ready_with now out ms) (recs w)" "res = Inr ()"
    using c active(4) by (auto simp: complete_def)
  have "ready_ok sha (dir (recs w)) (ready_with now out ms mm)"
    if "bt_get (manifests (rstate (recs w))) i = Some mm" for mm
  proof -
    have "recording_id mm = i"
      using quota_inv_parts(5) [OF inv] map_of_SomeD [OF that] by (auto simp: rec_shape_def)
    then show ?thesis
      using active(3) by (cases "wr_format out") (auto simp: ready_ok_def ready_with_def all_recording_format)
  qed
  moreover have "\<not> settled w i"
    using p by (simp add: settled_def)
  ultimately have "media_inv sha \<lparr>recs = r', tasks = bt_insert i (Finishing res) (tasks w)\<rparr>"
    using quota_inv_parts [OF inv] r' by (intro media_inv_manifest [OF m]) auto
  then show ?thesis
    by (simp add: world_eta)
qed

lemma media_inv_enqueue:
  assumes inv: "quota_inv cfg sha is_uuid w" and m: "media_inv sha w"
    and fresh: "fresh_id is_uuid (recording_id mm) w" "is_active mm" and quota: "quota_bytes cfg < USIZE_MAX"
    and e: "enqueue cfg outcome key mm exclusive (recs w) = (res, r', spawned)"
  shows "media_inv sha
    \<lparr>recs = r', tasks = if spawned then bt_insert (recording_id mm) Queued (tasks w) else tasks w\<rparr>"
  using e
proof (cases rule: enqueue_cases)
  case 1
  then show ?thesis using m by (cases w) simp
next
  case 2
  let ?r = "admitted key mm (recs w)"
  let ?ts = "if spawned then bt_insert (recording_id mm) Queued (tasks w) else tasks w"
  have ord: "bt_ordered (manifests (rstate (recs w)))"
    using quota_inv_parts [OF inv] by simp
  have same: "dir ?r = dir (recs w)" "journal ?r = journal (recs w)"
    "set (manifests (rstate ?r)) \<subseteq> insert (recording_id mm, mm) (set (manifests (rstate (recs w))))"
    using ord by (auto simp: admitted_def set_bt_insert)
  have "status mm \<noteq> ''ready''"
    using fresh(2) by (auto simp: is_active_def)
  moreover have "settled \<lparr>recs = ?r, tasks = ?ts\<rparr> i" if "settled w i" "i \<noteq> recording_id mm" for i
    using that by (simp add: settled_def)
  moreover have "recording_id x \<noteq> recording_id mm" if "journal (recs w) = Some j" "x \<in> set (j_recordings j)" for j x
    using fresh(1) that by (auto simp: fresh_id_def image_iff)
  ultimately have "media_inv sha \<lparr>recs = ?r, tasks = ?ts\<rparr>"
    using media_invD [OF m] same(3) unfolding same(1,2) [symmetric] by (intro media_invI) (blast intro: ready_ok_not_ready)+
  then show ?thesis
    using media_inv_persist [OF admitted_inv [OF inv fresh quota 2(1)]] 2(4) by simp
qed

lemma single_media_remove: "single_media d \<Longrightarrow> single_media (bt_remove n d)"
  by (simp add: single_media_def)

lemma media_inv_less:
  assumes m: "media_inv sha w" and r1: "journal r1 = journal (recs w)"
      "dir r1 = dir (recs w) \<or> dir r1 = bt_remove n (dir (recs w))"
    and s: "set (manifests s) \<subseteq> set (manifests (rstate (recs w)))"
  shows "media_inv sha \<lparr>recs = r1\<lparr>rstate := s\<rparr>, tasks = tasks w\<rparr>"
proof -
  have ok: "ready_ok sha (dir r1) mm" if "ready_ok sha (dir (recs w)) mm" for mm
  proof (rule ready_ok_mono [OF that])
    fix fmt
    show "bt_get (dir r1) (media_name (recording_id mm) (extension fmt)) = None
      \<or> bt_get (dir r1) (media_name (recording_id mm) (extension fmt))
        = bt_get (dir (recs w)) (media_name (recording_id mm) (extension fmt))"
      using r1(2) by (metis bt_get_remove)
  qed
  have "single_media (dir r1)"
    using m r1(2) single_media_remove by (auto simp: media_inv_def)
  then show ?thesis
    using media_invD [OF m] s ok unfolding r1(1) [symmetric] by (intro media_invI) (auto simp: settled_def)
qed

lemma media_inv_acknowledge:
  assumes inv: "quota_inv cfg sha is_uuid w" and m: "media_inv sha w"
    and a: "acknowledge now removal outcome i (recs w) = (res, r')"
  shows "media_inv sha (w\<lparr>recs := r'\<rparr>)"
  using a
proof (cases rule: acknowledge_cases)
  case 1
  then show ?thesis using m by simp
next
  case (2 mm r1)
  have s: "set (manifests (forget now i (rstate (recs w)))) \<subseteq> set (manifests (rstate (recs w)))"
    by auto
  have "media_inv sha \<lparr>recs = r1\<lparr>rstate := rstate r1\<rparr>, tasks = tasks w\<rparr>"
    using 2(3) by (intro media_inv_less [OF m 2(4,5)]) simp
  then have "media_inv sha \<lparr>recs = r1, tasks = tasks w\<rparr>"
    by simp
  then show ?thesis
    using 2(6) media_inv_persist [OF forget_inv [OF inv 2(1,2,4,5)] media_inv_less [OF m 2(4,5) s]]
    by (auto simp: world_eta)
qed

lemma recover_ready:
  assumes "single_media d" "ready_ok sha d m" "recording_id m \<noteq> []"
  shows "ready_ok sha (remove_partial_files is_uuid d) (recover_manifest sha now d m)"
proof -
  let ?i = "recording_id m"
  have same: "recording_id (recover_manifest sha now d m) = ?i"
    by (auto simp: recover_manifest_def Let_def fail_with_def split: sum.splits option.splits)
  have "ready_ok sha d (recover_manifest sha now d m)"
  proof (cases "is_active m")
    case False
    then show ?thesis
      using assms(2) by (auto simp: recover_manifest_def Let_def is_active_def fail_with_def ready_ok_def)
  next
    case True
    then have act: "status m = ''pending'' \<or> status m = ''recording''"
      by (simp add: is_active_def)
    show ?thesis
    proof (cases "inspect_media sha (bt_get d (media_path d m))")
      case (Inl e)
      then show ?thesis
        using act by (simp add: recover_manifest_def Let_def fail_with_def)
    next
      case (Inr found)
      show ?thesis
      proof (cases "bt_get d (media_path d m)")
        case None
        then show ?thesis
          using act by (simp add: recover_manifest_def Let_def fail_with_def inspect_media_def)
      next
        case (Some c)
        then have found: "inspect_media sha (bt_get d (media_path d m)) = Inr (Some (length c, sha c))"
          using Inr by (auto simp: inspect_media_def Let_def split: if_splits)
        have "ready_ok sha d (m\<lparr>status := ''ready'',
            media_type := (if path_extension (media_path d m) = Some ''ts'' then ''video/mp2t'' else ''video/mpeg''),
            started_at := s, completed_at := t, actual_duration_ms := u,
            media_bytes := Some (length c), sha256 := Some (sha c), error_code := None\<rparr>)" for s t u
          using assms(1) [unfolded single_media_def, rule_format, of ?i] Some assms(3)
          by (auto simp: ready_ok_def all_recording_format media_path_def Let_def split: if_splits)
        then show ?thesis
          using act found by (simp add: recover_manifest_def Let_def)
      qed
    qed
  qed
  then show ?thesis
    by (rule ready_ok_mono)
      (auto simp: remove_partial_files_def bt_get_retain)
qed

lemma load_rstate:
  "rstate (snd (load sha now is_uuid outcome d jr)) = fst (recover sha now is_uuid d (load_state jr))"
  "dir (snd (load sha now is_uuid outcome d jr)) = remove_partial_files is_uuid d"
  by (simp_all add: load_def recover_def)

lemma loaded_manifest:
  assumes "(i, m) \<in> set (manifests (load_state jr))"
  shows "\<exists>j. jr = Some j \<and> m \<in> set (j_recordings j) \<and> i = recording_id m"
  using assms set_bt_collect [THEN subsetD] by (fastforce simp: load_state_def split: option.splits)

lemma media_inv_load:
  assumes single: "single_media d" and d: "bt_ordered d" "finished_bytes d \<le> quota_bytes (cfg :: rec_config)"
    and j: "\<And>j m. jr = Some j \<Longrightarrow> m \<in> set (j_recordings j) \<Longrightarrow> recording_id m \<noteq> [] \<and> ready_ok sha d m"
  shows "media_inv sha \<lparr>recs = snd (load sha now is_uuid outcome d jr), tasks = []\<rparr>"
proof -
  let ?s = "fst (recover sha now is_uuid d (load_state jr))" and ?d = "remove_partial_files is_uuid d"
  let ?r = "\<lparr>rstate = ?s, dir = ?d, journal = jr\<rparr>"
  have get: "bt_get ?d n = None \<or> bt_get ?d n = bt_get d n" for n
    by (auto simp: remove_partial_files_def bt_get_retain)
  have "quota_inv cfg sha is_uuid \<lparr>recs = snd (load sha now is_uuid Refused d jr), tasks = []\<rparr>"
    using load_inv [OF d] j by blast
  moreover have "snd (load sha now is_uuid Refused d jr) = ?r"
    by (simp add: load_def recover_def persist_def Let_def)
  ultimately have q: "quota_inv cfg sha is_uuid \<lparr>recs = ?r, tasks = []\<rparr>"
    by simp
  have "media_inv sha \<lparr>recs = ?r, tasks = []\<rparr>"
  proof (rule media_invI)
    show "single_media (dir ?r)"
      using single get by (simp add: single_media_def) metis
    show "ready_ok sha (dir ?r) m" if mem: "(i, m) \<in> set (manifests (rstate ?r))" for i m
    proof -
      obtain m0 where "m = recover_manifest sha now d m0" "(i, m0) \<in> set (manifests (load_state jr))"
        using mem by (auto simp: recover_def)
      then show ?thesis
        using loaded_manifest j recover_ready [OF single] by (fastforce)
    qed
    show "ready_ok sha (dir ?r) m" if jr: "journal ?r = Some j'" "m \<in> set (j_recordings j')" for j' m
      using j jr get by (auto intro: ready_ok_mono)
  qed (simp add: settled_def)
  from media_inv_persist [OF q this, of outcome] show ?thesis
    by (simp add: load_def recover_def)
qed

lemma media_inv_restart:
  assumes inv: "quota_inv cfg sha is_uuid w" and m: "media_inv sha w"
    and l: "load sha now is_uuid outcome (dir (recs w)) (journal (recs w)) = (res, r')"
  shows "media_inv sha \<lparr>recs = r', tasks = []\<rparr>"
proof -
  have "finished_bytes (dir (recs w)) \<le> quota_bytes cfg"
    using finished_le_disk disk_le_usage [OF inv] quota_inv_parts(4) [OF inv] le_trans by blast
  moreover have "recording_id mm \<noteq> [] \<and> ready_ok sha (dir (recs w)) mm"
    if "journal (recs w) = Some j" "mm \<in> set (j_recordings j)" for j mm
    using quota_inv_parts(5) [OF inv] media_invD(3) [OF m that] that by (simp add: rec_shape_def)
  ultimately have "media_inv sha \<lparr>recs = snd (load sha now is_uuid outcome (dir (recs w)) (journal (recs w))), tasks = []\<rparr>"
    by (rule media_inv_load [OF media_invD(1) [OF m] quota_inv_parts(1) [OF inv]])
  then show ?thesis
    by (simp add: l)
qed

lemma media_inv_files_steps:
  assumes inv: "quota_inv cfg sha is_uuid w" and m: "media_inv sha w"
  shows "bt_get (tasks w) i = Some Begun \<Longrightarrow> media_inv sha (set_phase i (Finishing (Inl e)) w)"
    and "bt_get (tasks w) i = Some Begun \<Longrightarrow> media_inv sha (set_phase i (Capturing writer_new)
          (w\<lparr>recs := set_dir (bt_insert (partial_name i) [] (dir (recs w))) (recs w)\<rparr>))"
    and "bt_get (tasks w) i = Some (Capturing wr) \<Longrightarrow> media_inv sha (set_phase i (Capturing wr')
            (w\<lparr>recs := set_dir (bt_insert (partial_name i) (media wr') (dir (recs w))) (recs w)\<rparr>))"
    and "bt_get (tasks w) i = Some (Capturing wr) \<Longrightarrow> media_inv sha (set_phase i (Finishing (Inl e))
          (w\<lparr>recs := set_dir (bt_remove (partial_name i) (dir (recs w))) (recs w)\<rparr>))"
    and "bt_get (tasks w) i = Some (Capturing wr) \<Longrightarrow> media_inv sha (set_phase i (Published out)
          (w\<lparr>recs := set_dir (bt_insert (media_name i (extension (wr_format out))) (media wr)
             (bt_remove (partial_name i) (dir (recs w)))) (recs w)\<rparr>))"
    and "bt_get (tasks w) i = Some (Published out) \<Longrightarrow> media_inv sha (set_phase i (Finishing (Inl e))
          (w\<lparr>recs := set_dir (bt_remove (media_name i (extension (wr_format out))) (dir (recs w))) (recs w)\<rparr>))"
proof -
  have step: "media_inv sha (set_phase i ph' (w\<lparr>recs := set_dir d' (recs w)\<rparr>))"
    if ph: "bt_get (tasks w) i = Some ph" "\<not> is_done ph"
      and d': "\<And>n. n \<notin> owned i \<Longrightarrow> bt_get d' n = bt_get (dir (recs w)) n"
        "bt_get d' (media_name i ''ts'') = None \<or> bt_get d' (media_name i ''mpegps'') = None" for ph ph' d'
    using media_inv_files [OF inv m task_active(1) [OF inv ph] ph d', of ph'] by (simp add: world_eta)
  note single = media_invD(1) [OF m, unfolded single_media_def, rule_format, of i]
  {
    assume b: "bt_get (tasks w) i = Some Begun"
    show "media_inv sha (set_phase i (Finishing (Inl e)) w)"
      using step [OF b, of "dir (recs w)" "Finishing (Inl e)"] single by simp
    show "media_inv sha (set_phase i (Capturing writer_new)
          (w\<lparr>recs := set_dir (bt_insert (partial_name i) [] (dir (recs w))) (recs w)\<rparr>))"
      using single task_active(2) [OF inv b] by (intro step [OF b]) (auto simp: owned_def)
  next
    assume c: "bt_get (tasks w) i = Some (Capturing wr)"
    note active = task_active [OF inv c, simplified]
    show "media_inv sha (set_phase i (Capturing wr')
            (w\<lparr>recs := set_dir (bt_insert (partial_name i) (media wr') (dir (recs w))) (recs w)\<rparr>))"
      using single active(2) by (intro step [OF c]) (auto simp: owned_def)
    show "media_inv sha (set_phase i (Finishing (Inl e))
          (w\<lparr>recs := set_dir (bt_remove (partial_name i) (dir (recs w))) (recs w)\<rparr>))"
      using single active(2) by (intro step [OF c]) (auto simp: owned_def)
    show "media_inv sha (set_phase i (Published out)
          (w\<lparr>recs := set_dir (bt_insert (media_name i (extension (wr_format out))) (media wr)
             (bt_remove (partial_name i) (dir (recs w)))) (recs w)\<rparr>))"
      using active(2,3) by (intro step [OF c]; cases "wr_format out") (auto simp: owned_def)
  next
    assume p: "bt_get (tasks w) i = Some (Published out)"
    show "media_inv sha (set_phase i (Finishing (Inl e))
          (w\<lparr>recs := set_dir (bt_remove (media_name i (extension (wr_format out))) (dir (recs w))) (recs w)\<rparr>))"
      using single by (intro step [OF p]; cases "wr_format out") (auto simp: owned_def)
  }
qed

lemma media_inv_step:
  assumes "rec_step cfg sha is_uuid w w'" "quota_inv cfg sha is_uuid w" "media_inv sha w"
    and lim: "quota_bytes cfg < USIZE_MAX"
  shows "media_inv sha w'"
  using assms(1-3)
proof (cases rule: rec_step.cases)
  case (start_live outcome uuid now cam duration key res r' spawned)
  note fresh = start_live(3)
  from start_live(2) show ?thesis
  proof (cases rule: start_cases)
    case 1
    then show ?thesis using start_live(1) assms(3) by (cases w) simp
  next
    case 2
    from media_inv_enqueue [OF assms(2,3) _ _ lim this] show ?thesis
      using start_live(1) fresh by (cases spawned) simp_all
  qed
next
  case (start_card outcome uuid now live cam from_s to_s key res r' spawned)
  note fresh = start_card(3)
  from start_card(2) show ?thesis
  proof (cases rule: start_sd_cases)
    case 1
    then show ?thesis using start_card(1) assms(3) by (cases w) simp
  next
    case 2
    from media_inv_enqueue [OF assms(2,3) _ _ lim this] show ?thesis
      using start_card(1) fresh by (cases spawned) simp_all
  qed
qed (use assms(2,3) lim in \<open>blast intro: media_inv_begin media_inv_files_steps media_inv_complete
      media_inv_end media_inv_acknowledge media_inv_restart\<close>)+

text \<open>The manager after its first start on an empty spool.\<close>

definition first_start :: "(bytes \<Rightarrow> string) \<Rightarrow> string \<Rightarrow> (string \<Rightarrow> bool) \<Rightarrow> world" where
  "first_start sha now is_uuid = \<lparr>recs = snd (load sha now is_uuid Saved [] None), tasks = []\<rparr>"

lemma reachable_inv:
  assumes "rec_run cfg sha is_uuid (first_start sha now is_uuid) w"
    and lim: "quota_bytes cfg < USIZE_MAX" "max_bytes cfg < USIZE_MAX"
  shows "quota_inv cfg sha is_uuid w" "media_inv sha w"
proof -
  have "quota_inv cfg sha is_uuid w \<and> media_inv sha w"
    using assms(1)
  proof (induction rule: rtranclp_induct)
    case base
    have d: "bt_ordered ([] :: spool)" "finished_bytes [] \<le> quota_bytes cfg" "single_media []"
      by (simp_all add: finished_bytes_def single_media_def)
    show ?case
      unfolding first_start_def using load_inv [OF d(1,2)] media_inv_load [OF d(3,1,2)] by blast
  next
    case (step v w)
    then show ?case
      using quota_inv_step media_inv_step lim by blast
  qed
  then show "quota_inv cfg sha is_uuid w" "media_inv sha w"
    by simp_all
qed

text \<open>Whatever happened since the first start, the media a client is given for a finished
  recording is a file of that recording, and the manifest states exactly its size, its digest and its
  format.\<close>

theorem media_matches_manifest:
  assumes "quota_bytes cfg < USIZE_MAX" "max_bytes cfg < USIZE_MAX"
    and "rec_run cfg sha is_uuid (first_start sha now is_uuid) w"
    and "media_of i (recs w) = Some (path, kind)"
  shows "\<exists>m c fmt. bt_get (manifests (rstate (recs w))) i = Some m \<and> bt_get (dir (recs w)) path = Some c
    \<and> path = media_name i (extension fmt) \<and> kind = media_type_of fmt
    \<and> media_bytes m = Some (length c) \<and> sha256 m = Some (sha c)"
proof -
  note inv = reachable_inv [OF assms(3,1,2)]
  obtain m c where m: "bt_get (manifests (rstate (recs w))) i = Some m" "status m = ''ready''"
    and path: "path = media_path (dir (recs w)) m" "kind = media_type m" "bt_get (dir (recs w)) path = Some c"
    using assms(4) by (auto simp: media_of_def Let_def split: option.splits if_splits)
  have i: "recording_id m = i"
    using quota_inv_parts(5) [OF inv(1)] map_of_SomeD [OF m(1)] by (auto simp: rec_shape_def)
  obtain fmt where fmt: "path = media_name i (extension fmt)"
    using path(1) i by (auto simp: media_path_def Let_def split: if_splits intro: that [of MpegTs] that [of MpegPs])
  have "ready_ok sha (dir (recs w)) m"
    using media_invD(2) [OF inv(2) map_of_SomeD [OF m(1)]] .
  then have "media_bytes m = Some (length c) \<and> sha256 m = Some (sha c) \<and> media_type m = media_type_of fmt"
    using m(2) path(3) unfolding ready_ok_def i fmt by blast
  then show ?thesis
    using m(1) path fmt by blast
qed

section \<open>Idempotency keys\<close>

lemma keys_bt_collect: "fst ` set (bt_collect xs) = fst ` set xs"
proof -
  have "fst ` set (fold (\<lambda>(k, v). bt_insert k v) xs m) = fst ` set xs \<union> fst ` set m" for m
  proof (induction xs arbitrary: m)
    case (Cons e xs)
    obtain k v where "e = (k, v)" by (cases e)
    then show ?case using Cons.IH [of "bt_insert k v m"] by simp
  qed simp
  from this [of "[]"] show ?thesis
    by (simp add: bt_collect_def)
qed

definition keys_fine :: "string set \<Rightarrow> (string, string) btree \<Rightarrow> bool" where
  "keys_fine ids idem \<longleftrightarrow> bt_ordered idem \<and> snd ` set idem \<subseteq> ids
     \<and> (\<forall>k k' i. (k, i) \<in> set idem \<longrightarrow> (k', i) \<in> set idem \<longrightarrow> k = k')"

definition key_inv :: "recorder \<Rightarrow> bool" where
  "key_inv r \<longleftrightarrow> keys_fine (fst ` set (manifests (rstate r))) (idempotency (rstate r))
     \<and> (\<forall>j. journal r = Some j \<longrightarrow> keys_fine (recording_id ` set (j_recordings j)) (j_idempotency j))"

text \<open>A key that belongs to a recording, live or acknowledged.\<close>

definition key_used :: "string \<Rightarrow> string \<Rightarrow> (string, string) btree \<Rightarrow> ack_tombstone list \<Rightarrow> bool" where
  "key_used key i idem acks \<longleftrightarrow> bt_get idem key = Some i \<or> (\<exists>t \<in> set acks. ack_key t = Some key)"

definition key_saved :: "string \<Rightarrow> string \<Rightarrow> recorder \<Rightarrow> bool" where
  "key_saved key i r \<longleftrightarrow> key_used key i (idempotency (rstate r)) (acknowledgements (rstate r))
     \<and> (\<exists>j. journal r = Some j \<and> key_used key i (j_idempotency j) (j_acknowledgements j))"

lemma key_inv_persist:
  assumes "key_inv r" "\<forall>(i, m) \<in> set (manifests (rstate r)). recording_id m = i"
  shows "key_inv (snd (persist outcome r))"
proof -
  have "recording_id ` set (bt_values (manifests (rstate r))) = fst ` set (manifests (rstate r))"
    using assms(2) by (force simp: bt_values_def image_iff)
  then show ?thesis
    using assms(1) persist_journal [of outcome r] unfolding key_inv_def by auto
qed

lemma key_saved_persist:
  assumes "key_saved key i r"
  shows "key_saved key i (snd (persist outcome r))"
  using assms by (cases outcome) (auto simp: key_saved_def persist_def Let_def)

lemma keys_fine_insert:
  assumes "keys_fine ids idem" "i \<notin> snd ` set idem"
  shows "keys_fine (insert i ids) (bt_insert k i idem)"
  using assms by (auto simp: keys_fine_def set_bt_insert image_iff)

lemma keys_fine_retain:
  assumes "keys_fine ids idem"
  shows "keys_fine (ids - {i}) (bt_retain (\<lambda>_ v. v \<noteq> i) idem)"
proof -
  have "set (bt_retain (\<lambda>_ v. v \<noteq> i) idem) = {e \<in> set idem. snd e \<noteq> i}"
    by (auto simp: bt_retain_def)
  then show ?thesis
    using assms by (auto simp: keys_fine_def)
qed

lemma forget_key_used:
  assumes fine: "keys_fine ids (idempotency s)" and used: "key_used key i (idempotency s) (acknowledgements s)"
    and room: "length (acknowledgements s) < MAX_ACK_TOMBSTONES"
  shows "key_used key i (idempotency (forget now j s)) (acknowledgements (forget now j s))"
proof -
  have acks: "set (acknowledgements s) \<subseteq> set (acknowledgements (forget now j s))"
    using room by (auto simp: forget_def Let_def)
  show ?thesis
  proof (cases "bt_get (idempotency s) key = Some i")
    case False
    then show ?thesis using used acks by (auto simp: key_used_def)
  next
    case True
    have ord: "bt_ordered (idempotency s)" and mem: "(key, i) \<in> set (idempotency s)"
      using fine True map_of_SomeD by (auto simp: keys_fine_def)
    show ?thesis
    proof (cases "j = i")
      case True
      have "find (\<lambda>(_, v). v = j) (idempotency s) = Some (key, i)"
      proof -
        obtain e where e: "find (\<lambda>(_, v). v = j) (idempotency s) = Some e"
          using mem True by (cases "find (\<lambda>(_, v). v = j) (idempotency s)") (auto simp: find_None_iff)
        then have "e \<in> set (idempotency s)" "snd e = j"
          by (auto simp: find_Some_iff in_set_conv_nth split_def)
        then show ?thesis
          using e mem fine True unfolding keys_fine_def by (metis prod.collapse)
      qed
      then show ?thesis
        using room by (auto simp: key_used_def forget_def Let_def)
    next
      case False
      then have "(key, i) \<in> set (idempotency (forget now j s))"
        using mem by (auto simp: forget_def Let_def bt_retain_def)
      moreover have "bt_ordered (idempotency (forget now j s))"
        using ord by (simp add: forget_def Let_def)
      ultimately show ?thesis
        using bt_get_entry by (fastforce simp: key_used_def)
    qed
  qed
qed

abbreviation ids_match :: "recorder \<Rightarrow> bool" where
  "ids_match r \<equiv> \<forall>(i, m) \<in> set (manifests (rstate r)). recording_id m = i"

lemma quota_ids_match: "quota_inv cfg sha is_uuid w \<Longrightarrow> ids_match (recs w)"
  by (auto simp: quota_inv_def rec_shape_def)

lemma keys_modify: "fst ` set (bt_modify i f m) = fst ` set m"
  by (metis keys_bt_modify list.set_map)

lemma key_inv_set_manifest [simp]: "key_inv (set_manifest i f r) = key_inv r"
  by (simp add: key_inv_def keys_modify)

lemma key_saved_set_manifest [simp]: "key_saved key i (set_manifest j f r) = key_saved key i r"
  by (simp add: key_saved_def)

lemma key_dir [simp]: "key_inv (set_dir d r) = key_inv r" "key_saved key i (set_dir d r) = key_saved key i r"
  by (simp_all add: key_inv_def key_saved_def)

lemma ids_match_set_manifest:
  assumes "ids_match r" "\<And>m. recording_id (f m) = recording_id m"
  shows "ids_match (set_manifest i f r)"
  using assms by (auto simp: bt_modify_def)

lemma key_jobs:
  assumes k: "key_inv r" and ids: "ids_match r"
  shows "begin_job outcome i r = (res1, r1) \<Longrightarrow> key_inv r1 \<and> (key_saved key a r \<longrightarrow> key_saved key a r1)"
    and "complete now i out ms r = (res2, r2) \<Longrightarrow> key_inv r2 \<and> (key_saved key a r \<longrightarrow> key_saved key a r2)"
    and "key_inv (record_end now outcome i res r) \<and> (key_saved key a r \<longrightarrow> key_saved key a (record_end now outcome i res r))"
proof -
  have modify: "key_inv (snd (persist outcome (set_manifest i f r)))
      \<and> (key_saved key a r \<longrightarrow> key_saved key a (snd (persist outcome (set_manifest i f r))))"
    if f: "\<And>m. recording_id (f m) = recording_id m" for f
    using key_inv_persist ids_match_set_manifest [OF ids f] key_saved_persist k by simp
  show "begin_job outcome i r = (res1, r1) \<Longrightarrow> key_inv r1 \<and> (key_saved key a r \<longrightarrow> key_saved key a r1)"
    using modify [of "\<lambda>m. m\<lparr>status := ''recording''\<rparr>"] k
    by (auto simp: begin_job_def split: option.splits prod.splits)
  show "complete now i out ms r = (res2, r2) \<Longrightarrow> key_inv r2 \<and> (key_saved key a r \<longrightarrow> key_saved key a r2)"
    using k by (auto simp: complete_def split: option.splits)
  show "key_inv (record_end now outcome i res r) \<and> (key_saved key a r \<longrightarrow> key_saved key a (record_end now outcome i res r))"
    using modify [of "fail_with now (failure_code e)" for e] key_inv_persist [OF k ids] key_saved_persist k
    by (cases res) (auto simp: record_end_def fail_with_def split: option.splits)
qed

lemma key_forget:
  assumes k: "key_inv r" and ids: "ids_match r" and r1: "rstate r1 = rstate r" "journal r1 = journal r"
  shows "key_inv (r1\<lparr>rstate := forget now i (rstate r)\<rparr>)" "ids_match (r1\<lparr>rstate := forget now i (rstate r)\<rparr>)"
    "key_saved key a r \<Longrightarrow> length (acknowledgements (rstate r)) < MAX_ACK_TOMBSTONES
      \<Longrightarrow> key_saved key a (r1\<lparr>rstate := forget now i (rstate r)\<rparr>)"
proof -
  let ?s = "rstate r"
  have fine: "keys_fine (fst ` set (manifests ?s)) (idempotency ?s)"
    using k by (simp add: key_inv_def)
  have "fst ` set (manifests (forget now i ?s)) = fst ` set (manifests ?s) - {i}"
    by force
  moreover have "idempotency (forget now i ?s) = bt_retain (\<lambda>_ v. v \<noteq> i) (idempotency ?s)"
    by (simp add: forget_def Let_def)
  ultimately show "key_inv (r1\<lparr>rstate := forget now i ?s\<rparr>)"
    using k keys_fine_retain [OF fine, of i] r1(2) by (simp add: key_inv_def)
  show "ids_match (r1\<lparr>rstate := forget now i ?s\<rparr>)"
    using ids by auto
  assume "key_saved key a r" "length (acknowledgements ?s) < MAX_ACK_TOMBSTONES"
  then show "key_saved key a (r1\<lparr>rstate := forget now i ?s\<rparr>)"
    using forget_key_used [OF fine, of key a now i] r1(2) by (auto simp: key_saved_def)
qed

lemma key_acknowledge:
  assumes k: "key_inv r" and ids: "ids_match r" and a: "acknowledge now removal outcome i r = (res, r')"
  shows "key_inv r'"
    "key_saved key x r \<Longrightarrow> length (acknowledgements (rstate r)) < MAX_ACK_TOMBSTONES \<Longrightarrow> key_saved key x r'"
proof -
  have "key_inv r' \<and> (key_saved key x r \<longrightarrow> length (acknowledgements (rstate r)) < MAX_ACK_TOMBSTONES \<longrightarrow> key_saved key x r')"
    using a
  proof (cases rule: acknowledge_cases)
    case 1
    then show ?thesis using k by simp
  next
    case (2 m r1)
    note f = key_forget(1,2) [OF k ids 2(3,4), of now i] key_forget(3) [OF k ids 2(3,4), of key x now i]
    have "key_inv r1" "key_saved key x r1 = key_saved key x r"
      using k 2(3,4) by (simp_all add: key_inv_def key_saved_def)
    then show ?thesis
      using 2(6) key_inv_persist [OF f(1,2)] key_saved_persist f(3) by blast
  qed
  then show "key_inv r'"
    "key_saved key x r \<Longrightarrow> length (acknowledgements (rstate r)) < MAX_ACK_TOMBSTONES \<Longrightarrow> key_saved key x r'"
    by simp_all
qed

lemma key_admitted:
  assumes k: "key_inv (recs w)" and inv: "quota_inv cfg sha is_uuid w" and fresh: "fresh_id is_uuid (recording_id m) w"
  shows "key_inv (admitted key m (recs w))" "ids_match (admitted key m (recs w))"
proof -
  have ord: "bt_ordered (manifests (rstate (recs w)))"
    using quota_inv_parts [OF inv] by simp
  have "keys_fine (insert (recording_id m) (fst ` set (manifests (rstate (recs w)))))
      (bt_insert key (recording_id m) (idempotency (rstate (recs w))))"
    using k fresh by (intro keys_fine_insert) (auto simp: key_inv_def fresh_id_def)
  then show "key_inv (admitted key m (recs w))"
    using k by (simp add: key_inv_def admitted_def)
  show "ids_match (admitted key m (recs w))"
    using quota_ids_match [OF inv] ord by (auto simp: admitted_def set_bt_insert)
qed

lemma key_enqueue:
  assumes k: "key_inv (recs w)" and inv: "quota_inv cfg sha is_uuid w" and fresh: "fresh_id is_uuid (recording_id m) w"
    and e: "enqueue cfg outcome key m exclusive (recs w) = (res, r', spawned)"
  shows "key_inv r'" "key_saved key' x (recs w) \<Longrightarrow> key_saved key' x r'"
    "spawned \<Longrightarrow> key_saved key (recording_id m) r'"
proof -
  have "key_inv r' \<and> (key_saved key' x (recs w) \<longrightarrow> key_saved key' x r') \<and> (spawned \<longrightarrow> key_saved key (recording_id m) r')"
    using e
  proof (cases rule: enqueue_cases)
    case 1
    then show ?thesis using k by simp
  next
    case 2
    note a = key_admitted [OF k inv fresh, of key]
    have "key_saved key' x (admitted key m (recs w))" if "key_saved key' x (recs w)"
      using that 2(2,3) by (auto simp: key_saved_def key_used_def admitted_def)
    moreover have "key_saved key (recording_id m) r'" if "spawned"
    proof -
      have "outcome = Saved"
        using 2(7) that by (cases outcome) (simp_all add: persist_def Let_def)
      then show ?thesis
        using 2(4) by (simp add: key_saved_def key_used_def persist_def Let_def admitted_def)
    qed
    ultimately show ?thesis
      using key_inv_persist [OF a, of outcome] key_saved_persist 2(4) by blast
  qed
  then show "key_inv r'" "key_saved key' x (recs w) \<Longrightarrow> key_saved key' x r'" "spawned \<Longrightarrow> key_saved key (recording_id m) r'"
    by simp_all
qed

lemma key_load:
  assumes j: "\<And>j. jr = Some j \<Longrightarrow> keys_fine (recording_id ` set (j_recordings j)) (j_idempotency j)"
    and l: "load sha now is_uuid outcome d jr = (res, r')"
  shows "key_inv r'" "jr = Some j \<Longrightarrow> key_used key x (j_idempotency j) (j_acknowledgements j) \<Longrightarrow> key_saved key x r'"
proof -
  let ?s = "fst (recover sha now is_uuid d (load_state jr))"
  let ?r = "\<lparr>rstate = ?s, dir = remove_partial_files is_uuid d, journal = jr\<rparr>"
  have r': "r' = snd (persist outcome ?r)"
    using l by (simp add: load_def recover_def)
  have id: "recording_id (recover_manifest sha now d m) = recording_id m" for m
    by (auto simp: recover_manifest_def Let_def fail_with_def split: sum.splits option.splits)
  have s: "fst ` set (manifests ?s) = fst ` set (manifests (load_state jr))"
    "idempotency ?s = idempotency (load_state jr)" "acknowledgements ?s = acknowledgements (load_state jr)"
    by (force simp: recover_def image_iff)+
  have "keys_fine (fst ` set (manifests ?s)) (idempotency ?s)"
  proof (cases jr)
    case None
    then show ?thesis unfolding s by (simp add: load_state_def keys_fine_def)
  next
    case (Some j')
    then show ?thesis
      using j unfolding s by (simp add: load_state_def keys_bt_collect image_image)
  qed
  then have "key_inv ?r"
    using j by (simp add: key_inv_def)
  moreover have "ids_match ?r"
    using loaded_manifest id by (fastforce simp: recover_def)
  ultimately show "key_inv r'"
    using key_inv_persist r' by blast
  assume "jr = Some j" "key_used key x (j_idempotency j) (j_acknowledgements j)"
  then have "key_saved key x ?r"
    by (simp add: key_saved_def recover_def load_state_def)
  then show "key_saved key x r'"
    using key_saved_persist r' by blast
qed

lemma key_steps:
  assumes "rec_step cfg sha is_uuid w w'" and inv: "quota_inv cfg sha is_uuid w" and k: "key_inv (recs w)"
  shows "key_inv (recs w') \<and> (key_saved key x (recs w) \<longrightarrow>
    length (acknowledgements (rstate (recs w))) < MAX_ACK_TOMBSTONES \<longrightarrow> key_saved key x (recs w'))"
  using assms(1)
proof (cases rule: rec_step.cases)
  case (start_live outcome uuid now cam duration k2 res r' spawned)
  from start_live(2) show ?thesis
  proof (cases rule: start_cases)
    case 1
    then show ?thesis using start_live(1) k by simp
  next
    case 2
    then show ?thesis
      using key_enqueue(1,2) [OF k inv _ 2] start_live(1,3) by simp
  qed
next
  case (start_card outcome uuid now live cam from_s to_s k2 res r' spawned)
  from start_card(2) show ?thesis
  proof (cases rule: start_sd_cases)
    case 1
    then show ?thesis using start_card(1) k by simp
  next
    case 2
    then show ?thesis
      using key_enqueue(1,2) [OF k inv _ 2] start_card(1,3) by simp
  qed
next
  case (restarted now outcome res r')
  have j: "\<And>j. journal (recs w) = Some j \<Longrightarrow> keys_fine (recording_id ` set (j_recordings j)) (j_idempotency j)"
    using k by (simp add: key_inv_def)
  show ?thesis
    using key_load [OF j restarted(2)] restarted(1) by (auto simp: key_saved_def [of _ _ "recs w"])
next
  case (acknowledged now removal outcome i res r')
  then show ?thesis
    using key_acknowledge [OF k quota_ids_match [OF inv]] by (simp add: world_eta)
qed (use key_jobs [OF k quota_ids_match [OF inv]] k in \<open>auto simp: world_eta\<close>)

text \<open>Steps taken while the tombstone list still has room: nothing is evicted.\<close>

definition kept_step :: "rec_config \<Rightarrow> (bytes \<Rightarrow> string) \<Rightarrow> (string \<Rightarrow> bool) \<Rightarrow> world \<Rightarrow> world \<Rightarrow> bool" where
  "kept_step cfg sha is_uuid v w \<longleftrightarrow> rec_step cfg sha is_uuid v w
     \<and> length (acknowledgements (rstate (recs v))) < MAX_ACK_TOMBSTONES"

lemma key_inv_first: "key_inv (recs (first_start sha now is_uuid))"
  by (simp add: first_start_def load_def recover_def load_state_def persist_def Let_def key_inv_def keys_fine_def bt_values_def)

lemma reachable_key_inv:
  assumes "rec_run cfg sha is_uuid (first_start sha now is_uuid) w"
    and lim: "quota_bytes cfg < USIZE_MAX" "max_bytes cfg < USIZE_MAX"
  shows "key_inv (recs w)"
  using assms(1)
proof (induction rule: rtranclp_induct)
  case base
  show ?case by (rule key_inv_first)
next
  case (step v w)
  then show ?case
    using key_steps reachable_inv(1) [OF _ lim] by blast
qed

lemma used_key_refused:
  assumes k: "key_inv r" and ids: "ids_match r"
    and used: "key_used key i (idempotency (rstate r)) (acknowledgements (rstate r))"
    and e: "enqueue cfg outcome key m exclusive r = (res, r', spawned)"
  shows "\<not> spawned \<and> r' = r \<and> (case res of Inr m' \<Rightarrow> recording_id m' = i \<and> same_request m' m
    | Inl err \<Rightarrow> err \<noteq> Recording ''recording journal is inconsistent'')"
proof (cases "8 \<le> length key \<and> length key \<le> 128 \<and> \<not> list_ex (\<lambda>t. ack_key t = Some key) (acknowledgements (rstate r))")
  case False
  then have "enqueue cfg outcome key m exclusive r =
      (if \<not> (8 \<le> length key \<and> length key \<le> 128)
       then (Inl (Recording ''Idempotency-Key must contain 8 to 128 characters''), r, False)
       else (Inl (Recording ''Idempotency-Key belongs to an acknowledged recording''), r, False))"
    by (auto simp: enqueue_def Let_def)
  then show ?thesis
    using e by (cases "8 \<le> length key \<and> length key \<le> 128") auto
next
  case True
  then have got: "bt_get (idempotency (rstate r)) key = Some i"
    using used by (auto simp: key_used_def list_ex_iff)
  then have "i \<in> fst ` set (manifests (rstate r))"
    using k imageI [OF map_of_SomeD [OF got], of snd] by (auto simp: key_inv_def keys_fine_def)
  then obtain m' where m': "bt_get (manifests (rstate r)) i = Some m'"
    by (metis domD dom_map_of_conv_image_fst)
  have "recording_id m' = i"
    using ids map_of_SomeD [OF m'] by auto
  moreover have "enqueue cfg outcome key m exclusive r = (if same_request m' m then (Inr m', r, False)
      else (Inl (Recording ''Idempotency-Key was reused with a different request''), r, False))"
    using True got m' by (simp add: enqueue_def Let_def)
  ultimately show ?thesis
    using e by (cases "same_request m' m") auto
qed


section \<open>Recovery\<close>

text \<open>What a restart may make of a recording.\<close>

definition settles :: "(bytes \<Rightarrow> string) \<Rightarrow> spool \<Rightarrow> manifest \<Rightarrow> manifest \<Rightarrow> bool" where
  "settles sha d m m' \<longleftrightarrow> recording_id m' = recording_id m \<and> \<not> is_active m' \<and>
     (if is_active m then
        (case bt_get d (media_path d m) of
           None \<Rightarrow> status m' = ''failed'' \<and> error_code m' = Some ''interrupted''
         | Some c \<Rightarrow>
             if has_header MpegPs c \<or> has_header MpegTs c \<and> TS_PACKET_BYTES * 3 \<le> length c
             then status m' = ''ready'' \<and> media_bytes m' = Some (length c) \<and> sha256 m' = Some (sha c)
             else status m' = ''failed'' \<and> error_code m' = Some ''invalid_media'')
      else if status m = ''ready'' \<and> bt_get d (media_path d m) = None
      then status m' = ''failed'' \<and> error_code m' = Some ''missing_media''
      else m' = m)"

lemma inspect_header:
  "inspect_media sha (Some c) =
     (if has_header MpegPs c \<or> has_header MpegTs c \<and> TS_PACKET_BYTES * 3 \<le> length c
      then Inr (Some (length c, sha c)) else Inl (Recording ''recovered media has no MPEG-PS or MPEG-TS header''))"
proof -
  have "starts_with (take (TS_PACKET_BYTES * 3) c) PACK_START \<and> length PACK_START \<le> length (take (TS_PACKET_BYTES * 3) c)
      \<longleftrightarrow> starts_with c PACK_START"
    by (auto simp: starts_with_def TS_PACKET_BYTES_def PACK_START_def min_def)
  moreover have "ts_sync_at (take (TS_PACKET_BYTES * 3) c) 0 \<and> TS_PACKET_BYTES * 3 \<le> length c
      \<longleftrightarrow> ts_sync_at c 0 \<and> TS_PACKET_BYTES * 3 \<le> length c"
    by (auto simp: ts_sync_at_def get_at_Some TS_PACKET_BYTES_def)
  ultimately show ?thesis
    by (auto simp: inspect_media_def Let_def)
qed

lemma recover_settles: "settles sha d m (recover_manifest sha now d m)"
proof (cases "bt_get d (media_path d m)")
  case None
  then show ?thesis
    by (auto simp: settles_def recover_manifest_def Let_def is_active_def inspect_media_def fail_with_def)
next
  case (Some c)
  show ?thesis
  proof (cases "is_active m")
    case True
    then have act: "status m = ''pending'' \<or> status m = ''recording''"
      by (simp add: is_active_def)
    then show ?thesis
      using Some True inspect_header [of sha c]
      by (auto simp: settles_def recover_manifest_def Let_def fail_with_def is_active_def)
  next
    case False
    then show ?thesis
      using Some by (auto simp: settles_def recover_manifest_def Let_def is_active_def)
  qed
qed

text \<open>C16. A restart settles every recording of the journal: none stays active, an unfinished one whose
  file was already published becomes ready with the file's size and digest, the others fail with a
  reason, and no partial file of a recording is left in the spool.\<close>

theorem restart_settles_recordings:
  "list_all2 (\<lambda>(i, m) (i', m'). i' = i \<and> settles sha d m m')
     (manifests (load_state jr)) (manifests (rstate (snd (load sha now is_uuid outcome d jr))))
   \<and> list_all (\<lambda>(n, c). case strip_partial n of None \<Rightarrow> True | Some i \<Rightarrow> \<not> is_uuid i)
       (dir (snd (load sha now is_uuid outcome d jr)))"
  by (auto simp: load_rstate recover_def list_all2_map2 recover_settles remove_partial_files_def bt_retain_def
      list_all_iff intro!: list_all2_refl split: prod.splits)

section \<open>A concrete run\<close>

text \<open>One live recording from its request to its manifest.\<close>

definition run_sha :: "bytes \<Rightarrow> string" where "run_sha c = show_nat (length c)"
definition run_uuid :: "string \<Rightarrow> bool" where "run_uuid i \<longleftrightarrow> i = ''a''"
definition run0 :: world where "run0 = first_start run_sha ''t'' run_uuid"
definition run_request :: "(bridge_error + manifest) \<times> recorder \<times> bool" where
  "run_request = start wit_config Saved ''a'' ''t'' ''front'' 5 ''12345678'' (recs run0)"
definition run1 :: world where
  "run1 = \<lparr>recs = fst (snd run_request), tasks = bt_insert ''a'' Queued (tasks run0)\<rparr>"
definition step_recs :: "string \<Rightarrow> job_phase \<Rightarrow> (recorder \<Rightarrow> recorder) \<Rightarrow> world \<Rightarrow> world" where
  "step_recs i ph f w = set_phase i ph (w\<lparr>recs := f (recs w)\<rparr>)"
definition run2 :: world where
  "run2 = step_recs ''a'' Begun (\<lambda>r. snd (begin_job Saved ''a'' r)) run1"
definition run3 :: world where
  "run3 = step_recs ''a'' (Capturing writer_new) (\<lambda>r. set_dir (bt_insert (partial_name ''a'') [] (dir r)) r) run2"
definition run_writer :: writer where
  "run_writer = \<lparr>alignment = [9], media = PACK_START @ [7], w_format = Some MpegPs\<rparr>"
definition run4 :: world where
  "run4 = step_recs ''a'' (Capturing run_writer)
     (\<lambda>r. set_dir (bt_insert (partial_name ''a'') (media run_writer) (dir r)) r) run3"
definition run_out :: written where
  "run_out = \<lparr>wr_started_at = ''t'', wr_bytes = 5, wr_sha256 = ''5'', wr_format = MpegPs\<rparr>"
definition run5 :: world where
  "run5 = step_recs ''a'' (Published run_out)
     (\<lambda>r. set_dir (bt_insert (media_name ''a'' (extension (wr_format run_out))) (media run_writer)
        (bt_remove (partial_name ''a'') (dir r))) r) run4"
definition run6 :: world where
  "run6 = step_recs ''a'' (Finishing (Inr ())) (\<lambda>r. snd (complete ''u'' ''a'' run_out 5000 r)) run5"

lemma run_fresh: "fresh_id run_uuid ''a'' run0"
proof -
  have "dir (recs run0) = []" "manifests (rstate (recs run0)) = []" "idempotency (rstate (recs run0)) = []" "tasks run0 = []"
    by code_simp+
  moreover have "journal (recs run0) = Some \<lparr>j_schema_version = 2, j_recordings = [], j_idempotency = [], j_acknowledgements = []\<rparr>"
    by code_simp
  ultimately show ?thesis
    by (simp add: fresh_id_def run_uuid_def)
qed

lemma run_admitted:
  "start wit_config Saved ''a'' ''t'' ''front'' 5 ''12345678'' (recs run0)
    = (Inr (pending ''a'' ''t'' ''front'' 5), recs run1, True)"
proof -
  have "fst run_request = Inr (pending ''a'' ''t'' ''front'' 5)" "snd (snd run_request)"
    by code_simp+
  then show ?thesis
    by (simp add: run_request_def [symmetric] run1_def prod_eq_iff)
qed

lemma run_steps: "rec_run wit_config run_sha run_uuid run0 run6"
proof -
  let ?R = "rec_step wit_config run_sha run_uuid"
  have "?R run0 run1"
    using start_live [OF run_admitted run_fresh, of run_sha] by (simp add: run1_def)
  moreover have "?R run1 run2"
  proof -
    have "bt_get (tasks run1) ''a'' = Some Queued" "fst (begin_job Saved ''a'' (recs run1)) = Inr (''front'', 5)"
      by code_simp+
    then show ?thesis
      using begun [of run1 "''a''" Saved "Inr (''front'', 5)"] by (simp add: run2_def step_recs_def prod_eq_iff)
  qed
  moreover have "?R run2 run3"
  proof -
    have "bt_get (tasks run2) ''a'' = Some Begun" "bt_get (dir (recs run2)) (partial_name ''a'') = None"
      by code_simp+
    then show ?thesis
      unfolding run3_def step_recs_def by (rule opened)
  qed
  moreover have "?R run3 run4"
  proof -
    have "bt_get (tasks run3) ''a'' = Some (Capturing writer_new)"
      "write_chunk (max_bytes wit_config) (9 # PACK_START @ [7]) writer_new = Inr run_writer"
      by code_simp+
    then show ?thesis
      unfolding run4_def step_recs_def by (rule chunk)
  qed
  moreover have "?R run4 run5"
  proof -
    have "bt_get (tasks run4) ''a'' = Some (Capturing run_writer)" "write_finish run_sha ''t'' run_writer = Inr run_out"
      by code_simp+
    then show ?thesis
      unfolding run5_def step_recs_def by (rule published)
  qed
  moreover have "?R run5 run6"
  proof -
    have "bt_get (tasks run5) ''a'' = Some (Published run_out)" "fst (complete ''u'' ''a'' run_out 5000 (recs run5)) = Inr ()"
      by code_simp+
    then show ?thesis
      unfolding run6_def step_recs_def using completed [of run5 "''a''" run_out "''u''" 5000 "Inr ()"] by (simp add: prod_eq_iff)
  qed
  ultimately show ?thesis
    by (meson converse_rtranclp_into_rtranclp rtranclp.rtrancl_refl)
qed

lemma run_limits: "quota_bytes wit_config < USIZE_MAX" "max_bytes wit_config < USIZE_MAX"
  by code_simp+

theorem media_matches_manifest_witness:
  "media_of ''a'' (recs run6) = Some (''a.mpegps'', ''video/mpeg'') \<and>
   (\<exists>m c. bt_get (manifests (rstate (recs run6))) ''a'' = Some m \<and> bt_get (dir (recs run6)) ''a.mpegps'' = Some c
      \<and> media_bytes m = Some (length c) \<and> sha256 m = Some (run_sha c))"
proof -
  have out: "media_of ''a'' (recs run6) = Some (''a.mpegps'', ''video/mpeg'')"
    by code_simp
  from media_matches_manifest [OF run_limits run_steps [unfolded run0_def] out] show ?thesis
    using out by blast
qed


end
