(* ===== verification/Recording_Api.thy ===== *)
theory Recording_Api
  imports Recording_Store
begin

text \<open>
  The HTTP operations on recordings (\<open>api_recordings.rs\<close>) up to the serialisation of the answer, and
  the pages of a list (\<open>pagination.rs\<close>). The camera-local bounds of a microSD interval come from the
  device service, an argument here.
\<close>

section \<open>Pages\<close>

definition DEFAULT_PAGE_SIZE :: nat where "DEFAULT_PAGE_SIZE = 20"
definition MAX_PAGE_SIZE :: nat where "MAX_PAGE_SIZE = 100"

record pagination =
  pg_page :: nat
  pg_page_size :: nat
  total_items :: nat
  total_pages :: nat
  has_previous :: bool
  has_next :: bool

definition div_ceil :: "nat \<Rightarrow> nat \<Rightarrow> nat" where
  "div_ceil a b = a div b + (if 0 < a mod b then 1 else 0)"

definition page_of :: "'a list \<Rightarrow> nat option \<Rightarrow> nat option \<Rightarrow> ('a list \<times> pagination) option" where
  "page_of items requested_page requested_size =
     (let n = case_option 1 id requested_page; sz = case_option DEFAULT_PAGE_SIZE id requested_size
      in if n = 0 \<or> sz = 0 \<or> MAX_PAGE_SIZE < sz then None
         else let count = length items; pages = max 1 (div_ceil count sz); first = sat_mul (n - 1) sz
              in Some (case_option [] id (get_range items first (min (sat_add first sz) count)),
                       \<lparr>pg_page = n, pg_page_size = sz, total_items = count, total_pages = pages,
                        has_previous = 1 < n, has_next = n < pages\<rparr>))"

section \<open>Requests\<close>

record recording_request =
  rq_duration :: "nat option"
  rq_source :: "string option"
  rq_start :: "int option"
  rq_end :: "int option"

definition checked_sub_i64 :: "int \<Rightarrow> int \<Rightarrow> int option" where
  "checked_sub_i64 a b = (if in_i64 (a - b) then Some (a - b) else None)"

text \<open>The arguments besides the request: the configured cameras and limit, whether the camera's hub is
  live, and the device service's answer for the interval.\<close>

definition create_recording :: "rec_config \<Rightarrow> string list \<Rightarrow> write_outcome \<Rightarrow> string \<Rightarrow> string \<Rightarrow> bool
    \<Rightarrow> bridge_error + string \<times> string \<Rightarrow> string \<Rightarrow> string option \<Rightarrow> recording_request \<Rightarrow> recorder
    \<Rightarrow> (bridge_error + manifest) \<times> recorder \<times> bool" where
  "create_recording cfg cameras outcome uuid now live playback_times cam header rq r =
     (let key = case_option '''' id header
      in case (rq_source rq, rq_duration rq) of
           (Some s, None) \<Rightarrow>
             if s = ''sd'' then
               (case (rq_start rq, rq_end rq) of
                  (Some a, Some b) \<Rightarrow>
                    if cam \<notin> set cameras then (Inl CameraNotFound, r, False)
                    else let len = case_option 0 id (checked_sub_i64 b a); limit = max_duration cfg
                         in if len < 1 \<or> limit < nat len
                            then (Inl (Recording (''microSD interval must last between 1 and '' @ show_nat limit @ '' seconds'')), r, False)
                            else (case playback_times of
                                    Inl e \<Rightarrow> (Inl e, r, False)
                                  | Inr _ \<Rightarrow> start_sd cfg outcome uuid now live cam a b key r)
                | _ \<Rightarrow> (Inl (Recording ''a microSD recording needs start and end''), r, False))
             else (Inl (Recording ''send duration_seconds for live, or source sd with start and end''), r, False)
         | (s, Some d) \<Rightarrow>
             if (s = None \<or> s = Some ''live'') \<and> rq_start rq = None \<and> rq_end rq = None
             then start cfg outcome uuid now cam d key r
             else (Inl (Recording ''send duration_seconds for live, or source sd with start and end''), r, False)
         | _ \<Rightarrow> (Inl (Recording ''send duration_seconds for live, or source sd with start and end''), r, False))"

definition list_page :: "string option \<Rightarrow> nat option \<Rightarrow> nat option \<Rightarrow> recorder \<Rightarrow> (manifest list \<times> pagination) option" where
  "list_page cam pg sz r =
     page_of (case cam of None \<Rightarrow> list_recordings r | Some c \<Rightarrow> filter (\<lambda>m. camera m = c) (list_recordings r)) pg sz"

section \<open>Every item is on exactly one page\<close>

lemma page_of_items:
  assumes "0 < sz" "sz \<le> MAX_PAGE_SIZE" "length items + MAX_PAGE_SIZE < USIZE_MAX" "n \<le> length items div sz + 1"
  shows "map_option fst (page_of items (Some (Suc n)) (Some sz)) = Some (take sz (drop (n * sz) items))"
proof -
  have "n * sz \<le> (length items div sz + 1) * sz"
    using assms(4) by (rule mult_le_mono1)
  also have "\<dots> \<le> length items + MAX_PAGE_SIZE"
    using assms(2) div_times_less_eq_dividend [of "length items" sz] unfolding distrib_right mult_1
    by (rule add_mono [rotated])
  finally have "n * sz < USIZE_MAX"
    using assms(3) by linarith
  then have mul: "sat_mul n sz = n * sz"
    by (simp add: sat_mul_def)
  have "case_option [] id (get_range items (n * sz) (min (sat_add (n * sz) sz) (length items))) = take sz (drop (n * sz) items)"
  proof (cases "n * sz \<le> length items")
    case True
    then have "sat_add (n * sz) sz = n * sz + sz"
      using assms(2,3) by (simp add: sat_add_def)
    then show ?thesis
      using True by (auto simp: get_range_def min_def take_drop add.commute)
  next
    case False
    then have "length items \<le> n * sz" "min (sat_add (n * sz) sz) (length items) < n * sz"
      by auto
    then show ?thesis
      by (auto simp: get_range_def)
  qed
  then show ?thesis
    using assms(1,2) by (simp add: page_of_def Let_def mul)
qed

lemma concat_slices:
  "0 < sz \<Longrightarrow> concat (map (\<lambda>n. take sz (drop (n * sz) xs)) [0..<k]) = take (k * sz) xs"
proof (induction k)
  case (Suc k)
  have "take (Suc k * sz) xs = take (k * sz) xs @ take sz (drop (k * sz) xs)"
    using take_add [of "k * sz" sz xs] by (simp add: add.commute)
  then show ?case
    using Suc by simp
qed simp

lemma div_ceil_bounds: "0 < b \<Longrightarrow> a \<le> div_ceil a b * b \<and> div_ceil a b \<le> a div b + 1"
proof -
  assume "0 < b"
  then have "a mod b < b"
    by simp
  then have "a \<le> a div b * b + (if 0 < a mod b then b else 0)"
  proof (cases "0 < a mod b")
    case True
    have "a \<le> a div b * b + b"
      using div_mult_mod_eq [of a b] \<open>a mod b < b\<close> by linarith
    then show ?thesis using True by simp
  next
    case False
    then show ?thesis using div_mult_mod_eq [of a b] by simp
  qed
  then show ?thesis
    unfolding div_ceil_def by (auto simp: distrib_right split: if_splits)
qed

text \<open>Paging through a list with a valid page size visits every item exactly once and in order:
  the pages from the first to the reported last one concatenate to the list, and every reported page
  number but the last has a next page.\<close>

theorem pages_partition_list:
  assumes "0 < sz" "sz \<le> MAX_PAGE_SIZE" "length items + MAX_PAGE_SIZE < USIZE_MAX"
    and "page_of items None (Some sz) = Some (first, info)"
  shows "concat (map (\<lambda>n. case_option [] fst (page_of items (Some n) (Some sz))) [1..<Suc (total_pages info)]) = items
    \<and> first = take sz items \<and> has_next info = (sz < length items) \<and> total_items info = length items"
proof -
  have info: "total_pages info = max 1 (div_ceil (length items) sz)" "has_next info = (1 < total_pages info)"
      "total_items info = length items"
    using assms(1,2,4) by (auto simp: page_of_def Let_def)
  let ?k = "total_pages info"
  have k: "?k \<le> length items div sz + 1" "length items \<le> ?k * sz"
    using div_ceil_bounds [OF assms(1), of "length items"]
    unfolding info(1) by (auto intro: le_trans [OF _ mult_le_mono1 [OF max.cobounded2]])
  have slice: "case_option [] fst (page_of items (Some (Suc n)) (Some sz)) = take sz (drop (n * sz) items)" if "n < ?k" for n
    using page_of_items [OF assms(1-3), of n] that k(1) by (auto split: option.splits)
  have "concat (map (\<lambda>n. case_option [] fst (page_of items (Some n) (Some sz))) [1..<Suc ?k])
      = concat (map (\<lambda>n. case_option [] fst (page_of items (Some (Suc n)) (Some sz))) [0..<?k])"
    by (simp add: map_Suc_upt [symmetric] comp_def del: upt_Suc)
  also have "\<dots> = concat (map (\<lambda>n. take sz (drop (n * sz) items)) [0..<?k])"
    using slice by (auto intro!: arg_cong [of _ _ concat] simp del: upt_Suc)
  also have "\<dots> = items"
    unfolding concat_slices [OF assms(1)] using k(2) by simp
  finally have all: "concat (map (\<lambda>n. case_option [] fst (page_of items (Some n) (Some sz))) [1..<Suc ?k]) = items" .
  have "page_of items None (Some sz) = page_of items (Some (Suc 0)) (Some sz)"
    by (simp add: page_of_def)
  then have "first = take sz items"
    using page_of_items [OF assms(1-3), of 0] assms(4) by auto
  moreover have "1 < ?k \<longleftrightarrow> sz < length items"
  proof -
    have "div_ceil (length items) sz \<le> 1 \<longleftrightarrow> length items \<le> sz"
      using assms(1) by (auto simp: div_ceil_def div_eq_0_iff le_Suc_eq intro: ccontr)
    then show ?thesis
      by (auto simp: info(1) max_def)
  qed
  ultimately show ?thesis
    using all info by simp
qed

theorem pages_partition_list_witness:
  "\<exists>first info. page_of [0..<73] None (Some 20) = Some (first, info) \<and> total_pages info = 4
    \<and> concat (map (\<lambda>n. case_option [] fst (page_of [0..<73] (Some n) (Some 20))) [1..<Suc (total_pages info)]) = [0..<73]"
proof -
  obtain first info where p: "page_of [0..<73] None (Some 20) = Some (first, info)"
    by (cases "page_of [0..<73] None (Some 20)") (auto simp: page_of_def MAX_PAGE_SIZE_def Let_def)
  then have "total_pages info = 4"
    by (auto simp: page_of_def MAX_PAGE_SIZE_def Let_def div_ceil_def)
  moreover have "(0::nat) < 20" "20 \<le> MAX_PAGE_SIZE" "length [0..<73] + MAX_PAGE_SIZE < USIZE_MAX"
    by (simp_all add: MAX_PAGE_SIZE_def USIZE_MAX_def)
  ultimately show ?thesis
    using pages_partition_list [OF _ _ _ p] p by blast
qed

end
