(* ===== verification/Cloud_Key.thy ===== *)
theory Cloud_Key
  imports Storage Ordered_Map
begin

text \<open>
  Verification codes for encrypted cameras: the rate guard of the cloud lookup (\<open>device/guard.rs\<close>) and
  the choice of a usable code (\<open>device/key.rs\<close>). SHA-256 and MD5 (as hexadecimal text), the clock, the
  outcome of a file write and the cloud's answer are arguments. Times are epoch seconds.
\<close>

section \<open>The guard\<close>

definition CLOUD_KEY_INTERVAL_SECONDS :: int where "CLOUD_KEY_INTERVAL_SECONDS = 24 * 3600"

record guard_state =
  attempts :: "(string, int) btree"
  codes :: "(string, string) btree"

text \<open>The guard with the content of its file; without a path nothing is ever written.\<close>

record cloud_guard =
  has_path :: bool
  guard_file :: "(string, int) btree option"
  g_state :: guard_state

definition key_id :: "(string \<Rightarrow> string) \<Rightarrow> string \<Rightarrow> string" where
  "key_id sha256_hex serial = take 16 (sha256_hex serial)"

definition load_guard :: "(string, int) btree option \<Rightarrow> cloud_guard" where
  "load_guard file = \<lparr>has_path = True, guard_file = file,
     g_state = \<lparr>attempts = case_option [] id file, codes = []\<rparr>\<rparr>"

definition in_memory :: cloud_guard where
  "in_memory = \<lparr>has_path = False, guard_file = None, g_state = \<lparr>attempts = [], codes = []\<rparr>\<rparr>"

definition cached :: "(string \<Rightarrow> string) \<Rightarrow> string \<Rightarrow> cloud_guard \<Rightarrow> string option" where
  "cached sha serial g = bt_get (codes (g_state g)) (key_id sha serial)"

definition blocked_until :: "(string \<Rightarrow> string) \<Rightarrow> string \<Rightarrow> int \<Rightarrow> cloud_guard \<Rightarrow> int option" where
  "blocked_until sha serial now g =
     (case bt_get (attempts (g_state g)) (key_id sha serial) of
        None \<Rightarrow> None
      | Some at \<Rightarrow> let until = at + CLOUD_KEY_INTERVAL_SECONDS in if now < until then Some until else None)"

definition save_attempts :: "write_outcome \<Rightarrow> cloud_guard \<Rightarrow> (bridge_error + unit) \<times> cloud_guard" where
  "save_attempts outcome g =
     (if has_path g
      then let (res, file) = atomic_write_json outcome (attempts (g_state g)) (guard_file g)
           in (res, g\<lparr>guard_file := file\<rparr>)
      else (Inr (), g))"

definition set_attempts :: "(string, int) btree \<Rightarrow> cloud_guard \<Rightarrow> cloud_guard" where
  "set_attempts a g = g\<lparr>g_state := (g_state g)\<lparr>attempts := a\<rparr>\<rparr>"

definition begin_lookup :: "(string \<Rightarrow> string) \<Rightarrow> write_outcome \<Rightarrow> string \<Rightarrow> int \<Rightarrow> cloud_guard
    \<Rightarrow> (bridge_error + unit) \<times> cloud_guard" where
  "begin_lookup sha outcome serial now g =
     (let i = key_id sha serial; latched = (case bt_get (attempts (g_state g)) i of
            None \<Rightarrow> False | Some at \<Rightarrow> now < at + CLOUD_KEY_INTERVAL_SECONDS)
      in if latched then (Inl (Upstream ''cloud verification code lookup is paused for 24 hours''), g)
         else save_attempts outcome
           (set_attempts (bt_retain (\<lambda>_ at. now - at < CLOUD_KEY_INTERVAL_SECONDS)
              (bt_insert i now (attempts (g_state g)))) g))"

definition release :: "(string \<Rightarrow> string) \<Rightarrow> write_outcome \<Rightarrow> string \<Rightarrow> cloud_guard \<Rightarrow> cloud_guard" where
  "release sha outcome serial g =
     snd (save_attempts outcome (set_attempts (bt_remove (key_id sha serial) (attempts (g_state g))) g))"

fun never_processed :: "bridge_error \<Rightarrow> bool" where
  "never_processed ReauthRequired = True"
| "never_processed SessionExpired = True"
| "never_processed (Http e) = http_is_connect e"
| "never_processed _ = False"

text \<open>The end of \<open>fetch\<close>, once the request has been answered.\<close>

definition settle_lookup :: "(string \<Rightarrow> string) \<Rightarrow> write_outcome \<Rightarrow> string \<Rightarrow> bridge_error + string \<Rightarrow> cloud_guard
    \<Rightarrow> (bridge_error + string) \<times> cloud_guard" where
  "settle_lookup sha outcome serial answer g =
     (case answer of
        Inr code \<Rightarrow> (Inr code, g\<lparr>g_state := (g_state g)\<lparr>codes := bt_insert (key_id sha serial) code (codes (g_state g))\<rparr>\<rparr>)
      | Inl e \<Rightarrow> if never_processed e then (Inl e, release sha outcome serial g) else (Inl e, g))"

text \<open>The flag says whether the request was sent.\<close>

definition fetch :: "(string \<Rightarrow> string) \<Rightarrow> write_outcome \<Rightarrow> write_outcome \<Rightarrow> string \<Rightarrow> int \<Rightarrow> bridge_error + string
    \<Rightarrow> cloud_guard \<Rightarrow> (bridge_error + string) \<times> cloud_guard \<times> bool" where
  "fetch sha out1 out2 serial now answer g =
     (case cached sha serial g of
        Some code \<Rightarrow> (Inr code, g, False)
      | None \<Rightarrow>
          (case begin_lookup sha out1 serial now g of
             (Inl e, g1) \<Rightarrow> (Inl e, g1, False)
           | (Inr _, g1) \<Rightarrow> let (res, g2) = settle_lookup sha out2 serial answer g1 in (res, g2, True)))"

section \<open>Choosing a code\<close>

datatype key_source = KsOption | KsCloud | KsNone

record video_key =
  vk_source :: key_source
  vk_code :: string

definition twice_md5 :: "(string \<Rightarrow> string) \<Rightarrow> string \<Rightarrow> string" where
  "twice_md5 md5_hex code = md5_hex (md5_hex code)"

definition matches_hash :: "(string \<Rightarrow> string) \<Rightarrow> string \<Rightarrow> string option \<Rightarrow> bool" where
  "matches_hash md5 code hash =
     (let valid_length = (code \<noteq> [] \<and> length code \<le> 64)
      in case hash of None \<Rightarrow> valid_length
         | Some expected \<Rightarrow> valid_length \<and> twice_md5 md5 code = to_ascii_lowercase expected)"

text \<open>The key file of the camera is \<open>None\<close> when none is configured; otherwise its reading.\<close>

definition option_key :: "(string \<Rightarrow> string) \<Rightarrow> (string \<times> secret_file option) option \<Rightarrow> string option \<Rightarrow> video_key option" where
  "option_key md5 key_file hash =
     (case key_file of
        None \<Rightarrow> None
      | Some (name, f) \<Rightarrow>
          (case ensure_private_regular name f 1 of
             Inr code \<Rightarrow> if matches_hash md5 code hash then Some \<lparr>vk_source = KsOption, vk_code = code\<rparr> else None
           | Inl _ \<Rightarrow> None))"

definition cloud_key :: "(string \<Rightarrow> string) \<Rightarrow> bridge_error + string \<Rightarrow> string option \<Rightarrow> video_key option" where
  "cloud_key md5 answer hash =
     (case answer of
        Inr code \<Rightarrow> if matches_hash md5 code hash then Some \<lparr>vk_source = KsCloud, vk_code = code\<rparr> else None
      | Inl _ \<Rightarrow> None)"

text \<open>The flag says whether the cloud was asked.\<close>

definition candidate_keys :: "(string \<Rightarrow> string) \<Rightarrow> (string \<times> secret_file option) option \<Rightarrow> string option
    \<Rightarrow> bridge_error + string \<Rightarrow> video_key list \<times> bool" where
  "candidate_keys md5 key_file hash cloud_answer =
     (case option_key md5 key_file hash of
        Some k \<Rightarrow> ([k], False)
      | None \<Rightarrow> (case cloud_key md5 cloud_answer hash of None \<Rightarrow> [] | Some k \<Rightarrow> [k], True))"

definition report_key_source :: "(string \<Rightarrow> string) \<Rightarrow> (string \<times> secret_file option) option \<Rightarrow> string option
    \<Rightarrow> string option \<Rightarrow> key_source" where
  "report_key_source md5 key_file hash cached_code =
     (if option_key md5 key_file hash \<noteq> None then KsOption
      else case cached_code of
             Some code \<Rightarrow> if matches_hash md5 code hash then KsCloud else KsNone
           | None \<Rightarrow> KsNone)"

section \<open>Callers, requests in flight and restarts\<close>

text \<open>The log holds the lookups EZVIZ may have processed, in the order they were sent; \<open>flight\<close> those not
  answered yet.\<close>

record guard_world =
  gw_guard :: cloud_guard
  gw_clock :: int
  gw_flight :: "(string \<times> int) list"
  gw_log :: "(string \<times> int) list"

text \<open>An HTTP request is answered or times out long before a day has passed.\<close>

inductive guard_step :: "(string \<Rightarrow> string) \<Rightarrow> guard_world \<Rightarrow> guard_world \<Rightarrow> bool" for sha where
  tick: "0 \<le> d \<Longrightarrow> guard_step sha w (w\<lparr>gw_clock := gw_clock w + d\<rparr>)"
| refused: "begin_lookup sha outcome serial (gw_clock w) (gw_guard w) = (Inl e, g)
    \<Longrightarrow> guard_step sha w (w\<lparr>gw_guard := g\<rparr>)"
| sent: "cached sha serial (gw_guard w) = None
    \<Longrightarrow> begin_lookup sha outcome serial (gw_clock w) (gw_guard w) = (Inr u, g)
    \<Longrightarrow> guard_step sha w (w\<lparr>gw_guard := g, gw_flight := gw_flight w @ [(serial, gw_clock w)],
          gw_log := gw_log w @ [(key_id sha serial, gw_clock w)]\<rparr>)"
| answered: "(serial, at) \<in> set (gw_flight w) \<Longrightarrow> gw_clock w < at + CLOUD_KEY_INTERVAL_SECONDS
    \<Longrightarrow> settle_lookup sha outcome serial answer (gw_guard w) = (res, g)
    \<Longrightarrow> guard_step sha w (w\<lparr>gw_guard := g, gw_flight := remove1 (serial, at) (gw_flight w),
          gw_log := (case answer of Inl e \<Rightarrow> if never_processed e then remove1 (key_id sha serial, at) (gw_log w) else gw_log w
            | Inr _ \<Rightarrow> gw_log w)\<rparr>)"
| restarted: "guard_step sha w (w\<lparr>gw_guard := load_guard (guard_file (gw_guard w)), gw_flight := []\<rparr>)"

section \<open>At most one lookup a day\<close>

lemma interval_pos [simp]: "0 < CLOUD_KEY_INTERVAL_SECONDS"
  by (simp add: CLOUD_KEY_INTERVAL_SECONDS_def)

lemma bt_get_retain_ordered:
  assumes "bt_ordered m"
  shows "bt_get (bt_retain P m) k = (case bt_get m k of None \<Rightarrow> None | Some v \<Rightarrow> if P k v then Some v else None)"
proof -
  have iff: "bt_get (bt_retain P m) k = Some v \<longleftrightarrow> bt_get m k = Some v \<and> P k v" for v
    unfolding bt_get_entry [OF bt_ordered_retain [OF assms]] bt_get_entry [OF assms] by (simp add: bt_retain_def)
  show ?thesis
  proof (cases "bt_get m k")
    case None
    then have "bt_get (bt_retain P m) k \<noteq> Some v" for v
      using iff by simp
    then have "bt_get (bt_retain P m) k = None"
      by (meson not_None_eq)
    then show ?thesis using None by simp
  next
    case (Some v)
    then have "bt_get (bt_retain P m) k = Some u \<longleftrightarrow> u = v \<and> P k v" for u
      using iff by auto
    then show ?thesis using Some by (cases "bt_get (bt_retain P m) k") auto
  qed
qed

definition latched :: "(string, int) btree \<Rightarrow> string \<Rightarrow> int \<Rightarrow> bool" where
  "latched a i t \<longleftrightarrow> (\<exists>at. bt_get a i = Some at \<and> t \<le> at)"

definition spaced :: "(string \<times> int) list \<Rightarrow> bool" where
  "spaced log \<longleftrightarrow> sorted_wrt (\<lambda>(i, t) (j, u). i = j \<longrightarrow> t + CLOUD_KEY_INTERVAL_SECONDS \<le> u) log"

definition flight_ids :: "(string \<Rightarrow> string) \<Rightarrow> guard_world \<Rightarrow> (string \<times> int) list" where
  "flight_ids sha w = map (\<lambda>(s, t). (key_id sha s, t)) (gw_flight w)"

definition guard_latched :: "cloud_guard \<Rightarrow> string \<Rightarrow> int \<Rightarrow> bool" where
  "guard_latched g i t \<longleftrightarrow> latched (attempts (g_state g)) i t \<and> (\<exists>f. guard_file g = Some f \<and> latched f i t)"

definition guard_ok :: "cloud_guard \<Rightarrow> bool" where
  "guard_ok g \<longleftrightarrow> has_path g \<and> bt_ordered (attempts (g_state g)) \<and> (\<forall>f. guard_file g = Some f \<longrightarrow> bt_ordered f)"

definition guard_inv :: "(string \<Rightarrow> string) \<Rightarrow> guard_world \<Rightarrow> bool" where
  "guard_inv sha w \<longleftrightarrow> guard_ok (gw_guard w) \<and> spaced (gw_log w)
     \<and> (\<forall>(i, t) \<in> set (gw_log w). t \<le> gw_clock w
          \<and> (gw_clock w < t + CLOUD_KEY_INTERVAL_SECONDS \<longrightarrow> guard_latched (gw_guard w) i t))
     \<and> distinct (flight_ids sha w) \<and> set (flight_ids sha w) \<subseteq> set (gw_log w)"

lemma spaced_snoc:
  "spaced (log @ [(i, t)]) \<longleftrightarrow> spaced log \<and> (\<forall>(j, u) \<in> set log. j = i \<longrightarrow> u + CLOUD_KEY_INTERVAL_SECONDS \<le> t)"
  by (auto simp: spaced_def sorted_wrt_append)

lemma spaced_remove1: "spaced log \<Longrightarrow> spaced (remove1 e log)"
  unfolding spaced_def by (induction log) (auto dest: notin_set_remove1 [THEN contrapos_pp] intro: set_remove1_subset [THEN subsetD])

lemma spaced_distinct: "spaced log \<Longrightarrow> distinct log"
proof (induction log)
  case (Cons e log)
  have "e \<notin> set log"
  proof
    assume "e \<in> set log"
    then have "case e of (i, t) \<Rightarrow> t + CLOUD_KEY_INTERVAL_SECONDS \<le> t"
      using Cons.prems by (fastforce simp: spaced_def)
    then show False
      using interval_pos by (auto split: prod.splits)
  qed
  then show ?case
    using Cons by (simp add: spaced_def)
qed simp

lemma spaced_pair:
  assumes "spaced log" "(i, t) \<in> set log" "(i, u) \<in> set log" "t \<noteq> u"
  shows "t + CLOUD_KEY_INTERVAL_SECONDS \<le> u \<or> u + CLOUD_KEY_INTERVAL_SECONDS \<le> t"
  using assms by (induction log) (auto simp: spaced_def)

lemma save_attempts_cases:
  assumes "save_attempts outcome g = (res, g')" "has_path g"
  shows "g_state g' = g_state g" "has_path g'"
    "guard_file g' = guard_file g \<or> guard_file g' = Some (attempts (g_state g))"
    "res = Inr u \<Longrightarrow> guard_file g' = Some (attempts (g_state g))"
  using assms by (cases outcome; auto simp: save_attempts_def)+

lemma begin_lookup_cases:
  assumes b: "begin_lookup sha outcome serial now g = (res, g')" and ok: "guard_ok g"
  shows "guard_ok g'"
    and "guard_latched g i t \<Longrightarrow> now < t + CLOUD_KEY_INTERVAL_SECONDS \<Longrightarrow> guard_latched g' i t"
    and "res = Inr u \<Longrightarrow> guard_latched g' (key_id sha serial) now"
    and "res = Inr u \<Longrightarrow> guard_latched g (key_id sha serial) t \<Longrightarrow> t + CLOUD_KEY_INTERVAL_SECONDS \<le> now"
proof -
  let ?i = "key_id sha serial" and ?a = "attempts (g_state g)"
  let ?new = "bt_retain (\<lambda>_ at. now - at < CLOUD_KEY_INTERVAL_SECONDS) (bt_insert ?i now ?a)"
  have ord: "bt_ordered ?a" and path: "has_path g"
    using ok by (simp_all add: guard_ok_def)
  have ord': "bt_ordered (bt_insert ?i now ?a)" "bt_ordered ?new"
    using ord by simp_all
  consider (stop) "g' = g" "isl res"
    | (go) "save_attempts outcome (set_attempts ?new g) = (res, g')"
        "\<And>at. bt_get ?a ?i = Some at \<Longrightarrow> at + CLOUD_KEY_INTERVAL_SECONDS \<le> now"
    using b by (fastforce simp: begin_lookup_def Let_def split: option.splits if_splits)
  then have "guard_ok g' \<and> (guard_latched g i t \<longrightarrow> now < t + CLOUD_KEY_INTERVAL_SECONDS \<longrightarrow> guard_latched g' i t)
      \<and> (res = Inr u \<longrightarrow> guard_latched g' ?i now)
      \<and> (res = Inr u \<longrightarrow> guard_latched g ?i t \<longrightarrow> t + CLOUD_KEY_INTERVAL_SECONDS \<le> now)"
  proof cases
    case stop
    then show ?thesis using ok by auto
  next
    case go
    have g': "attempts (g_state g') = ?new" "has_path g'"
      "guard_file g' = guard_file g \<or> guard_file g' = Some ?new" "res = Inr u \<Longrightarrow> guard_file g' = Some ?new"
      using save_attempts_cases [OF go(1)] path by (auto simp: set_attempts_def)
    have keep: "latched ?new i t" if "latched ?a i t" "now < t + CLOUD_KEY_INTERVAL_SECONDS" for i t
      using that go(2) by (auto simp: latched_def bt_get_retain_ordered [OF ord'(1)])
    have here: "latched ?new ?i now"
      by (simp add: latched_def bt_get_retain_ordered [OF ord'(1)])
    have "guard_ok g'"
      using g'(2,3) ord'(2) ok unfolding guard_ok_def g'(1) by (metis option.inject)
    moreover have "guard_latched g i t \<longrightarrow> now < t + CLOUD_KEY_INTERVAL_SECONDS \<longrightarrow> guard_latched g' i t"
      using g'(1,3) keep by (auto simp: guard_latched_def)
    moreover have "res = Inr u \<longrightarrow> guard_latched g' ?i now"
      using g'(1,4) here by (auto simp: guard_latched_def)
    moreover have "guard_latched g ?i t \<longrightarrow> t + CLOUD_KEY_INTERVAL_SECONDS \<le> now"
      using go(2) by (force simp: guard_latched_def latched_def)
    ultimately show ?thesis by blast
  qed
  then show "guard_ok g'"
    "guard_latched g i t \<Longrightarrow> now < t + CLOUD_KEY_INTERVAL_SECONDS \<Longrightarrow> guard_latched g' i t"
    "res = Inr u \<Longrightarrow> guard_latched g' ?i now"
    "res = Inr u \<Longrightarrow> guard_latched g ?i t \<Longrightarrow> t + CLOUD_KEY_INTERVAL_SECONDS \<le> now"
    by blast+
qed

lemma settle_cases:
  assumes s: "settle_lookup sha outcome serial answer g = (res, g')" and ok: "guard_ok g"
  shows "guard_ok g'" "guard_latched g i t \<Longrightarrow> i \<noteq> key_id sha serial \<or> \<not> (case answer of Inl e \<Rightarrow> never_processed e | Inr _ \<Rightarrow> False)
    \<Longrightarrow> guard_latched g' i t"
proof -
  have ord: "bt_ordered (attempts (g_state g))" and path: "has_path g"
    using ok by (simp_all add: guard_ok_def)
  have rel: "guard_ok (release sha outcome serial g) \<and>
      (guard_latched g i t \<longrightarrow> i \<noteq> key_id sha serial \<longrightarrow> guard_latched (release sha outcome serial g) i t)"
  proof -
    let ?new = "bt_remove (key_id sha serial) (attempts (g_state g))"
    obtain r1 g1 where g1: "save_attempts outcome (set_attempts ?new g) = (r1, g1)"
      by fastforce
    then have "attempts (g_state g1) = ?new" "has_path g1" "guard_file g1 = guard_file g \<or> guard_file g1 = Some ?new"
      using save_attempts_cases [OF g1] path by (auto simp: set_attempts_def)
    then show ?thesis
      using ok ord g1 by (auto simp: release_def guard_ok_def guard_latched_def latched_def)
  qed
  show "guard_ok g'"
    using s ok rel by (auto simp: settle_lookup_def guard_ok_def split: sum.splits if_splits)
  assume l: "guard_latched g i t" "i \<noteq> key_id sha serial \<or> \<not> (case answer of Inl e \<Rightarrow> never_processed e | Inr _ \<Rightarrow> False)"
  show "guard_latched g' i t"
    using s l rel by (auto simp: settle_lookup_def guard_latched_def split: sum.splits if_splits)
qed

lemma guard_invD:
  assumes "guard_inv sha w" "(i, t) \<in> set (gw_log w)"
  shows "t \<le> gw_clock w" "gw_clock w < t + CLOUD_KEY_INTERVAL_SECONDS \<Longrightarrow> guard_latched (gw_guard w) i t"
  using assms by (auto simp: guard_inv_def)

lemma guard_inv_step:
  assumes "guard_step sha w w'" "guard_inv sha w"
  shows "guard_inv sha w'"
  using assms
proof (cases rule: guard_step.cases)
  case (tick d)
  then show ?thesis
    using assms(2) by (fastforce simp: guard_inv_def flight_ids_def)
next
  case (refused outcome serial e g)
  have ok: "guard_ok (gw_guard w)"
    using assms(2) by (simp add: guard_inv_def)
  show ?thesis
    using assms(2) refused(1) begin_lookup_cases(1,2) [OF refused(2) ok]
    by (auto simp: guard_inv_def flight_ids_def)
next
  case (sent serial outcome u g)
  have ok: "guard_ok (gw_guard w)"
    using assms(2) by (simp add: guard_inv_def)
  note b = begin_lookup_cases [OF sent(3) ok]
  let ?i = "key_id sha serial"
  have old: "t + CLOUD_KEY_INTERVAL_SECONDS \<le> gw_clock w" if "(?i, t) \<in> set (gw_log w)" for t
    using b(4) guard_invD [OF assms(2) that] by force
  then have "spaced (gw_log w @ [(?i, gw_clock w)])"
    using assms(2) by (auto simp: spaced_snoc guard_inv_def)
  moreover have "(?i, gw_clock w) \<notin> set (gw_log w)"
    using old [of "gw_clock w"] interval_pos by (auto simp del: interval_pos)
  ultimately show ?thesis
    using assms(2) sent(1) b(1-3) by (auto simp: guard_inv_def flight_ids_def)
next
  case (answered serial at outcome answer res g)
  have ok: "guard_ok (gw_guard w)"
    using assms(2) by (simp add: guard_inv_def)
  note s = settle_cases [OF answered(4) ok]
  let ?i = "key_id sha serial" and ?free = "case answer of Inl e \<Rightarrow> never_processed e | Inr _ \<Rightarrow> False"
  have log: "spaced (gw_log w)" "distinct (gw_log w)"
    using assms(2) spaced_distinct by (auto simp: guard_inv_def)
  have mine: "(?i, at) \<in> set (gw_log w)"
    using assms(2) answered(2) by (force simp: guard_inv_def flight_ids_def)
  have new_log: "gw_log w' = (if ?free then remove1 (?i, at) (gw_log w) else gw_log w)"
    using answered(1) by (auto split: sum.splits)
  have rest: "set (gw_log w') = (if ?free then set (gw_log w) - {(?i, at)} else set (gw_log w))"
    using log(2) by (simp add: new_log)
  have far: "t + CLOUD_KEY_INTERVAL_SECONDS \<le> gw_clock w" if "(?i, t) \<in> set (gw_log w)" "t \<noteq> at" for t
    using spaced_pair [OF log(1) that(1) mine that(2)] guard_invD(1) [OF assms(2) that(1)]
      guard_invD(1) [OF assms(2) mine] answered(3) by linarith
  have latch: "guard_latched g i t"
    if m: "(i, t) \<in> set (gw_log w')" "gw_clock w < t + CLOUD_KEY_INTERVAL_SECONDS" for i t
  proof -
    have "(i, t) \<in> set (gw_log w)" "?free \<Longrightarrow> (i, t) \<noteq> (?i, at)"
      using m(1) rest by (auto split: if_splits)
    moreover from this have "i \<noteq> ?i \<or> \<not> ?free"
      using far m(2) by force
    ultimately show ?thesis
      using s(2) guard_invD(2) [OF assms(2)] m(2) by blast
  qed
  have flight: "flight_ids sha w' = map (\<lambda>(s, t). (key_id sha s, t)) (remove1 (serial, at) (gw_flight w))"
    using answered(1) by (simp add: flight_ids_def)
  have fd: "distinct (flight_ids sha w)" "set (flight_ids sha w) \<subseteq> set (gw_log w)"
    using assms(2) by (auto simp: guard_inv_def)
  have "distinct (flight_ids sha w')"
    using fd(1) unfolding flight unfolding flight_ids_def distinct_map
    by (meson distinct_remove1 inj_on_subset set_remove1_subset)
  moreover have "set (flight_ids sha w') \<subseteq> set (gw_log w')"
  proof -
    have d: "distinct (gw_flight w)" "inj_on (\<lambda>(s, t). (key_id sha s, t)) (set (gw_flight w))"
      using fd(1) by (auto simp: flight_ids_def distinct_map)
    then have "(?i, at) \<notin> set (flight_ids sha w')"
      using answered(2) by (auto simp: flight inj_on_def)
    moreover have "set (flight_ids sha w') \<subseteq> set (flight_ids sha w)"
      unfolding flight unfolding flight_ids_def set_map by (rule image_mono [OF set_remove1_subset])
    ultimately show ?thesis
      using fd(2) rest by auto
  qed
  moreover have "spaced (gw_log w')"
    using log(1) spaced_remove1 by (simp add: new_log)
  moreover have "t \<le> gw_clock w" if "(i, t) \<in> set (gw_log w')" for i t
    using that rest guard_invD(1) [OF assms(2), of i t] by (auto split: if_splits)
  ultimately show ?thesis
    using s(1) latch answered(1) by (auto simp: guard_inv_def)
next
  case restarted
  then show ?thesis
    using assms(2) by (cases "guard_file (gw_guard w)")
      (auto simp: guard_inv_def guard_ok_def load_guard_def guard_latched_def flight_ids_def)
qed

text \<open>A whole call of \<open>fetch\<close> is such a sequence of steps.\<close>

lemma fetch_steps:
  assumes "fetch sha out1 out2 serial (gw_clock w) answer (gw_guard w) = (res, g, was_sent)"
  shows "\<exists>w'. (guard_step sha)\<^sup>*\<^sup>* w w' \<and> gw_guard w' = g \<and> gw_clock w' = gw_clock w"
proof (cases "cached sha serial (gw_guard w)")
  case (Some code)
  then show ?thesis
    using assms by (auto simp: fetch_def)
next
  case None
  obtain r1 g1 where b: "begin_lookup sha out1 serial (gw_clock w) (gw_guard w) = (r1, g1)"
    by fastforce
  show ?thesis
  proof (cases r1)
    case (Inl e)
    then have "guard_step sha w (w\<lparr>gw_guard := g\<rparr>)"
      using assms b None by (auto simp: fetch_def intro!: guard_step.refused)
    then show ?thesis
      by (intro exI [of _ "w\<lparr>gw_guard := g\<rparr>"]) auto
  next
    case (Inr u)
    let ?v = "w\<lparr>gw_guard := g1, gw_flight := gw_flight w @ [(serial, gw_clock w)],
      gw_log := gw_log w @ [(key_id sha serial, gw_clock w)]\<rparr>"
    have "guard_step sha w ?v"
      using guard_step.sent [OF None] b Inr by simp
    moreover have "settle_lookup sha out2 serial answer (gw_guard ?v) = (res, g)"
      using assms b None Inr by (auto simp: fetch_def split: prod.splits)
    from guard_step.answered [OF _ _ this, of "gw_clock w"] obtain w'
      where "guard_step sha ?v w'" "gw_guard w' = g" "gw_clock w' = gw_clock w"
      by auto
    moreover from calculation(1,2) have "(guard_step sha)\<^sup>*\<^sup>* w w'"
      by (rule converse_rtranclp_into_rtranclp [OF _ r_into_rtranclp])
    ultimately show ?thesis
      by blast
  qed
qed

definition guard_start :: "(string, int) btree option \<Rightarrow> int \<Rightarrow> guard_world" where
  "guard_start saved now = \<lparr>gw_guard = load_guard saved, gw_clock = now, gw_flight = [], gw_log = []\<rparr>"

interpretation guard_machine: invariant_machine "guard_step sha" "guard_inv sha" for sha
  by unfold_locales (rule guard_inv_step)

text \<open>C17. Whatever callers ask, however requests and answers interleave, whichever writes of the file
  fail and whenever the bridge restarts, two lookups for one camera that EZVIZ may have processed are
  at least 24 hours apart.\<close>

theorem cloud_lookups_spaced:
  assumes "\<forall>f. saved = Some f \<longrightarrow> bt_ordered f"
    and "(guard_step sha)\<^sup>*\<^sup>* (guard_start saved now) w"
  shows "sorted_wrt (\<lambda>(i, t) (j, u). i = j \<longrightarrow> t + CLOUD_KEY_INTERVAL_SECONDS \<le> u) (gw_log w)
    \<and> set (map (\<lambda>(s, t). (key_id sha s, t)) (gw_flight w)) \<subseteq> set (gw_log w)"
proof -
  have "guard_inv sha (guard_start saved now)"
    using assms(1) by (cases saved)
      (auto simp: guard_start_def guard_inv_def guard_ok_def load_guard_def spaced_def flight_ids_def)
  then have "guard_inv sha w"
    by (rule guard_machine.invariant_run [OF assms(2)])
  then show ?thesis
    by (auto simp: guard_inv_def spaced_def flight_ids_def)
qed

theorem cloud_lookups_spaced_witness:
  "let w = \<lparr>gw_guard = load_guard (Some [(''k'', 1000)]), gw_clock = 1000, gw_flight = [], gw_log = [(''k'', 1000)]\<rparr>
   in (guard_step (\<lambda>s. s))\<^sup>*\<^sup>* (guard_start None 1000) w
      \<and> sorted_wrt (\<lambda>(i, t) (j, u). i = j \<longrightarrow> t + CLOUD_KEY_INTERVAL_SECONDS \<le> u) (gw_log w)
      \<and> blocked_until (\<lambda>s. s) ''k'' 2000 (gw_guard w) = Some 87400"
proof -
  let ?sha = "\<lambda>s :: string. s"
  let ?g = "\<lparr>has_path = True, guard_file = Some [(''k'', 1000)], g_state = \<lparr>attempts = [(''k'', 1000)], codes = []\<rparr>\<rparr>"
  let ?v = "\<lparr>gw_guard = ?g, gw_clock = 1000, gw_flight = [(''k'', 1000)], gw_log = [(''k'', 1000)]\<rparr>"
  let ?w = "\<lparr>gw_guard = load_guard (Some [(''k'', 1000)]), gw_clock = 1000, gw_flight = [], gw_log = [(''k'', 1000)]\<rparr>"
  have "cached ?sha ''k'' (gw_guard (guard_start None 1000)) = None"
    "begin_lookup ?sha Saved ''k'' (gw_clock (guard_start None 1000)) (gw_guard (guard_start None 1000)) = (Inr (), ?g)"
    by code_simp+
  from guard_step.sent [OF this] have "guard_step ?sha (guard_start None 1000) ?v"
    by (simp add: guard_start_def key_id_def)
  moreover have "guard_step ?sha ?v ?w"
    using guard_step.restarted [of ?sha ?v] by simp
  ultimately have run: "(guard_step ?sha)\<^sup>*\<^sup>* (guard_start None 1000) ?w"
    by (meson converse_rtranclp_into_rtranclp rtranclp.rtrancl_refl)
  moreover have "blocked_until ?sha ''k'' 2000 (gw_guard ?w) = Some 87400"
    by code_simp
  moreover note cloud_lookups_spaced [OF _ run]
  ultimately show ?thesis
    by simp
qed


end
