(* ===== verification/Hub.thy ===== *)
theory Hub
  imports Bridge_Error Ordered_Map "HOL-Library.Sublist"
begin

text \<open>
  The stream hub of one camera (\<open>hub.rs\<close>, \<open>hub_producer.rs\<close>): subscribers with bounded queues, the
  producer task that owns the upstream session, its generations, the failure backoff and the idle
  timer. Every lock-protected section is one operation; \<open>hub_step\<close> interleaves them as the tasks of the
  runtime may. The upstream transport is whatever chunks and results it produces. Generations and
  subscriber numbers are counted without the 64-bit wrap-around. Times are seconds. Metrics and log
  lines are omitted.
\<close>

definition OFFLINE_COOLDOWN :: int where "OFFLINE_COOLDOWN = 30"
definition SLICE_BYTES :: nat where "SLICE_BYTES = 64 * 1024"

text \<open>A subscriber's channel: every piece accepted so far, tagged with the session it came from, and how
  many the receiver has taken. The queue holds the difference.\<close>

record subscriber =
  sub_sent :: "(nat \<times> bytes) list"
  sub_taken :: nat
  sub_open :: bool

datatype task_phase =
    Spawned
  | Waiting int
  | Streaming
  | Recording_Result "bridge_error + unit"
  | Draining
  | Drained
  | Task_Finished

record hub_task =
  t_cancelled :: bool
  t_phase :: task_phase

record failures =
  f_count :: nat
  next_start :: "int option"

record hub_config =
  queue_chunks :: nat
  max_subscribers :: nat

text \<open>\<open>pending_subs\<close>, \<open>idle_timers\<close>, \<open>idle_seen\<close> and \<open>closing\<close> are calls between two of their locked
  sections; \<open>hub_log\<close> is what the current session has distributed.\<close>

record hub =
  subscribers :: "(nat, subscriber) btree"
  producer :: "nat option"
  hub_tasks :: "(nat, hub_task) btree"
  hub_failures :: failures
  producer_started :: "int option"
  producer_generation :: nat
  next_id :: nat
  closed :: bool
  last_failure :: "stream_failure option"
  pending_subs :: nat
  idle_timers :: nat
  idle_seen :: nat
  closing :: "nat option"
  hub_log :: "bytes list"

definition hub_new :: hub where
  "hub_new = \<lparr>subscribers = [], producer = None, hub_tasks = [], hub_failures = \<lparr>f_count = 0, next_start = None\<rparr>,
     producer_started = None, producer_generation = 0, next_id = 1, closed = False, last_failure = None,
     pending_subs = 0, idle_timers = 0, idle_seen = 0, closing = None, hub_log = []\<rparr>"

section \<open>Operations\<close>

definition task_running :: "nat \<Rightarrow> hub \<Rightarrow> bool" where
  "task_running g h \<longleftrightarrow> (case bt_get (hub_tasks h) g of None \<Rightarrow> False | Some t \<Rightarrow> t_phase t \<noteq> Task_Finished)"

definition producer_running :: "hub \<Rightarrow> bool" where
  "producer_running h \<longleftrightarrow> (case producer h of None \<Rightarrow> False | Some g \<Rightarrow> task_running g h)"

definition cancel_task :: "nat \<Rightarrow> hub \<Rightarrow> hub" where
  "cancel_task g h = h\<lparr>hub_tasks := bt_modify g (\<lambda>t. t\<lparr>t_cancelled := True\<rparr>) (hub_tasks h)\<rparr>"

definition set_task_phase :: "nat \<Rightarrow> task_phase \<Rightarrow> hub \<Rightarrow> hub" where
  "set_task_phase g ph h = h\<lparr>hub_tasks := bt_modify g (\<lambda>t. t\<lparr>t_phase := ph\<rparr>) (hub_tasks h)\<rparr>"

definition spawn_producer :: "int \<Rightarrow> hub \<Rightarrow> hub" where
  "spawn_producer now h =
     (let g = producer_generation h + 1;
          cooling_down = (case next_start (hub_failures h) of None \<Rightarrow> False | Some s \<Rightarrow> now < s)
      in h\<lparr>producer_generation := g, hub_log := [],
           last_failure := (if cooling_down then last_failure h else None),
           hub_tasks := bt_insert g \<lparr>t_cancelled = False, t_phase = Spawned\<rparr> (hub_tasks h),
           producer := Some g\<rparr>)"

definition ensure_running :: "bool \<Rightarrow> int \<Rightarrow> hub \<Rightarrow> hub" where
  "ensure_running restart now h =
     (case producer h of
        Some g \<Rightarrow> if task_running g h
                  then if \<not> restart then h else spawn_producer now (cancel_task g h)
                  else spawn_producer now h
      | None \<Rightarrow> spawn_producer now h)"

text \<open>\<open>subscribe\<close> after the check of the closed flag.\<close>

definition subscribe_locked :: "hub_config \<Rightarrow> int \<Rightarrow> hub \<Rightarrow> (bridge_error + nat) \<times> hub" where
  "subscribe_locked cfg now h0 =
     (let i = next_id h0; h = h0\<lparr>next_id := i + 1\<rparr>
      in if max_subscribers cfg \<le> length (subscribers h)
         then (Inl (Capacity ''maximum stream subscribers reached''), h)
         else let needs_fresh = (subscribers h = [] \<and> producer_running h);
                  h' = ensure_running needs_fresh now h
              in (Inr i, h'\<lparr>subscribers := bt_insert i \<lparr>sub_sent = [], sub_taken = 0, sub_open = True\<rparr> (subscribers h')\<rparr>))"

definition startup_error :: "hub \<Rightarrow> bridge_error" where
  "startup_error h = (case last_failure h of None \<Rightarrow> UpstreamUnavailable | Some f \<Rightarrow> into_error f)"

definition is_live :: "hub \<Rightarrow> bool" where
  "is_live h \<longleftrightarrow> subscribers h \<noteq> [] \<or> producer_running h"

definition sd_playback :: "hub \<Rightarrow> bridge_error + unit \<Rightarrow> bridge_error + unit" where
  "sd_playback h played = (if is_live h then Inl (Capacity ''camera is streaming live'') else played)"

definition remove_subscriber :: "nat \<Rightarrow> hub \<Rightarrow> hub" where
  "remove_subscriber i h =
     (let subs = bt_remove i (subscribers h)
      in h\<lparr>subscribers := subs, idle_timers := (if subs = [] then idle_timers h + 1 else idle_timers h)\<rparr>)"

text \<open>\<open>try_send\<close>: refused when the queue is full or the receiver is gone.\<close>

definition try_send :: "hub_config \<Rightarrow> nat \<Rightarrow> bytes \<Rightarrow> subscriber \<Rightarrow> subscriber option" where
  "try_send cfg g piece s =
     (if sub_open s \<and> length (sub_sent s) - sub_taken s < queue_chunks cfg
      then Some (s\<lparr>sub_sent := sub_sent s @ [(g, piece)]\<rparr>) else None)"

definition send_slice :: "hub_config \<Rightarrow> nat \<Rightarrow> bytes \<Rightarrow> (nat, subscriber) btree \<Rightarrow> (nat, subscriber) btree" where
  "send_slice cfg g piece subs =
     bt_try_each (try_send cfg g piece) subs"

definition distribute :: "hub_config \<Rightarrow> nat \<Rightarrow> bytes list \<Rightarrow> hub \<Rightarrow> hub" where
  "distribute cfg g slices h =
     h\<lparr>subscribers := fold (send_slice cfg g) slices (subscribers h), hub_log := hub_log h @ slices\<rparr>"

definition consume :: "hub_config \<Rightarrow> nat \<Rightarrow> bytes \<Rightarrow> hub \<Rightarrow> bool \<times> hub" where
  "consume cfg g chunk h =
     (if producer_generation h \<noteq> g then (False, h)
      else if subscribers h = [] then (\<not> closed h, h)
      else (True, (distribute cfg g (chunks_of SLICE_BYTES chunk) h)\<lparr>producer_started := None\<rparr>))"

definition backoff_after :: "nat \<Rightarrow> bridge_error \<Rightarrow> int" where
  "backoff_after count e =
     (let b = (if 3 \<le> count then 600 else 2 ^ count)
      in if e = CameraOffline then max b OFFLINE_COOLDOWN else b)"

definition record_result :: "int \<Rightarrow> bool \<Rightarrow> bridge_error + unit \<Rightarrow> hub \<Rightarrow> hub" where
  "record_result now cancelled result h =
     (let count = min (2 ^ 32 - 1) (f_count (hub_failures h) + 1)
      in h\<lparr>last_failure := (case result of Inl e \<Rightarrow> Some (from_error e) | Inr _ \<Rightarrow> None),
           hub_failures := (case result of
               Inl e \<Rightarrow> if cancelled then \<lparr>f_count = 0, next_start = None\<rparr>
                         else \<lparr>f_count = count, next_start = Some (now + backoff_after count e)\<rparr>
             | Inr _ \<Rightarrow> \<lparr>f_count = 0, next_start = None\<rparr>),
           producer_started := None\<rparr>)"

section \<open>Interleavings\<close>

inductive hub_step :: "hub_config \<Rightarrow> hub \<Rightarrow> hub \<Rightarrow> bool" for cfg where
  sub_check: "\<not> closed h \<Longrightarrow> hub_step cfg h (h\<lparr>pending_subs := pending_subs h + 1\<rparr>)"
| sub_lock: "pending_subs h = Suc n \<Longrightarrow> subscribe_locked cfg now (h\<lparr>pending_subs := n\<rparr>) = (res, h') \<Longrightarrow> hub_step cfg h h'"
| leave: "hub_step cfg h (remove_subscriber i h)"
| receive: "bt_get (subscribers h) i = Some s \<Longrightarrow> sub_taken s < length (sub_sent s)
    \<Longrightarrow> hub_step cfg h (h\<lparr>subscribers := bt_modify i (\<lambda>s. s\<lparr>sub_taken := sub_taken s + 1\<rparr>) (subscribers h)\<rparr>)"
| hang_up: "hub_step cfg h (h\<lparr>subscribers := bt_modify i (\<lambda>s. s\<lparr>sub_open := False\<rparr>) (subscribers h)\<rparr>)"
| idle_check: "idle_timers h = Suc n
    \<Longrightarrow> hub_step cfg h (h\<lparr>idle_timers := n, idle_seen := (if subscribers h = [] then idle_seen h + 1 else idle_seen h)\<rparr>)"
| idle_cancel: "idle_seen h = Suc n
    \<Longrightarrow> hub_step cfg h (case producer h of None \<Rightarrow> h\<lparr>idle_seen := n\<rparr> | Some g \<Rightarrow> cancel_task g (h\<lparr>idle_seen := n\<rparr>))"
| first_poll: "bt_get (hub_tasks h) g = Some t \<Longrightarrow> t_phase t = Spawned
    \<Longrightarrow> delay = (case next_start (hub_failures h) of None \<Rightarrow> 0 | Some s \<Rightarrow> max 0 (s - now))
    \<Longrightarrow> hub_step cfg h (if delay = 0 then (set_task_phase g Streaming h)\<lparr>producer_started := Some now\<rparr>
          else set_task_phase g (Waiting (now + delay)) h)"
| wake: "bt_get (hub_tasks h) g = Some t \<Longrightarrow> t_phase t = Waiting s \<Longrightarrow> s \<le> now
    \<Longrightarrow> hub_step cfg h ((set_task_phase g Streaming h)\<lparr>producer_started := Some now\<rparr>)"
| quit: "bt_get (hub_tasks h) g = Some t \<Longrightarrow> t_phase t = Waiting s \<Longrightarrow> t_cancelled t
    \<Longrightarrow> hub_step cfg h (set_task_phase g Task_Finished h)"
| deliver: "bt_get (hub_tasks h) g = Some t \<Longrightarrow> t_phase t = Streaming \<Longrightarrow> hub_step cfg h (snd (consume cfg g chunk h))"
| stream_end: "bt_get (hub_tasks h) g = Some t \<Longrightarrow> t_phase t = Streaming
    \<Longrightarrow> hub_step cfg h (set_task_phase g (if producer_generation h \<noteq> g then Task_Finished else Recording_Result result) h)"
| note_result: "bt_get (hub_tasks h) g = Some t \<Longrightarrow> t_phase t = Recording_Result result
    \<Longrightarrow> hub_step cfg h (set_task_phase g Draining (record_result now (t_cancelled t) result h))"
| drain: "bt_get (hub_tasks h) g = Some t \<Longrightarrow> t_phase t = Draining
    \<Longrightarrow> hub_step cfg h (set_task_phase g Drained (h\<lparr>subscribers := []\<rparr>))"
| task_end: "bt_get (hub_tasks h) g = Some t \<Longrightarrow> t_phase t = Drained \<Longrightarrow> hub_step cfg h (set_task_phase g Task_Finished h)"
| close_flag: "hub_step cfg h (h\<lparr>closed := True\<rparr>)"
| close_take: "closed h \<Longrightarrow> producer h = Some g
    \<Longrightarrow> hub_step cfg h ((cancel_task g h)\<lparr>producer := None, closing := Some g\<rparr>)"
| close_clear: "closed h \<Longrightarrow> closing h = None \<or> closing h = Some g \<and> \<not> task_running g h
    \<Longrightarrow> hub_step cfg h (h\<lparr>subscribers := []\<rparr>)"

section \<open>The invariant\<close>

definition sub_ok :: "hub_config \<Rightarrow> nat \<Rightarrow> bytes list \<Rightarrow> subscriber \<Rightarrow> bool" where
  "sub_ok cfg g log s \<longleftrightarrow> (\<forall>(k, c) \<in> set (sub_sent s). k = g \<and> length c \<le> SLICE_BYTES)
     \<and> suffix (map snd (sub_sent s)) log
     \<and> length (sub_sent s) - sub_taken s \<le> queue_chunks cfg"

definition all_fresh :: "hub \<Rightarrow> bool" where
  "all_fresh h \<longleftrightarrow> (\<forall>(i, s) \<in> set (subscribers h). sub_sent s = [])"

definition subs_ok :: "hub_config \<Rightarrow> hub \<Rightarrow> bool" where
  "subs_ok cfg h \<longleftrightarrow> (\<forall>(i, s) \<in> set (subscribers h). sub_ok cfg (producer_generation h) (hub_log h) s)"

text \<open>What the phase of the current session says about the subscribers.\<close>

fun phase_ok :: "hub \<Rightarrow> task_phase \<Rightarrow> bool" where
  "phase_ok h Spawned = all_fresh h"
| "phase_ok h (Waiting _) = all_fresh h"
| "phase_ok h Drained = (subscribers h = [])"
| "phase_ok h Task_Finished = all_fresh h"
| "phase_ok h _ = True"

definition tasks_ok :: "hub \<Rightarrow> bool" where
  "tasks_ok h \<longleftrightarrow> bt_ordered (hub_tasks h) \<and> (\<forall>g \<in> fst ` set (hub_tasks h). g \<le> producer_generation h)
     \<and> (\<forall>g. producer h = Some g \<longrightarrow> g = producer_generation h)
     \<and> (\<forall>g t. bt_get (hub_tasks h) g = Some t \<longrightarrow> t_phase t \<noteq> Task_Finished \<longrightarrow> \<not> t_cancelled t \<longrightarrow> producer h = Some g)"

definition open_ok :: "hub_config \<Rightarrow> hub \<Rightarrow> bool" where
  "open_ok cfg h \<longleftrightarrow> subs_ok cfg h
     \<and> (case producer h of None \<Rightarrow> subscribers h = []
        | Some g \<Rightarrow> (\<exists>t. bt_get (hub_tasks h) g = Some t \<and> phase_ok h (t_phase t)))"

definition hub_inv :: "hub_config \<Rightarrow> hub \<Rightarrow> bool" where
  "hub_inv cfg h \<longleftrightarrow> length (subscribers h) \<le> max_subscribers cfg \<and> tasks_ok h \<and> (closed h \<or> open_ok cfg h)"

lemma hub_inv_new: "hub_inv cfg hub_new"
  by (simp add: hub_inv_def hub_new_def tasks_ok_def open_ok_def subs_ok_def)

text \<open>Steps that only drop subscribers or change what they have taken.\<close>

definition subs_shrink :: "hub \<Rightarrow> hub \<Rightarrow> bool" where
  "subs_shrink h h' \<longleftrightarrow> length (subscribers h') \<le> length (subscribers h)
     \<and> (\<forall>(i, s') \<in> set (subscribers h'). \<exists>s. (i, s) \<in> set (subscribers h) \<and> sub_sent s' = sub_sent s \<and> sub_taken s \<le> sub_taken s')"

lemma shrink_ok:
  assumes "subs_shrink h h'" "producer_generation h' = producer_generation h" "hub_log h' = hub_log h"
  shows "subs_ok cfg h \<Longrightarrow> subs_ok cfg h'" "all_fresh h \<Longrightarrow> all_fresh h'" "subscribers h = [] \<Longrightarrow> subscribers h' = []"
proof -
  show "subscribers h = [] \<Longrightarrow> subscribers h' = []"
    using assms(1) by (simp add: subs_shrink_def)
  show "all_fresh h \<Longrightarrow> all_fresh h'"
    using assms(1) by (fastforce simp: subs_shrink_def all_fresh_def)
  assume ok: "subs_ok cfg h"
  show "subs_ok cfg h'"
    unfolding subs_ok_def
  proof clarify
    fix i s'
    assume "(i, s') \<in> set (subscribers h')"
    then obtain s where s: "(i, s) \<in> set (subscribers h)" "sub_sent s' = sub_sent s" "sub_taken s \<le> sub_taken s'"
      using assms(1) unfolding subs_shrink_def by blast
    then have "sub_ok cfg (producer_generation h) (hub_log h) s"
      using ok unfolding subs_ok_def by blast
    then show "sub_ok cfg (producer_generation h') (hub_log h') s'"
      using s(2,3) assms(2,3) unfolding sub_ok_def by auto
  qed
qed

lemma shrink_inv:
  assumes inv: "hub_inv cfg h" and shrink: "subs_shrink h h'"
    and same: "producer_generation h' = producer_generation h" "hub_log h' = hub_log h" "hub_tasks h' = hub_tasks h"
      "producer h' = producer h" "closed h \<longrightarrow> closed h'"
  shows "hub_inv cfg h'"
proof -
  have "tasks_ok h'"
    using inv same by (simp add: hub_inv_def tasks_ok_def)
  moreover have "open_ok cfg h'" if o: "open_ok cfg h"
  proof (cases "producer h")
    case None
    then show ?thesis
      using o shrink_ok [OF shrink same(1,2)] same(4) by (simp add: open_ok_def)
  next
    case (Some g)
    then obtain t where t: "bt_get (hub_tasks h) g = Some t" "phase_ok h (t_phase t)"
      using o by (auto simp: open_ok_def)
    then have "phase_ok h' (t_phase t)"
      using shrink_ok(2,3) [OF shrink same(1,2)] by (cases "t_phase t") auto
    then show ?thesis
      using o Some t(1) shrink_ok(1) [OF shrink same(1,2)] same(3,4) by (simp add: open_ok_def)
  qed
  ultimately show ?thesis
    using inv shrink same(5) by (auto simp: hub_inv_def subs_shrink_def)
qed

lemma subs_shrink_intros:
  "subscribers h' = subscribers h \<Longrightarrow> subs_shrink h h'"
  "subscribers h' = bt_remove i (subscribers h) \<Longrightarrow> subs_shrink h h'"
  "subscribers h' = bt_modify i f (subscribers h) \<Longrightarrow> (\<And>s. sub_sent (f s) = sub_sent s \<and> sub_taken s \<le> sub_taken (f s))
    \<Longrightarrow> subs_shrink h h'"
  "subscribers h' = [] \<Longrightarrow> subs_shrink h h'"
  by (auto simp: subs_shrink_def bt_remove_def bt_retain_def bt_modify_def)

lemma phase_ok_cong: "subscribers h' = subscribers h \<Longrightarrow> phase_ok h' ph = phase_ok h ph"
  by (cases ph) (simp_all add: all_fresh_def)

text \<open>Changing one task.\<close>

lemma task_inv:
  assumes inv: "hub_inv cfg h" and t: "bt_get (hub_tasks h) g = Some t"
    and f: "t_phase (f t) \<noteq> Task_Finished \<Longrightarrow> \<not> t_cancelled (f t) \<Longrightarrow> t_phase t \<noteq> Task_Finished \<and> \<not> t_cancelled t"
    and ph: "producer h = Some g \<Longrightarrow> open_ok cfg h \<Longrightarrow> phase_ok h (t_phase (f t))"
  shows "hub_inv cfg (h\<lparr>hub_tasks := bt_modify g f (hub_tasks h)\<rparr>)"
proof -
  let ?h = "h\<lparr>hub_tasks := bt_modify g f (hub_tasks h)\<rparr>"
  have keys: "fst ` set (bt_modify g f (hub_tasks h)) = fst ` set (hub_tasks h)"
    by (metis keys_bt_modify list.set_map)
  have "tasks_ok ?h"
    using inv t f by (auto simp: hub_inv_def tasks_ok_def keys split: if_splits)
  moreover have "open_ok cfg ?h" if o: "open_ok cfg h"
  proof (cases "producer h")
    case None
    then show ?thesis using o by (simp add: open_ok_def subs_ok_def)
  next
    case (Some k)
    then show ?thesis
      using o t ph phase_ok_cong [of ?h h] by (cases "k = g") (auto simp: open_ok_def subs_ok_def)
  qed
  ultimately show ?thesis
    using inv by (auto simp: hub_inv_def)
qed

lemma phase_inv:
  assumes "hub_inv cfg h" "bt_get (hub_tasks h) g = Some t" "t_phase t \<noteq> Task_Finished"
    and "producer h = Some g \<Longrightarrow> open_ok cfg h \<Longrightarrow> phase_ok h ph"
  shows "hub_inv cfg (set_task_phase g ph h)"
  unfolding set_task_phase_def using assms by (intro task_inv) auto

lemma bt_modify_absent: "bt_get m k = None \<Longrightarrow> bt_modify k f m = m"
  by (induction m) (auto simp: bt_modify_def split: if_splits)

lemma cancel_inv:
  assumes "hub_inv cfg h"
  shows "hub_inv cfg (cancel_task g h)"
proof (cases "bt_get (hub_tasks h) g")
  case None
  then have "bt_modify g f (hub_tasks h) = hub_tasks h" for f
    by (rule bt_modify_absent)
  then show ?thesis
    using assms by (simp add: cancel_task_def)
next
  case (Some t)
  then show ?thesis
    unfolding cancel_task_def using assms by (intro task_inv) (auto simp: open_ok_def)
qed

lemma spawn_inv:
  assumes inv: "hub_inv cfg h" and fresh: "closed h \<or> all_fresh h"
    and idle: "\<And>g t. bt_get (hub_tasks h) g = Some t \<Longrightarrow> t_phase t = Task_Finished \<or> t_cancelled t"
  shows "hub_inv cfg (spawn_producer now h)"
proof -
  let ?h = "spawn_producer now h" and ?g = "producer_generation h + 1"
  have h: "subscribers ?h = subscribers h" "producer ?h = Some ?g" "producer_generation ?h = ?g" "hub_log ?h = []"
    "closed ?h = closed h" "hub_tasks ?h = bt_insert ?g \<lparr>t_cancelled = False, t_phase = Spawned\<rparr> (hub_tasks h)"
    by (simp_all add: spawn_producer_def Let_def)
  have "tasks_ok ?h"
    unfolding tasks_ok_def h using inv idle by (auto simp: hub_inv_def tasks_ok_def split: if_splits)
  moreover have "open_ok cfg ?h" if "all_fresh h"
    using that by (auto simp: open_ok_def h subs_ok_def sub_ok_def all_fresh_def)
  ultimately show ?thesis
    using inv fresh by (auto simp: hub_inv_def h)
qed

lemma hub_tasks_idle:
  assumes "hub_inv cfg h" "bt_get (hub_tasks h) g = Some t" "producer h = None \<or> (\<exists>k. producer h = Some k \<and> \<not> task_running k h)"
  shows "t_phase t = Task_Finished \<or> t_cancelled t"
proof (rule ccontr)
  assume no: "\<not> ?thesis"
  have "tasks_ok h"
    using assms(1) by (simp add: hub_inv_def)
  then have "producer h = Some g"
    using assms(2) no unfolding tasks_ok_def by blast
  then show False
    using assms(2,3) no by (simp add: task_running_def)
qed

lemma ensure_inv:
  assumes inv: "hub_inv cfg h" and restart: "restart = (subscribers h = [] \<and> producer_running h)"
  shows "hub_inv cfg (ensure_running restart now h)"
    "closed h \<or> subs_ok cfg (ensure_running restart now h) \<and> (\<exists>g t. producer (ensure_running restart now h) = Some g
      \<and> bt_get (hub_tasks (ensure_running restart now h)) g = Some t \<and> t_phase t \<noteq> Drained)"
    "subscribers (ensure_running restart now h) = subscribers h" "closed (ensure_running restart now h) = closed h"
proof -
  have spawned: "producer (spawn_producer now x) = Some (producer_generation x + 1)"
    "bt_get (hub_tasks (spawn_producer now x)) (producer_generation x + 1) = Some \<lparr>t_cancelled = False, t_phase = Spawned\<rparr>"
    "subscribers (spawn_producer now x) = subscribers x" "closed (spawn_producer now x) = closed x" for x
    by (simp_all add: spawn_producer_def Let_def)
  have go: "hub_inv cfg (spawn_producer now x) \<Longrightarrow> closed x \<or> subs_ok cfg (spawn_producer now x)" for x
    using spawned(4) by (auto simp: hub_inv_def open_ok_def)
  have cancelled: "subscribers (cancel_task g h) = subscribers h" "closed (cancel_task g h) = closed h" for g
    by (simp_all add: cancel_task_def)
  consider (stay) g where "producer h = Some g" "task_running g h" "\<not> restart" "ensure_running restart now h = h"
    | (again) g where "producer h = Some g" "task_running g h" restart
        "ensure_running restart now h = spawn_producer now (cancel_task g h)"
    | (fresh) "producer h = None \<or> (\<exists>k. producer h = Some k \<and> \<not> task_running k h)"
        "ensure_running restart now h = spawn_producer now h"
    by (cases "producer h") (auto simp: ensure_running_def split: if_splits)
  then have "hub_inv cfg (ensure_running restart now h) \<and> (closed h \<or> subs_ok cfg (ensure_running restart now h)
      \<and> (\<exists>g t. producer (ensure_running restart now h) = Some g
        \<and> bt_get (hub_tasks (ensure_running restart now h)) g = Some t \<and> t_phase t \<noteq> Drained))
      \<and> subscribers (ensure_running restart now h) = subscribers h \<and> closed (ensure_running restart now h) = closed h"
  proof cases
    case stay
    have "closed h \<or> (\<exists>t. bt_get (hub_tasks h) g = Some t \<and> t_phase t \<noteq> Drained)"
      using inv stay restart by (auto simp: hub_inv_def open_ok_def producer_running_def)
    then show ?thesis
      using inv stay by (auto simp: hub_inv_def open_ok_def)
  next
    case again
    have "t_phase t = Task_Finished \<or> t_cancelled t" if "bt_get (hub_tasks (cancel_task g h)) k = Some t" for k t
      using that inv again(1) by (auto simp: cancel_task_def hub_inv_def tasks_ok_def split: if_splits)
    then have "hub_inv cfg (spawn_producer now (cancel_task g h))"
      using again restart by (intro spawn_inv cancel_inv [OF inv]) (auto simp: all_fresh_def cancelled)
    then show ?thesis
      using go spawned cancelled by (fastforce simp: again(4))
  next
    case fresh
    have "all_fresh h" if o: "open_ok cfg h"
    proof (cases "producer h")
      case None
      then show ?thesis using o by (simp add: open_ok_def all_fresh_def)
    next
      case (Some k)
      then obtain t where "bt_get (hub_tasks h) k = Some t" "phase_ok h (t_phase t)"
        using o by (auto simp: open_ok_def)
      then show ?thesis
        using fresh(1) Some by (auto simp: task_running_def)
    qed
    then have "hub_inv cfg (spawn_producer now h)"
      using inv hub_tasks_idle [OF inv _ fresh(1)] by (intro spawn_inv) (auto simp: hub_inv_def)
    then show ?thesis
      using go spawned by (fastforce simp: fresh(2))
  qed
  then show "hub_inv cfg (ensure_running restart now h)"
    "closed h \<or> subs_ok cfg (ensure_running restart now h) \<and> (\<exists>g t. producer (ensure_running restart now h) = Some g
      \<and> bt_get (hub_tasks (ensure_running restart now h)) g = Some t \<and> t_phase t \<noteq> Drained)"
    "subscribers (ensure_running restart now h) = subscribers h" "closed (ensure_running restart now h) = closed h"
    by blast+
qed

lemma subscribe_inv:
  assumes inv: "hub_inv cfg h" and s: "subscribe_locked cfg now h = (res, h')"
  shows "hub_inv cfg h'"
proof -
  let ?h = "h\<lparr>next_id := next_id h + 1\<rparr>"
  have inv': "hub_inv cfg ?h"
    using inv by (intro shrink_inv [OF inv]) (auto intro: subs_shrink_intros)
  show ?thesis
  proof (cases "max_subscribers cfg \<le> length (subscribers h)")
    case True
    then show ?thesis using s inv' by (simp add: subscribe_locked_def Let_def)
  next
    case False
    define e where "e = ensure_running (subscribers ?h = [] \<and> producer_running ?h) now ?h"
    note en = ensure_inv [OF inv' refl, of now, folded e_def]
    let ?new = "\<lparr>sub_sent = [], sub_taken = 0, sub_open = True\<rparr>"
    have h': "h' = e\<lparr>subscribers := bt_insert (next_id h) ?new (subscribers e)\<rparr>"
      using s False by (simp add: subscribe_locked_def Let_def e_def)
    have len: "length (subscribers h') \<le> max_subscribers cfg"
      using False length_bt_insert [of "next_id h" ?new "subscribers e"] en(3) by (simp add: h')
    have mem: "set (bt_insert k ?new m) \<subseteq> insert (k, ?new) (set m)" for k and m :: "(nat, subscriber) btree"
      by (induction k "?new" m rule: bt_insert.induct) auto
    have "tasks_ok h'"
      using en(1) by (simp add: h' hub_inv_def tasks_ok_def)
    moreover have "closed h' \<or> open_ok cfg h'"
    proof (cases "closed h")
      case True
      then show ?thesis using en(4) by (simp add: h')
    next
      case open': False
      obtain g t where gt: "producer e = Some g" "bt_get (hub_tasks e) g = Some t" "t_phase t \<noteq> Drained" "subs_ok cfg e"
        using en(2) open' by auto
      have "phase_ok e (t_phase t)"
        using en(1,4) open' gt by (auto simp: hub_inv_def open_ok_def)
      then have "phase_ok h' (t_phase t)"
        using gt(3) mem [of "next_id h" "subscribers e"] by (cases "t_phase t") (auto simp: h' all_fresh_def)
      moreover have "subs_ok cfg h'"
      proof -
        have new: "sub_ok cfg g l ?new" for g l
          by (simp add: sub_ok_def)
        show ?thesis
          using gt(4) mem [of "next_id h" "subscribers e"] new unfolding subs_ok_def h' by auto
      qed
      ultimately show ?thesis
        using gt(1,2) by (simp add: open_ok_def h')
    qed
    ultimately show ?thesis
      using len by (simp add: hub_inv_def)
  qed
qed

interpretation sub_channel: bounded_channel "\<lambda>(g, piece). try_send cfg g piece" sub_sent
  "\<lambda>s. length (sub_sent s) - sub_taken s" "queue_chunks cfg" for cfg
  by unfold_locales (auto simp: try_send_def split: if_splits)

lemma send_piece_ok:
  assumes "\<forall>(i, s) \<in> set subs. sub_ok cfg g log s" "length piece \<le> SLICE_BYTES"
  shows "\<forall>(i, s) \<in> set (send_slice cfg g piece subs). sub_ok cfg g (log @ [piece]) s"
    "length (send_slice cfg g piece subs) \<le> length subs"
proof -
  show "\<forall>(i, s) \<in> set (send_slice cfg g piece subs). sub_ok cfg g (log @ [piece]) s"
  proof clarify
    fix i s'
    assume "(i, s') \<in> set (send_slice cfg g piece subs)"
    then obtain s where "(i, s) \<in> set subs" "sub_sent s' = sub_sent s @ [(g, piece)]"
      "length (sub_sent s') - sub_taken s' \<le> queue_chunks cfg"
      using sub_channel.fan_out_entry [of i s' cfg "(g, piece)" subs] by (auto simp: send_slice_def)
    then show "sub_ok cfg g (log @ [piece]) s'"
      using assms by (fastforce simp: sub_ok_def)
  qed
  show "length (send_slice cfg g piece subs) \<le> length subs"
    by (simp add: send_slice_def)
qed

lemma send_pieces_length: "length (fold (send_slice cfg g) pieces subs) \<le> length subs"
proof (induction pieces arbitrary: subs)
  case (Cons p pieces)
  have "length (send_slice cfg g p subs) \<le> length subs"
    by (simp add: send_slice_def)
  then show ?case
    using Cons [of "send_slice cfg g p subs"] by simp
qed simp

lemma send_pieces_ok:
  assumes "\<forall>(i, s) \<in> set subs. sub_ok cfg g log s" "list_all (\<lambda>p. length p \<le> SLICE_BYTES) pieces"
  shows "(\<forall>(i, s) \<in> set (fold (send_slice cfg g) pieces subs). sub_ok cfg g (log @ pieces) s)
    \<and> length (fold (send_slice cfg g) pieces subs) \<le> length subs"
  using assms
proof (induction pieces arbitrary: subs log)
  case (Cons p pieces)
  note step = send_piece_ok [OF Cons.prems(1), of p]
  have "list_all (\<lambda>p. length p \<le> SLICE_BYTES) pieces" "length p \<le> SLICE_BYTES"
    using Cons.prems(2) by simp_all
  then show ?case
    using Cons.IH [OF step(1)] step(2) by (fastforce intro: le_trans)
qed simp

lemma consume_inv:
  assumes inv: "hub_inv cfg h" and t: "bt_get (hub_tasks h) g = Some t" "t_phase t = Streaming"
  shows "hub_inv cfg (snd (consume cfg g chunk h))"
proof (cases "producer_generation h \<noteq> g \<or> subscribers h = []")
  case True
  then show ?thesis using inv by (auto simp: consume_def)
next
  case False
  then have g: "producer_generation h = g" by simp
  let ?h = "snd (consume cfg g chunk h)" and ?p = "chunks_of SLICE_BYTES chunk"
  have h: "subscribers ?h = fold (send_slice cfg g) ?p (subscribers h)" "hub_log ?h = hub_log h @ ?p"
    "producer_generation ?h = g" "producer ?h = producer h" "hub_tasks ?h = hub_tasks h" "closed ?h = closed h"
    using False by (auto simp: consume_def distribute_def)
  have pieces: "list_all (\<lambda>p. length p \<le> SLICE_BYTES) ?p"
    using chunks_of_bounds [of _ SLICE_BYTES chunk] by (auto simp: list_all_iff SLICE_BYTES_def)
  have len: "length (subscribers ?h) \<le> length (subscribers h)"
    unfolding h by (rule send_pieces_length)
  have "open_ok cfg ?h" if o: "open_ok cfg h"
  proof -
    have "subs_ok cfg ?h"
      using send_pieces_ok [OF _ pieces, of "subscribers h" cfg g "hub_log h"] o g
      by (simp add: open_ok_def subs_ok_def h)
    moreover obtain k where k: "producer h = Some k"
      using o False by (cases "producer h") (auto simp: open_ok_def)
    moreover have "k = g"
      using inv k g by (simp add: hub_inv_def tasks_ok_def)
    ultimately show ?thesis
      using t by (simp add: open_ok_def h)
  qed
  moreover have "tasks_ok ?h"
    using inv g unfolding hub_inv_def tasks_ok_def h by blast
  ultimately show ?thesis
    using inv len by (auto simp: hub_inv_def h)
qed

lemma hub_inv_step:
  assumes "hub_step cfg h h'" and inv: "hub_inv cfg h"
  shows "hub_inv cfg h'"
  using assms(1)
proof (cases rule: hub_step.cases)
  case (sub_lock n now res)
  have "hub_inv cfg (h\<lparr>pending_subs := n\<rparr>)"
    by (rule shrink_inv [OF inv]) (auto intro: subs_shrink_intros)
  then show ?thesis using subscribe_inv sub_lock(2) by blast
next
  case (leave i)
  then show ?thesis
    by (intro shrink_inv [OF inv]) (auto simp: remove_subscriber_def Let_def intro: subs_shrink_intros(2,4))
next
  case (receive i s)
  then show ?thesis
    by (intro shrink_inv [OF inv]) (auto intro!: subs_shrink_intros(3))
next
  case (hang_up i)
  then show ?thesis
    by (intro shrink_inv [OF inv]) (auto intro!: subs_shrink_intros(3))
next
  case (idle_cancel n)
  have "hub_inv cfg (h\<lparr>idle_seen := n\<rparr>)"
    by (rule shrink_inv [OF inv]) (auto intro: subs_shrink_intros)
  then show ?thesis
    using idle_cancel(1) cancel_inv by (auto split: option.splits)
next
  case (first_poll g t delay now)
  have "hub_inv cfg (set_task_phase g Streaming h)" "hub_inv cfg (set_task_phase g (Waiting (now + delay)) h)"
    using first_poll(2,3) by (auto intro!: phase_inv [OF inv] simp: open_ok_def)
  moreover have "hub_inv cfg ((set_task_phase g Streaming h)\<lparr>producer_started := Some now\<rparr>)"
    using calculation(1) by (rule shrink_inv) (auto intro: subs_shrink_intros)
  ultimately show ?thesis
    using first_poll(1) by simp
next
  case (wake g t s now)
  have "hub_inv cfg (set_task_phase g Streaming h)"
    using wake(2,3) by (auto intro!: phase_inv [OF inv])
  then show ?thesis
    unfolding wake(1) by (rule shrink_inv) (auto intro: subs_shrink_intros)
next
  case (quit g t s)
  then show ?thesis
    by (auto intro!: phase_inv [OF inv] simp: open_ok_def)
next
  case (deliver g t chunk)
  then show ?thesis
    using consume_inv [OF inv] by simp
next
  case (stream_end g t result)
  have "producer h = Some g \<Longrightarrow> producer_generation h = g"
    using inv by (simp add: hub_inv_def tasks_ok_def)
  then show ?thesis
    using stream_end by (auto intro!: phase_inv [OF inv])
next
  case (note_result g t result now)
  have "hub_inv cfg (record_result now (t_cancelled t) result h)"
    by (rule shrink_inv [OF inv]) (auto simp: record_result_def Let_def intro: subs_shrink_intros)
  moreover have "hub_tasks (record_result now (t_cancelled t) result h) = hub_tasks h"
    by (simp add: record_result_def Let_def)
  ultimately show ?thesis
    using note_result by (auto intro!: phase_inv)
next
  case (drain g t)
  have "hub_inv cfg (h\<lparr>subscribers := []\<rparr>)"
    by (rule shrink_inv [OF inv]) (auto intro: subs_shrink_intros)
  then show ?thesis
    using drain by (auto intro!: phase_inv)
next
  case (task_end g t)
  then show ?thesis
    by (auto intro!: phase_inv [OF inv] simp: open_ok_def all_fresh_def)
next
  case (close_take g)
  have "hub_inv cfg (cancel_task g h)"
    using cancel_inv [OF inv] .
  then have "tasks_ok (cancel_task g h)" "length (subscribers h) \<le> max_subscribers cfg"
    by (auto simp: hub_inv_def cancel_task_def)
  then show ?thesis
    using close_take by (auto simp: hub_inv_def tasks_ok_def cancel_task_def split: if_splits)
next
  case (close_clear g)
  then show ?thesis
    by (intro shrink_inv [OF inv]) (auto intro: subs_shrink_intros)
qed (auto intro!: shrink_inv [OF inv] intro: subs_shrink_intros)

interpretation hub_machine: invariant_machine "hub_step cfg" "hub_inv cfg" for cfg
  by unfold_locales (rule hub_inv_step)

text \<open>C19. However subscribing, leaving, reading, idle timers, producer restarts, failures and deliveries
  interleave on a hub that is not being closed: there are never more subscribers than configured, a
  subscriber's queue stays bounded, everything a subscriber received comes from the current upstream
  session and is a gapless run of that session's slices up to the newest one, and at most one upstream
  task is alive without having been cancelled.\<close>

theorem hub_stream_integrity:
  assumes "(hub_step cfg)\<^sup>*\<^sup>* hub_new h" "\<not> closed h"
  shows "length (subscribers h) \<le> max_subscribers cfg
    \<and> list_all (\<lambda>(i, s). length (sub_sent s) - sub_taken s \<le> queue_chunks cfg
          \<and> list_all (\<lambda>(g, c). g = producer_generation h \<and> length c \<le> SLICE_BYTES) (sub_sent s)
          \<and> suffix (map snd (sub_sent s)) (hub_log h)) (subscribers h)
    \<and> list_all (\<lambda>(g, t). t_phase t = Task_Finished \<or> t_cancelled t \<or> producer h = Some g) (hub_tasks h)"
proof -
  have inv: "hub_inv cfg h"
    by (rule hub_machine.invariant_run [OF assms(1) hub_inv_new])
  have ord: "bt_ordered (hub_tasks h)" and one:
    "\<And>g t. bt_get (hub_tasks h) g = Some t \<Longrightarrow> t_phase t \<noteq> Task_Finished \<Longrightarrow> \<not> t_cancelled t \<Longrightarrow> producer h = Some g"
    using inv by (auto simp: hub_inv_def tasks_ok_def)
  have "list_all (\<lambda>(g, t). t_phase t = Task_Finished \<or> t_cancelled t \<or> producer h = Some g) (hub_tasks h)"
    using one unfolding bt_get_entry [OF ord] by (auto simp: list_all_iff)
  moreover have "subs_ok cfg h" "length (subscribers h) \<le> max_subscribers cfg"
    using inv assms(2) by (auto simp: hub_inv_def open_ok_def)
  ultimately show ?thesis
    by (auto simp: subs_ok_def sub_ok_def list_all_iff split_def)
qed

text \<open>How long the hub waits after a session: a cancelled or clean end clears the count; the first
  two failures wait two and four seconds, from the third on ten minutes; a camera that went offline
  always rests at least thirty seconds. The reason of the failure is kept for a subscriber that asks
  before that time and forgotten when a producer is spawned at or after it.\<close>

theorem hub_backoff:
  "let n = f_count (hub_failures h); h' = record_result now cancelled result h
   in (case result of
         Inr _ \<Rightarrow> hub_failures h' = \<lparr>f_count = 0, next_start = None\<rparr> \<and> startup_error h' = UpstreamUnavailable
       | Inl e \<Rightarrow>
           (if cancelled then hub_failures h' = \<lparr>f_count = 0, next_start = None\<rparr>
            else (\<exists>s. next_start (hub_failures h') = Some s
              \<and> (if n = 0 then s - now = (if e = CameraOffline then 30 else 2)
                  else if n = 1 then s - now = (if e = CameraOffline then 30 else 4)
                  else s - now = 600)
              \<and> last_failure (spawn_producer (s - 1) h') = Some (from_error e)
              \<and> last_failure (spawn_producer s h') = None))
           \<and> startup_error h' = (if e = CameraOffline then CameraOffline else UpstreamUnavailable))"
proof -
  let ?n = "f_count (hub_failures h)"
  have count: "3 \<le> min (2 ^ 32 - 1) (n + 1) \<longleftrightarrow> 2 \<le> n" "n < 2 \<Longrightarrow> min (2 ^ 32 - 1) (n + 1) = n + 1" for n :: nat
    by (auto simp: min_def)
  have b: "backoff_after (min (2 ^ 32 - 1) (?n + 1)) e = (if ?n = 0 then (if e = CameraOffline then 30 else 2)
      else if ?n = 1 then (if e = CameraOffline then 30 else 4) else 600)" for e
    unfolding backoff_after_def Let_def OFFLINE_COOLDOWN_def count(1)
    using count(2) [of ?n] by (cases "?n = 0"; cases "?n = 1") auto
  show ?thesis
  proof (cases result)
    case (Inr u)
    then show ?thesis
      by (simp add: Let_def record_result_def startup_error_def)
  next
    case (Inl e)
    show ?thesis
    proof (cases cancelled)
      case True
      then show ?thesis
        using Inl by (simp add: Let_def record_result_def startup_error_def from_error_def)
    next
      case False
      then show ?thesis
        unfolding Let_def record_result_def Inl b
        by (simp add: startup_error_def from_error_def spawn_producer_def Let_def)
    qed
  qed
qed

section \<open>Concrete runs\<close>

definition demo_cfg :: hub_config where "demo_cfg = \<lparr>queue_chunks = 2, max_subscribers = 1\<rparr>"

definition demo_join :: "hub \<Rightarrow> hub" where
  "demo_join h = snd (subscribe_locked demo_cfg 100 h)"

definition demo1 :: hub where "demo1 = demo_join hub_new"
definition demo2 :: hub where "demo2 = (set_task_phase 1 Streaming demo1)\<lparr>producer_started := Some 100\<rparr>"
definition demo3 :: hub where "demo3 = snd (consume demo_cfg 1 [7] demo2)"
definition demo4 :: hub where "demo4 = remove_subscriber 1 demo3"
definition demo5 :: hub where "demo5 = set_task_phase 1 (Recording_Result (Inl Timeout)) demo4"
definition demo6 :: hub where "demo6 = set_task_phase 1 Draining (record_result 100 False (Inl Timeout) demo5)"
definition demo7 :: hub where "demo7 = demo_join demo6"
definition demo8 :: hub where "demo8 = set_task_phase 1 Drained (demo7\<lparr>subscribers := []\<rparr>)"

lemma demo_joined:
  assumes "\<not> closed h" "pending_subs h = 0"
  shows "(hub_step demo_cfg)\<^sup>*\<^sup>* h (demo_join h)"
proof -
  let ?p = "h\<lparr>pending_subs := pending_subs h + 1\<rparr>"
  have "hub_step demo_cfg h ?p"
    using assms(1) by (rule sub_check)
  moreover have "hub_step demo_cfg ?p (demo_join h)"
    unfolding demo_join_def using assms(2)
    by (intro sub_lock [of ?p 0 demo_cfg 100 "fst (subscribe_locked demo_cfg 100 h)"]; cases h) simp_all
  ultimately show ?thesis
    by (meson converse_rtranclp_into_rtranclp r_into_rtranclp)
qed

lemma demo_delivered: "(hub_step demo_cfg)\<^sup>*\<^sup>* hub_new demo3"
proof -
  have "(hub_step demo_cfg)\<^sup>*\<^sup>* hub_new demo1"
    unfolding demo1_def by (rule demo_joined) (simp_all add: hub_new_def)
  moreover have "hub_step demo_cfg demo1 demo2"
  proof -
    have "bt_get (hub_tasks demo1) 1 = Some \<lparr>t_cancelled = False, t_phase = Spawned\<rparr>" "next_start (hub_failures demo1) = None"
      by code_simp+
    from first_poll [of demo1 1 _ 0 100, OF this(1)] this(2) show ?thesis
      by (simp add: demo2_def)
  qed
  moreover have "hub_step demo_cfg demo2 demo3"
  proof -
    have "bt_get (hub_tasks demo2) 1 = Some \<lparr>t_cancelled = False, t_phase = Streaming\<rparr>"
      by code_simp
    then show ?thesis
      unfolding demo3_def by (rule deliver) simp
  qed
  ultimately show ?thesis
    by (meson rtranclp.rtrancl_into_rtrancl)
qed

theorem hub_stream_integrity_witness:
  "subscribers demo3 = [(1, \<lparr>sub_sent = [(1, [7])], sub_taken = 0, sub_open = True\<rparr>)]
    \<and> length (subscribers demo3) \<le> max_subscribers demo_cfg \<and> suffix [[7]] (hub_log demo3)"
proof -
  have subs: "subscribers demo3 = [(1, \<lparr>sub_sent = [(1, [7])], sub_taken = 0, sub_open = True\<rparr>)]" and "\<not> closed demo3"
    by code_simp+
  from hub_stream_integrity [OF demo_delivered this(2)] show ?thesis
    unfolding subs by simp
qed

text \<open>The end of a stale session clears the subscribers of the session that replaced it: between the
  generation check of \<open>run_producer\<close> and the \<open>clear\<close> of \<open>record_result\<close> a new subscriber may have
  restarted the producer.\<close>

lemma stale_end_drops_subscriber:
  "\<exists>h h'. (hub_step demo_cfg)\<^sup>*\<^sup>* hub_new h \<and> hub_step demo_cfg h h'
    \<and> producer_generation h = 2 \<and> producer h = Some 2 \<and> map fst (subscribers h) = [2]
    \<and> bt_get (hub_tasks h) 2 = Some \<lparr>t_cancelled = False, t_phase = Spawned\<rparr>
    \<and> subscribers h' = [] \<and> bt_get (hub_tasks h') 2 = bt_get (hub_tasks h) 2 \<and> \<not> closed h'"
proof -
  have s4: "hub_step demo_cfg demo3 demo4"
    unfolding demo4_def by (rule leave)
  have s5: "hub_step demo_cfg demo4 demo5"
  proof -
    have "bt_get (hub_tasks demo4) 1 = Some \<lparr>t_cancelled = False, t_phase = Streaming\<rparr>" "producer_generation demo4 = 1"
      by code_simp+
    from stream_end [OF this(1), of demo_cfg "Inl Timeout"] this(2) show ?thesis
      by (simp add: demo5_def)
  qed
  have s6: "hub_step demo_cfg demo5 demo6"
  proof -
    have "bt_get (hub_tasks demo5) 1 = Some \<lparr>t_cancelled = False, t_phase = Recording_Result (Inl Timeout)\<rparr>"
      by code_simp
    from note_result [OF this, of "Inl Timeout" demo_cfg 100] show ?thesis
      by (simp add: demo6_def)
  qed
  have s7: "(hub_step demo_cfg)\<^sup>*\<^sup>* demo6 demo7"
    unfolding demo7_def by (rule demo_joined; code_simp)
  have run: "(hub_step demo_cfg)\<^sup>*\<^sup>* hub_new demo7"
    by (rule rtranclp_trans [OF rtranclp.rtrancl_into_rtrancl [OF rtranclp.rtrancl_into_rtrancl
          [OF rtranclp.rtrancl_into_rtrancl [OF demo_delivered s4] s5] s6] s7])
  have s8: "hub_step demo_cfg demo7 demo8"
  proof -
    have "bt_get (hub_tasks demo7) 1 = Some \<lparr>t_cancelled = True, t_phase = Draining\<rparr>"
      by code_simp
    then show ?thesis
      unfolding demo8_def by (rule drain) simp
  qed
  have "producer_generation demo7 = 2 \<and> producer demo7 = Some 2 \<and> map fst (subscribers demo7) = [2]
    \<and> bt_get (hub_tasks demo7) 2 = Some \<lparr>t_cancelled = False, t_phase = Spawned\<rparr>"
    by code_simp
  moreover have "subscribers demo8 = [] \<and> bt_get (hub_tasks demo8) 2 = bt_get (hub_tasks demo7) 2 \<and> \<not> closed demo8"
    by code_simp
  ultimately show ?thesis
    using run s8 by (intro exI [of _ demo7] exI [of _ demo8] conjI) simp_all
qed

end
