(* ===== verification/Sd_Records.thy ===== *)
theory Sd_Records
  imports Bridge_Error Ordered_Map "HOL-Library.Product_Lexorder"
begin

text \<open>
  The cloud's view of a camera (\<open>device/model.rs\<close>), the microSD status (\<open>device/storage.rs\<close>), the
  parsers of the two record-index protocols (\<open>device/records.rs\<close>) and the bounded search over them
  (\<open>device/search.rs\<close>).

  The calendar (\<open>chrono\<close>), base64, zlib and the JSON parser are the fields of \<open>device_lib\<close>. A wall-clock
  time is its seconds since the epoch read as UTC, with the nanoseconds (a leap second, \<open>23:59:60\<close>, is
  second 59 with 10^9 nanoseconds); a calendar day is its day number.
\<close>

record device_lib =
  lib_local :: "string \<Rightarrow> (int \<times> nat) option"
  lib_day :: "string \<Rightarrow> int option"
  lib_show_day :: "int \<Rightarrow> string"
  lib_hms :: "nat \<Rightarrow> nat \<Rightarrow> nat \<Rightarrow> int option"
  lib_stamp :: "int \<Rightarrow> string option"
  lib_offset :: int
  lib_base64 :: "string \<Rightarrow> bytes option"
  lib_inflate :: "bytes \<Rightarrow> nat \<Rightarrow> bytes option"
  lib_json :: "string \<Rightarrow> json option"

section \<open>Device status\<close>

definition RECORD_SEARCH_CAPABILITY :: string where "RECORD_SEARCH_CAPABILITY = ''256''"
definition MAX_OFFSET_SECONDS :: int where "MAX_OFFSET_SECONDS = 14 * 3600"

datatype record_search_version = V2 | Common

record device_status =
  video_encrypted :: "bool option"
  encrypt_pwd_hash :: "string option"
  utc_offset_seconds :: "int option"
  record_search_of :: "record_search_version option"

definition device_status_default :: device_status where
  "device_status_default = \<lparr>video_encrypted = None, encrypt_pwd_hash = None,
     utc_offset_seconds = None, record_search_of = None\<rparr>"

definition epoch :: "device_lib \<Rightarrow> device_status \<Rightarrow> int \<times> nat \<Rightarrow> int" where
  "epoch lib st local =
     (let offset = (case utc_offset_seconds st of Some o' \<Rightarrow> o' | None \<Rightarrow> lib_offset lib)
      in fst local - offset)"

definition playback_time :: "device_lib \<Rightarrow> device_status \<Rightarrow> int \<Rightarrow> string option" where
  "playback_time lib st at =
     (let offset = (case utc_offset_seconds st of Some o' \<Rightarrow> o' | None \<Rightarrow> lib_offset lib)
      in if in_i64 (at + offset) then lib_stamp lib (at + offset) else None)"

definition strip_prefix :: "string \<Rightarrow> string \<Rightarrow> string option" where
  "strip_prefix p s = (if starts_with s p then Some (drop (length p) s) else None)"

definition split_once :: "char \<Rightarrow> string \<Rightarrow> (string \<times> string) option" where
  "split_once c s =
     (if c \<in> set s then Some (takeWhile (\<lambda>x. x \<noteq> c) s, tl (dropWhile (\<lambda>x. x \<noteq> c) s)) else None)"

definition offset_of :: "int \<Rightarrow> string \<Rightarrow> string \<Rightarrow> int option" where
  "offset_of sign hours minutes =
     (if hours = [] \<or> 2 < length hours \<or> 2 < length minutes \<or> \<not> list_all ascii_digit (hours @ minutes)
         \<or> minutes = []
      then None
      else let h = int (digits_val hours); m = int (digits_val minutes);
               offset = sign * (h * 3600 + m * 60)
           in if 60 \<le> m then None
              else if \<bar>offset\<bar> \<le> MAX_OFFSET_SECONDS then Some offset else None)"

definition parse_utc_offset :: "string \<Rightarrow> int option" where
  "parse_utc_offset s =
     (let upper = to_ascii_uppercase (trim s);
          rest = trim (case strip_prefix ''UTC'' upper of
                   Some r \<Rightarrow> r
                 | None \<Rightarrow> (case strip_prefix ''GMT'' upper of Some r \<Rightarrow> r | None \<Rightarrow> upper))
      in case rest of
           [] \<Rightarrow> if upper = ''UTC'' \<or> upper = ''GMT'' then Some 0 else None
         | c # cs \<Rightarrow>
             if \<not> is_ascii rest then None
             else let (sign, digits) = (if c = CHR ''+'' then (1, cs) else if c = CHR ''-'' then (- 1, cs) else (1, rest));
                      (hours, minutes) = (case split_once CHR '':'' digits of
                          Some p \<Rightarrow> p
                        | None \<Rightarrow> if length digits = 4 then (take 2 digits, drop 2 digits) else (digits, ''0''))
                  in offset_of sign hours minutes)"

definition record_search :: "device_lib \<Rightarrow> json \<Rightarrow> string \<Rightarrow> record_search_version option" where
  "record_search lib page serial =
     Option.bind (json_field page ''deviceInfos'' as_array) (\<lambda>infos.
     Option.bind (find (\<lambda>item. json_field item ''deviceSerial'' as_str = Some serial) infos) (\<lambda>device.
     Option.bind (json_get device ''supportExt'') (\<lambda>raw.
     Option.bind (case as_str raw of None \<Rightarrow> Some raw | Some text' \<Rightarrow> lib_json lib text') (\<lambda>support.
     Option.bind (json_field support RECORD_SEARCH_CAPABILITY json_integer) (\<lambda>n.
       if n = 1 then Some V2 else if n = 2 then Some Common else None)))))"

definition encrypt_hash :: "json \<Rightarrow> string option" where
  "encrypt_hash status =
     Option.bind (map_option trim (json_field status ''encryptPwd'' as_str)) (\<lambda>hash.
       if length hash = 32 \<and> list_all ascii_hexdigit hash then Some (to_ascii_lowercase hash) else None)"

definition parse_device_status :: "device_lib \<Rightarrow> json \<Rightarrow> string \<Rightarrow> device_status option" where
  "parse_device_status lib page serial =
     (case Option.bind (json_get page ''STATUS'') (\<lambda>s. json_get s serial) of
        None \<Rightarrow> None
      | Some status \<Rightarrow>
          if \<not> is_object status then None
          else Some \<lparr>
            video_encrypted = Option.bind (json_field status ''isEncrypt'' json_integer)
              (\<lambda>v. if v = 0 then Some False else if v = 1 then Some True else None),
            encrypt_pwd_hash = encrypt_hash status,
            utc_offset_seconds = Option.bind (json_get status ''optionals'') (\<lambda>o'.
              Option.bind (json_field o' ''timeZone'' as_str) parse_utc_offset),
            record_search_of = record_search lib page serial\<rparr>)"

section \<open>Storage status\<close>

datatype storage_state = StOk | StNoCard | StUnformatted | StError | StUnknown

record storage_report =
  card_status :: storage_state
  capacity_mb :: "int option"
  free_mb :: "int option"

definition storage_unknown :: storage_report where
  "storage_unknown = \<lparr>card_status = StUnknown, capacity_mb = None, free_mb = None\<rparr>"

text \<open>\<open>min_by_key\<close>: the first of the elements with the least key.\<close>

fun min_by_key :: "('a \<Rightarrow> int) \<Rightarrow> 'a list \<Rightarrow> 'a option" where
  "min_by_key f [] = None"
| "min_by_key f (x # xs) =
     (case min_by_key f xs of None \<Rightarrow> Some x | Some y \<Rightarrow> if f x \<le> f y then Some x else Some y)"

definition card_index :: "json \<Rightarrow> int" where
  "card_index slot = (case json_field slot ''index'' json_integer of Some n \<Rightarrow> n | None \<Rightarrow> 2 ^ 63 - 1)"

definition card_report :: "json \<Rightarrow> storage_report" where
  "card_report slot = \<lparr>
     card_status = (case json_field slot ''status'' json_integer of
        Some n \<Rightarrow> if n = 0 then StOk else if n = 1 then StError else if n = 2 then StUnformatted else StUnknown
      | None \<Rightarrow> StUnknown),
     capacity_mb = Option.bind (json_field slot ''capacity'' json_integer)
       (\<lambda>v. if 0 < v then Some v else None),
     free_mb = None\<rparr>"

definition parse_storage_status :: "json \<Rightarrow> storage_report" where
  "parse_storage_status v =
     (if json_field v ''resultCode'' json_integer \<noteq> Some 0 then storage_unknown
      else case json_get v ''storageStatus'' of
             None \<Rightarrow> storage_unknown
           | Some status \<Rightarrow>
               if \<not> is_object status then storage_unknown
               else let cards = (case json_field status ''storageList'' as_array of Some xs \<Rightarrow> xs | None \<Rightarrow> [])
                    in case min_by_key card_index (filter is_object cards) of
                         None \<Rightarrow> \<lparr>card_status = StNoCard, capacity_mb = None, free_mb = None\<rparr>
                       | Some slot \<Rightarrow> card_report slot)"

section \<open>Record pages\<close>

definition MAX_RECORDS :: nat where "MAX_RECORDS = 500"
definition V2_PAGE_SIZE :: nat where "V2_PAGE_SIZE = 100"
definition MAX_V2_PAGES :: nat where "MAX_V2_PAGES = MAX_RECORDS div V2_PAGE_SIZE"
definition MAX_PAYLOAD_BYTES :: nat where "MAX_PAYLOAD_BYTES = 1024 * 1024"

record sd_record =
  sd_start :: int
  sd_end :: int
  sd_kind :: string

record record_query =
  q_version :: record_search_version
  q_start :: string
  q_stop :: string
  q_size :: nat

record v2_page =
  page_records :: "sd_record list"
  page_finished :: bool
  page_last_end :: "string option"

definition day_window :: "device_lib \<Rightarrow> int \<Rightarrow> string \<times> string" where
  "day_window lib day =
     (lib_show_day lib day @ ''T00:00:00'', lib_show_day lib day @ ''T23:59:59'')"

definition ensure_meta :: "json \<Rightarrow> bridge_error + unit" where
  "ensure_meta v =
     (case Option.bind (json_get v ''meta'') (\<lambda>meta. json_field meta ''code'' json_integer) of
        None \<Rightarrow> Inr ()
      | Some code \<Rightarrow> if code = 200 then Inr ()
          else Inl (Upstream (''EZVIZ record search returned code '' @ show_int code)))"

definition decode_payload :: "device_lib \<Rightarrow> string \<Rightarrow> bridge_error + bytes" where
  "decode_payload lib encoded =
     (if MAX_PAYLOAD_BYTES < length encoded then Inl (Upstream ''record payload is invalid'')
      else case lib_base64 lib (concat (filter (\<lambda>c. \<not> is_whitespace c) (chars encoded))) of
             None \<Rightarrow> Inl (Upstream ''record payload is invalid'')
           | Some compressed \<Rightarrow>
               ok_or (lib_inflate lib compressed MAX_PAYLOAD_BYTES) (Upstream ''record payload is invalid''))"

definition v2_kind :: "json option \<Rightarrow> string" where
  "v2_kind v = (if Option.bind v json_integer = Some 1 then ''event'' else ''continuous'')"

definition v2_items :: "device_lib \<Rightarrow> json \<Rightarrow> bridge_error + json list" where
  "v2_items lib v =
     (case json_get v ''records'' of
        Some (JString text') \<Rightarrow>
          if trim text' = [] then Inr []
          else try_bind (decode_payload lib text') (\<lambda>raw.
               try_bind (ok_or (from_utf8 raw) (Upstream ''record payload is not UTF-8'')) (\<lambda>inner.
                 if trim inner = [] then Inr []
                 else ok_or (Option.bind (lib_json lib (trim inner)) as_array)
                        (Upstream ''record list is not JSON'')))
      | Some (JArray xs) \<Rightarrow> Inr xs
      | _ \<Rightarrow> Inr [])"

text \<open>One iteration of the loop over the items.\<close>

definition v2_item :: "device_lib \<Rightarrow> device_status \<Rightarrow> json \<Rightarrow> sd_record list \<times> string option
    \<Rightarrow> sd_record list \<times> string option" where
  "v2_item lib st item = (\<lambda>(records, last_end).
     case (json_field item ''B'' as_str, json_field item ''E'' as_str) of
       (Some b, Some e) \<Rightarrow>
         (case (lib_local lib (trim b), lib_local lib (trim e)) of
            (Some begin_local, Some end_local) \<Rightarrow>
              (if end_local \<le> begin_local then records
               else records @ [\<lparr>sd_start = epoch lib st begin_local, sd_end = epoch lib st end_local,
                                sd_kind = v2_kind (json_get item ''Type'')\<rparr>],
               Some (trim e))
          | _ \<Rightarrow> (records, last_end))
     | _ \<Rightarrow> (records, last_end))"

definition parse_v2_page :: "device_lib \<Rightarrow> json \<Rightarrow> device_status \<Rightarrow> bridge_error + v2_page" where
  "parse_v2_page lib v st =
     try_bind (ensure_meta v) (\<lambda>_.
     try_bind (v2_items lib v) (\<lambda>items.
       let finished = (case json_field v ''isFinished'' json_integer of Some n \<Rightarrow> n \<noteq> 0 | None \<Rightarrow> True);
           (records, last_end) = fold (v2_item lib st) (take MAX_RECORDS items) ([], None)
       in Inr \<lparr>page_records = records, page_finished = finished, page_last_end = last_end\<rparr>))"

definition common_kind :: "u8 \<Rightarrow> string" where
  "common_kind code = (if code = 1 then ''event'' else if 8 \<le> code \<and> code \<le> 10 then ''other'' else ''continuous'')"

definition common_entry :: "device_lib \<Rightarrow> device_status \<Rightarrow> int \<Rightarrow> bytes \<Rightarrow> sd_record option" where
  "common_entry lib st day entry =
     (case (lib_hms lib (unat (entry ! 0)) (unat (entry ! 1)) (unat (entry ! 2)),
            lib_hms lib (unat (entry ! 3)) (unat (entry ! 4)) (unat (entry ! 5))) of
        (Some start, Some stop) \<Rightarrow>
          if stop \<le> start then None
          else Some \<lparr>sd_start = epoch lib st (day * 86400 + start, 0),
                     sd_end = epoch lib st (day * 86400 + stop, 0), sd_kind = common_kind (entry ! 6)\<rparr>
      | _ \<Rightarrow> None)"

fun common_loop :: "device_lib \<Rightarrow> device_status \<Rightarrow> int \<Rightarrow> nat \<Rightarrow> bytes list \<Rightarrow> sd_record list \<Rightarrow> sd_record list" where
  "common_loop lib st day limit [] records = records"
| "common_loop lib st day limit (entry # entries) records =
     (case common_entry lib st day entry of
        None \<Rightarrow> common_loop lib st day limit entries records
      | Some r \<Rightarrow>
          if limit \<le> length (records @ [r]) then records @ [r]
          else common_loop lib st day limit entries (records @ [r]))"

definition parse_common :: "device_lib \<Rightarrow> json \<Rightarrow> device_status \<Rightarrow> bridge_error + sd_record list" where
  "parse_common lib v st =
     try_bind (ensure_meta v) (\<lambda>_.
       let base_day = (case json_field v ''baseDay'' as_str of Some s \<Rightarrow> s | None \<Rightarrow> []);
           encoded = (case json_field v ''data'' as_str of Some s \<Rightarrow> s | None \<Rightarrow> []);
           count = (case json_field v ''searchCount'' json_integer of Some n \<Rightarrow> n | None \<Rightarrow> 0)
       in if trim base_day = [] \<or> trim encoded = [] \<or> count \<le> 0 then Inr []
          else try_bind (ok_or (lib_day lib (trim base_day)) (Upstream ''record base day is invalid'')) (\<lambda>day.
               try_bind (decode_payload lib encoded) (\<lambda>packed.
                 Inr (common_loop lib st day (min (nat count) MAX_RECORDS)
                   (filter (\<lambda>entry. 7 \<le> length entry) (chunks_of 8 packed)) []))))"

text \<open>\<open>dedup_by\<close> drops an element that agrees with the last one kept.\<close>

definition interval :: "sd_record \<Rightarrow> int \<times> int" where
  "interval r = (sd_start r, sd_end r)"

fun dedup_intervals :: "sd_record list \<Rightarrow> sd_record list" where
  "dedup_intervals (previous # r # rs) =
     (if interval r = interval previous then dedup_intervals (previous # rs)
      else previous # dedup_intervals (r # rs))"
| "dedup_intervals rs = rs"

definition normalize :: "sd_record list \<Rightarrow> sd_record list" where
  "normalize records = take MAX_RECORDS (dedup_intervals (sort_key interval records))"

section \<open>The search\<close>

text \<open>The answers of the source are given by the number of the request and the query; a search returns
  the queries it sent beside its result.\<close>

type_synonym page_source = "nat \<Rightarrow> record_query \<Rightarrow> bridge_error + json"

fun v2_pages :: "device_lib \<Rightarrow> page_source \<Rightarrow> device_status \<Rightarrow> nat \<Rightarrow> nat \<Rightarrow> record_query \<Rightarrow> sd_record list
    \<Rightarrow> (bridge_error + sd_record list) \<times> record_query list" where
  "v2_pages lib src st 0 i query records = (Inr records, [])"
| "v2_pages lib src st (Suc left) i query records =
     (case try_bind (src i query) (\<lambda>v. parse_v2_page lib v st) of
        Inl e \<Rightarrow> (Inl e, [query])
      | Inr page \<Rightarrow>
          let records = records @ page_records page in
          (case page_last_end page of
             Some cursor \<Rightarrow>
               if \<not> page_finished page \<and> q_start query < cursor \<and> cursor < q_stop query
                  \<and> length records < MAX_RECORDS
               then let (res, log) = v2_pages lib src st left (Suc i) (query\<lparr>q_start := cursor\<rparr>) records
                    in (res, query # log)
               else (Inr records, [query])
           | None \<Rightarrow> (Inr records, [query])))"

definition search :: "device_lib \<Rightarrow> page_source \<Rightarrow> device_status \<Rightarrow> int \<Rightarrow> record_search_version
    \<Rightarrow> (bridge_error + sd_record list) \<times> record_query list" where
  "search lib src st day version =
     (let (start, stop) = day_window lib day;
          query = \<lparr>q_version = version, q_start = start, q_stop = stop,
                   q_size = (if version = V2 then V2_PAGE_SIZE else MAX_RECORDS)\<rparr>
      in if version = Common
         then (try_bind (src 0 query) (\<lambda>v. try_bind (parse_common lib v st) (\<lambda>rs. Inr (normalize rs))), [query])
         else let (res, log) = v2_pages lib src st MAX_V2_PAGES 0 query []
              in (try_bind res (\<lambda>rs. Inr (normalize rs)), log))"

definition lookup_day :: "device_lib \<Rightarrow> bridge_error + device_status \<Rightarrow> page_source \<Rightarrow> int
    \<Rightarrow> (bridge_error + sd_record list) \<times> record_query list" where
  "lookup_day lib status src day =
     (let st = (case status of Inr s \<Rightarrow> s | Inl _ \<Rightarrow> device_status_default);
          (first, second) = (if record_search_of st = Some Common then (Common, V2) else (V2, Common));
          (res1, log1) = search lib src st day first
      in case res1 of
           Inr rs \<Rightarrow> (Inr rs, log1)
         | Inl _ \<Rightarrow>
             let (res2, log2) = search lib (\<lambda>i. src (length log1 + i)) st day second
             in (case res2 of Inr rs \<Rightarrow> Inr rs | Inl _ \<Rightarrow> Inl UpstreamUnavailable, log1 @ log2))"

section \<open>Offsets and times\<close>

lemma parse_utc_offset_bound:
  assumes "parse_utc_offset s = Some n" shows "\<bar>n\<bar> \<le> MAX_OFFSET_SECONDS" "60 dvd n"
proof -
  have "\<bar>k\<bar> \<le> MAX_OFFSET_SECONDS \<and> 60 dvd k" if "offset_of sign h m = Some k" for sign h m k
    using that by (auto simp: offset_of_def Let_def split: if_splits)
  with assms show "\<bar>n\<bar> \<le> MAX_OFFSET_SECONDS" "60 dvd n"
    by (fastforce simp: parse_utc_offset_def Let_def MAX_OFFSET_SECONDS_def split: list.splits if_splits prod.splits)+
qed

lemma status_offset_bound:
  "parse_device_status lib page sn = Some st \<Longrightarrow> utc_offset_seconds st = Some n \<Longrightarrow> \<bar>n\<bar> \<le> MAX_OFFSET_SECONDS"
  by (auto simp: parse_device_status_def bind_eq_Some_conv split: option.splits if_splits
      dest: parse_utc_offset_bound)

section \<open>Normalising\<close>

lemma dedup_set: "interval ` set (dedup_intervals rs) = interval ` set rs"
  by (induction rs rule: dedup_intervals.induct) auto

lemma dedup_subset: "set (dedup_intervals rs) \<subseteq> set rs"
  by (induction rs rule: dedup_intervals.induct) auto

lemma dedup_strict:
  "sorted (map interval rs) \<Longrightarrow> sorted_wrt (<) (map interval (dedup_intervals rs))"
proof (induction rs rule: dedup_intervals.induct)
  case (1 previous r rs)
  show ?case
  proof (cases "interval r = interval previous")
    case True
    with 1 show ?thesis by simp
  next
    case False
    have "interval previous < i" if "i \<in> interval ` set (dedup_intervals (r # rs))" for i
      using that 1(3) False unfolding dedup_set by auto
    with 1 False show ?thesis by auto
  qed
qed auto

lemma dedup_sorted_set:
  "map interval (dedup_intervals (sort_key interval rs)) = sorted_list_of_set (interval ` set rs)"
proof -
  let ?xs = "map interval (dedup_intervals (sort_key interval rs))"
  have "sorted_wrt (<) ?xs" by (rule dedup_strict) simp
  moreover have "set ?xs = interval ` set rs" by (simp add: dedup_set)
  ultimately show ?thesis
    by (metis sorted_list_of_set.idem_if_sorted_distinct strict_sorted_iff)
qed

lemma normalize_intervals:
  "map interval (normalize rs) = take MAX_RECORDS (sorted_list_of_set (interval ` set rs))"
  by (simp add: normalize_def take_map [symmetric] dedup_sorted_set)

lemma normalize_subset: "set (normalize rs) \<subseteq> set rs"
  using dedup_subset [of "sort_key interval rs"] set_take_subset [of MAX_RECORDS] by (fastforce simp: normalize_def)

lemma normalize_strict: "sorted_wrt (<) (map interval (normalize rs))"
  by (simp add: normalize_intervals sorted_wrt_take)

section \<open>Pages\<close>

definition runs_forward :: "sd_record \<Rightarrow> bool" where
  "runs_forward r \<longleftrightarrow> sd_start r \<le> sd_end r"

lemma v2_item_forward:
  "list_all runs_forward (fst acc) \<Longrightarrow> list_all runs_forward (fst (v2_item lib st item acc))"
  by (auto simp: v2_item_def runs_forward_def epoch_def Let_def less_eq_prod_def split: prod.splits option.splits)

lemma v2_items_forward:
  "list_all runs_forward (fst acc) \<Longrightarrow> list_all runs_forward (fst (fold (v2_item lib st) items acc))"
  by (induction items arbitrary: acc) (simp_all add: v2_item_forward)

lemma parse_v2_page_forward:
  assumes "parse_v2_page lib v st = Inr page" shows "list_all runs_forward (page_records page)"
  using assms v2_items_forward [of "([], None)" lib st]
  by (auto simp: parse_v2_page_def Let_def try_bind_def split: sum.splits prod.splits) (metis fst_conv)

lemma common_loop_forward:
  "list_all runs_forward rs \<Longrightarrow> list_all runs_forward (common_loop lib st day limit entries rs)"
  by (induction lib st day limit entries rs rule: common_loop.induct)
    (auto simp: common_entry_def runs_forward_def epoch_def Let_def split: option.splits if_splits)

lemma parse_common_forward: "parse_common lib v st = Inr rs \<Longrightarrow> list_all runs_forward rs"
  by (auto simp: parse_common_def Let_def try_bind_def common_loop_forward split: sum.splits if_splits)

section \<open>The search\<close>

text \<open>The intervals the answer to a request holds, read by the protocol of the request.\<close>

definition answered :: "device_lib \<Rightarrow> page_source \<Rightarrow> device_status \<Rightarrow> nat \<Rightarrow> record_query \<Rightarrow> (int \<times> int) set" where
  "answered lib src st i q =
     (case src i q of
        Inl _ \<Rightarrow> {}
      | Inr v \<Rightarrow>
          (case (if q_version q = V2 then map_sum id page_records (parse_v2_page lib v st) else parse_common lib v st) of
             Inl _ \<Rightarrow> {} | Inr rs \<Rightarrow> interval ` set rs))"

definition all_answered :: "device_lib \<Rightarrow> page_source \<Rightarrow> device_status \<Rightarrow> nat \<Rightarrow> record_query list \<Rightarrow> (int \<times> int) set" where
  "all_answered lib src st i log = (\<Union>k<length log. answered lib src st (i + k) (log ! k))"

lemma all_answered_Cons [simp]:
  "all_answered lib src st i (q # log) = answered lib src st i q \<union> all_answered lib src st (Suc i) log"
  "all_answered lib src st i [] = {}"
  by (auto simp: all_answered_def lessThan_Suc_eq_insert_0)

lemma v2_pages_result:
  assumes "v2_pages lib src st left i q rs = (Inr rs', log)" "q_version q = V2" "list_all runs_forward rs"
  shows "interval ` set rs' = interval ` set rs \<union> all_answered lib src st i log \<and> list_all runs_forward rs'"
  using assms
proof (induction left arbitrary: i q rs log)
  case (Suc left)
  obtain v page where v: "src i q = Inr v" "parse_v2_page lib v st = Inr page"
    using Suc.prems(1) by (auto simp: try_bind_def split: sum.splits)
  have a: "answered lib src st i q = interval ` set (page_records page)"
    using v Suc.prems(2) by (simp add: answered_def)
  have f: "list_all runs_forward (rs @ page_records page)"
    using parse_v2_page_forward [OF v(2)] Suc.prems(3) by simp
  show ?case
    using Suc.prems(1) v a f Suc.prems(2) Suc.IH [of "Suc i" _ "rs @ page_records page"]
    by (auto simp: Let_def try_bind_def image_Un split: option.splits if_splits prod.splits)
qed simp

lemma v2_pages_log:
  assumes "v2_pages lib src st left i q rs = (res, log)"
  shows "length log \<le> left \<and> sorted_wrt (<) (map q_start log)
    \<and> list_all (\<lambda>p. q_start q \<le> q_start p \<and> p = q\<lparr>q_start := q_start p\<rparr>) log"
  using assms
proof (induction left arbitrary: i q rs res log)
  case (Suc left)
  show ?case
  proof (cases "try_bind (src i q) (\<lambda>v. parse_v2_page lib v st)")
    case (Inl e)
    with Suc.prems show ?thesis by auto
  next
    case (Inr page)
    show ?thesis
    proof (cases "log = [q]")
      case False
      then obtain c log' where c: "q_start q < c" "log = q # log'"
          "v2_pages lib src st left (Suc i) (q\<lparr>q_start := c\<rparr>) (rs @ page_records page) = (res, log')"
        using Suc.prems Inr by (auto simp: Let_def split: option.splits if_splits prod.splits)
      have "length log' \<le> left \<and> sorted_wrt (<) (map q_start log')
          \<and> list_all (\<lambda>p. c \<le> q_start p \<and> p = q\<lparr>q_start := q_start p\<rparr>) log'"
        using Suc.IH [OF c(3)] by simp
      with c(1,2) show ?thesis by (auto simp: list_all_iff intro: order.strict_implies_order order.strict_trans2)
    qed auto
  qed
qed simp

lemma search_log:
  assumes "search lib src st day version = (res, log)"
  shows "length log \<le> (if version = V2 then MAX_V2_PAGES else 1)" "sorted_wrt (<) (map q_start log)"
    "list_all (\<lambda>q. q_version q = version \<and> q_stop q = snd (day_window lib day)
       \<and> fst (day_window lib day) \<le> q_start q) log"
proof -
  let ?q = "\<lparr>q_version = version, q_start = fst (day_window lib day), q_stop = snd (day_window lib day),
    q_size = (if version = V2 then V2_PAGE_SIZE else MAX_RECORDS)\<rparr>"
  consider "version = Common" "log = [?q]"
    | res' where "version = V2" "v2_pages lib src st MAX_V2_PAGES 0 ?q [] = (res', log)"
    using assms by (cases version) (auto simp: search_def Let_def split: prod.splits)
  then have "length log \<le> (if version = V2 then MAX_V2_PAGES else 1) \<and> sorted_wrt (<) (map q_start log)
    \<and> list_all (\<lambda>p. fst (day_window lib day) \<le> q_start p \<and> p = ?q\<lparr>q_start := q_start p\<rparr>) log"
  proof cases
    case 2
    from v2_pages_log [OF this(2)] 2(1) show ?thesis by simp
  qed auto
  then show "length log \<le> (if version = V2 then MAX_V2_PAGES else 1)" "sorted_wrt (<) (map q_start log)"
    "list_all (\<lambda>q. q_version q = version \<and> q_stop q = snd (day_window lib day)
       \<and> fst (day_window lib day) \<le> q_start q) log"
    by (auto simp: list_all_iff dest!: bspec) (metis (no_types, lifting) record_query.select_convs record_query.update_convs(2))+
qed

lemma v2_pages_nonempty: "v2_pages lib src st left i q rs = (res, log) \<Longrightarrow> 0 < left \<Longrightarrow> log \<noteq> []"
  by (cases left) (auto simp: Let_def split: prod.splits sum.splits option.splits if_splits)

lemma max_v2_pages: "0 < MAX_V2_PAGES"
  by (simp add: MAX_V2_PAGES_def MAX_RECORDS_def V2_PAGE_SIZE_def)

lemma search_log_nonempty: "search lib src st day version = (res, log) \<Longrightarrow> log \<noteq> []"
  by (cases version) (auto simp: search_def Let_def max_v2_pages split: prod.splits dest!: v2_pages_nonempty)

lemma search_log_version: "search lib src st day version = (res, log) \<Longrightarrow> filter (\<lambda>q. q_version q = V2) log = (if version = V2 then log else [])"
  using search_log(3) [of lib src st day version res log] by (cases version) (auto simp: list_all_iff filter_empty_conv)

lemma search_result:
  assumes "search lib src st day version = (Inr rs, log)"
  shows "map interval rs = take MAX_RECORDS (sorted_list_of_set (all_answered lib src st 0 log))"
    "list_all runs_forward rs"
proof -
  obtain raw where raw: "rs = normalize raw" "interval ` set raw = all_answered lib src st 0 log"
      "list_all runs_forward raw"
  proof (cases version)
    case V2
    then show ?thesis
      using assms that v2_pages_result [of lib src st MAX_V2_PAGES 0 _ "[]"]
      by (auto simp: search_def Let_def try_bind_def split: prod.splits sum.splits)
  next
    case Common
    then show ?thesis
      using assms that
      by (auto simp: search_def Let_def try_bind_def answered_def parse_common_forward split: prod.splits sum.splits)
  qed
  then show "map interval rs = take MAX_RECORDS (sorted_list_of_set (all_answered lib src st 0 log))"
    "list_all runs_forward rs"
    using normalize_intervals [of raw] normalize_subset [of raw] by (auto simp: list_all_iff)
qed

lemma search_success:
  assumes "search lib src st day version = (Inr rs, log)"
  shows "list_all runs_forward rs" "sorted_wrt (<) (map interval rs)" "length rs \<le> MAX_RECORDS" "log \<noteq> []"
    "map interval rs = take MAX_RECORDS (sorted_list_of_set (all_answered lib src st 0 log))"
proof -
  note r = search_result [OF assms]
  show "sorted_wrt (<) (map interval rs)" unfolding r(1) by (simp add: sorted_wrt_take)
  have "length (map interval rs) \<le> MAX_RECORDS" unfolding r(1) by simp
  then show "length rs \<le> MAX_RECORDS" by simp
qed (rule search_result [OF assms] search_log_nonempty [OF assms])+

lemma all_answered_shift:
  "all_answered lib (\<lambda>i. src (n + i)) st i log = all_answered lib src st (n + i) log"
  by (simp add: all_answered_def answered_def add.assoc)

lemma lookup_day_cases:
  assumes "lookup_day lib status src day = (res, log)"
  defines "st \<equiv> case status of Inr s \<Rightarrow> s | Inl _ \<Rightarrow> device_status_default"
  obtains (first) version rs where "res = Inr rs" "search lib src st day version = (Inr rs, log)"
  | (second) version other log1 log2 e res2 where "other \<noteq> version" "log = log1 @ log2"
      "search lib src st day version = (Inl e, log1)"
      "search lib (\<lambda>i. src (length log1 + i)) st day other = (res2, log2)"
      "res = (case res2 of Inr rs \<Rightarrow> Inr rs | Inl _ \<Rightarrow> Inl UpstreamUnavailable)"
proof -
  obtain v w where vw: "(v, w) = (if record_search_of st = Some Common then (Common, V2) else (V2, Common))"
    by (metis surj_pair)
  then have ne: "w \<noteq> v" by (auto split: if_splits)
  obtain res1 log1 where one: "search lib src st day v = (res1, log1)" by fastforce
  obtain res2 log2 where two: "search lib (\<lambda>i. src (length log1 + i)) st day w = (res2, log2)" by fastforce
  note def = assms(1) [unfolded lookup_day_def st_def [symmetric] Let_def vw [symmetric] prod.case one two]
  show ?thesis
  proof (cases res1)
    case (Inl e)
    show ?thesis by (rule second [OF ne _ _ two, of e]) (use def one Inl in simp_all)
  next
    case (Inr rs)
    show ?thesis by (rule first [of rs v]) (use def one Inr in simp_all)
  qed
qed


end
