(* ===== verification/Device_Service.thy ===== *)
theory Device_Service
  imports Sd_Records Cloud_Key Bridge_Config
begin

text \<open>
  The per-camera caches in front of the device calls (\<open>device/service.rs\<close>). An operation runs under the
  lock of its cache, so it is one step that reads the clock when it enters (\<open>now\<close>) and when the cloud has
  answered (\<open>later\<close>); instants are milliseconds. The answers of the cloud are arguments; each
  operation also says whether it asked.
\<close>

definition STORAGE_TTL :: nat where "STORAGE_TTL = 600 * 1000"
definition ENCRYPTION_TTL :: nat where "ENCRYPTION_TTL = 600 * 1000"
definition FAILURE_TTL :: nat where "FAILURE_TTL = 60 * 1000"
definition RECORDS_RECENT_TTL :: nat where "RECORDS_RECENT_TTL = 60 * 1000"
definition RECORDS_PAST_TTL :: nat where "RECORDS_PAST_TTL = 600 * 1000"
definition MAX_RECORD_LOOKUPS :: nat where "MAX_RECORD_LOOKUPS = 2"
definition MAX_CACHED_DAYS :: nat where "MAX_CACHED_DAYS = 8"

record 'a cached_value =
  c_value :: 'a
  c_expires :: nat

record encryption_report =
  er_encrypted :: "bool option"
  er_source :: key_source

record slot =
  slot_config :: camera_config
  slot_storage :: "storage_report cached_value option"
  slot_encryption :: "encryption_report cached_value option"
  slot_records :: "(int, sd_record list cached_value) btree"

record device_service =
  dev_cameras :: "(string, slot) btree"
  dev_attached :: bool

definition new_slot :: "camera_config \<Rightarrow> slot" where
  "new_slot config = \<lparr>slot_config = config, slot_storage = None, slot_encryption = None, slot_records = []\<rparr>"

definition new_service :: "(string, camera_config) btree \<Rightarrow> device_service" where
  "new_service configs = \<lparr>dev_cameras = map (\<lambda>(alias, config). (alias, new_slot config)) configs, dev_attached = False\<rparr>"

definition attach :: "device_service \<Rightarrow> device_service" where
  "attach svc = svc\<lparr>dev_attached := True\<rparr>"

definition slot_of :: "device_service \<Rightarrow> string \<Rightarrow> bridge_error + slot" where
  "slot_of svc camera = ok_or (bt_get (dev_cameras svc) camera) CameraNotFound"

definition source_of :: "device_service \<Rightarrow> bridge_error + unit" where
  "source_of svc = (if dev_attached svc then Inr () else Inl UpstreamUnavailable)"

definition set_slot :: "device_service \<Rightarrow> string \<Rightarrow> slot \<Rightarrow> device_service" where
  "set_slot svc camera slot = svc\<lparr>dev_cameras := bt_modify camera (\<lambda>_. slot) (dev_cameras svc)\<rparr>"

text \<open>The entry of a cache that has not expired.\<close>

definition fresh :: "nat \<Rightarrow> 'a cached_value option \<Rightarrow> 'a option" where
  "fresh now entry =
     (case entry of Some c \<Rightarrow> if now < c_expires c then Some (c_value c) else None | None \<Rightarrow> None)"

definition playback_times :: "device_lib \<Rightarrow> device_service \<Rightarrow> string \<Rightarrow> int \<times> int \<Rightarrow> bridge_error + device_status
    \<Rightarrow> bridge_error + string \<times> string" where
  "playback_times lib svc camera span status =
     try_bind (slot_of svc camera) (\<lambda>_.
     try_bind (source_of svc) (\<lambda>_.
     try_bind status (\<lambda>st.
       case (playback_time lib st (fst span), playback_time lib st (snd span)) of
         (Some a, Some b) \<Rightarrow> Inr (a, b)
       | _ \<Rightarrow> Inl (Recording ''microSD interval is out of range''))))"

definition storage :: "device_service \<Rightarrow> string \<Rightarrow> nat \<Rightarrow> bridge_error + json \<Rightarrow> nat
    \<Rightarrow> (bridge_error + storage_report) \<times> device_service \<times> bool" where
  "storage svc camera now answer later =
     (case slot_of svc camera of
        Inl e \<Rightarrow> (Inl e, svc, False)
      | Inr slot \<Rightarrow>
          (case fresh now (slot_storage slot) of
             Some v \<Rightarrow> (Inr v, svc, False)
           | None \<Rightarrow>
               (case source_of svc of
                  Inl e \<Rightarrow> (Inl e, svc, False)
                | Inr _ \<Rightarrow>
                    let (v, ttl) = (case answer of
                           Inr raw \<Rightarrow> (parse_storage_status raw, STORAGE_TTL)
                         | Inl _ \<Rightarrow> (storage_unknown, FAILURE_TTL))
                    in (Inr v, set_slot svc camera
                         (slot\<lparr>slot_storage := Some \<lparr>c_value = v, c_expires = later + ttl\<rparr>\<rparr>), True))))"

definition encryption :: "(string \<Rightarrow> string) \<Rightarrow> device_service \<Rightarrow> string \<Rightarrow> nat \<Rightarrow> bridge_error + device_status
    \<Rightarrow> (string \<times> secret_file option) option \<Rightarrow> string option \<Rightarrow> nat
    \<Rightarrow> (bridge_error + encryption_report) \<times> device_service \<times> bool" where
  "encryption md5 svc camera now answer key_file cached_code later =
     (case slot_of svc camera of
        Inl e \<Rightarrow> (Inl e, svc, False)
      | Inr slot \<Rightarrow>
          (case fresh now (slot_encryption slot) of
             Some v \<Rightarrow> (Inr v, svc, False)
           | None \<Rightarrow>
               (case source_of svc of
                  Inl e \<Rightarrow> (Inl e, svc, False)
                | Inr _ \<Rightarrow>
                    let status = result_ok answer;
                        v = \<lparr>er_encrypted = Option.bind status video_encrypted,
                             er_source = report_key_source md5 key_file (Option.bind status encrypt_pwd_hash) cached_code\<rparr>;
                        ttl = (if status \<noteq> None then ENCRYPTION_TTL else FAILURE_TTL)
                    in (Inr v, set_slot svc camera
                         (slot\<lparr>slot_encryption := Some \<lparr>c_value = v, c_expires = later + ttl\<rparr>\<rparr>), True))))"

definition record_ttl :: "int \<Rightarrow> int \<Rightarrow> nat" where
  "record_ttl day utc_today = (if day < utc_today - 1 then RECORDS_PAST_TTL else RECORDS_RECENT_TTL)"

text \<open>\<open>while cache.len() >= MAX_CACHED_DAYS { cache.pop_first(); }\<close>\<close>

definition make_room :: "('k, 'v) btree \<Rightarrow> ('k, 'v) btree" where
  "make_room m = drop (Suc (length m) - MAX_CACHED_DAYS) m"

definition sd_records :: "device_lib \<Rightarrow> device_service \<Rightarrow> string \<Rightarrow> int \<Rightarrow> nat \<Rightarrow> bridge_error + device_status
    \<Rightarrow> page_source \<Rightarrow> nat \<Rightarrow> int
    \<Rightarrow> (bridge_error + sd_record list) \<times> device_service \<times> record_query list" where
  "sd_records lib svc camera day now status src later utc_today =
     (case slot_of svc camera of
        Inl e \<Rightarrow> (Inl e, svc, [])
      | Inr slot \<Rightarrow>
          let cache = bt_retain (\<lambda>_ entry. now < c_expires entry) (slot_records slot);
              kept = set_slot svc camera (slot\<lparr>slot_records := cache\<rparr>)
          in case bt_get cache day of
               Some entry \<Rightarrow> (Inr (c_value entry), kept, [])
             | None \<Rightarrow>
                 (case source_of svc of
                    Inl e \<Rightarrow> (Inl e, kept, [])
                  | Inr _ \<Rightarrow>
                      (case lookup_day lib status src day of
                         (Inl e, log) \<Rightarrow> (Inl e, kept, log)
                       | (Inr found, log) \<Rightarrow>
                           (Inr found, set_slot svc camera
                              (slot\<lparr>slot_records := bt_insert day
                                 \<lparr>c_value = found, c_expires = later + record_ttl day utc_today\<rparr> (make_room cache)\<rparr>),
                            log))))"

section \<open>Requests to the cloud\<close>

datatype request_kind = StorageRequest | EncryptionRequest

text \<open>The log holds the requests with the times they were sent and answered. The two caches have their own
  locks; the order of the steps is the order in which the locks are released.\<close>

record dev_world =
  dw_svc :: device_service
  dw_log :: "(request_kind \<times> string \<times> nat \<times> nat) list"

inductive dev_step :: "(string \<Rightarrow> string) \<Rightarrow> device_lib \<Rightarrow> dev_world \<Rightarrow> dev_world \<Rightarrow> bool" for md5 lib where
  dev_attach: "dev_step md5 lib w (w\<lparr>dw_svc := attach (dw_svc w)\<rparr>)"
| dev_storage: "storage (dw_svc w) camera now answer later = (res, svc, sent) \<Longrightarrow> now \<le> later \<Longrightarrow>
    dev_step md5 lib w \<lparr>dw_svc = svc, dw_log = dw_log w @ (if sent then [(StorageRequest, camera, now, later)] else [])\<rparr>"
| dev_encryption: "encryption md5 (dw_svc w) camera now answer key_file code later = (res, svc, sent) \<Longrightarrow> now \<le> later \<Longrightarrow>
    dev_step md5 lib w \<lparr>dw_svc = svc, dw_log = dw_log w @ (if sent then [(EncryptionRequest, camera, now, later)] else [])\<rparr>"
| dev_records: "sd_records lib (dw_svc w) camera day now answer src later today = (res, svc, queries) \<Longrightarrow>
    dev_step md5 lib w (w\<lparr>dw_svc := svc\<rparr>)"

definition expiry :: "request_kind \<Rightarrow> slot \<Rightarrow> nat option" where
  "expiry kind slot =
     (case kind of StorageRequest \<Rightarrow> map_option c_expires (slot_storage slot)
      | EncryptionRequest \<Rightarrow> map_option c_expires (slot_encryption slot))"

text \<open>Until when the service answers requests of one kind about a camera by itself.\<close>

definition quiet_until :: "device_service \<Rightarrow> request_kind \<Rightarrow> string \<Rightarrow> nat option" where
  "quiet_until svc kind camera = Option.bind (bt_get (dev_cameras svc) camera) (expiry kind)"

definition bounded_days :: "device_service \<Rightarrow> bool" where
  "bounded_days svc \<longleftrightarrow> list_all (\<lambda>(_, slot). length (slot_records slot) \<le> MAX_CACHED_DAYS) (dev_cameras svc)"

definition requests_spaced :: "(request_kind \<times> string \<times> nat \<times> nat) list \<Rightarrow> bool" where
  "requests_spaced log \<longleftrightarrow>
     sorted_wrt (\<lambda>(k, c, _, answered) (k', c', asked, _).
       k = k' \<and> c = c' \<longrightarrow> answered + FAILURE_TTL \<le> asked) log"

definition dev_inv :: "dev_world \<Rightarrow> bool" where
  "dev_inv w \<longleftrightarrow> requests_spaced (dw_log w)
     \<and> (\<forall>(k, c, a, b) \<in> set (dw_log w). \<exists>until. quiet_until (dw_svc w) k c = Some until \<and> b + FAILURE_TTL \<le> until)"

text \<open>What a request to the cloud leaves behind.\<close>

lemma storage_effect:
  assumes "storage svc camera now answer later = (res, svc', sent)"
  shows "if sent
    then (\<forall>until. quiet_until svc StorageRequest camera = Some until \<longrightarrow> until \<le> now)
       \<and> (\<exists>ttl \<ge> FAILURE_TTL. quiet_until svc' StorageRequest camera = Some (later + ttl))
       \<and> (\<forall>k c. (k, c) \<noteq> (StorageRequest, camera) \<longrightarrow> quiet_until svc' k c = quiet_until svc k c)
    else svc' = svc"
  using assms
  by (auto simp: storage_def slot_of_def ok_or_def fresh_def quiet_until_def set_slot_def expiry_def Let_def
      STORAGE_TTL_def FAILURE_TTL_def
      split: option.splits sum.splits if_splits prod.splits request_kind.splits)

lemma encryption_effect:
  assumes "encryption md5 svc camera now answer key_file code later = (res, svc', sent)"
  shows "if sent
    then (\<forall>until. quiet_until svc EncryptionRequest camera = Some until \<longrightarrow> until \<le> now)
       \<and> (\<exists>ttl \<ge> FAILURE_TTL. quiet_until svc' EncryptionRequest camera = Some (later + ttl))
       \<and> (\<forall>k c. (k, c) \<noteq> (EncryptionRequest, camera) \<longrightarrow> quiet_until svc' k c = quiet_until svc k c)
    else svc' = svc"
  using assms
  by (auto simp: encryption_def slot_of_def ok_or_def fresh_def quiet_until_def set_slot_def expiry_def Let_def
      ENCRYPTION_TTL_def FAILURE_TTL_def
      split: option.splits sum.splits if_splits prod.splits request_kind.splits)

lemma records_effect:
  assumes "sd_records lib svc camera day now answer src later today = (res, svc', queries)"
  shows "quiet_until svc' k c = quiet_until svc k c"
  using assms
  by (auto simp: sd_records_def slot_of_def ok_or_def quiet_until_def set_slot_def expiry_def Let_def
      split: option.splits sum.splits if_splits prod.splits request_kind.splits)

lemma request_keeps_inv:
  assumes inv: "requests_spaced log"
      "\<forall>(k, c, a, b) \<in> set log. \<exists>until. quiet_until svc k c = Some until \<and> b + FAILURE_TTL \<le> until"
    and asked: "\<forall>until. quiet_until svc kind camera = Some until \<longrightarrow> until \<le> now"
      "FAILURE_TTL \<le> ttl" "quiet_until svc' kind camera = Some (later + ttl)" "now \<le> later"
      "\<forall>k c. (k, c) \<noteq> (kind, camera) \<longrightarrow> quiet_until svc' k c = quiet_until svc k c"
  shows "dev_inv \<lparr>dw_svc = svc', dw_log = log @ [(kind, camera, now, later)]\<rparr>"
proof -
  have past: "b + FAILURE_TTL \<le> now" if "(kind, camera, a, b) \<in> set log" for a b
    using inv(2) that asked(1) by fastforce
  have "requests_spaced (log @ [(kind, camera, now, later)])"
    using inv(1) past by (auto simp: requests_spaced_def sorted_wrt_append)
  moreover have "\<exists>until. quiet_until svc' k c = Some until \<and> b + FAILURE_TTL \<le> until"
    if "(k, c, a, b) \<in> set (log @ [(kind, camera, now, later)])" for k c a b
  proof (cases "(k, c) = (kind, camera)")
    case True
    with that past [of a b] asked(2-4) show ?thesis by auto
  next
    case False
    then have "(k, c, a, b) \<in> set log" "quiet_until svc' k c = quiet_until svc k c"
      using that asked(5) by (auto simp del: not_Some_eq)
    with bspec [OF inv(2), of "(k, c, a, b)"] show ?thesis by simp
  qed
  ultimately show ?thesis unfolding dev_inv_def by (auto simp del: set_append)
qed

lemma dev_inv_step: "dev_step md5 lib w w' \<Longrightarrow> dev_inv w \<Longrightarrow> dev_inv w'"
proof (induction rule: dev_step.induct)
  case (dev_attach w)
  then show ?case by (simp add: dev_inv_def quiet_until_def attach_def)
next
  case (dev_storage w camera now answer later res svc sent)
  note effect = storage_effect [OF dev_storage(1)]
  show ?case
  proof (cases sent)
    case True
    with effect dev_storage(2,3) show ?thesis by (auto simp: dev_inv_def [of w] intro!: request_keeps_inv)
  next
    case False
    with effect dev_storage(3) show ?thesis by (simp add: dev_inv_def)
  qed
next
  case (dev_encryption w camera now answer key_file code later res svc sent)
  note effect = encryption_effect [OF dev_encryption(1)]
  show ?case
  proof (cases sent)
    case True
    with effect dev_encryption(2,3) show ?thesis by (auto simp: dev_inv_def [of w] intro!: request_keeps_inv)
  next
    case False
    with effect dev_encryption(3) show ?thesis by (simp add: dev_inv_def)
  qed
next
  case (dev_records w camera day now answer src later today res svc queries)
  from records_effect [OF dev_records(1)] dev_records(2) show ?case by (simp add: dev_inv_def)
qed

section \<open>The days kept\<close>

lemma make_room_length: "length (make_room m) < MAX_CACHED_DAYS"
  by (simp add: make_room_def MAX_CACHED_DAYS_def)

lemma bounded_set_slot:
  "bounded_days svc \<Longrightarrow> length (slot_records slot) \<le> MAX_CACHED_DAYS \<Longrightarrow> bounded_days (set_slot svc camera slot)"
  by (auto simp: bounded_days_def set_slot_def bt_modify_def list_all_iff)

lemma bounded_slot: "bounded_days svc \<Longrightarrow> slot_of svc camera = Inr slot \<Longrightarrow> length (slot_records slot) \<le> MAX_CACHED_DAYS"
  by (auto simp: bounded_days_def slot_of_def ok_or_def list_all_iff dest!: map_of_SomeD split: option.splits)

lemma bounded_records:
  assumes "bounded_days svc" "sd_records lib svc camera day now answer src later today = (res, svc', queries)"
  shows "bounded_days svc'"
proof (cases "slot_of svc camera")
  case (Inl e)
  with assms show ?thesis by (simp add: sd_records_def)
next
  case (Inr slot)
  have "length (bt_retain P (slot_records slot)) \<le> MAX_CACHED_DAYS" for P
    using bounded_slot [OF assms(1) Inr] unfolding bt_retain_def by (meson length_filter_le order.trans)
  moreover have "length (bt_insert d v (make_room m)) \<le> MAX_CACHED_DAYS"
    for d v and m :: "(int, sd_record list cached_value) btree"
    using length_bt_insert [of d v "make_room m"] make_room_length [of m] by linarith
  ultimately show ?thesis
    using assms Inr
    by (auto simp: sd_records_def Let_def intro!: bounded_set_slot split: option.splits sum.splits prod.splits)
qed

lemma bounded_step: "dev_step md5 lib w w' \<Longrightarrow> bounded_days (dw_svc w) \<Longrightarrow> bounded_days (dw_svc w')"
proof (induction rule: dev_step.induct)
  case (dev_storage w camera now answer later res svc sent)
  then show ?case
    by (auto simp: storage_def Let_def bounded_slot intro!: bounded_set_slot
        split: option.splits sum.splits prod.splits)
next
  case (dev_encryption w camera now answer key_file code later res svc sent)
  then show ?case
    by (auto simp: encryption_def Let_def bounded_slot intro!: bounded_set_slot
        split: option.splits sum.splits prod.splits)
qed (auto simp: bounded_days_def attach_def dest: bounded_records [unfolded bounded_days_def])

interpretation dev_machine: invariant_machine "dev_step md5 lib" "\<lambda>w. dev_inv w \<and> bounded_days (dw_svc w)" for md5 lib
  by unfold_locales (use dev_inv_step bounded_step in blast)


text \<open>A camera whose microSD status cannot be read at first, asked for three times.\<close>

definition demo_service :: device_service where
  "demo_service = new_service [(''door'', \<lparr>serial = ''C1'', channel = 1, substream = False, decrypt_video = False,
     media_key_file = None\<rparr>)]"

definition demo_ask :: "nat \<Rightarrow> nat \<Rightarrow> device_service \<Rightarrow> device_service \<times> bool" where
  "demo_ask now later svc = snd (storage svc ''door'' now (Inl Timeout) later)"

definition demo_lib :: device_lib where
  "demo_lib = \<lparr>lib_local = (\<lambda>_. None), lib_day = (\<lambda>_. None), lib_show_day = (\<lambda>_. []), lib_hms = (\<lambda>_ _ _. None),
     lib_stamp = (\<lambda>_. None), lib_offset = 0, lib_base64 = (\<lambda>_. None), lib_inflate = (\<lambda>_ _. None), lib_json = (\<lambda>_. None)\<rparr>"

definition "demo1 = attach demo_service"
definition "demo2 = demo_ask 0 500 demo1"
definition "demo3 = demo_ask 30000 30000 (fst demo2)"
definition "demo4 = demo_ask 60500 61000 (fst demo3)"


end
