(* ===== verification/Control_Model.thy ===== *)
theory Control_Model
  imports Bridge_Error Ordered_Map
begin

text \<open>
  What the native camera controls read and write: the switch table (\<open>controls/names.rs\<close>), the lenient field
  readers (\<open>controls/fields.rs\<close>), the account snapshot and the API view (\<open>controls/model.rs\<close>), the account
  defence mode (\<open>controls/account.rs\<close>), the mapping of writes (\<open>controls/write.rs\<close>, \<open>controls/source.rs\<close>)
  and the public errors (\<open>controls/error.rs\<close>). The JSON parser is the argument \<open>parse\<close>.
\<close>

section \<open>Switches\<close>

record switch_spec =
  sw_kind :: nat
  sw_name :: string
  sw_capability :: "string option"

definition spec :: "nat \<Rightarrow> string \<Rightarrow> string option \<Rightarrow> switch_spec" where
  "spec kind name capability = \<lparr>sw_kind = kind, sw_name = name, sw_capability = capability\<rparr>"

definition SWITCHES :: "switch_spec list" where
  "SWITCHES =
     [spec 3 ''status_light'' None,
      spec 7 ''privacy'' (Some ''40''),
      spec 10 ''infrared_light'' (Some ''48''),
      spec 21 ''sleep'' (Some ''62''),
      spec 22 ''audio'' (Some ''63''),
      spec 25 ''motion_tracking'' (Some ''73''),
      spec 29 ''all_day_video_recording'' (Some ''88''),
      spec 32 ''auto_sleep'' (Some ''144''),
      spec 200 ''human_detection'' None,
      spec 301 ''flicker_light_on_movement'' (Some ''96''),
      spec 305 ''pir_motion_activated_light'' (Some ''297''),
      spec 306 ''tamper_alarm'' (Some ''327''),
      spec 604 ''wdr'' None,
      spec 617 ''distortion_correction'' None,
      spec 650 ''follow_movement'' (Some ''198''),
      spec 702 ''logo'' None]"

definition by_kind :: "nat \<Rightarrow> switch_spec option" where
  "by_kind kind = find (\<lambda>s. sw_kind s = kind) SWITCHES"

definition by_name :: "string \<Rightarrow> switch_spec option" where
  "by_name name = find (\<lambda>s. sw_name s = name) SWITCHES"

section \<open>Field readers\<close>

datatype detection_mode = HumanShape | ImageChange | Pir

fun mode_code :: "detection_mode \<Rightarrow> nat" where
  "mode_code HumanShape = 1"
| "mode_code ImageChange = 3"
| "mode_code Pir = 5"

definition mode_from_code :: "int \<Rightarrow> detection_mode option" where
  "mode_from_code code =
     (if code = 1 then Some HumanShape else if code = 3 then Some ImageChange else if code = 5 then Some Pir else None)"

record sensitivity =
  level :: int
  level_min :: int
  level_max :: int
  level_kind :: nat

record battery =
  percent :: "int option"
  work_mode :: "string option"
  charging :: "bool option"
  power_source :: "string option"
  power_status :: "int option"

record firmware =
  fw_version :: "string option"
  update_available :: "bool option"

definition flag :: "json \<Rightarrow> bool option" where
  "flag v =
     (case as_bool v of
        Some b \<Rightarrow> Some b
      | None \<Rightarrow> Option.bind (json_integer v) (\<lambda>n. if n = 0 then Some False else if n = 1 then Some True else None))"

definition object_of :: "(string \<Rightarrow> json option) \<Rightarrow> json \<Rightarrow> json" where
  "object_of parse v =
     (case as_str v of None \<Rightarrow> v | Some text' \<Rightarrow> (case parse text' of Some j \<Rightarrow> j | None \<Rightarrow> JNull))"

definition support_ext :: "(string \<Rightarrow> json option) \<Rightarrow> json \<Rightarrow> string \<Rightarrow> string option" where
  "support_ext parse device key =
     Option.bind (json_get device ''supportExt'') (\<lambda>raw.
     Option.bind (json_get (object_of parse raw) key) (\<lambda>v.
       case as_str v of Some s \<Rightarrow> Some s | None \<Rightarrow> map_option show_int (as_i64 v)))"

definition optionals :: "(string \<Rightarrow> json option) \<Rightarrow> json \<Rightarrow> json" where
  "optionals parse status = (case json_get status ''optionals'' of None \<Rightarrow> JNull | Some v \<Rightarrow> object_of parse v)"

definition read_detection_mode :: "(string \<Rightarrow> json option) \<Rightarrow> json \<Rightarrow> detection_mode option" where
  "read_detection_mode parse status =
     Option.bind (json_get (optionals parse status) ''Alarm_DetectHumanCar'') (\<lambda>v.
     Option.bind (json_field (object_of parse v) ''type'' json_integer) mode_from_code)"

definition defence :: "(string \<Rightarrow> json option) \<Rightarrow> json \<Rightarrow> json \<Rightarrow> bool option" where
  "defence parse device status =
     (if support_ext parse device ''1'' = Some ''0'' then None
      else Option.bind (json_field status ''globalStatus'' json_integer)
             (\<lambda>n. if 0 \<le> n then Some (n \<noteq> 0) else None))"

definition alarm_schedule :: "json \<Rightarrow> bool option" where
  "alarm_schedule time_plan =
     Option.bind (as_array time_plan) (\<lambda>plans.
     Option.bind (find (\<lambda>plan. json_field plan ''type'' json_integer = Some 2) plans) (\<lambda>plan.
       json_field plan ''enable'' flag))"

definition online :: "json \<Rightarrow> bool option" where
  "online device = map_option (\<lambda>n. n = 1) (json_field device ''status'' json_integer)"

definition ptz_supported :: "(string \<Rightarrow> json option) \<Rightarrow> json \<Rightarrow> bool" where
  "ptz_supported parse device \<longleftrightarrow> support_ext parse device ''154'' = Some ''1''"

definition work_mode_name :: "int \<Rightarrow> string option" where
  "work_mode_name code =
     (if code = 0 then Some ''power_saving'' else if code = 1 then Some ''high_performance''
      else if code = 2 then Some ''plugged_in'' else if code = 3 then Some ''super_power_saving''
      else if code = 4 then Some ''user_customization'' else if code = 5 then Some ''hibernate''
      else if code = 7 then Some ''always_on_video'' else None)"

definition read_battery :: "(string \<Rightarrow> json option) \<Rightarrow> json \<Rightarrow> battery option" where
  "read_battery parse status =
     (let opts = optionals parse status;
          percent' = Option.bind (json_field opts ''powerRemaining'' json_integer)
            (\<lambda>n. if 0 \<le> n \<and> n \<le> 100 then Some n else None);
          mode = Option.bind (json_field opts ''batteryCameraWorkMode'' json_integer) work_mode_name;
          power = json_field opts ''powerStatus'' json_integer;
          charge = Option.bind power (\<lambda>n. if n = 1 then Some True else if n = 0 \<or> n = 2 then Some False else None);
          source = Option.bind (json_field opts ''powerType'' json_integer)
            (\<lambda>n. if n = 0 then Some ''external'' else if n = 1 then Some ''battery'' else None)
      in if percent' \<noteq> None \<or> mode \<noteq> None \<or> power \<noteq> None \<or> source \<noteq> None
         then Some \<lparr>percent = percent', work_mode = mode, charging = charge, power_source = source, power_status = power\<rparr>
         else None)"

definition read_firmware :: "json \<Rightarrow> json \<Rightarrow> firmware option" where
  "read_firmware device upgrade =
     (let version = Option.bind (map_option trim (json_field device ''version'' as_str))
            (\<lambda>v. if v \<noteq> [] \<and> length v \<le> 64 then Some v else None);
          available = map_option (\<lambda>n. n = 3) (json_field upgrade ''isNeedUpgrade'' json_integer)
      in if version \<noteq> None \<or> available \<noteq> None
         then Some \<lparr>fw_version = version, update_available = available\<rparr> else None)"

section \<open>The account snapshot\<close>

record camera_data =
  cd_device :: json
  cd_status :: json
  cd_switches :: json
  cd_upgrade :: json
  cd_time_plan :: json

definition camera_data_default :: camera_data where
  "camera_data_default = \<lparr>cd_device = JNull, cd_status = JNull, cd_switches = JNull, cd_upgrade = JNull,
     cd_time_plan = JNull\<rparr>"

type_synonym snapshot = "(string, camera_data) btree"

definition SECTIONS :: "string list" where
  "SECTIONS = [''STATUS'', ''SWITCH'', ''TIME_PLAN'', ''UPGRADE'']"

text \<open>\<open>entry(serial).or_default()\<close> followed by a change of the entry.\<close>

definition update_entry :: "string \<Rightarrow> (camera_data \<Rightarrow> camera_data) \<Rightarrow> snapshot \<Rightarrow> snapshot" where
  "update_entry sn f snap =
     bt_insert sn (f (case bt_get snap sn of Some d \<Rightarrow> d | None \<Rightarrow> camera_data_default)) snap"

definition drop_hash :: "json \<Rightarrow> json" where
  "drop_hash status =
     (case status of JObject m \<Rightarrow> JObject (filter (\<lambda>(k, _). k \<noteq> ''encryptPwd'') m) | v \<Rightarrow> v)"

definition merge_device :: "string list \<Rightarrow> json \<Rightarrow> snapshot \<Rightarrow> snapshot" where
  "merge_device serials device snap =
     (case json_field device ''deviceSerial'' as_str of
        Some sn \<Rightarrow> if sn \<in> set serials then update_entry sn (\<lambda>d. d\<lparr>cd_device := device\<rparr>) snap else snap
      | None \<Rightarrow> snap)"

definition set_section :: "string \<Rightarrow> json \<Rightarrow> camera_data \<Rightarrow> camera_data" where
  "set_section section_name v d =
     (if section_name = ''STATUS'' then d\<lparr>cd_status := v\<rparr>
      else if section_name = ''SWITCH'' then d\<lparr>cd_switches := v\<rparr>
      else if section_name = ''TIME_PLAN'' then d\<lparr>cd_time_plan := v\<rparr> else d\<lparr>cd_upgrade := v\<rparr>)"

definition merge_section :: "string list \<Rightarrow> json \<Rightarrow> string \<Rightarrow> snapshot \<Rightarrow> snapshot" where
  "merge_section serials page section_name snap =
     (let entries = (case json_field page section_name as_object of Some m \<Rightarrow> m | None \<Rightarrow> [])
      in fold (\<lambda>(sn, v) s.
           if sn \<in> set serials
           then update_entry sn (\<lambda>d. let d' = set_section section_name v d in d'\<lparr>cd_status := drop_hash (cd_status d')\<rparr>) s
           else s) entries snap)"

definition merge_page :: "snapshot \<Rightarrow> json \<Rightarrow> string list \<Rightarrow> snapshot" where
  "merge_page snap page serials =
     (let devices = (case json_field page ''deviceInfos'' as_array of Some xs \<Rightarrow> xs | None \<Rightarrow> [])
      in fold (merge_section serials page) SECTIONS (fold (merge_device serials) devices snap))"

definition page_has_next :: "json \<Rightarrow> bool" where
  "page_has_next page =
     (case Option.bind (json_get page ''page'') (\<lambda>v. json_field v ''hasNext'' as_bool) of Some b \<Rightarrow> b | None \<Rightarrow> False)"

section \<open>The API view\<close>

record controls =
  ctl_online :: "bool option"
  defence_enabled :: "bool option"
  alarm_schedule_enabled :: "bool option"
  ctl_detection_mode :: "detection_mode option"
  ctl_sensitivity :: "sensitivity option"
  ctl_switches :: "(string, bool) btree"
  ctl_ptz :: bool
  ctl_battery :: "battery option"
  ctl_firmware :: "firmware option"
  ctl_stale :: bool

definition switch_of :: "(string \<Rightarrow> json option) \<Rightarrow> camera_data \<Rightarrow> json \<Rightarrow> (string \<times> bool) option" where
  "switch_of parse d item =
     Option.bind (Option.bind (json_field item ''type'' json_integer)
         (\<lambda>k. if 0 \<le> k \<and> k < 2 ^ 16 then by_kind (nat k) else None)) (\<lambda>s.
       let supported = (case sw_capability s of None \<Rightarrow> True | Some key \<Rightarrow> support_ext parse (cd_device d) key \<noteq> None)
       in Option.bind (json_field item ''enable'' flag) (\<lambda>enabled.
            if supported then Some (sw_name s, enabled) else None))"

definition switches :: "(string \<Rightarrow> json option) \<Rightarrow> camera_data \<Rightarrow> (string, bool) btree" where
  "switches parse d =
     bt_collect (List.map_filter (switch_of parse d) (case as_array (cd_switches d) of Some xs \<Rightarrow> xs | None \<Rightarrow> []))"

definition controls_from :: "(string \<Rightarrow> json option) \<Rightarrow> camera_data \<Rightarrow> sensitivity option \<Rightarrow> controls" where
  "controls_from parse d s = \<lparr>
     ctl_online = online (cd_device d),
     defence_enabled = defence parse (cd_device d) (cd_status d),
     alarm_schedule_enabled = alarm_schedule (cd_time_plan d),
     ctl_detection_mode = read_detection_mode parse (cd_status d),
     ctl_sensitivity = s,
     ctl_switches = switches parse d,
     ctl_ptz = ptz_supported parse (cd_device d),
     ctl_battery = read_battery parse (cd_status d),
     ctl_firmware = read_firmware (cd_device d) (cd_upgrade d),
     ctl_stale = False\<rparr>"

definition sensitivity_kind :: "(string \<Rightarrow> json option) \<Rightarrow> json \<Rightarrow> nat option" where
  "sensitivity_kind parse device =
     Option.bind (support_ext parse device ''61'') (\<lambda>s. if s = ''1'' then Some 0 else if s = ''3'' then Some 3 else None)"

definition sensitivity_max :: "nat \<Rightarrow> int" where
  "sensitivity_max kind = (if kind = 3 then 100 else 6)"

definition parse_sensitivity :: "(string \<Rightarrow> json option) \<Rightarrow> json \<Rightarrow> nat \<Rightarrow> nat \<Rightarrow> sensitivity option" where
  "parse_sensitivity parse raw kind channel' =
     (if json_field raw ''resultCode'' json_integer \<noteq> Some 0 then None
      else Option.bind (json_get raw ''algorithmConfig'') (\<lambda>c.
           Option.bind (json_field (object_of parse c) ''algorithmList'' as_array) (\<lambda>entries.
           Option.bind (find (\<lambda>e. case json_field e ''channel'' json_integer of None \<Rightarrow> True | Some v \<Rightarrow> v = int channel')
             (filter (\<lambda>e. json_field e ''type'' json_integer = Some (int kind)) entries)) (\<lambda>e.
           Option.bind (json_field e ''value'' json_integer) (\<lambda>v.
             if 0 \<le> v \<and> v \<le> sensitivity_max kind
             then Some \<lparr>level = v, level_min = 0, level_max = sensitivity_max kind, level_kind = kind\<rparr> else None)))))"

section \<open>Account defence mode\<close>

datatype defence_mode = Home | Away | Sleep

fun defence_code :: "defence_mode \<Rightarrow> nat" where
  "defence_code Home = 1"
| "defence_code Away = 2"
| "defence_code Sleep = 3"

definition defence_from_code :: "int \<Rightarrow> defence_mode option" where
  "defence_from_code code =
     (if code = 1 then Some Home else if code = 2 then Some Away else if code = 3 then Some Sleep else None)"

record account_defence =
  acc_mode :: "defence_mode option"
  acc_stale :: bool

record defence_update =
  du_mode :: defence_mode
  du_expected :: "defence_mode option"

definition parse_group_mode :: "json \<Rightarrow> defence_mode option" where
  "parse_group_mode v = Option.bind (json_field v ''mode'' json_integer) defence_from_code"

section \<open>Errors\<close>

datatype control_error =
    CtlCameraNotFound
  | CtlUnavailable
  | CtlInvalid string
  | CtlUnsupported
  | CtlConflict json
  | CtlUnconfirmed
  | CtlUpstream
  | CtlReauthRequired

definition failed :: "string \<Rightarrow> control_error" where
  "failed category = (if category = diagnostic_code ReauthRequired then CtlReauthRequired else CtlUpstream)"

definition ctl_upstream :: "bridge_error \<Rightarrow> control_error" where
  "ctl_upstream e = failed (diagnostic_code e)"

fun control_response :: "control_error \<Rightarrow> nat \<times> json" where
  "control_response CtlCameraNotFound = (404, error_body ''camera_not_found'')"
| "control_response CtlUnavailable = (503, error_body ''upstream_unavailable'')"
| "control_response (CtlInvalid detail) =
     (400, JObject [(''detail'', JString detail), (''error'', JString ''invalid_control'')])"
| "control_response CtlUnsupported = (409, error_body ''unsupported_control'')"
| "control_response (CtlConflict current) = (409, JObject [(''current'', current), (''error'', JString ''conflict'')])"
| "control_response CtlUnconfirmed = (502, error_body ''unconfirmed'')"
| "control_response CtlUpstream = (502, error_body ''upstream_failed'')"
| "control_response CtlReauthRequired = (403, error_body ''reauth_required'')"

section \<open>Writes\<close>

record control_request =
  req_key :: string
  req_value :: json
  req_expected :: json

datatype control_key = KeyDefence | KeyDetectionMode | KeySensitivity | KeySwitch switch_spec
datatype desired = DFlag bool | DMode detection_mode | DLevel int

datatype vendor_write =
    WriteSwitch nat bool
  | WriteDefence bool
  | WriteDetectionMode nat
  | WriteSensitivity nat int

datatype ptz_direction = PtzUp | PtzDown | PtzLeft | PtzRight
datatype ptz_action = PtzStart | PtzStop

fun ptz_command :: "ptz_direction \<Rightarrow> string" where
  "ptz_command PtzUp = ''UP''"
| "ptz_command PtzDown = ''DOWN''"
| "ptz_command PtzLeft = ''LEFT''"
| "ptz_command PtzRight = ''RIGHT''"

fun ptz_action_str :: "ptz_action \<Rightarrow> string" where
  "ptz_action_str PtzStart = ''START''"
| "ptz_action_str PtzStop = ''STOP''"

fun mode_name :: "detection_mode \<Rightarrow> string" where
  "mode_name HumanShape = ''human_shape''"
| "mode_name ImageChange = ''image_change''"
| "mode_name Pir = ''pir''"

fun desired_json :: "desired \<Rightarrow> json" where
  "desired_json (DFlag b) = JBool b"
| "desired_json (DMode m) = JString (mode_name m)"
| "desired_json (DLevel n) = JInt n"

text \<open>The derived reader of \<open>DetectionMode\<close>: the name of a variant, or an object with the name as its only key
  and null as its content.\<close>

definition mode_from_json :: "json \<Rightarrow> detection_mode option" where
  "mode_from_json v =
     (let named = (\<lambda>s. find (\<lambda>m. mode_name m = s) [HumanShape, ImageChange, Pir])
      in case v of
           JString s \<Rightarrow> named s
         | JObject m \<Rightarrow> (case m of [(k, c)] \<Rightarrow> (case c of JNull \<Rightarrow> named k | _ \<Rightarrow> None) | _ \<Rightarrow> None)
         | _ \<Rightarrow> None)"

definition parse_key :: "string \<Rightarrow> control_error + control_key" where
  "parse_key key =
     (if key = ''defence_enabled'' then Inr KeyDefence
      else if key = ''detection_mode'' then Inr KeyDetectionMode
      else if key = ''sensitivity'' then Inr KeySensitivity
      else ok_or (if starts_with key ''switch.'' then map_option KeySwitch (by_name (drop 7 key)) else None)
             (CtlInvalid ''unknown control key''))"

definition parse_value :: "control_key \<Rightarrow> json \<Rightarrow> control_error + desired" where
  "parse_value key v =
     ok_or (case key of
              KeyDefence \<Rightarrow> map_option DFlag (as_bool v)
            | KeySwitch _ \<Rightarrow> map_option DFlag (as_bool v)
            | KeyDetectionMode \<Rightarrow> map_option DMode (mode_from_json v)
            | KeySensitivity \<Rightarrow> map_option DLevel (as_i64 v))
       (CtlInvalid ''value does not match the control type'')"

fun current :: "controls \<Rightarrow> control_key \<Rightarrow> desired option" where
  "current c KeyDefence = map_option DFlag (defence_enabled c)"
| "current c KeyDetectionMode = map_option DMode (ctl_detection_mode c)"
| "current c KeySensitivity = map_option (\<lambda>s. DLevel (level s)) (ctl_sensitivity c)"
| "current c (KeySwitch s) = map_option DFlag (bt_get (ctl_switches c) (sw_name s))"

fun vendor_write_of :: "control_key \<Rightarrow> desired \<Rightarrow> controls \<Rightarrow> control_error + vendor_write" where
  "vendor_write_of KeyDefence (DFlag b) c = Inr (WriteDefence b)"
| "vendor_write_of (KeySwitch s) (DFlag b) c = Inr (WriteSwitch (sw_kind s) b)"
| "vendor_write_of KeyDetectionMode (DMode m) c = Inr (WriteDetectionMode (mode_code m))"
| "vendor_write_of KeySensitivity (DLevel v) c =
     (case ctl_sensitivity c of
        None \<Rightarrow> Inl CtlUnsupported
      | Some r \<Rightarrow>
          if v < level_min r \<or> level_max r < v then Inl (CtlInvalid ''sensitivity is outside the camera range'')
          else Inr (WriteSensitivity (level_kind r) v))"
| "vendor_write_of _ _ c = Inl (CtlInvalid ''value does not match the control type'')"

section \<open>Tables and codes\<close>

lemma switch_names_distinct: "distinct (map sw_name SWITCHES)" "distinct (map sw_kind SWITCHES)"
  by (simp_all add: SWITCHES_def spec_def)

lemma find_distinct_key: "distinct (map f xs) \<Longrightarrow> x \<in> set xs \<Longrightarrow> find (\<lambda>y. f y = f x) xs = Some x"
  by (induction xs) (auto simp: image_iff)

lemma switch_lookup: "s \<in> set SWITCHES \<Longrightarrow> by_name (sw_name s) = Some s \<and> by_kind (sw_kind s) = Some s"
  by (simp add: by_name_def by_kind_def find_distinct_key switch_names_distinct)

lemma mode_codes: "mode_from_code (int (mode_code m)) = Some m" "mode_from_json (JString (mode_name m)) = Some m"
  by (cases m; simp add: mode_from_code_def mode_from_json_def)+

lemma defence_codes: "defence_from_code (int (defence_code m)) = Some m"
  by (cases m) (simp_all add: defence_from_code_def)

text \<open>A value of the right type for its key.\<close>

fun value_fits :: "control_key \<Rightarrow> desired \<Rightarrow> bool" where
  "value_fits KeyDefence (DFlag _) = True"
| "value_fits (KeySwitch _) (DFlag _) = True"
| "value_fits KeyDetectionMode (DMode _) = True"
| "value_fits KeySensitivity (DLevel _) = True"
| "value_fits _ _ = False"

lemma current_fits: "current c key = Some v \<Longrightarrow> value_fits key v"
  by (cases key) auto

lemma parse_value_fits: "parse_value key j = Inr v \<Longrightarrow> value_fits key v"
  by (auto simp: parse_value_def ok_or_def split: control_key.splits option.splits)

text \<open>A reported conflict can be sent back as the expected value.\<close>

lemma conflict_roundtrip:
  assumes "current c key = Some v" "\<And>n. v = DLevel n \<Longrightarrow> in_i64 n"
  shows "parse_value key (desired_json v) = Inr v"
  using assms by (cases key) (auto simp: parse_value_def ok_or_def as_bool_def as_i64_def mode_codes)

section \<open>Sensitivity stays in range\<close>

definition level_ok :: "sensitivity option \<Rightarrow> bool" where
  "level_ok s \<longleftrightarrow> (case s of None \<Rightarrow> True | Some r \<Rightarrow> level_min r \<le> level r \<and> level r \<le> level_max r)"

lemma parse_sensitivity_range: "level_ok (parse_sensitivity parse raw kind channel')"
  by (auto simp: parse_sensitivity_def level_ok_def bind_eq_Some_conv split: option.splits if_splits)

text \<open>The change back to the current value can always be sent.\<close>

lemma undo_possible:
  assumes "current c key = Some v" "level_ok (ctl_sensitivity c)"
  obtains w where "vendor_write_of key v c = Inr w"
  using assms by (cases key) (auto simp: level_ok_def)

section \<open>The snapshot\<close>

definition hash_free :: "snapshot \<Rightarrow> bool" where
  "hash_free snap \<longleftrightarrow> (\<forall>(sn, d) \<in> set snap. json_get (cd_status d) ''encryptPwd'' = None)"

lemma drop_hash_free [simp]: "json_get (drop_hash v) ''encryptPwd'' = None"
  by (auto simp: drop_hash_def json_get_def map_of_eq_None_iff split: json.splits)

lemma hash_free_entry:
  assumes "hash_free snap" "\<And>d. json_get (cd_status d) ''encryptPwd'' = None \<Longrightarrow> json_get (cd_status (f d)) ''encryptPwd'' = None"
  shows "hash_free (update_entry sn f snap)"
proof -
  have "json_get (cd_status (case bt_get snap sn of Some d \<Rightarrow> d | None \<Rightarrow> camera_data_default)) ''encryptPwd'' = None"
    using assms(1) by (auto simp: hash_free_def camera_data_default_def dest!: map_of_SomeD split: option.splits)
  from assms(2) [OF this] assms(1) show ?thesis
    unfolding hash_free_def update_entry_def using bt_insert_entries by fastforce
qed

lemma fold_keeps: "P x \<Longrightarrow> (\<And>y x. P x \<Longrightarrow> P (f y x)) \<Longrightarrow> P (fold f ys x)"
  by (induction ys arbitrary: x) auto

lemma merge_page_hash_free: "hash_free snap \<Longrightarrow> hash_free (merge_page snap page serials)"
proof -
  have device: "hash_free (merge_device serials device s)" if "hash_free s" for device s
    using that by (auto simp: merge_device_def intro: hash_free_entry split: option.splits)
  have sect: "hash_free (merge_section serials page name s)" if "hash_free s" for name s
    unfolding merge_section_def Let_def
    by (rule fold_keeps [where P = hash_free]) (use that in \<open>auto intro!: hash_free_entry\<close>)
  assume "hash_free snap"
  then show ?thesis
    unfolding merge_page_def Let_def by (intro fold_keeps [where P = hash_free] device sect)
qed

end
