(* ===== verification/Control_Service.thy ===== *)
theory Control_Service
  imports Control_Model Bridge_Config
begin

text \<open>
  Cached control reads (\<open>controls/cell.rs\<close>, \<open>controls/service.rs\<close>) and verified writes, PTZ steps and the
  account defence mode (\<open>controls/update.rs\<close>).

  An operation is a function on the world it runs in: the clock (milliseconds), the cells, and the
  calls it has sent to EZVIZ. What the outside does is a \<open>ctl_env\<close>: the answer to each call with the
  time it takes, the time spent waiting for each lock, and what the other tasks did to the cells meanwhile.
  Metrics and logging are left out.
\<close>

definition CONTROLS_TTL :: nat where "CONTROLS_TTL = 60 * 1000"
definition CONTROLS_FAILURE_TTL :: nat where "CONTROLS_FAILURE_TTL = 30 * 1000"
definition READ_DEADLINE :: nat where "READ_DEADLINE = 15 * 1000"
definition STALE_FOR :: nat where "STALE_FOR = 10 * 60 * 1000"
definition DEFENCE_TTL :: nat where "DEFENCE_TTL = 60 * 1000"
definition VERIFY_DELAYS :: "nat list" where "VERIFY_DELAYS = [1000, 2000, 3000]"
definition PAGE_SIZE :: nat where "PAGE_SIZE = 50"
definition MAX_PAGES :: nat where "MAX_PAGES = 40"

section \<open>Cells\<close>

record 'a ttl_entry =
  e_expires :: nat
  e_value :: "string + 'a"

record 'a good_value =
  good_value :: 'a
  good_at :: nat

record 'a ttl_cell =
  cell_entry :: "'a ttl_entry option"
  cell_good :: "'a good_value option"
  cell_ttl :: nat
  cell_failure_ttl :: nat
  cell_stale_for :: nat

datatype 'a cell_read = CellValue 'a | CellStale 'a | CellFailed string

definition new_cell :: "nat \<Rightarrow> 'a ttl_cell" where
  "new_cell ttl = \<lparr>cell_entry = None, cell_good = None, cell_ttl = ttl,
     cell_failure_ttl = CONTROLS_FAILURE_TTL, cell_stale_for = STALE_FOR\<rparr>"

definition fallback :: "bool \<Rightarrow> string \<Rightarrow> nat \<Rightarrow> 'a ttl_cell \<Rightarrow> 'a cell_read" where
  "fallback force category now cell =
     (if \<not> force \<and> category \<noteq> ''reauth_required''
      then case cell_good cell of
             Some g \<Rightarrow> if now - good_at g \<le> cell_stale_for cell then CellStale (good_value g) else CellFailed category
           | None \<Rightarrow> CellFailed category
      else CellFailed category)"

definition store_result :: "bridge_error + 'a \<Rightarrow> nat \<Rightarrow> 'a ttl_cell \<Rightarrow> 'a ttl_cell" where
  "store_result res now cell =
     (case res of
        Inr v \<Rightarrow> cell\<lparr>cell_good := Some \<lparr>good_value = v, good_at = now\<rparr>,
                      cell_entry := Some \<lparr>e_expires = now + cell_ttl cell, e_value = Inr v\<rparr>\<rparr>
      | Inl e \<Rightarrow> cell\<lparr>cell_entry := Some \<lparr>e_expires = now + cell_failure_ttl cell, e_value = Inl (diagnostic_code e)\<rparr>\<rparr>)"

definition invalidate_cell :: "'a ttl_cell \<Rightarrow> 'a ttl_cell" where
  "invalidate_cell cell = cell\<lparr>cell_entry := None, cell_good := None\<rparr>"

section \<open>The world of an operation\<close>

datatype vendor_call =
    CallPage nat
  | CallAlgorithm string
  | CallGroupMode
  | CallWrite string vendor_write
  | CallSetGroupMode nat
  | CallPtz string ptz_direction ptz_action

record cells =
  snapshot_cell :: "snapshot ttl_cell"
  sensitivity_cells :: "(string, sensitivity option ttl_cell) btree"
  defence_cell :: "defence_mode option ttl_cell"

record ctl_world =
  w_now :: nat
  w_ticks :: nat
  w_calls :: "vendor_call list"
  w_cells :: cells

record ctl_env =
  env_answer :: "nat \<Rightarrow> vendor_call \<Rightarrow> (bridge_error + json) \<times> nat"
  env_wait :: "nat \<Rightarrow> nat"
  env_others :: "nat \<Rightarrow> cells \<Rightarrow> cells"
  env_json :: "string \<Rightarrow> json option"

record control_service =
  svc_cameras :: "(string, camera_config) btree"
  svc_attached :: bool

definition svc_serials :: "control_service \<Rightarrow> string list" where
  "svc_serials svc = map serial (bt_values (svc_cameras svc))"

definition new_cells :: "(string, camera_config) btree \<Rightarrow> cells" where
  "new_cells configs = \<lparr>snapshot_cell = new_cell CONTROLS_TTL,
     sensitivity_cells = map (\<lambda>(alias, _). (alias, new_cell CONTROLS_TTL)) configs,
     defence_cell = new_cell DEFENCE_TTL\<rparr>"

text \<open>Waiting for a lock: time passes and the other tasks run.\<close>

definition wait_lock :: "ctl_env \<Rightarrow> ctl_world \<Rightarrow> ctl_world" where
  "wait_lock env w = w\<lparr>w_now := w_now w + env_wait env (w_ticks w),
     w_cells := env_others env (w_ticks w) (w_cells w), w_ticks := Suc (w_ticks w)\<rparr>"

definition call :: "ctl_env \<Rightarrow> vendor_call \<Rightarrow> ctl_world \<Rightarrow> (bridge_error + json) \<times> ctl_world" where
  "call env c w =
     (let (answer, taken) = env_answer env (length (w_calls w)) c
      in (answer, w\<lparr>w_calls := w_calls w @ [c], w_now := w_now w + taken\<rparr>))"

text \<open>A call inside a read: \<open>timeout_at\<close> gives it up at the deadline.\<close>

definition call_by :: "ctl_env \<Rightarrow> nat \<Rightarrow> vendor_call \<Rightarrow> ctl_world \<Rightarrow> (bridge_error + json) \<times> ctl_world" where
  "call_by env deadline c w =
     (let (answer, w') = call env c w
      in if deadline < w_now w' then (Inl Timeout, w'\<lparr>w_now := max (w_now w) deadline\<rparr>) else (answer, w'))"

definition cell_get :: "ctl_env \<Rightarrow> (cells \<Rightarrow> 'a ttl_cell) \<Rightarrow> ('a ttl_cell \<Rightarrow> cells \<Rightarrow> cells) \<Rightarrow> bool \<Rightarrow> nat
    \<Rightarrow> (ctl_world \<Rightarrow> (bridge_error + 'a) \<times> ctl_world) \<Rightarrow> ctl_world \<Rightarrow> 'a cell_read \<times> ctl_world" where
  "cell_get env look put force deadline fetch w =
     (let w1 = wait_lock env w; cell = look (w_cells w1); now = w_now w1
      in if deadline < now
         then let t = max (w_now w) deadline in (fallback force ''timeout'' t cell, w1\<lparr>w_now := t\<rparr>)
         else case (case cell_entry cell of
                      Some entry \<Rightarrow> if \<not> force \<and> now < e_expires entry then Some (e_value entry) else None
                    | None \<Rightarrow> None) of
                Some (Inr v) \<Rightarrow> (CellValue v, w1)
              | Some (Inl category) \<Rightarrow> (fallback force category now cell, w1)
              | None \<Rightarrow>
                  if deadline \<le> now then (fallback force ''timeout'' now cell, w1)
                  else let (res, w2) = fetch w1; stored = store_result res (w_now w2) cell
                       in (case res of
                             Inr v \<Rightarrow> CellValue v
                           | Inl e \<Rightarrow> fallback force (diagnostic_code e) (w_now w2) stored,
                           w2\<lparr>w_cells := put stored (w_cells w2)\<rparr>))"

section \<open>Reads\<close>

fun fetch_pages :: "ctl_env \<Rightarrow> nat \<Rightarrow> string list \<Rightarrow> nat \<Rightarrow> nat \<Rightarrow> snapshot \<Rightarrow> ctl_world
    \<Rightarrow> (bridge_error + snapshot) \<times> ctl_world" where
  "fetch_pages env deadline serials 0 offset snap w = (Inr snap, w)"
| "fetch_pages env deadline serials (Suc left) offset snap w =
     (case call_by env deadline (CallPage offset) w of
        (Inl e, w') \<Rightarrow> (Inl e, w')
      | (Inr page, w') \<Rightarrow>
          let snap' = merge_page snap page serials
          in if \<not> page_has_next page then (Inr snap', w')
             else fetch_pages env deadline serials left (sat_add offset PAGE_SIZE) snap' w')"

definition fetch_snapshot :: "ctl_env \<Rightarrow> nat \<Rightarrow> string list \<Rightarrow> ctl_world \<Rightarrow> (bridge_error + snapshot) \<times> ctl_world" where
  "fetch_snapshot env deadline serials w = fetch_pages env deadline serials MAX_PAGES 0 [] w"

definition read_snapshot :: "ctl_env \<Rightarrow> control_service \<Rightarrow> bool \<Rightarrow> nat \<Rightarrow> ctl_world
    \<Rightarrow> (control_error + snapshot \<times> bool) \<times> ctl_world" where
  "read_snapshot env svc force deadline w =
     (case cell_get env snapshot_cell (\<lambda>c cs. cs\<lparr>snapshot_cell := c\<rparr>) force deadline
             (fetch_snapshot env deadline (svc_serials svc)) w of
        (CellValue s, w') \<Rightarrow> (Inr (s, False), w')
      | (CellStale s, w') \<Rightarrow> (Inr (s, True), w')
      | (CellFailed category, w') \<Rightarrow> (Inl (failed category), w'))"

definition sensitivity_cell :: "string \<Rightarrow> cells \<Rightarrow> sensitivity option ttl_cell" where
  "sensitivity_cell alias cs =
     (case bt_get (sensitivity_cells cs) alias of Some c \<Rightarrow> c | None \<Rightarrow> new_cell CONTROLS_TTL)"

definition read_sensitivity :: "ctl_env \<Rightarrow> string \<Rightarrow> camera_config \<Rightarrow> nat \<Rightarrow> bool \<Rightarrow> nat \<Rightarrow> ctl_world
    \<Rightarrow> (sensitivity option \<times> bool) \<times> ctl_world" where
  "read_sensitivity env alias config kind force deadline w =
     (if bt_get (sensitivity_cells (w_cells w)) alias = None then ((None, False), w)
      else
        (case cell_get env (sensitivity_cell alias)
                (\<lambda>c cs. cs\<lparr>sensitivity_cells := bt_modify alias (\<lambda>_. c) (sensitivity_cells cs)\<rparr>) force deadline
                (\<lambda>v. case call_by env deadline (CallAlgorithm (serial config)) v of
                       (Inl e, v') \<Rightarrow> (Inl e, v')
                     | (Inr raw, v') \<Rightarrow> (Inr (parse_sensitivity (env_json env) raw kind (channel config)), v')) w of
           (CellValue s, w') \<Rightarrow> ((s, False), w')
         | (CellStale s, w') \<Rightarrow> ((s, True), w')
         | (CellFailed _, w') \<Rightarrow> ((None, False), w')))"

datatype refresh = RefreshCached | RefreshStatus | RefreshAll

definition read_controls :: "ctl_env \<Rightarrow> control_service \<Rightarrow> string \<Rightarrow> camera_config \<Rightarrow> refresh \<Rightarrow> ctl_world
    \<Rightarrow> (control_error + controls) \<times> ctl_world" where
  "read_controls env svc alias config refresh w =
     (let deadline = w_now w + READ_DEADLINE in
      case read_snapshot env svc (refresh \<noteq> RefreshCached) deadline w of
        (Inl e, w') \<Rightarrow> (Inl e, w')
      | (Inr (snap, stale), w') \<Rightarrow>
          let d = (case bt_get snap (serial config) of Some x \<Rightarrow> x | None \<Rightarrow> camera_data_default) in
          (case sensitivity_kind (env_json env) (cd_device d) of
             Some kind \<Rightarrow>
               let ((s, old), w'') = read_sensitivity env alias config kind (refresh = RefreshAll) deadline w'
               in (Inr ((controls_from (env_json env) d s)\<lparr>ctl_stale := stale \<or> old\<rparr>), w'')
           | None \<Rightarrow> (Inr ((controls_from (env_json env) d None)\<lparr>ctl_stale := stale\<rparr>), w')))"

definition find_camera :: "control_service \<Rightarrow> string \<Rightarrow> control_error + camera_config" where
  "find_camera svc alias = ok_or (bt_get (svc_cameras svc) alias) CtlCameraNotFound"

definition find_source :: "control_service \<Rightarrow> control_error + unit" where
  "find_source svc = (if svc_attached svc then Inr () else Inl CtlUnavailable)"

definition attach_source :: "control_service \<Rightarrow> control_service" where
  "attach_source svc = svc\<lparr>svc_attached := True\<rparr>"

definition get_controls :: "ctl_env \<Rightarrow> control_service \<Rightarrow> string \<Rightarrow> ctl_world \<Rightarrow> (control_error + controls) \<times> ctl_world" where
  "get_controls env svc alias w =
     (case try_bind (find_camera svc alias) (\<lambda>config. try_bind (find_source svc) (\<lambda>_. Inr config)) of
        Inl e \<Rightarrow> (Inl e, w)
      | Inr config \<Rightarrow> read_controls env svc alias config RefreshCached w)"

text \<open>Dropping every cached read, one lock after the other.\<close>

definition invalidate_snapshot :: "ctl_env \<Rightarrow> ctl_world \<Rightarrow> ctl_world" where
  "invalidate_snapshot env w = (let v = wait_lock env w in
     v\<lparr>w_cells := (w_cells v)\<lparr>snapshot_cell := invalidate_cell (snapshot_cell (w_cells v))\<rparr>\<rparr>)"

definition invalidate_defence :: "ctl_env \<Rightarrow> ctl_world \<Rightarrow> ctl_world" where
  "invalidate_defence env w = (let v = wait_lock env w in
     v\<lparr>w_cells := (w_cells v)\<lparr>defence_cell := invalidate_cell (defence_cell (w_cells v))\<rparr>\<rparr>)"

definition invalidate_sensitivity :: "ctl_env \<Rightarrow> string \<Rightarrow> ctl_world \<Rightarrow> ctl_world" where
  "invalidate_sensitivity env alias w = (let v = wait_lock env w in
     v\<lparr>w_cells := (w_cells v)\<lparr>sensitivity_cells := bt_modify alias invalidate_cell (sensitivity_cells (w_cells v))\<rparr>\<rparr>)"

definition invalidate_all :: "ctl_env \<Rightarrow> ctl_world \<Rightarrow> ctl_world" where
  "invalidate_all env w =
     (let v = invalidate_defence env (invalidate_snapshot env w)
      in fold (invalidate_sensitivity env) (map fst (sensitivity_cells (w_cells v))) v)"

section \<open>Writes\<close>

datatype 'a confirmation = Confirmed 'a | Mismatch | Unknown

fun confirm :: "(ctl_world \<Rightarrow> (control_error + 'a) \<times> ctl_world) \<Rightarrow> ('a \<Rightarrow> bool) \<Rightarrow> nat list \<Rightarrow> 'a confirmation
    \<Rightarrow> ctl_world \<Rightarrow> 'a confirmation \<times> ctl_world" where
  "confirm reader matches [] outcome w = (outcome, w)"
| "confirm reader matches (delay # delays) outcome w =
     (case reader (w\<lparr>w_now := w_now w + delay\<rparr>) of
        (Inr v, w') \<Rightarrow> if matches v then (Confirmed v, w') else confirm reader matches delays Mismatch w'
      | (Inl _, w') \<Rightarrow> confirm reader matches delays outcome w')"

definition send :: "ctl_env \<Rightarrow> camera_config \<Rightarrow> vendor_write \<Rightarrow> ctl_world \<Rightarrow> (control_error + unit) \<times> ctl_world" where
  "send env config wr w =
     (case call env (CallWrite (serial config) wr) w of
        (Inl e, w') \<Rightarrow> (Inl (ctl_upstream e), invalidate_all env w')
      | (Inr _, w') \<Rightarrow> (Inr (), w'))"

text \<open>The checks before the lock is taken.\<close>

definition check_request :: "control_service \<Rightarrow> string \<Rightarrow> control_request
    \<Rightarrow> control_error + camera_config \<times> control_key \<times> desired \<times> desired" where
  "check_request svc alias request =
     try_bind (find_camera svc alias) (\<lambda>config.
     try_bind (parse_key (req_key request)) (\<lambda>key.
     try_bind (parse_value key (req_value request)) (\<lambda>want.
     try_bind (parse_value key (req_expected request)) (\<lambda>expected.
     try_bind (find_source svc) (\<lambda>_. Inr (config, key, want, expected))))))"

text \<open>The decision on the values read: nothing to send, or the change and the change back.\<close>

definition plan_write :: "control_key \<Rightarrow> desired \<Rightarrow> desired \<Rightarrow> controls
    \<Rightarrow> control_error + (vendor_write \<times> vendor_write) option" where
  "plan_write key want expected before =
     try_bind (ok_or (current before key) CtlUnsupported) (\<lambda>previous.
       if previous \<noteq> expected then Inl (CtlConflict (desired_json previous))
       else if previous = want then Inr None
       else try_bind (vendor_write_of key previous before) (\<lambda>undo.
            try_bind (vendor_write_of key want before) (\<lambda>change. Inr (Some (change, undo)))))"

definition update :: "ctl_env \<Rightarrow> control_service \<Rightarrow> string \<Rightarrow> control_request \<Rightarrow> ctl_world
    \<Rightarrow> (control_error + controls) \<times> ctl_world" where
  "update env svc alias request w =
     (case check_request svc alias request of
        Inl e \<Rightarrow> (Inl e, w)
      | Inr (config, key, want, expected) \<Rightarrow>
          let refresh = (if key = KeySensitivity then RefreshAll else RefreshStatus);
              reader = read_controls env svc alias config refresh
          in case reader (wait_lock env w) of
               (Inl e, w1) \<Rightarrow> (Inl e, w1)
             | (Inr before, w1) \<Rightarrow>
                 (case plan_write key want expected before of
                    Inl e \<Rightarrow> (Inl e, w1)
                  | Inr None \<Rightarrow> (Inr before, w1)
                  | Inr (Some (change, undo)) \<Rightarrow>
                      (case send env config change w1 of
                         (Inl e, w2) \<Rightarrow> (Inl e, w2)
                       | (Inr _, w2) \<Rightarrow>
                           (case confirm reader (\<lambda>after. current after key = Some want) VERIFY_DELAYS Unknown w2 of
                              (Confirmed after, w3) \<Rightarrow> (Inr after, w3)
                            | (Mismatch, w3) \<Rightarrow>
                                (Inl CtlUnconfirmed, invalidate_all env (snd (send env config undo w3)))
                            | (Unknown, w3) \<Rightarrow> (Inl CtlUnconfirmed, invalidate_all env w3)))))"

definition ptz :: "ctl_env \<Rightarrow> control_service \<Rightarrow> string \<Rightarrow> ptz_direction \<Rightarrow> ctl_world
    \<Rightarrow> (control_error + unit) \<times> ctl_world" where
  "ptz env svc alias direction w =
     (case try_bind (find_camera svc alias) (\<lambda>config. try_bind (find_source svc) (\<lambda>_. Inr config)) of
        Inl e \<Rightarrow> (Inl e, w)
      | Inr config \<Rightarrow>
          let w0 = wait_lock env w in
          (case read_snapshot env svc False (w_now w0 + READ_DEADLINE) w0 of
             (Inl e, w1) \<Rightarrow> (Inl e, w1)
           | (Inr (snap, _), w1) \<Rightarrow>
               (case bt_get snap (serial config) of
                  None \<Rightarrow> (Inl CtlUnsupported, w1)
                | Some d \<Rightarrow>
                    if \<not> ptz_supported (env_json env) (cd_device d) then (Inl CtlUnsupported, w1)
                    else let (start, w2) = call env (CallPtz (serial config) direction PtzStart) w1;
                             (stop1, w3) = call env (CallPtz (serial config) direction PtzStop) w2;
                             (stop, w4) = (case stop1 of
                                Inl _ \<Rightarrow> call env (CallPtz (serial config) direction PtzStop) w3
                              | Inr _ \<Rightarrow> (stop1, w3))
                         in (case try_bind start (\<lambda>_. stop) of Inl e \<Rightarrow> Inl (ctl_upstream e) | Inr _ \<Rightarrow> Inr (), w4))))"

definition read_defence :: "ctl_env \<Rightarrow> bool \<Rightarrow> ctl_world \<Rightarrow> (control_error + account_defence) \<times> ctl_world" where
  "read_defence env force w =
     (let deadline = w_now w + READ_DEADLINE in
      case cell_get env defence_cell (\<lambda>c cs. cs\<lparr>defence_cell := c\<rparr>) force deadline
             (\<lambda>v. case call_by env deadline CallGroupMode v of
                    (Inl e, v') \<Rightarrow> (Inl e, v')
                  | (Inr raw, v') \<Rightarrow> (Inr (parse_group_mode raw), v')) w of
        (CellValue m, w') \<Rightarrow> (Inr \<lparr>acc_mode = m, acc_stale = False\<rparr>, w')
      | (CellStale m, w') \<Rightarrow> (Inr \<lparr>acc_mode = m, acc_stale = True\<rparr>, w')
      | (CellFailed category, w') \<Rightarrow> (Inl (failed category), w'))"

definition get_account_defence :: "ctl_env \<Rightarrow> control_service \<Rightarrow> ctl_world \<Rightarrow> (control_error + account_defence) \<times> ctl_world" where
  "get_account_defence env svc w =
     (case find_source svc of Inl e \<Rightarrow> (Inl e, w) | Inr _ \<Rightarrow> read_defence env False w)"

definition send_mode :: "ctl_env \<Rightarrow> defence_mode \<Rightarrow> ctl_world \<Rightarrow> (control_error + unit) \<times> ctl_world" where
  "send_mode env mode w =
     (case call env (CallSetGroupMode (defence_code mode)) w of
        (Inl e, w') \<Rightarrow> (Inl (ctl_upstream e), invalidate_all env w')
      | (Inr _, w') \<Rightarrow> (Inr (), w'))"

fun defence_mode_name :: "defence_mode \<Rightarrow> string" where
  "defence_mode_name Home = ''home''"
| "defence_mode_name Away = ''away''"
| "defence_mode_name Sleep = ''sleep''"

definition defence_json :: "defence_mode option \<Rightarrow> json" where
  "defence_json m = (case m of None \<Rightarrow> JNull | Some d \<Rightarrow> JString (defence_mode_name d))"

definition set_account_defence :: "ctl_env \<Rightarrow> control_service \<Rightarrow> defence_update \<Rightarrow> ctl_world
    \<Rightarrow> (control_error + account_defence) \<times> ctl_world" where
  "set_account_defence env svc request w =
     (case find_source svc of
        Inl e \<Rightarrow> (Inl e, w)
      | Inr _ \<Rightarrow>
          (case read_defence env True (wait_lock env w) of
             (Inl e, w1) \<Rightarrow> (Inl e, w1)
           | (Inr before, w1) \<Rightarrow>
               let previous = acc_mode before in
               if previous \<noteq> du_expected request then (Inl (CtlConflict (defence_json previous)), w1)
               else if previous = Some (du_mode request) then (Inr before, w1)
               else
                 (case send_mode env (du_mode request) w1 of
                    (Inl e, w2) \<Rightarrow> (Inl e, w2)
                  | (Inr _, w2) \<Rightarrow>
                      (case confirm (read_defence env True) (\<lambda>r. acc_mode r = Some (du_mode request)) VERIFY_DELAYS Unknown w2 of
                         (Confirmed after, w3) \<Rightarrow> (Inr after, w3)
                       | (outcome, w3) \<Rightarrow>
                           (Inl CtlUnconfirmed, invalidate_all env
                              (case (outcome, previous) of
                                 (Mismatch, Some mode) \<Rightarrow> snd (send_mode env mode w3)
                               | _ \<Rightarrow> w3))))))"

section \<open>The calls of an operation\<close>

fun is_write :: "vendor_call \<Rightarrow> bool" where
  "is_write (CallPage _) = False"
| "is_write (CallAlgorithm _) = False"
| "is_write CallGroupMode = False"
| "is_write _ = True"

text \<open>\<open>w'\<close> is reached from \<open>w\<close> by the calls \<open>cs\<close>, none of which changes anything at EZVIZ.\<close>

definition reads :: "vendor_call list \<Rightarrow> ctl_world \<Rightarrow> ctl_world \<Rightarrow> bool" where
  "reads cs w w' \<longleftrightarrow> w_calls w' = w_calls w @ cs \<and> list_all (\<lambda>c. \<not> is_write c) cs"

lemma reads_refl [intro]: "w_calls w' = w_calls w \<Longrightarrow> reads [] w w'"
  by (simp add: reads_def)

lemma reads_trans: "reads cs u v \<Longrightarrow> reads ds v w \<Longrightarrow> reads (cs @ ds) u w"
  by (simp add: reads_def)

lemma calls_wait_lock [simp]: "w_calls (wait_lock env w) = w_calls w"
  by (simp add: wait_lock_def)

lemma calls_invalidate [simp]:
  "w_calls (invalidate_snapshot env w) = w_calls w" "w_calls (invalidate_defence env w) = w_calls w"
  "w_calls (invalidate_sensitivity env alias w) = w_calls w"
  by (simp_all add: invalidate_snapshot_def invalidate_defence_def invalidate_sensitivity_def Let_def)

lemma calls_invalidate_all [simp]: "w_calls (invalidate_all env w) = w_calls w"
proof -
  have "w_calls (fold (invalidate_sensitivity env) aliases v) = w_calls v" for aliases v
    by (induction aliases arbitrary: v) simp_all
  then show ?thesis by (simp add: invalidate_all_def Let_def)
qed

lemma calls_call [simp]: "w_calls (snd (call env c w)) = w_calls w @ [c]"
  by (simp add: call_def Let_def split: prod.split)

lemma calls_call_by: "call_by env deadline c w = (res, w') \<Longrightarrow> w_calls w' = w_calls w @ [c]"
  by (auto simp: call_by_def call_def Let_def split: prod.splits if_splits)

lemma fetch_pages_reads:
  "fetch_pages env deadline serials left offset snap w = (res, w') \<Longrightarrow>
     \<exists>cs. reads cs w w' \<and> (0 < left \<longrightarrow> (\<exists>ds. cs = CallPage offset # ds))"
proof (induction left arbitrary: offset snap w)
  case (Suc left)
  obtain ans v where c: "call_by env deadline (CallPage offset) w = (ans, v)" by fastforce
  note one = calls_call_by [OF c]
  show ?case
  proof (cases "w' = v")
    case True
    with one show ?thesis by (auto simp: reads_def)
  next
    case False
    then obtain off' snap' where "fetch_pages env deadline serials left off' snap' v = (res, w')"
      using Suc.prems c by (auto simp: Let_def split: sum.splits if_splits)
    from Suc.IH [OF this] one show ?thesis by (auto simp: reads_def)
  qed
qed (auto simp: reads_def)

lemma cell_get_reads:
  assumes "cell_get env look put force deadline fetch w = (res, w')"
    and "\<And>v r v'. fetch v = (r, v') \<Longrightarrow> \<exists>cs. reads cs v v'"
  shows "\<exists>cs. reads cs w w'"
proof -
  consider "w_calls w' = w_calls w"
    | r v where "fetch (wait_lock env w) = (r, v)" "w_calls w' = w_calls v"
    using assms(1) by (auto simp: cell_get_def Let_def split: if_splits option.splits sum.splits prod.splits)
  then show ?thesis
  proof cases
    case 2
    with assms(2) [OF 2(1)] show ?thesis by (auto simp: reads_def)
  qed auto
qed

text \<open>A forced read never serves an old value: what it returns was fetched by this read.\<close>

lemma cell_get_forced:
  assumes "cell_get env look put force deadline fetch w = (res, w')" "force"
  shows "(\<exists>category. res = CellFailed category)
    \<or> (\<exists>v u. res = CellValue v \<and> fetch (wait_lock env w) = (Inr v, u) \<and> w_calls w' = w_calls u)"
  using assms by (auto simp: cell_get_def fallback_def Let_def split: if_splits option.splits sum.splits prod.splits)

lemma read_snapshot_reads:
  assumes "read_snapshot env svc force deadline w = (res, w')"
  shows "\<exists>cs. reads cs w w' \<and> (force \<longrightarrow> (\<exists>x. res = Inr x) \<longrightarrow> CallPage 0 \<in> set cs)"
proof -
  obtain r where g: "cell_get env snapshot_cell (\<lambda>c cs. cs\<lparr>snapshot_cell := c\<rparr>) force deadline
      (fetch_snapshot env deadline (svc_serials svc)) w = (r, w')"
    and r: "\<And>x. res = Inr x \<Longrightarrow> \<forall>category. r \<noteq> CellFailed category"
    using assms by (auto simp: read_snapshot_def split: prod.splits cell_read.splits)
  have fetch: "\<exists>cs. reads cs v v' \<and> CallPage 0 \<in> set cs"
    if "fetch_snapshot env deadline (svc_serials svc) v = (x, v')" for v x v'
    using fetch_pages_reads that unfolding fetch_snapshot_def MAX_PAGES_def by fastforce
  have "\<exists>cs. reads cs w w'" using cell_get_reads [OF g] fetch by blast
  moreover have "\<exists>cs. reads cs w w' \<and> CallPage 0 \<in> set cs" if "force" "res = Inr x" for x
    using cell_get_forced [OF g that(1)] r [OF that(2)] fetch by (fastforce simp: reads_def)
  ultimately show ?thesis by blast
qed

lemma read_sensitivity_reads:
  assumes "read_sensitivity env alias config kind force deadline w = (res, w')" shows "\<exists>cs. reads cs w w'"
proof -
  let ?fetch = "\<lambda>v. case call_by env deadline (CallAlgorithm (serial config)) v of
      (Inl e, v') \<Rightarrow> (Inl e, v')
    | (Inr raw, v') \<Rightarrow> (Inr (parse_sensitivity (env_json env) raw kind (channel config)), v')"
  have fetch: "\<exists>cs. reads cs v v'" if "?fetch v = (r, v')" for v r v'
    using that by (auto simp: reads_def dest!: calls_call_by split: prod.splits sum.splits)
  consider "w' = w" | r where "cell_get env (sensitivity_cell alias)
      (\<lambda>c cs. cs\<lparr>sensitivity_cells := bt_modify alias (\<lambda>_. c) (sensitivity_cells cs)\<rparr>) force deadline ?fetch w = (r, w')"
    using assms by (auto simp: read_sensitivity_def split: if_splits prod.splits cell_read.splits)
  then show ?thesis using cell_get_reads fetch by cases blast+
qed

lemma read_controls_reads:
  assumes "read_controls env svc alias config refresh w = (res, w')"
  shows "\<exists>cs. reads cs w w' \<and> (refresh \<noteq> RefreshCached \<longrightarrow> (\<exists>x. res = Inr x) \<longrightarrow> CallPage 0 \<in> set cs)"
proof -
  obtain r v where one: "read_snapshot env svc (refresh \<noteq> RefreshCached) (w_now w + READ_DEADLINE) w = (r, v)"
    by fastforce
  obtain cs where cs: "reads cs w v" "refresh \<noteq> RefreshCached \<longrightarrow> (\<exists>x. r = Inr x) \<longrightarrow> CallPage 0 \<in> set cs"
    using read_snapshot_reads [OF one] by blast
  have "\<exists>ds. reads ds v w'"
    using assms one
    by (auto simp: read_controls_def Let_def intro: read_sensitivity_reads split: sum.splits prod.splits option.splits)
  moreover have "(\<exists>x. res = Inr x) \<longrightarrow> (\<exists>x. r = Inr x)"
    using assms one by (auto simp: read_controls_def Let_def split: sum.splits)
  ultimately show ?thesis using cs reads_trans by fastforce
qed

text \<open>A read-back either finds the value or ends after the last attempt.\<close>

lemma confirm_reads:
  assumes "confirm reader matches delays outcome w = (res, w')"
    and "\<And>v r v'. reader v = (r, v') \<Longrightarrow> \<exists>cs. reads cs v v' \<and> ((\<exists>x. r = Inr x) \<longrightarrow> P cs)"
    and "\<And>cs ds. P ds \<Longrightarrow> P (cs @ ds)" "\<forall>x. outcome \<noteq> Confirmed x"
  shows "\<exists>cs. reads cs w w' \<and> (\<forall>x. res = Confirmed x \<longrightarrow> matches x \<and> P cs)"
  using assms(1,4)
proof (induction delays arbitrary: outcome w)
  case (Cons delay delays)
  obtain r v where rd: "reader (w\<lparr>w_now := w_now w + delay\<rparr>) = (r, v)" by fastforce
  obtain cs where cs: "reads cs w v" "(\<exists>x. r = Inr x) \<longrightarrow> P cs"
    using assms(2) [OF rd] by (auto simp: reads_def)
  show ?case
  proof (cases "\<exists>x. r = Inr x \<and> matches x")
    case True
    with Cons.prems rd cs show ?thesis by auto
  next
    case False
    then obtain outcome' where o: "confirm reader matches delays outcome' v = (res, w')" "\<forall>x. outcome' \<noteq> Confirmed x"
      using Cons.prems rd by (auto split: sum.splits)
    from Cons.IH [OF o] obtain ds where "reads ds v w'" "\<forall>x. res = Confirmed x \<longrightarrow> matches x \<and> P ds" by blast
    with cs(1) assms(3) show ?thesis by (blast intro: reads_trans)
  qed
qed auto

section \<open>Verified writes\<close>

text \<open>The calls of a read that reached the resource list.\<close>

definition fresh_read :: "vendor_call list \<Rightarrow> bool" where
  "fresh_read cs \<longleftrightarrow> CallPage 0 \<in> set cs \<and> list_all (\<lambda>c. \<not> is_write c) cs"

text \<open>What a change of one control promises, on its calls and its result: with values \<open>want\<close> and \<open>expected\<close> on
  the camera \<open>sn\<close>, after the controls \<open>before\<close> were read.\<close>

definition verified_change :: "string \<Rightarrow> control_key \<Rightarrow> desired \<Rightarrow> desired \<Rightarrow> controls \<Rightarrow> vendor_call list
    \<Rightarrow> control_error + controls \<Rightarrow> bool" where
  "verified_change sn key want expected before cs res \<longleftrightarrow>
     (\<exists>pre post change undo.
        current before key = Some expected \<and> want \<noteq> expected
      \<and> vendor_write_of key want before = Inr change \<and> vendor_write_of key expected before = Inr undo
      \<and> fresh_read pre \<and> list_all (\<lambda>c. \<not> is_write c) post
      \<and> (case res of
           Inr after \<Rightarrow> current after key = Some want \<and> fresh_read post \<and> cs = pre @ CallWrite sn change # post
         | Inl e \<Rightarrow>
             (cs = pre @ [CallWrite sn change] \<and> e \<in> {CtlUpstream, CtlReauthRequired})
           \<or> (cs = pre @ CallWrite sn change # post \<and> e = CtlUnconfirmed)
           \<or> (cs = pre @ CallWrite sn change # post @ [CallWrite sn undo] \<and> e = CtlUnconfirmed)))"

lemma verified_changeI:
  assumes "current before key = Some expected" "want \<noteq> expected"
    "vendor_write_of key want before = Inr change" "vendor_write_of key expected before = Inr undo"
    "fresh_read pre" "list_all (\<lambda>c. \<not> is_write c) post"
    "case res of
       Inr after \<Rightarrow> current after key = Some want \<and> fresh_read post \<and> cs = pre @ CallWrite sn change # post
     | Inl e \<Rightarrow>
         (cs = pre @ [CallWrite sn change] \<and> e \<in> {CtlUpstream, CtlReauthRequired})
       \<or> (cs = pre @ CallWrite sn change # post \<and> e = CtlUnconfirmed)
       \<or> (cs = pre @ CallWrite sn change # post @ [CallWrite sn undo] \<and> e = CtlUnconfirmed)"
  shows "verified_change sn key want expected before cs res"
  unfolding verified_change_def using assms by blast

definition untouched :: "control_key \<Rightarrow> desired \<Rightarrow> desired \<Rightarrow> vendor_call list \<Rightarrow> control_error + controls \<Rightarrow> bool" where
  "untouched key want expected cs res \<longleftrightarrow>
     list_all (\<lambda>c. \<not> is_write c) cs \<and> res \<noteq> Inl CtlUnconfirmed
   \<and> (case res of Inr c \<Rightarrow> current c key = Some want \<and> want = expected \<and> fresh_read cs | Inl _ \<Rightarrow> True)"

lemma failed_cases: "failed category \<in> {CtlUpstream, CtlReauthRequired}"
  by (simp add: failed_def)

lemma vendor_write_error: "vendor_write_of key v c \<noteq> Inl CtlUnconfirmed"
  by (cases key; cases v) (auto split: option.splits)

lemma plan_write_cases:
  assumes "plan_write key want expected before = r"
  obtains e where "r = Inl e" "e \<noteq> CtlUnconfirmed"
  | "r = Inr None" "current before key = Some want" "want = expected"
  | change undo where "r = Inr (Some (change, undo))" "current before key = Some expected" "want \<noteq> expected"
      "vendor_write_of key want before = Inr change" "vendor_write_of key expected before = Inr undo"
  using assms vendor_write_error [of key want before] vendor_write_error [of key expected before]
  by (auto simp: plan_write_def try_bind_def ok_or_def split: option.splits sum.splits if_splits)

lemma send_calls:
  assumes "send env config wr w = (res, w')"
  shows "w_calls w' = w_calls w @ [CallWrite (serial config) wr]"
    "\<And>e. res = Inl e \<Longrightarrow> e \<in> {CtlUpstream, CtlReauthRequired}"
proof -
  obtain a v where c: "call env (CallWrite (serial config) wr) w = (a, v)" by fastforce
  with calls_call [of env "CallWrite (serial config) wr" w]
  have "w_calls v = w_calls w @ [CallWrite (serial config) wr]" by simp
  with assms c show "w_calls w' = w_calls w @ [CallWrite (serial config) wr]"
    by (auto simp: send_def split: sum.splits)
  show "\<And>e. res = Inl e \<Longrightarrow> e \<in> {CtlUpstream, CtlReauthRequired}"
    using assms c failed_cases by (auto simp: send_def ctl_upstream_def split: sum.splits)
qed

lemma read_controls_error: "read_controls env svc alias config refresh w = (Inl e, w') \<Longrightarrow> e \<in> {CtlUpstream, CtlReauthRequired}"
  using failed_cases
  by (auto simp: read_controls_def read_snapshot_def Let_def split: sum.splits prod.splits option.splits cell_read.splits)

text \<open>The part of \<open>update\<close> after the controls were read and a change was decided.\<close>

lemma change_verified:
  assumes reader_def: "reader = read_controls env svc alias config (if key = KeySensitivity then RefreshAll else RefreshStatus)"
    and plan: "current before key = Some expected" "want \<noteq> expected"
      "vendor_write_of key want before = Inr change" "vendor_write_of key expected before = Inr undo"
    and pre: "reads pre w w1" "fresh_read pre"
    and run: "(case send env config change w1 of
        (Inl e, w2) \<Rightarrow> (Inl e, w2)
      | (Inr _, w2) \<Rightarrow>
          (case confirm reader (\<lambda>after. current after key = Some want) VERIFY_DELAYS Unknown w2 of
             (Confirmed after, w3) \<Rightarrow> (Inr after, w3)
           | (Mismatch, w3) \<Rightarrow> (Inl CtlUnconfirmed, invalidate_all env (snd (send env config undo w3)))
           | (Unknown, w3) \<Rightarrow> (Inl CtlUnconfirmed, invalidate_all env w3))) = (res, w')"
  shows "\<exists>cs. w_calls w' = w_calls w @ cs \<and> verified_change (serial config) key want expected before cs res"
proof -
  have reader: "\<exists>cs. reads cs v v' \<and> ((\<exists>x. r = Inr x) \<longrightarrow> CallPage 0 \<in> set cs)" if "reader v = (r, v')" for v r v'
    using read_controls_reads [OF that [unfolded reader_def]] by (auto split: if_splits)
  obtain r2 w2 where send1: "send env config change w1 = (r2, w2)" by fastforce
  note sent = send_calls [OF send1]
  have calls2: "w_calls w2 = w_calls w @ pre @ [CallWrite (serial config) change]"
    using pre(1) sent(1) by (simp add: reads_def)
  show ?thesis
  proof (cases r2)
    case (Inl e)
    then have "res = Inl e" "w' = w2" using run send1 by auto
    then show ?thesis
      using calls2 sent(2) [OF Inl] verified_changeI [OF plan pre(2), of "[]"] by simp
  next
    case (Inr u)
    obtain o3 w3 where conf: "confirm reader (\<lambda>after. current after key = Some want) VERIFY_DELAYS Unknown w2 = (o3, w3)"
      by fastforce
    obtain post where post: "reads post w2 w3"
        "\<forall>x. o3 = Confirmed x \<longrightarrow> current x key = Some want \<and> CallPage 0 \<in> set post"
      using confirm_reads [OF conf, of "\<lambda>cs. CallPage 0 \<in> set cs"] reader by auto
    have calls3: "w_calls w3 = w_calls w @ pre @ CallWrite (serial config) change # post"
      and quiet: "list_all (\<lambda>c. \<not> is_write c) post"
      using post(1) calls2 by (simp_all add: reads_def)
    show ?thesis
    proof (cases o3)
      case (Confirmed after)
      then have "res = Inr after" "w' = w3" using run send1 Inr conf by auto
      then show ?thesis
        using calls3 quiet post(2) Confirmed verified_changeI [OF plan pre(2) quiet] by (simp add: fresh_read_def)
    next
      case Mismatch
      obtain r4 w4 where send2: "send env config undo w3 = (r4, w4)" by fastforce
      from Mismatch run send1 Inr conf send2 have "res = Inl CtlUnconfirmed" "w_calls w' = w_calls w4" by auto
      then show ?thesis
        using calls3 send_calls(1) [OF send2] verified_changeI [OF plan pre(2) quiet] by simp
    next
      case Unknown
      then have "res = Inl CtlUnconfirmed" "w_calls w' = w_calls w3" using run send1 Inr conf by auto
      then show ?thesis
        using calls3 verified_changeI [OF plan pre(2) quiet] by simp
    qed
  qed
qed


section \<open>PTZ steps\<close>

text \<open>The answer EZVIZ gave to the call at a position of the log.\<close>

definition accepted :: "ctl_env \<Rightarrow> ctl_world \<Rightarrow> nat \<Rightarrow> bool" where
  "accepted env w i \<longleftrightarrow> (\<exists>v. fst (env_answer env i (w_calls w ! i)) = Inr v)"

lemma call_answer:
  "call env c w = (res, w') \<Longrightarrow> res = fst (env_answer env (length (w_calls w)) c) \<and> w_calls w' = w_calls w @ [c]"
  by (auto simp: call_def Let_def split: prod.splits)

lemma isr_iff: "isl r = False \<longleftrightarrow> (\<exists>v. r = Inr v)"
  by (cases r) auto

lemma accepted_iff: "accepted env w i \<longleftrightarrow> \<not> isl (fst (env_answer env i (w_calls w ! i)))"
  using isr_iff unfolding accepted_def by blast

lemma ptz_cases:
  assumes "ptz env svc alias direction w = (res, w')"
  obtains (none) cs where "w_calls w' = w_calls w @ cs" "list_all (\<lambda>c. \<not> is_write c) cs" "isl res"
  | (step) pre sn w1 a2 w2 a3 w3 a4 w4 where "w_calls w1 = w_calls w @ pre" "list_all (\<lambda>c. \<not> is_write c) pre"
      "call env (CallPtz sn direction PtzStart) w1 = (a2, w2)" "call env (CallPtz sn direction PtzStop) w2 = (a3, w3)"
      "call env (CallPtz sn direction PtzStop) w3 = (a4, w4)" "w' = (if isl a3 then w4 else w3)"
      "isl res = (isl a2 \<or> isl a3 \<and> isl a4)"
proof (cases "try_bind (find_camera svc alias) (\<lambda>config. try_bind (find_source svc) (\<lambda>_. Inr config))")
  case (Inl e)
  with assms none [of "[]"] show ?thesis by (auto simp: ptz_def)
next
  case (Inr config)
  define w0 where "w0 = wait_lock env w"
  obtain r1 w1 where snap: "read_snapshot env svc False (w_now w0 + READ_DEADLINE) w0 = (r1, w1)" by fastforce
  obtain pre where pre: "w_calls w1 = w_calls w @ pre" "list_all (\<lambda>c. \<not> is_write c) pre"
    using read_snapshot_reads [OF snap] by (auto simp: reads_def w0_def)
  let ?cmd = "CallPtz (serial config) direction"
  obtain a2 w2 where c2: "call env (?cmd PtzStart) w1 = (a2, w2)" by fastforce
  obtain a3 w3 where c3: "call env (?cmd PtzStop) w2 = (a3, w3)" by fastforce
  obtain a4 w4 where c4: "call env (?cmd PtzStop) w3 = (a4, w4)" by fastforce
  consider "w' = w1" "isl res"
    | "res = (case try_bind a2 (\<lambda>_. if isl a3 then a4 else a3) of Inl e \<Rightarrow> Inl (ctl_upstream e) | Inr _ \<Rightarrow> Inr ())"
      "w' = (if isl a3 then w4 else w3)"
    using assms Inr snap c2 c3 c4
    by (auto simp: ptz_def Let_def w0_def [symmetric] split: sum.splits option.splits if_splits)
  then show ?thesis
  proof cases
    case 1
    with pre none show ?thesis by blast
  next
    case 2
    then have "isl res = (isl a2 \<or> isl a3 \<and> isl a4)" by (auto simp: try_bind_def split: sum.splits)
    then show ?thesis by (rule step [OF pre c2 c3 c4 2(2)])
  qed
qed

text \<open>C23. A PTZ step never leaves the camera turning for want of a command: either nothing is sent and an error is
  returned, or the one START is followed by a STOP, by a second STOP exactly when the first was not accepted,
  and by nothing else. The step is a success exactly when START and the last STOP were accepted.\<close>

theorem ptz_always_stopped:
  "case ptz env svc alias direction w of (res, w') \<Rightarrow>
     \<exists>cs. w_calls w' = w_calls w @ cs
       \<and> (list_all (\<lambda>c. \<not> is_write c) cs \<and> isl res
          \<or> (\<exists>pre sn stops. let at = length (w_calls w) + length pre in
               cs = pre @ CallPtz sn direction PtzStart # stops \<and> list_all (\<lambda>c. \<not> is_write c) pre
             \<and> stops = (if accepted env w' (Suc at) then [CallPtz sn direction PtzStop]
                        else [CallPtz sn direction PtzStop, CallPtz sn direction PtzStop])
             \<and> isl res = (\<not> (accepted env w' at \<and> accepted env w' (at + length stops)))))"
proof (cases "ptz env svc alias direction w")
  case (Pair res w')
  then show ?thesis
  proof (cases rule: ptz_cases)
    case (none cs)
    then show ?thesis unfolding Pair prod.case by blast
  next
    case (step pre sn w1 a2 w2 a3 w3 a4 w4)
    let ?cmd = "CallPtz sn direction"
    note ans = call_answer [OF step(3)] call_answer [OF step(4)] call_answer [OF step(5)]
    define stops where "stops = (if isl a3 then [?cmd PtzStop, ?cmd PtzStop] else [?cmd PtzStop])"
    define at where "at = length (w_calls w) + length pre"
    have calls: "w_calls w' = w_calls w @ pre @ ?cmd PtzStart # stops"
      using step(1,6) ans by (simp add: stops_def)
    have a: "accepted env w' at = (\<not> isl a2)" "accepted env w' (Suc at) = (\<not> isl a3)"
      "accepted env w' (at + length stops) = (\<not> (isl a3 \<and> isl a4))"
      unfolding accepted_iff calls using ans step(1) by (auto simp: at_def nth_append stops_def)
    then have "isl res = (\<not> (accepted env w' at \<and> accepted env w' (at + length stops)))" using step(7) by simp
    moreover have "stops = (if accepted env w' (Suc at) then [?cmd PtzStop] else [?cmd PtzStop, ?cmd PtzStop])"
      unfolding a by (simp add: stops_def)
    ultimately show ?thesis
      unfolding Pair prod.case Let_def using calls step(2) unfolding at_def by blast
  qed
qed

section \<open>The account defence mode\<close>

lemma read_defence_reads:
  assumes "read_defence env force w = (res, w')"
  shows "\<exists>cs. reads cs w w' \<and> (force \<longrightarrow> (\<exists>x. res = Inr x) \<longrightarrow> CallGroupMode \<in> set cs)"
proof -
  let ?fetch = "\<lambda>v. case call_by env (w_now w + READ_DEADLINE) CallGroupMode v of
      (Inl e, v') \<Rightarrow> (Inl e, v') | (Inr raw, v') \<Rightarrow> (Inr (parse_group_mode raw), v')"
  have fetch: "reads [CallGroupMode] v v'" if "?fetch v = (r, v')" for v r v'
    using that by (auto simp: reads_def dest!: calls_call_by split: prod.splits sum.splits)
  obtain r where g: "cell_get env defence_cell (\<lambda>c cs. cs\<lparr>defence_cell := c\<rparr>) force (w_now w + READ_DEADLINE) ?fetch w = (r, w')"
    and r: "\<And>x. res = Inr x \<Longrightarrow> \<forall>category. r \<noteq> CellFailed category"
    using assms by (auto simp: read_defence_def Let_def split: prod.splits cell_read.splits)
  have "\<exists>cs. reads cs w w'" using cell_get_reads [OF g] fetch by blast
  moreover have "reads [CallGroupMode] w w'" if "force" "res = Inr x" for x
    using cell_get_forced [OF g that(1)] r [OF that(2)] fetch by (auto simp: reads_def)
  ultimately show ?thesis by fastforce
qed

end
