(* ===== verification/Enrollment.thy ===== *)
theory Enrollment
  imports Ezviz_Session
begin

text \<open>
  Access: the bridge token (\<open>auth.rs\<close>), the enrolment calls to EZVIZ (\<open>transport/enroll_api.rs\<close>,
  \<open>transport/enroll.rs\<close>) and the enrolment offered over the API (\<open>enrollment.rs\<close>, the handlers of
  \<open>api_session.rs\<close>). MD5, base64, the JSON parser, the identifiers and the HTTP exchange are
  arguments: \<open>net i c\<close> is the answer to the \<open>i\<close>-th call. Every operation also returns the calls it sent.
\<close>

section \<open>The bridge token\<close>

record authenticator =
  auth_token :: bytes

definition new_authenticator :: "string \<Rightarrow> bridge_error + authenticator" where
  "new_authenticator tok =
     (if length tok < 32 \<or> to_ascii_lowercase tok \<in> {''change-me'', ''changeme'', ''password''}
      then Inl (Configuration ''bridge API token is missing, short, or a default'')
      else Inr \<lparr>auth_token = str_bytes tok\<rparr>)"

definition constant_time :: "bytes \<Rightarrow> bytes \<Rightarrow> bool" where
  "constant_time left right \<longleftrightarrow> length left = length right \<and> list_all2 (=) left right"

text \<open>The header is \<open>None\<close> when it is absent or not visible ASCII.\<close>

definition accepts :: "(string \<Rightarrow> bytes option) \<Rightarrow> authenticator \<Rightarrow> string option \<Rightarrow> bool \<Rightarrow> bool" where
  "accepts base64 auth header allow_basic =
     (case header of
        None \<Rightarrow> False
      | Some v \<Rightarrow>
          if starts_with v ''Bearer '' then constant_time (str_bytes (drop 7 v)) (auth_token auth)
          else if \<not> (starts_with v ''Basic '' \<and> allow_basic) then False
          else case base64 (drop 6 v) of
                 None \<Rightarrow> False
               | Some decoded \<Rightarrow>
                   if 58 \<notin> set decoded then False
                   else constant_time (takeWhile (\<lambda>b. b \<noteq> 58) decoded) (str_bytes ''homeassistant'')
                      \<and> constant_time (tl (dropWhile (\<lambda>b. b \<noteq> 58) decoded)) (auth_token auth))"

definition needs_session :: "string \<Rightarrow> bool" where
  "needs_session path \<longleftrightarrow> starts_with path ''/v1/'' \<and> \<not> starts_with path ''/v1/recordings''
     \<and> \<not> starts_with path ''/v1/enrollments''"

datatype gate = Pass | Unauthorized | Reauth

definition authenticate :: "(string \<Rightarrow> bytes option) \<Rightarrow> authenticator \<Rightarrow> bool \<Rightarrow> string \<Rightarrow> string option \<Rightarrow> gate" where
  "authenticate base64 auth reauth path header =
     (if path = ''/healthz'' then Pass
      else let generic_camera = (ends_with path ''/snapshot.jpg'' \<or> ends_with path ''/live.ts'')
           in if \<not> accepts base64 auth header generic_camera then Unauthorized
              else if reauth \<and> needs_session path then Reauth else Pass)"

lemma constant_time_eq [simp]: "constant_time a b \<longleftrightarrow> a = b"
  by (metis constant_time_def list_all2_eq)

section \<open>Hosts\<close>

definition MAX_REGION_REDIRECTS :: nat where "MAX_REGION_REDIRECTS = 2"
definition EZVIZ_DOMAIN :: string where "EZVIZ_DOMAIN = ''.ezvizlife.com''"
definition EZVIZ_DOMAINS :: "string list" where "EZVIZ_DOMAINS = [EZVIZ_DOMAIN, ''.ezvizru.com'']"

definition plain_char :: "char \<Rightarrow> bool" where
  "plain_char c \<longleftrightarrow> ascii_lower c \<or> ascii_digit c \<or> c \<in> set ''-.''"

definition normalize_region :: "string \<Rightarrow> bridge_error + string" where
  "normalize_region raw =
     (let v = trim raw;
          host = (if CHR ''.'' \<in> set v
                  then to_ascii_lowercase (trim_end_char CHR ''/'' (trim_start_str ''https://'' v))
                  else ''apii'' @ to_ascii_lowercase v @ EZVIZ_DOMAIN);
          label = (case find_map (\<lambda>d. strip_suffix d host) EZVIZ_DOMAINS of Some l \<Rightarrow> l | None \<Rightarrow> [])
      in if list_all plain_char host \<and> label \<noteq> [] \<and> \<not> starts_with label ''.'' \<and> \<not> str_contains label ''..''
         then Inr host else Inl (Upstream ''EZVIZ API domain is not an EZVIZ host''))"

text \<open>What it promises: a plain host name properly below a domain of EZVIZ.\<close>

definition ezviz_host :: "string \<Rightarrow> bool" where
  "ezviz_host h \<longleftrightarrow> list_all plain_char h
     \<and> (\<exists>label. label \<noteq> [] \<and> hd label \<noteq> CHR ''.'' \<and> (h = label @ ''.ezvizlife.com'' \<or> h = label @ ''.ezvizru.com''))"

lemma normalize_region_host:
  assumes "normalize_region raw = Inr h" shows "ezviz_host h"
proof -
  have "\<exists>label d. label \<noteq> [] \<and> \<not> starts_with label ''.'' \<and> d \<in> set EZVIZ_DOMAINS \<and> strip_suffix d h = Some label"
    "list_all plain_char h"
    using assms
    by (auto simp: normalize_region_def Let_def EZVIZ_DOMAINS_def split: if_splits option.splits)
  then show ?thesis
    by (auto simp: ezviz_host_def EZVIZ_DOMAINS_def EZVIZ_DOMAIN_def starts_with_def neq_Nil_conv dest!: strip_suffix_Some [THEN iffD1])
qed

section \<open>Calls to EZVIZ\<close>

datatype enroll_call =
    CallLogin string string string string "string option"
  | CallCheckcode string string
  | CallSystemInfo string string

fun call_host :: "enroll_call \<Rightarrow> string" where
  "call_host (CallLogin host _ _ _ _) = host"
| "call_host (CallCheckcode host _) = host"
| "call_host (CallSystemInfo host _) = host"

record enroll_net =
  net_answer :: "nat \<Rightarrow> enroll_call \<Rightarrow> bridge_error + response"
  net_json :: "bytes \<Rightarrow> json option"
  net_md5 :: "string \<Rightarrow> string"
  net_header_ok :: "string \<Rightarrow> bool"

datatype login_outcome = LoginToken ezviz_token | MfaRequired string
datatype login_attempt = AttemptDone login_outcome | AttemptRedirect string

definition login_error :: "string option \<Rightarrow> bridge_error" where
  "login_error mfa = (if mfa \<noteq> None then InvalidOtp else InvalidCredentials)"

definition json_path :: "json \<Rightarrow> string list \<Rightarrow> json option" where
  "json_path v path = foldl (\<lambda>cur key. Option.bind cur (\<lambda>c. json_get c key)) (Some v) path"

definition required :: "json \<Rightarrow> string list \<Rightarrow> bridge_error + string" where
  "required v path = ok_or (Option.bind (json_path v path) as_str) (Upstream ''EZVIZ login response is incomplete'')"

definition read_login :: "string \<Rightarrow> string \<Rightarrow> string option \<Rightarrow> json \<Rightarrow> bridge_error + login_attempt" where
  "read_login region feature mfa v =
     (let code = meta_code v in
      if code = Some 200
      then try_bind (required v [''loginSession'', ''sessionId'']) (\<lambda>sid.
           try_bind (required v [''loginSession'', ''rfSessionId'']) (\<lambda>rid.
           try_bind (required v [''loginUser'', ''username'']) (\<lambda>user.
           try_bind (try_bind (required v [''loginArea'', ''apiDomain'']) normalize_region) (\<lambda>url.
             Inr (AttemptDone (LoginToken \<lparr>session_id = sid, rf_session_id = rid, api_url = url, username = Some user,
               feature_code = Some feature, service_urls = None, token_extra = []\<rparr>))))))
      else if code = Some 6002 then Inr (AttemptDone (MfaRequired region))
      else if code = Some 1100
      then try_bind (required v [''loginArea'', ''apiDomain'']) (\<lambda>host. Inr (AttemptRedirect host))
      else Inl (login_error mfa))"

definition login_once :: "enroll_net \<Rightarrow> nat \<Rightarrow> string \<Rightarrow> string \<Rightarrow> string \<Rightarrow> string \<Rightarrow> string option
    \<Rightarrow> (bridge_error + login_attempt) \<times> enroll_call" where
  "login_once net i account password region feature mfa =
     (let c = CallLogin region account (net_md5 net password) feature mfa
      in (try_bind (net_answer net i c) (\<lambda>r.
            if \<not> is_success (rs_status r) then Inl (login_error mfa)
            else try_bind (read_json (net_json net) r True) (read_login region feature mfa)), c))"

fun login_from :: "enroll_net \<Rightarrow> string \<Rightarrow> string \<Rightarrow> string \<Rightarrow> string option \<Rightarrow> nat \<Rightarrow> nat \<Rightarrow> string
    \<Rightarrow> (bridge_error + login_outcome) \<times> enroll_call list" where
  "login_from net account password feature mfa 0 i region = (Inl (Upstream ''EZVIZ login redirected too many times''), [])"
| "login_from net account password feature mfa (Suc left) i region =
     (case login_once net i account password region feature mfa of
        (Inl e, c) \<Rightarrow> (Inl e, [c])
      | (Inr (AttemptDone outcome), c) \<Rightarrow> (Inr outcome, [c])
      | (Inr (AttemptRedirect host), c) \<Rightarrow>
          (case normalize_region host of
             Inl e \<Rightarrow> (Inl e, [c])
           | Inr region' \<Rightarrow>
               let (res, cs) = login_from net account password feature mfa left (Suc i) region' in (res, c # cs)))"

definition login :: "enroll_net \<Rightarrow> nat \<Rightarrow> string \<Rightarrow> string \<Rightarrow> string \<Rightarrow> string \<Rightarrow> string option
    \<Rightarrow> (bridge_error + login_outcome) \<times> enroll_call list" where
  "login net i account password region feature mfa =
     (case normalize_region region of
        Inl e \<Rightarrow> (Inl e, [])
      | Inr host \<Rightarrow> login_from net account password feature mfa (Suc MAX_REGION_REDIRECTS) i host)"

definition send_mfa :: "enroll_net \<Rightarrow> nat \<Rightarrow> string \<Rightarrow> string \<Rightarrow> (bridge_error + unit) \<times> enroll_call list" where
  "send_mfa net i account region =
     (case normalize_region region of
        Inl e \<Rightarrow> (Inl e, [])
      | Inr host \<Rightarrow>
          let c = CallCheckcode host account
          in (try_bind (net_answer net i c) (\<lambda>r.
                if rs_status r \<noteq> 200 then Inl InvalidCredentials
                else try_bind (read_json (net_json net) r True) (\<lambda>v.
                  if meta_code v \<noteq> Some 200 then Inl InvalidCredentials else Inr ())), [c]))"

definition fetch_service_urls :: "enroll_net \<Rightarrow> nat \<Rightarrow> ezviz_token \<Rightarrow> (bridge_error + json) \<times> enroll_call list" where
  "fetch_service_urls net i t =
     (if \<not> net_header_ok net (session_id t) then (Inl (Upstream ''EZVIZ session id is not a header''), [])
      else case normalize_region (api_url t) of
             Inl e \<Rightarrow> (Inl e, [])
           | Inr host \<Rightarrow>
               let c = CallSystemInfo host (session_id t)
               in (try_bind (net_answer net i c) (\<lambda>r.
                     try_bind (read_json (net_json net) r True) (\<lambda>v.
                       ok_or (json_get v ''systemConfigInfo'') (Upstream ''system info omitted service URLs''))), [c]))"

section \<open>Enrolling\<close>

record pending_enrollment =
  pe_account :: string
  pe_password :: string
  pe_region :: string
  pe_feature :: string

datatype enrollment_state = EnrollComplete | EnrollMfa pending_enrollment

text \<open>Persisting the token; the file changes by the outcome of the write.\<close>

definition persist_token :: "enroll_net \<Rightarrow> nat \<Rightarrow> ezviz_token \<Rightarrow> write_outcome \<Rightarrow> ezviz_token option
    \<Rightarrow> (bridge_error + unit) \<times> ezviz_token option \<times> enroll_call list" where
  "persist_token net i t outcome old =
     (case fetch_service_urls net i t of
        (Inl e, cs) \<Rightarrow> (Inl e, old, cs)
      | (Inr urls, cs) \<Rightarrow>
          let (res, new) = atomic_write_json outcome (t\<lparr>service_urls := Some urls\<rparr>) old in (res, new, cs))"

definition begin_enrollment :: "enroll_net \<Rightarrow> string \<Rightarrow> string \<Rightarrow> string \<Rightarrow> string \<Rightarrow> write_outcome \<Rightarrow> ezviz_token option
    \<Rightarrow> (bridge_error + enrollment_state) \<times> ezviz_token option \<times> enroll_call list" where
  "begin_enrollment net account password region feature outcome old =
     (case login net 0 account password region feature None of
        (Inl e, cs) \<Rightarrow> (Inl e, old, cs)
      | (Inr (LoginToken t), cs) \<Rightarrow>
          (case persist_token net (length cs) t outcome old of
             (Inl e, new, ds) \<Rightarrow> (Inl e, new, cs @ ds)
           | (Inr _, new, ds) \<Rightarrow> (Inr EnrollComplete, new, cs @ ds))
      | (Inr (MfaRequired actual), cs) \<Rightarrow>
          (case send_mfa net (length cs) account actual of
             (Inl e, ds) \<Rightarrow> (Inl e, old, cs @ ds)
           | (Inr _, ds) \<Rightarrow>
               (Inr (EnrollMfa \<lparr>pe_account = account, pe_password = password, pe_region = actual, pe_feature = feature\<rparr>),
                old, cs @ ds)))"

definition validate_code :: "string \<Rightarrow> bridge_error + unit" where
  "validate_code code = (if length code = 6 \<and> list_all ascii_digit code then Inr () else Inl InvalidOtp)"

definition complete_enrollment :: "enroll_net \<Rightarrow> pending_enrollment \<Rightarrow> string \<Rightarrow> write_outcome \<Rightarrow> ezviz_token option
    \<Rightarrow> (bridge_error + unit) \<times> ezviz_token option \<times> enroll_call list" where
  "complete_enrollment net p code outcome old =
     (case validate_code code of
        Inl e \<Rightarrow> (Inl e, old, [])
      | Inr _ \<Rightarrow>
          (case login net 0 (pe_account p) (pe_password p) (pe_region p) (pe_feature p) (Some code) of
             (Inl e, cs) \<Rightarrow> (Inl e, old, cs)
           | (Inr (MfaRequired _), cs) \<Rightarrow> (Inl InvalidOtp, old, cs)
           | (Inr (LoginToken t), cs) \<Rightarrow>
               (case persist_token net (length cs) t outcome old of
                  (res, new, ds) \<Rightarrow> (res, new, cs @ ds))))"

section \<open>Credentials stay with EZVIZ\<close>

lemma login_from_hosts:
  "ezviz_host region \<Longrightarrow> login_from net account password feature mfa left i region = (res, cs) \<Longrightarrow>
     list_all (\<lambda>c. ezviz_host (call_host c)) cs \<and> length cs \<le> left"
proof (induction left arbitrary: i region res cs)
  case (Suc left)
  obtain a c where once: "login_once net i account password region feature mfa = (a, c)" by fastforce
  have c: "call_host c = region" using once by (auto simp: login_once_def Let_def)
  show ?case
  proof (cases "\<exists>host region'. a = Inr (AttemptRedirect host) \<and> normalize_region host = Inr region'")
    case True
    then obtain host region' where n: "a = Inr (AttemptRedirect host)" "normalize_region host = Inr region'" by blast
    obtain r' cs' where rest: "login_from net account password feature mfa left (Suc i) region' = (r', cs')" by fastforce
    have "cs = c # cs'" using Suc.prems(2) once n rest by simp
    with Suc.IH [OF normalize_region_host [OF n(2)] rest] c Suc.prems(1) show ?thesis by simp
  next
    case False
    then have "cs = [c]"
      using Suc.prems(2) once by (auto split: sum.splits login_attempt.splits)
    with c Suc.prems(1) show ?thesis by simp
  qed
qed simp

lemma login_hosts:
  "login net i account password region feature mfa = (res, cs) \<Longrightarrow>
     list_all (\<lambda>c. ezviz_host (call_host c)) cs \<and> length cs \<le> Suc MAX_REGION_REDIRECTS"
  by (auto simp: login_def simp del: login_from.simps split: sum.splits dest: login_from_hosts [OF normalize_region_host])

lemma send_mfa_hosts:
  "send_mfa net i account region = (res, cs) \<Longrightarrow> list_all (\<lambda>c. ezviz_host (call_host c)) cs \<and> length cs \<le> 1"
  by (auto simp: send_mfa_def Let_def normalize_region_host split: sum.splits)

lemma persist_token_hosts:
  "persist_token net i t outcome old = (res, new, cs) \<Longrightarrow> list_all (\<lambda>c. ezviz_host (call_host c)) cs \<and> length cs \<le> 1"
  by (auto simp: persist_token_def fetch_service_urls_def Let_def normalize_region_host split: sum.splits if_splits prod.splits)

text \<open>C26. Enrolling sends the account, the password digest, the one-time code and the new session only to plain host names
  properly below the two domains of EZVIZ, in both phases, whatever region the caller or a redirect of the
  cloud names, and in at most four calls.\<close>

theorem credentials_stay_with_ezviz:
  "case begin_enrollment net account password region feature outcome old of (_, _, cs) \<Rightarrow>
     list_all (\<lambda>c. ezviz_host (call_host c)) cs \<and> length cs \<le> 4
   \<and> (case complete_enrollment net pending code outcome old of (_, _, ds) \<Rightarrow>
        list_all (\<lambda>c. ezviz_host (call_host c)) ds \<and> length ds \<le> 4)"
proof -
  have begun: "list_all (\<lambda>c. ezviz_host (call_host c)) cs \<and> length cs \<le> 4"
    if "begin_enrollment net account password region feature outcome old = (res, new, cs)" for res new cs
    using that unfolding begin_enrollment_def MAX_REGION_REDIRECTS_def
    by (fastforce dest: login_hosts send_mfa_hosts persist_token_hosts simp: MAX_REGION_REDIRECTS_def
        split: prod.splits sum.splits login_outcome.splits)
  have completed: "list_all (\<lambda>c. ezviz_host (call_host c)) cs \<and> length cs \<le> 4"
    if "complete_enrollment net pending code outcome old = (res, new, cs)" for res new cs
    using that unfolding complete_enrollment_def MAX_REGION_REDIRECTS_def
    by (fastforce dest: login_hosts persist_token_hosts simp: MAX_REGION_REDIRECTS_def
        split: prod.splits sum.splits login_outcome.splits)
  show ?thesis using begun completed by (auto split: prod.splits)
qed

section \<open>The enrolment manager\<close>

text \<open>Instants are milliseconds. \<open>parse_id\<close> reads an identifier in any of its spellings.\<close>

definition ENROLLMENT_TTL :: nat where "ENROLLMENT_TTL = 120 * 1000"
definition START_COOLDOWN :: nat where "START_COOLDOWN = 10 * 1000"

record enrollment_start =
  es_account :: string
  es_password :: string
  es_region :: string

record pending_login =
  pn_id :: nat
  pn_provider :: pending_enrollment
  pn_expires :: nat

record manager_state =
  m_pending :: "pending_login option"
  m_last_start :: "nat option"
  m_in_flight :: bool

definition manager_new :: manager_state where
  "manager_new = \<lparr>m_pending = None, m_last_start = None, m_in_flight = False\<rparr>"

definition validate_start :: "enrollment_start \<Rightarrow> bridge_error + unit" where
  "validate_start input =
     (if trim (es_account input) = [] \<or> length (es_password input) < 4 \<or> trim (es_region input) = []
         \<or> 128 < length (es_region input)
      then Inl InvalidCredentials else Inr ())"

definition expire :: "nat \<Rightarrow> manager_state \<Rightarrow> manager_state" where
  "expire now m =
     (case m_pending m of
        Some p \<Rightarrow> if pn_expires p \<le> now then m\<lparr>m_pending := None\<rparr> else m
      | None \<Rightarrow> m)"

text \<open>\<open>start\<close> up to the login, and from its outcome on.\<close>

definition start_begin :: "enrollment_start \<Rightarrow> nat \<Rightarrow> manager_state \<Rightarrow> (bridge_error + unit) \<times> manager_state" where
  "start_begin input now m =
     (case validate_start input of
        Inl e \<Rightarrow> (Inl e, m)
      | Inr _ \<Rightarrow>
          let m1 = expire now m in
          if m_pending m1 \<noteq> None \<or> m_in_flight m1 then (Inl EnrollmentBusy, m1)
          else if (case m_last_start m1 of Some t \<Rightarrow> now < t + START_COOLDOWN | None \<Rightarrow> False)
          then (Inl EnrollmentBusy, m1)
          else (Inr (), m1\<lparr>m_last_start := Some now, m_in_flight := True\<rparr>))"

record enrollment_started =
  sd_id :: nat
  sd_next_step :: string
  sd_expires_in :: nat

definition start_finish :: "nat \<Rightarrow> bridge_error + enrollment_state \<Rightarrow> nat \<Rightarrow> manager_state
    \<Rightarrow> (bridge_error + enrollment_started) \<times> manager_state \<times> bool" where
  "start_finish i outcome now m =
     (let m1 = m\<lparr>m_in_flight := False\<rparr> in
      case outcome of
        Inl e \<Rightarrow> (Inl e, m1, False)
      | Inr EnrollComplete \<Rightarrow> (Inr \<lparr>sd_id = i, sd_next_step = ''complete'', sd_expires_in = 0\<rparr>, m1, True)
      | Inr (EnrollMfa provider) \<Rightarrow>
          (Inr \<lparr>sd_id = i, sd_next_step = ''otp'', sd_expires_in = ENROLLMENT_TTL div 1000\<rparr>,
           m1\<lparr>m_pending := Some \<lparr>pn_id = i, pn_provider = provider, pn_expires = now + ENROLLMENT_TTL\<rparr>\<rparr>, False))"

text \<open>The pending login is taken before the code is tried; a wrong code ends it.\<close>

definition verify_take :: "(string \<Rightarrow> nat option) \<Rightarrow> string \<Rightarrow> nat \<Rightarrow> manager_state
    \<Rightarrow> (bridge_error + pending_login) \<times> manager_state" where
  "verify_take parse_id enrollment_id now m =
     (case parse_id enrollment_id of
        None \<Rightarrow> (Inl EnrollmentExpired, m)
      | Some i \<Rightarrow>
          let m1 = expire now m in
          (case m_pending m1 of
             None \<Rightarrow> (Inl EnrollmentExpired, m1)
           | Some p \<Rightarrow> if pn_id p = i then (Inr p, m1\<lparr>m_pending := None\<rparr>) else (Inl EnrollmentExpired, m1)))"

definition cancel_enrollment :: "(string \<Rightarrow> nat option) \<Rightarrow> string \<Rightarrow> manager_state \<Rightarrow> manager_state" where
  "cancel_enrollment parse_id enrollment_id m =
     (case parse_id enrollment_id of
        None \<Rightarrow> m
      | Some i \<Rightarrow>
          (case m_pending m of
             Some p \<Rightarrow> if pn_id p = i then m\<lparr>m_pending := None\<rparr> else m
           | None \<Rightarrow> m))"

text \<open>The requests as steps: the log holds the times at which a login was begun. A request whose client is gone is
  dropped at its await point (\<open>mgr_drop\<close>) and never runs the rest of \<open>start\<close>.\<close>

record manager_world =
  mw_state :: manager_state
  mw_logins :: "nat list"

inductive manager_step :: "(string \<Rightarrow> nat option) \<Rightarrow> manager_world \<Rightarrow> manager_world \<Rightarrow> bool" for parse_id where
  mgr_begin: "start_begin input now (mw_state w) = (res, m) \<Longrightarrow>
    manager_step parse_id w \<lparr>mw_state = m, mw_logins = mw_logins w @ (if res = Inr () then [now] else [])\<rparr>"
| mgr_finish: "m_in_flight (mw_state w) \<Longrightarrow> start_finish i outcome now (mw_state w) = (res, m, ready) \<Longrightarrow>
    manager_step parse_id w (w\<lparr>mw_state := m\<rparr>)"
| mgr_drop: "m_in_flight (mw_state w) \<Longrightarrow> manager_step parse_id w w"
| mgr_verify: "verify_take parse_id eid now (mw_state w) = (res, m) \<Longrightarrow>
    manager_step parse_id w (w\<lparr>mw_state := m\<rparr>)"
| mgr_cancel: "manager_step parse_id w (w\<lparr>mw_state := cancel_enrollment parse_id eid (mw_state w)\<rparr>)"

definition manager_inv :: "manager_world \<Rightarrow> bool" where
  "manager_inv w \<longleftrightarrow> sorted_wrt (\<lambda>a b. a + START_COOLDOWN \<le> b) (mw_logins w)
     \<and> (mw_logins w \<noteq> [] \<longrightarrow> m_last_start (mw_state w) = Some (last (mw_logins w)))
     \<and> (m_in_flight (mw_state w) \<longrightarrow> m_pending (mw_state w) = None)"

lemma expire_keeps [simp]:
  "m_last_start (expire now m) = m_last_start m" "m_in_flight (expire now m) = m_in_flight m"
  "m_pending m = None \<Longrightarrow> m_pending (expire now m) = None"
  by (auto simp: expire_def split: option.splits)

lemma starts_spaced_snoc:
  assumes "sorted_wrt (\<lambda>a b. a + k \<le> b) xs" "xs \<noteq> [] \<Longrightarrow> last xs + k \<le> t"
  shows "sorted_wrt (\<lambda>a b. a + k \<le> (b :: nat)) (xs @ [t])"
proof -
  have "a + k \<le> t" if "a \<in> set xs" for a
  proof (cases "a = last xs")
    case False
    then have "a \<in> set (butlast xs)" "xs \<noteq> []"
      using that by (metis append_butlast_last_id empty_iff list.set(1) rotate1.simps(2) set_ConsD set_rotate1, auto)
    moreover have "sorted_wrt (\<lambda>a b. a + k \<le> b) (butlast xs @ [last xs])" using assms(1) \<open>xs \<noteq> []\<close> by simp
    ultimately have "a + k \<le> last xs" unfolding sorted_wrt_append by auto
    with assms(2) \<open>xs \<noteq> []\<close> show ?thesis by simp
  next
    case True
    from that have "xs \<noteq> []" by auto
    with True assms(2) show ?thesis by simp
  qed
  with assms(1) show ?thesis by (simp add: sorted_wrt_append)
qed

lemma manager_inv_step: "manager_step parse_id w w' \<Longrightarrow> manager_inv w \<Longrightarrow> manager_inv w'"
proof (induction rule: manager_step.induct)
  case (mgr_begin input now w res m)
  show ?case
  proof (cases "res = Inr ()")
    case True
    then have "m_last_start m = Some now" "m_pending m = None"
        "mw_logins w \<noteq> [] \<Longrightarrow> last (mw_logins w) + START_COOLDOWN \<le> now"
      using mgr_begin by (auto simp: start_begin_def manager_inv_def Let_def split: sum.splits if_splits option.splits)
    with True mgr_begin(2) starts_spaced_snoc [of START_COOLDOWN "mw_logins w" now] show ?thesis by (simp add: manager_inv_def)
  next
    case False
    then have "m = mw_state w \<or> m = expire now (mw_state w)"
      using mgr_begin(1) by (auto simp: start_begin_def Let_def split: sum.splits if_splits option.splits)
    with False mgr_begin(2) show ?thesis by (auto simp: manager_inv_def)
  qed
next
  case (mgr_finish w i outcome now res m ready)
  then show ?case
    by (auto simp: manager_inv_def start_finish_def Let_def split: sum.splits enrollment_state.splits)
next
  case (mgr_verify eid now w res m)
  then show ?case
    by (auto simp: manager_inv_def verify_take_def Let_def split: option.splits if_splits)
next
  case (mgr_cancel w eid)
  then show ?case by (auto simp: manager_inv_def cancel_enrollment_def split: option.splits)
qed

interpretation manager_machine: invariant_machine "manager_step parse_id" manager_inv for parse_id
  by unfold_locales (rule manager_inv_step)

text \<open>Logins are begun at least ten seconds apart, one at a time, and never while a code is awaited.\<close>

lemma logins_spaced:
  assumes "(manager_step parse_id)\<^sup>*\<^sup>* \<lparr>mw_state = manager_new, mw_logins = []\<rparr> w"
  shows "sorted_wrt (\<lambda>a b. a + START_COOLDOWN \<le> b) (mw_logins w)"
proof -
  have "manager_inv w"
    by (rule manager_machine.invariant_run [OF assms]) (simp add: manager_inv_def manager_new_def)
  then show ?thesis by (simp add: manager_inv_def)
qed

text \<open>After a dropped start the manager answers busy to every later start: nothing but the end of that start
  clears the flag.\<close>

lemma dropped_start_blocks:
  assumes "m_in_flight m" "validate_start input = Inr u"
  shows "fst (start_begin input now m) = Inl EnrollmentBusy" "m_in_flight (snd (start_begin input now m))"
    "m_in_flight (snd (verify_take parse_id eid now m))" "m_in_flight (cancel_enrollment parse_id eid m)"
  using assms
  by (auto simp: start_begin_def verify_take_def cancel_enrollment_def Let_def split: option.splits)

end
