(* ===== verification/Ezviz_Api.thy ===== *)
theory Ezviz_Api
  imports Ezviz_Session Control_Service Sd_Records
begin

text \<open>
  The EZVIZ requests of the transport: headers and JSON readers (\<open>transport/http.rs\<close>), calls that carry the
  session (\<open>transport/authed.rs\<close>, \<open>transport/client.rs\<close>), the alarm feed (\<open>transport/alarms.rs\<close>), the device
  reads (\<open>transport/device_api.rs\<close>), the verification code (\<open>transport/cloud_key.rs\<close>) and the controls
  (\<open>transport/controls.rs\<close>, \<open>transport/control_http.rs\<close>).

  An operation runs in a world of the session and the requests sent so far. The outside is an \<open>api_env\<close>: the answer
  to the request with a number, what the other tasks did to the session before it, the refresh that an expired call
  starts, and the libraries. The URL of a request is \<open>wq_base\<close> followed by \<open>wq_path\<close>; a query and a form are lists
  of fields before URL encoding.
\<close>

section \<open>Requests\<close>

datatype http_method = GET | POST | PUT

record wire_request =
  wq_method :: http_method
  wq_base :: string
  wq_path :: string
  wq_headers :: "(string \<times> string) list"
  wq_query :: "(string \<times> string) list"
  wq_form :: "(string \<times> string) list option"

record api_env =
  ae_parse :: "bytes \<Rightarrow> json option"
  ae_scheme :: string
  ae_header_ok :: "string \<Rightarrow> bool"
  ae_send :: "nat \<Rightarrow> wire_request \<Rightarrow> bridge_error + response"
  ae_others :: "nat \<Rightarrow> session_store \<Rightarrow> session_store"
  ae_refresh :: "nat \<Rightarrow> nat \<times> (bridge_error + response) \<times> write_outcome \<times> nat"
  ae_uuid :: "nat \<Rightarrow> string"

record api_world =
  aw_store :: session_store
  aw_log :: "wire_request list"

definition mobile_headers :: "(string \<Rightarrow> bool) \<Rightarrow> string \<Rightarrow> (string \<times> string) list" where
  "mobile_headers header_ok feature = filter (\<lambda>(_, v). header_ok v)
     [(''featurecode'', feature), (''clienttype'', ''3''), (''nettype'', ''WIFI''), (''customno'', ''1000001''),
      (''clientno'', ''web_site''), (''appid'', ''ys7''), (''language'', ''en_GB''), (''lang'', ''en''),
      (''user-agent'', ''okhttp/3.12.1'')]"

definition feature_of :: "ezviz_token \<Rightarrow> string" where
  "feature_of t = (case feature_code t of Some f \<Rightarrow> f | None \<Rightarrow> [])"

definition request :: "api_env \<Rightarrow> http_method \<Rightarrow> string \<Rightarrow> string \<Rightarrow> ezviz_token \<Rightarrow> wire_request" where
  "request env m base path t = \<lparr>wq_method = m, wq_base = base, wq_path = path,
     wq_headers = mobile_headers (ae_header_ok env) (feature_of t)
       @ (if ae_header_ok env (session_id t) then [(''sessionid'', session_id t)] else []),
     wq_query = [], wq_form = None\<rparr>"

definition api_base :: "api_env \<Rightarrow> ezviz_token \<Rightarrow> string" where
  "api_base env t = ae_scheme env @ ''://'' @ api_url t"

definition refresh_at :: "api_env \<Rightarrow> nat \<Rightarrow> u64 \<Rightarrow> session_store \<Rightarrow> (bridge_error + unit) \<times> session_store" where
  "refresh_at env n generation s =
     (let (now, answer, outcome, later) = ae_refresh env n;
          (res, s', _) = refresh_session (ae_parse env) generation now answer outcome later s
      in (res, s'))"

text \<open>\<open>build\<close> adds the query or the form of the call; it sees the token of the attempt.\<close>

type_synonym builder = "ezviz_token \<Rightarrow> wire_request \<Rightarrow> wire_request"

definition built :: "api_env \<Rightarrow> http_method \<Rightarrow> string \<Rightarrow> builder \<Rightarrow> ezviz_token \<Rightarrow> wire_request" where
  "built env m path build t = build t (request env m (api_base env t) path t)"

definition authed_call :: "api_env \<Rightarrow> http_method \<Rightarrow> string \<Rightarrow> builder \<Rightarrow> api_world \<Rightarrow> (bridge_error + reply) \<times> api_world" where
  "authed_call env m path build w =
     (let n = length (aw_log w);
          (res, s, ts) = authed (ae_parse env) (\<lambda>i. ae_others env (n + i)) (\<lambda>i t. ae_send env (n + i) (built env m path build t))
            (refresh_at env n) (aw_store w)
      in (res, w\<lparr>aw_store := s, aw_log := aw_log w @ map (built env m path build) ts\<rparr>))"

definition with_query :: "(string \<times> string) list \<Rightarrow> builder" where
  "with_query q t r = r\<lparr>wq_query := q\<rparr>"

definition with_form :: "(ezviz_token \<Rightarrow> (string \<times> string) list) \<Rightarrow> builder" where
  "with_form f t r = r\<lparr>wq_form := Some (f t)\<rparr>"

definition and_then :: "(bridge_error + 'a) \<times> 'w \<Rightarrow> ('a \<Rightarrow> bridge_error + 'b) \<Rightarrow> (bridge_error + 'b) \<times> 'w" where
  "and_then x f = (try_bind (fst x) f, snd x)"

definition http_status :: "string \<Rightarrow> reply \<Rightarrow> bridge_error + json" where
  "http_status api r =
     (if is_success (reply_status r) then Inr (reply_value r)
      else Inl (Upstream (''EZVIZ '' @ api @ '' returned HTTP '' @ show_nat (reply_status r))))"

definition api_json :: "api_env \<Rightarrow> http_method \<Rightarrow> string \<Rightarrow> (string \<times> string) list \<Rightarrow> api_world \<Rightarrow> (bridge_error + json) \<times> api_world" where
  "api_json env m path query w = and_then (authed_call env m path (with_query query) w) (http_status ''API'')"

definition message_json :: "api_env \<Rightarrow> string \<Rightarrow> (string \<times> string) list \<Rightarrow> api_world \<Rightarrow> (bridge_error + json) \<times> api_world" where
  "message_json env path query w =
     and_then (authed_call env GET path (with_query query) w) (\<lambda>r.
       try_bind (http_status ''message API'' r) (\<lambda>v.
         case meta_code v of
           None \<Rightarrow> Inr v
         | Some code \<Rightarrow> if code = 200 then Inr v
                        else Inl (Upstream (''EZVIZ message API returned code '' @ show_int code))))"

definition success_code :: "json option \<Rightarrow> bool" where
  "success_code v = (case v of Some x \<Rightarrow> as_i64 x = Some 0 \<or> as_str x = Some ''0'' | None \<Rightarrow> False)"

section \<open>Alarms and device reads\<close>

definition SUMMARY_PATH :: string where "SUMMARY_PATH = ''/v3/unifiedmsg/summarybydevice/v2''"
definition LIST_PATH :: string where "LIST_PATH = ''/v3/unifiedmsg/list/v2''"
definition ALARM_STYPE :: string where "ALARM_STYPE = ''92''"
definition PAGE_LIMIT :: string where "PAGE_LIMIT = ''20''"

definition alarm_summary :: "api_env \<Rightarrow> api_world \<Rightarrow> (bridge_error + json) \<times> api_world" where
  "alarm_summary env w = message_json env SUMMARY_PATH [(''stype'', ALARM_STYPE)] w"

definition alarm_list :: "api_env \<Rightarrow> string \<Rightarrow> string \<Rightarrow> string \<Rightarrow> api_world \<Rightarrow> (bridge_error + json) \<times> api_world" where
  "alarm_list env sn date end_time w = message_json env LIST_PATH
     [(''serials'', sn), (''stype'', ALARM_STYPE), (''limit'', PAGE_LIMIT), (''date'', date), (''endTime'', end_time)] w"

definition STORAGE_PATH :: string where "STORAGE_PATH = ''/api/device/queryStorageStatus''"
definition V2_RECORDS_PATH :: string where "V2_RECORDS_PATH = ''/v3/streaming/v2/records''"
definition COMMON_RECORDS_PATH :: string where "COMMON_RECORDS_PATH = ''/v3/streaming/common/records''"

definition storage_status :: "api_env \<Rightarrow> camera_config \<Rightarrow> api_world \<Rightarrow> (bridge_error + json) \<times> api_world" where
  "storage_status env camera w =
     and_then (authed_call env POST STORAGE_PATH (with_form (\<lambda>t. [(''subSerial'', serial camera), (''clientType'', ''3''),
         (''netType'', ''WIFI''), (''featureCode'', feature_of t), (''sessionId'', session_id t)])) w)
       (http_status ''storage API'')"

definition record_page :: "api_env \<Rightarrow> camera_config \<Rightarrow> record_query \<Rightarrow> api_world \<Rightarrow> (bridge_error + json) \<times> api_world" where
  "record_page env camera query w =
     (let params = [(''deviceSerial'', serial camera), (''channelNo'', show_nat (channel camera)),
            (''startTime'', q_start query), (''stopTime'', q_stop query), (''size'', show_nat (q_size query))]
      in case q_version query of
           V2 \<Rightarrow> message_json env V2_RECORDS_PATH (params @ [(''sortBy'', ''0''), (''requireLabel'', ''0'')]) w
         | Common \<Rightarrow> message_json env COMMON_RECORDS_PATH
             (params @ [(''channelSerial'', serial camera), (''recordType'', ''-1''), (''version'', ''1'')]) w)"

section \<open>The verification code\<close>

definition ENCRYPT_KEY_PATH :: string where "ENCRYPT_KEY_PATH = ''/api/device/query/encryptkey''"

definition request_camera_key :: "api_env \<Rightarrow> string \<Rightarrow> api_world \<Rightarrow> (bridge_error + string) \<times> api_world" where
  "request_camera_key env sn w =
     and_then (authed_call env POST ENCRYPT_KEY_PATH (with_form (\<lambda>t. [(''checkcode'', []), (''serial'', sn),
         (''clientNo'', ''web_site''), (''clientType'', ''3''), (''netType'', ''WIFI''), (''featureCode'', feature_of t),
         (''sessionId'', session_id t)])) w) (\<lambda>r.
       if \<not> is_success (reply_status r) \<or> \<not> success_code (json_get (reply_value r) ''resultCode'')
       then Inl (Upstream ''camera verification code request was refused'')
       else required_string (reply_value r) ''encryptkey'')"

section \<open>Controls\<close>

datatype call_body = EmptyBody | FormBody "(string \<times> string) list" | LegacyBody "(string \<times> string) list"

definition legacy_fields :: "ezviz_token \<Rightarrow> (string \<times> string) list \<Rightarrow> (string \<times> string) list" where
  "legacy_fields t fs = fs @ [(''clientType'', ''3''), (''netType'', ''WIFI''), (''featureCode'', feature_of t),
     (''sessionId'', session_id t)]"

fun with_body :: "call_body \<Rightarrow> builder" where
  "with_body EmptyBody t r = r"
| "with_body (FormBody fs) t r = r\<lparr>wq_form := Some fs\<rparr>"
| "with_body (LegacyBody fs) t r = r\<lparr>wq_form := Some (legacy_fields t fs)\<rparr>"

definition control_json :: "api_env \<Rightarrow> http_method \<Rightarrow> string \<Rightarrow> string option \<Rightarrow> call_body \<Rightarrow> api_world
    \<Rightarrow> (bridge_error + json) \<times> api_world" where
  "control_json env m path query body w =
     (let target = (case query of None \<Rightarrow> path | Some q \<Rightarrow> path @ ''?'' @ q)
      in and_then (authed_call env m target (with_body body) w) (http_status ''control API''))"

definition require_meta_ok :: "json \<Rightarrow> bridge_error + unit" where
  "require_meta_ok v = (if meta_code v = Some 200 then Inr () else Inl (Upstream ''EZVIZ refused the control request''))"

definition require_result_ok :: "json \<Rightarrow> bridge_error + unit" where
  "require_result_ok v =
     (if success_code (json_get v ''resultCode'') then Inr () else Inl (Upstream ''EZVIZ refused the control request''))"

definition encode_char :: "char \<Rightarrow> string" where
  "encode_char c = (if c = char_of (34 :: nat) then ''%22'' else if c = CHR '' '' then ''%20'' else [c])"

definition key_value_query :: "string \<Rightarrow> string \<Rightarrow> string" where
  "key_value_query key v = ''key='' @ key @ ''&value='' @ concat (map encode_char v)"

definition PAGELIST_PATH :: string where "PAGELIST_PATH = ''/v3/userdevices/v1/resources/pagelist''"
definition CONTROL_FILTER :: string where "CONTROL_FILTER = ''STATUS,SWITCH,TIME_PLAN,UPGRADE''"
definition GROUP_MODE_PATH :: string where "GROUP_MODE_PATH = ''/v3/userdevices/v1/group/defenceMode''"
definition SWITCH_MODE_PATH :: string where "SWITCH_MODE_PATH = ''/v3/userdevices/v1/group/switchDefenceMode''"
definition ALGORITHM_GET_PATH :: string where "ALGORITHM_GET_PATH = ''/api/device/queryAlgorithmConfig''"
definition ALGORITHM_SET_PATH :: string where "ALGORITHM_SET_PATH = ''/api/device/configAlgorithm''"
definition PTZ_SPEED :: string where "PTZ_SPEED = ''5''"
definition CAMERA_TIMEOUT :: int where "CAMERA_TIMEOUT = 504"

definition bit_text :: "bool \<Rightarrow> string" where
  "bit_text b = (if b then ''1'' else ''0'')"

definition control_page :: "api_env \<Rightarrow> nat \<Rightarrow> nat \<Rightarrow> api_world \<Rightarrow> (bridge_error + json) \<times> api_world" where
  "control_page env offset limit w = message_json env PAGELIST_PATH
     [(''groupId'', ''-1''), (''limit'', show_nat limit), (''offset'', show_nat offset), (''filter'', CONTROL_FILTER)] w"

definition algorithm_config :: "api_env \<Rightarrow> camera_config \<Rightarrow> api_world \<Rightarrow> (bridge_error + json) \<times> api_world" where
  "algorithm_config env camera w =
     and_then (control_json env POST ALGORITHM_GET_PATH None (LegacyBody [(''subSerial'', serial camera)]) w)
       (\<lambda>v. try_bind (require_result_ok v) (\<lambda>_. Inr v))"

definition group_defence_mode :: "api_env \<Rightarrow> api_world \<Rightarrow> (bridge_error + json) \<times> api_world" where
  "group_defence_mode env w = message_json env GROUP_MODE_PATH [(''groupId'', ''-1'')] w"

definition set_group_defence_mode :: "api_env \<Rightarrow> nat \<Rightarrow> api_world \<Rightarrow> (bridge_error + unit) \<times> api_world" where
  "set_group_defence_mode env mode w =
     and_then (control_json env POST SWITCH_MODE_PATH None (FormBody [(''groupId'', ''-1''), (''mode'', show_nat mode)]) w)
       require_meta_ok"

definition defence_path :: "camera_config \<Rightarrow> string" where
  "defence_path camera = ''/v3/devices/'' @ serial camera @ ''/'' @ show_nat (channel camera) @ ''/changeDefenceStatusReq''"

text \<open>At most two attempts: the second one only when the camera did not answer the first.\<close>

fun defence_attempts :: "api_env \<Rightarrow> camera_config \<Rightarrow> bool \<Rightarrow> nat \<Rightarrow> json \<Rightarrow> api_world \<Rightarrow> (bridge_error + json) \<times> api_world" where
  "defence_attempts env camera enable 0 v w = (Inr v, w)"
| "defence_attempts env camera enable (Suc left) v w =
     (case control_json env PUT (defence_path camera) None
             (FormBody [(''type'', ''Global''), (''status'', bit_text enable), (''actor'', ''V'')]) w of
        (Inl e, w') \<Rightarrow> (Inl e, w')
      | (Inr v', w') \<Rightarrow>
          if meta_code v' \<noteq> Some CAMERA_TIMEOUT then (Inr v', w')
          else defence_attempts env camera enable left v' w')"

definition set_defence :: "api_env \<Rightarrow> camera_config \<Rightarrow> bool \<Rightarrow> api_world \<Rightarrow> (bridge_error + unit) \<times> api_world" where
  "set_defence env camera enable w = and_then (defence_attempts env camera enable 2 JNull w) require_meta_ok"

definition switch_path :: "camera_config \<Rightarrow> nat \<Rightarrow> bool \<Rightarrow> string" where
  "switch_path camera kind enable =
     ''/v3/devices/'' @ serial camera @ ''/0/'' @ bit_text enable @ ''/'' @ show_nat kind @ ''/switchStatus''"

definition mode_path :: "camera_config \<Rightarrow> string" where
  "mode_path camera = ''/v3/devconfig/v1/keyValue/'' @ serial camera @ ''/1/op''"

definition mode_query :: "nat \<Rightarrow> string" where
  "mode_query code = key_value_query ''Alarm_DetectHumanCar''
     (''{'' @ [char_of (34 :: nat)] @ ''type'' @ [char_of (34 :: nat)] @ '':'' @ show_nat code @ ''}'')"

fun write_control :: "api_env \<Rightarrow> camera_config \<Rightarrow> vendor_write \<Rightarrow> api_world \<Rightarrow> (bridge_error + unit) \<times> api_world" where
  "write_control env camera (WriteSwitch kind enable) w =
     and_then (control_json env PUT (switch_path camera kind enable) None EmptyBody w) require_meta_ok"
| "write_control env camera (WriteDefence enable) w = set_defence env camera enable w"
| "write_control env camera (WriteDetectionMode code) w =
     and_then (control_json env PUT (mode_path camera) (Some (mode_query code)) EmptyBody w) require_meta_ok"
| "write_control env camera (WriteSensitivity kind v) w =
     and_then (control_json env POST ALGORITHM_SET_PATH None (LegacyBody [(''subSerial'', serial camera),
         (''type'', show_nat kind), (''channelNo'', show_nat (channel camera)), (''value'', show_int v)]) w)
       require_result_ok"

definition ptz_path :: "camera_config \<Rightarrow> string" where
  "ptz_path camera = ''/v3/devices/'' @ serial camera @ ''/ptzControl''"

definition ptz_control :: "api_env \<Rightarrow> camera_config \<Rightarrow> ptz_direction \<Rightarrow> ptz_action \<Rightarrow> api_world
    \<Rightarrow> (bridge_error + unit) \<times> api_world" where
  "ptz_control env camera direction action w =
     and_then (control_json env PUT (ptz_path camera) None (FormBody [(''command'', ptz_command direction),
         (''action'', ptz_action_str action), (''channelNo'', show_nat (channel camera)), (''speed'', PTZ_SPEED),
         (''uuid'', ae_uuid env (length (aw_log w))), (''serial'', serial camera)]) w)
       require_meta_ok"

text \<open>The calls of the control service, as this transport carries them out for one camera.\<close>

definition done_json :: "(bridge_error + unit) \<times> api_world \<Rightarrow> (bridge_error + json) \<times> api_world" where
  "done_json x = and_then x (\<lambda>_. Inr JNull)"

fun perform :: "api_env \<Rightarrow> camera_config \<Rightarrow> vendor_call \<Rightarrow> api_world \<Rightarrow> (bridge_error + json) \<times> api_world" where
  "perform env camera (CallPage offset) w = control_page env offset PAGE_SIZE w"
| "perform env camera (CallAlgorithm _) w = algorithm_config env camera w"
| "perform env camera CallGroupMode w = group_defence_mode env w"
| "perform env camera (CallWrite _ wr) w = done_json (write_control env camera wr w)"
| "perform env camera (CallSetGroupMode mode) w = done_json (set_group_defence_mode env mode w)"
| "perform env camera (CallPtz _ direction action) w = done_json (ptz_control env camera direction action w)"

section \<open>What a call sends\<close>

text \<open>A request made with a token goes to the API host of that token and carries no other session.\<close>

definition own_session :: "api_env \<Rightarrow> wire_request \<Rightarrow> bool" where
  "own_session env r \<longleftrightarrow> (\<exists>t. wq_base r = api_base env t
     \<and> (\<forall>v. (''sessionid'', v) \<in> set (wq_headers r) \<longrightarrow> v = session_id t)
     \<and> (case wq_form r of None \<Rightarrow> True | Some f \<Rightarrow> \<forall>v. (''sessionId'', v) \<in> set f \<longrightarrow> v = session_id t))"

definition sends :: "api_env \<Rightarrow> (string \<Rightarrow> bool) \<Rightarrow> nat \<Rightarrow> api_world \<Rightarrow> api_world \<Rightarrow> bool" where
  "sends env target limit w w' \<longleftrightarrow> (\<exists>rs. aw_log w' = aw_log w @ rs \<and> length rs \<le> limit
     \<and> list_all (\<lambda>r. target (wq_path r) \<and> own_session env r) rs)"

definition fair_builder :: "builder \<Rightarrow> bool" where
  "fair_builder build \<longleftrightarrow> (\<forall>t r. wq_form r = None \<longrightarrow> (wq_base (build t r) = wq_base r \<and> wq_path (build t r) = wq_path r
     \<and> wq_headers (build t r) = wq_headers r
     \<and> (case wq_form (build t r) of None \<Rightarrow> True | Some f \<Rightarrow> \<forall>v. (''sessionId'', v) \<in> set f \<longrightarrow> v = session_id t)))"

lemma fair_with_query: "fair_builder (with_query q)"
  by (simp add: fair_builder_def with_query_def)

lemma mobile_headers_session: "(''sessionid'', v) \<notin> set (mobile_headers ok f)"
  by (simp add: mobile_headers_def)

lemma built_own_session:
  assumes "fair_builder build"
  shows "own_session env (built env m path build t) \<and> wq_path (built env m path build t) = path"
proof -
  let ?r = "request env m (api_base env t) path t"
  have "wq_form ?r = None" by (simp add: request_def)
  then have f: "wq_base (build t ?r) = wq_base ?r" "wq_path (build t ?r) = wq_path ?r" "wq_headers (build t ?r) = wq_headers ?r"
    "case wq_form (build t ?r) of None \<Rightarrow> True | Some f \<Rightarrow> \<forall>v. (''sessionId'', v) \<in> set f \<longrightarrow> v = session_id t"
    using assms [unfolded fair_builder_def, rule_format, of ?r t] by blast+
  have h: "\<forall>v. (''sessionid'', v) \<in> set (wq_headers ?r) \<longrightarrow> v = session_id t"
    by (simp add: request_def mobile_headers_session)
  have "wq_base ?r = api_base env t" "wq_path ?r = path" by (simp_all add: request_def)
  with f h have "wq_base (build t ?r) = api_base env t" "wq_path (build t ?r) = path"
    "\<forall>v. (''sessionid'', v) \<in> set (wq_headers (build t ?r)) \<longrightarrow> v = session_id t" by simp_all
  with f(4) show ?thesis unfolding own_session_def built_def by blast
qed

lemma authed_call_sends:
  assumes "fair_builder build" "authed_call env m path build w = (res, w')"
  shows "sends env (\<lambda>p. p = path) 2 w w'"
proof -
  obtain r s ts where a: "authed (ae_parse env) (\<lambda>i. ae_others env (length (aw_log w) + i))
      (\<lambda>i t. ae_send env (length (aw_log w) + i) (built env m path build t)) (refresh_at env (length (aw_log w))) (aw_store w) = (r, s, ts)"
    by (metis prod_cases3)
  then have "length ts \<le> 2" using authed_bounds(1) by (metis snd_conv)
  then show ?thesis
    using assms(2) a built_own_session [OF assms(1)]
    by (auto simp: authed_call_def sends_def list_all_iff)
qed

lemma authed_call_asks: "aw_log (snd (authed_call env m path build w)) \<noteq> aw_log w"
proof -
  let ?a = "authed (ae_parse env) (\<lambda>i. ae_others env (length (aw_log w) + i))
      (\<lambda>i t. ae_send env (length (aw_log w) + i) (built env m path build t)) (refresh_at env (length (aw_log w))) (aw_store w)"
  have "snd (snd ?a) \<noteq> []" unfolding authed_def numeral_2_eq_2 by (rule authed_from_asks)
  then show ?thesis by (auto simp: authed_call_def Let_def split: prod.splits)
qed

lemma sends_mono: "sends env p n w w' \<Longrightarrow> (\<And>x. p x \<Longrightarrow> q x) \<Longrightarrow> n \<le> m \<Longrightarrow> sends env q m w w'"
  unfolding sends_def by (fastforce simp: list_all_iff)

lemma sends_trans: "sends env p n w w' \<Longrightarrow> sends env p m w' w'' \<Longrightarrow> sends env p (n + m) w w''"
  unfolding sends_def by (fastforce simp: list_all_iff)

lemma sends_nothing: "sends env p n w w"
  by (simp add: sends_def)

lemma message_json_sends: "sends env (\<lambda>p. p = path) 2 w (snd (message_json env path query w))"
proof -
  obtain res w' where c: "authed_call env GET path (with_query query) w = (res, w')" by fastforce
  show ?thesis using authed_call_sends [OF fair_with_query c] by (simp add: message_json_def and_then_def c)
qed

lemma api_json_sends: "sends env (\<lambda>p. p = path) 2 w (snd (api_json env m path query w))"
proof -
  obtain res w' where c: "authed_call env m path (with_query query) w = (res, w')" by fastforce
  show ?thesis using authed_call_sends [OF fair_with_query c] by (simp add: api_json_def and_then_def c)
qed

lemma api_json_asks: "aw_log (snd (api_json env m path query w)) \<noteq> aw_log w"
  by (simp add: api_json_def and_then_def authed_call_asks)

fun body_fields :: "call_body \<Rightarrow> (string \<times> string) list" where
  "body_fields EmptyBody = []"
| "body_fields (FormBody fs) = fs"
| "body_fields (LegacyBody fs) = fs"

lemma fair_with_body: "''sessionId'' \<notin> fst ` set (body_fields b) \<Longrightarrow> fair_builder (with_body b)"
  by (cases b) (force simp: fair_builder_def legacy_fields_def)+

lemma control_json_sends:
  assumes "''sessionId'' \<notin> fst ` set (body_fields b)"
  shows "sends env (\<lambda>p. p = (case q of None \<Rightarrow> path | Some q \<Rightarrow> path @ ''?'' @ q)) 2 w (snd (control_json env m path q b w))"
proof -
  obtain res w' where c: "authed_call env m (case q of None \<Rightarrow> path | Some q \<Rightarrow> path @ ''?'' @ q) (with_body b) w = (res, w')"
    by fastforce
  show ?thesis using authed_call_sends [OF fair_with_body [OF assms] c] by (simp add: control_json_def and_then_def c)
qed

text \<open>The endpoints of the controls of a camera.\<close>

definition control_targets :: "camera_config \<Rightarrow> vendor_call \<Rightarrow> string set" where
  "control_targets camera c = (case c of
     CallPage _ \<Rightarrow> {PAGELIST_PATH}
   | CallAlgorithm _ \<Rightarrow> {ALGORITHM_GET_PATH}
   | CallGroupMode \<Rightarrow> {GROUP_MODE_PATH}
   | CallWrite _ (WriteSwitch kind enable) \<Rightarrow> {switch_path camera kind enable}
   | CallWrite _ (WriteDefence enable) \<Rightarrow> {defence_path camera}
   | CallWrite _ (WriteDetectionMode code) \<Rightarrow> {mode_path camera @ ''?'' @ mode_query code}
   | CallWrite _ (WriteSensitivity kind v) \<Rightarrow> {ALGORITHM_SET_PATH}
   | CallSetGroupMode _ \<Rightarrow> {SWITCH_MODE_PATH}
   | CallPtz _ _ _ \<Rightarrow> {ptz_path camera})"

lemma defence_attempts_sends:
  "sends env (\<lambda>p. p = defence_path camera) (2 * left) w (snd (defence_attempts env camera enable left v w))"
proof (induction env camera enable left v w rule: defence_attempts.induct)
  case (2 env camera enable left v w)
  obtain res w' where c: "control_json env PUT (defence_path camera) None
      (FormBody [(''type'', ''Global''), (''status'', bit_text enable), (''actor'', ''V'')]) w = (res, w')" by fastforce
  have one: "sends env (\<lambda>p. p = defence_path camera) 2 w w'"
    using control_json_sends [where b = "FormBody [(''type'', ''Global''), (''status'', bit_text enable), (''actor'', ''V'')]"
        and env = env and q = None and path = "defence_path camera" and w = w and m = PUT] by (simp add: c)
  show ?case
  proof (cases "\<exists>v'. res = Inr v' \<and> meta_code v' = Some CAMERA_TIMEOUT")
    case True
    then obtain v' where v': "res = Inr v'" "meta_code v' = Some CAMERA_TIMEOUT" by blast
    have "sends env (\<lambda>p. p = defence_path camera) (2 * left) w' (snd (defence_attempts env camera enable left v' w'))"
      using 2 c v' by simp
    from sends_trans [OF one this] c v' show ?thesis by simp
  next
    case False
    then show ?thesis using sends_mono [OF one, of _ "2 * Suc left"] c by (auto split: sum.splits)
  qed
qed (simp add: sends_nothing)

lemma snd_and_then [simp]: "snd (and_then x f) = snd x"
  by (simp add: and_then_def)

lemma snd_done_json [simp]: "snd (done_json x) = snd x"
  by (simp add: done_json_def)

lemma write_control_sends:
  "sends env (\<lambda>p. p \<in> control_targets camera (CallWrite sn wr)) 4 w (snd (write_control env camera wr w))"
proof (cases wr)
  case (WriteSwitch kind enable)
  then show ?thesis
    using control_json_sends [where b = EmptyBody
        and env = env and q = None and path = "switch_path camera kind enable" and w = w and m = PUT]
    by (auto simp: control_targets_def elim!: sends_mono)
next
  case (WriteDefence enable)
  then show ?thesis
    using defence_attempts_sends [of env camera 2 w enable JNull] by (simp add: control_targets_def set_defence_def)
next
  case (WriteDetectionMode code)
  then show ?thesis
    using control_json_sends [where b = EmptyBody
        and env = env and q = "Some (mode_query code)" and path = "mode_path camera" and w = w and m = PUT]
    by (auto simp: control_targets_def elim!: sends_mono)
next
  case (WriteSensitivity kind v)
  then show ?thesis
    using control_json_sends [where b = "LegacyBody [(''subSerial'', serial camera), (''type'', show_nat kind),
        (''channelNo'', show_nat (channel camera)), (''value'', show_int v)]"
        and env = env and q = None and path = ALGORITHM_SET_PATH and w = w and m = POST]
    by (auto simp: control_targets_def elim!: sends_mono)
qed

lemma perform_sends: "sends env (\<lambda>p. p \<in> control_targets camera c) 4 w (snd (perform env camera c w))"
proof (cases c)
  case (CallPage offset)
  then show ?thesis
    by (auto simp: control_targets_def control_page_def intro: sends_mono [OF message_json_sends])
next
  case (CallAlgorithm sn)
  then show ?thesis
    using control_json_sends [where b = "LegacyBody [(''subSerial'', serial camera)]"
        and env = env and q = None and path = ALGORITHM_GET_PATH and w = w and m = POST]
    by (auto simp: control_targets_def algorithm_config_def elim!: sends_mono)
next
  case CallGroupMode
  then show ?thesis
    by (auto simp: control_targets_def group_defence_mode_def intro: sends_mono [OF message_json_sends])
next
  case (CallWrite sn wr)
  then show ?thesis using write_control_sends by simp
next
  case (CallSetGroupMode mode)
  then show ?thesis
    using control_json_sends [where b = "FormBody [(''groupId'', ''-1''), (''mode'', show_nat mode)]"
        and env = env and q = None and path = SWITCH_MODE_PATH and w = w and m = POST]
    by (auto simp: control_targets_def set_group_defence_mode_def elim!: sends_mono)
next
  case (CallPtz sn direction action)
  then show ?thesis
    using control_json_sends [where b = "FormBody [(''command'', ptz_command direction), (''action'', ptz_action_str action),
        (''channelNo'', show_nat (channel camera)), (''speed'', PTZ_SPEED), (''uuid'', ae_uuid env (length (aw_log w))),
        (''serial'', serial camera)]"
        and env = env and q = None and path = "ptz_path camera" and w = w and m = PUT]
    by (auto simp: control_targets_def ptz_control_def elim!: sends_mono)
qed

lemma control_target_not_key: "p \<in> control_targets camera c \<Longrightarrow> p \<noteq> ENCRYPT_KEY_PATH"
  by (auto simp: control_targets_def ENCRYPT_KEY_PATH_def PAGELIST_PATH_def ALGORITHM_GET_PATH_def ALGORITHM_SET_PATH_def
      GROUP_MODE_PATH_def SWITCH_MODE_PATH_def switch_path_def defence_path_def mode_path_def ptz_path_def
      split: vendor_call.splits vendor_write.splits)


end
