(* ===== verification/Vtm_Session.thy ===== *)
theory Vtm_Session
  imports Vtm_Protobuf Rtp_Ts Ordered_Map
begin

text \<open>
  The relay session (\<open>vtm/session.rs\<close>) and the stream URLs (\<open>vtm/address.rs\<close>): opening with redirects, the
  keepalives, the media deadline and the choice of the payloads, then the pass-through of a clear stream
  (\<open>transport/client_stream.rs\<close>).

  The relay is an argument: what each read and each write gives and how long it takes, and when the
  session is cancelled. Instants are nanoseconds; the session carries the clock, the numbers of its reads and
  writes and the packets it has sent. URL parsing and form encoding are arguments too.
\<close>

section \<open>Addresses\<close>

record vtm_url_request =
  ur_host :: string
  ur_port :: nat
  ur_serial :: string
  ur_channel :: nat
  ur_substream :: bool
  ur_biz_url :: string
  ur_token :: string
  ur_timestamp_ms :: int

record url_lib =
  form_parse :: "string \<Rightarrow> (string \<times> string) list"
  form_serialize :: "(string \<times> string) list \<Rightarrow> string"
  is_ipv6 :: "string \<Rightarrow> bool"
  url_parts :: "string \<Rightarrow> (string \<times> string option \<times> nat option) option"

definition host_text :: "url_lib \<Rightarrow> string \<Rightarrow> string" where
  "host_text lib v = (if is_ipv6 lib v then ''['' @ v @ '']'' else v)"

definition biz_query :: "string \<Rightarrow> string" where
  "biz_query u =
     (if CHR ''?'' \<in> set u then tl (dropWhile (\<lambda>c. c \<noteq> CHR ''?'') u) else dropWhile (\<lambda>c. c = CHR ''?'') u)"

definition query_params :: "url_lib \<Rightarrow> vtm_url_request \<Rightarrow> (string \<times> string) list \<Rightarrow> string" where
  "query_params lib req own =
     form_serialize lib (fold (\<lambda>(k, v). bt_insert k v) own
       (bt_collect (form_parse lib (biz_query (ur_biz_url req)))))"

definition build_vtm_url :: "url_lib \<Rightarrow> vtm_url_request \<Rightarrow> string" where
  "build_vtm_url lib req =
     (let params = query_params lib req
            [(''dev'', ur_serial req), (''chn'', show_nat (ur_channel req)),
             (''stream'', if ur_substream req then ''2'' else ''1''), (''cln'', ''9''), (''isp'', ''0''),
             (''auth'', ''1''), (''ssn'', ur_token req), (''vip'', ''0''),
             (''timestamp'', show_int (ur_timestamp_ms req))]
      in ''ysproto://'' @ host_text lib (ur_host req) @ '':'' @ show_nat (ur_port req) @ ''/live?'' @ params)"

definition build_vtm_playback_url :: "url_lib \<Rightarrow> vtm_url_request \<Rightarrow> string \<Rightarrow> string \<Rightarrow> string" where
  "build_vtm_playback_url lib req begin_at end_at =
     (let params = query_params lib req
            [(''dev'', ur_serial req), (''chn'', show_nat (ur_channel req)), (''stream'', ''1''),
             (''begin'', begin_at), (''end'', end_at), (''serial'', ur_serial req), (''cln'', ''3''),
             (''isp'', ''0''), (''auth'', ''1''), (''ssn'', ur_token req),
             (''rnd'', show_int (ur_timestamp_ms req mod 2 ^ 31)),
             (''timestamp'', show_int (ur_timestamp_ms req)), (''etp'', ''1'')]
      in ''ysproto://'' @ host_text lib (ur_host req) @ '':'' @ show_nat (ur_port req) @ ''/playback?'' @ params)"

definition endpoint :: "url_lib \<Rightarrow> string \<Rightarrow> bridge_error + string \<times> nat" where
  "endpoint lib u =
     (case url_parts lib u of
        None \<Rightarrow> Inl (Upstream ''invalid VTM URL'')
      | Some (scheme, host, port) \<Rightarrow>
          if scheme \<noteq> ''ysproto'' then Inl (Upstream ''invalid VTM URL scheme'')
          else try_bind (ok_or host (Upstream ''VTM URL omitted host'')) (\<lambda>h.
               try_bind (ok_or port (Upstream ''VTM URL omitted port'')) (\<lambda>p. Inr (h, p))))"

section \<open>Reading and writing packets\<close>

record relay =
  rl_read :: "nat \<Rightarrow> nat \<Rightarrow> (io_error_kind + bytes) \<times> nat"
  rl_write :: "nat \<Rightarrow> bytes \<Rightarrow> (io_error_kind + unit) \<times> nat"
  rl_cancel :: "nat option"

record vtm_session =
  v_url :: string
  v_sequence :: u16
  v_info :: stream_info
  v_timeout :: nat
  v_last_keepalive :: nat
  v_last_media :: nat
  v_playback :: bool
  v_media_seen :: bool
  v_now :: nat
  v_reads :: nat
  v_writes :: nat
  v_sent :: "bytes list"

text \<open>\<open>timeout(limit, operation)\<close> with the result of the operation and the time it takes.\<close>

definition timed :: "string \<Rightarrow> (io_error_kind + 'a) \<times> nat \<Rightarrow> vtm_session \<Rightarrow> (bridge_error + 'a) \<times> vtm_session" where
  "timed message outcome s =
     (if v_timeout s < snd outcome then (Inl (Upstream message), s\<lparr>v_now := v_now s + v_timeout s\<rparr>)
      else (case fst outcome of Inl k \<Rightarrow> Inl (Io k) | Inr v \<Rightarrow> Inr v, s\<lparr>v_now := v_now s + snd outcome\<rparr>))"

definition vtm_send :: "relay \<Rightarrow> u8 \<Rightarrow> u16 \<Rightarrow> bytes \<Rightarrow> vtm_session \<Rightarrow> (bridge_error + unit) \<times> vtm_session" where
  "vtm_send r chan code bdy s =
     (case encode_packet bdy chan (v_sequence s) code of
        Inl e \<Rightarrow> (Inl e, s)
      | Inr pkt \<Rightarrow>
          timed ''VTM write timed out'' (rl_write r (v_writes s) pkt)
            (s\<lparr>v_sequence := v_sequence s + 1, v_writes := Suc (v_writes s), v_sent := v_sent s @ [pkt]\<rparr>))"

definition read_bytes :: "relay \<Rightarrow> string \<Rightarrow> nat \<Rightarrow> vtm_session \<Rightarrow> (bridge_error + bytes) \<times> vtm_session" where
  "read_bytes r message n s = timed message (rl_read r (v_reads s) n) (s\<lparr>v_reads := Suc (v_reads s)\<rparr>)"

definition read_packet :: "relay \<Rightarrow> vtm_session \<Rightarrow> (bridge_error + vtm_packet) \<times> vtm_session" where
  "read_packet r s =
     (case read_bytes r ''VTM read timed out'' HEADER_SIZE s of
        (Inl e, s1) \<Rightarrow> (Inl e, s1)
      | (Inr header, s1) \<Rightarrow>
          (case decode_header header of
             Inl e \<Rightarrow> (Inl e, s1)
           | Inr (chan, len, sq, code) \<Rightarrow>
               (case read_bytes r ''VTM body read timed out'' len s1 of
                  (Inl e, s2) \<Rightarrow> (Inl e, s2)
                | (Inr bdy, s2) \<Rightarrow> (Inr \<lparr>channel = chan, sequence = sq, message_code = code, body = bdy\<rparr>, s2))))"

definition keepalive :: "relay \<Rightarrow> u16 \<Rightarrow> vtm_session \<Rightarrow> (bridge_error + unit) \<times> vtm_session" where
  "keepalive r code s =
     (case stream_session (v_info s) of
        None \<Rightarrow> (Inl (Upstream ''VTM keepalive has no stream session''), s)
      | Some session \<Rightarrow> vtm_send r CHANNEL_MESSAGE code (build_keepalive session) s)"

definition finished_playback :: "vtm_session \<Rightarrow> io_error_kind \<Rightarrow> bool" where
  "finished_playback s kind \<longleftrightarrow>
     v_playback s \<and> v_media_seen s \<and> kind \<in> {UnexpectedEof, ConnectionReset, BrokenPipe}"

section \<open>Opening\<close>

fun await_stream_info :: "relay \<Rightarrow> nat \<Rightarrow> vtm_session \<Rightarrow> (bridge_error + unit) \<times> vtm_session" where
  "await_stream_info r 0 s = (Inl (Upstream ''timed out waiting for VTM stream info''), s)"
| "await_stream_info r (Suc left) s =
     (case read_packet r s of
        (Inl e, s1) \<Rightarrow> (Inl e, s1)
      | (Inr p, s1) \<Rightarrow>
          if message_code p = STREAM_INFO_RESPONSE
          then (case parse_stream_info (body p) of
                  Inl e \<Rightarrow> (Inl e, s1)
                | Inr info \<Rightarrow> (Inr (), s1\<lparr>v_info := info\<rparr>))
          else await_stream_info r left s1)"

definition vtm_start :: "relay \<Rightarrow> string option \<Rightarrow> vtm_session \<Rightarrow> (bridge_error + unit) \<times> vtm_session" where
  "vtm_start r key s =
     (let request = (if v_playback s then build_playback_stream_info (v_url s) key else build_stream_info (v_url s) key)
      in case vtm_send r CHANNEL_MESSAGE STREAM_INFO_REQUEST request s of
           (Inl e, s1) \<Rightarrow> (Inl e, s1)
         | (Inr _, s1) \<Rightarrow> await_stream_info r 20 s1)"

definition new_session :: "string \<Rightarrow> nat \<Rightarrow> bool \<Rightarrow> nat \<Rightarrow> vtm_session" where
  "new_session u limit playback now = \<lparr>v_url = u, v_sequence = 0, v_info = stream_info_default, v_timeout = limit,
     v_last_keepalive = now, v_last_media = now, v_playback = playback, v_media_seen = False, v_now = now,
     v_reads = 0, v_writes = 0, v_sent = []\<rparr>"

text \<open>What the answer to the stream request means: an error, the next relay with its key, or the stream.\<close>

datatype start_answer = Accepted | Redirect string string | Rejected bridge_error

definition read_answer :: "bool \<Rightarrow> stream_info \<Rightarrow> start_answer" where
  "read_answer playback info =
     (case result info of
        None \<Rightarrow> Accepted
      | Some code \<Rightarrow>
          if code = 0 then Accepted
          else if code = 5404 \<or> code = 5405 then Rejected CameraOffline
          else if code = 5402 \<and> playback then Rejected SdNoRecording
          else (case redirect_url info of
                  None \<Rightarrow> Rejected (Upstream (''VTM stream request was rejected with result '' @ show_nat (unat code)))
                | Some u \<Rightarrow>
                    (case redirect_key info of
                       None \<Rightarrow> Rejected (Upstream ''VTM redirect omitted its key'')
                     | Some key \<Rightarrow> Redirect u key)))"

text \<open>\<open>connect i\<close> is the outcome of the \<open>i\<close>-th connection with the time it takes. The number of connections is
  returned too.\<close>

fun vtm_open_from :: "url_lib \<Rightarrow> (nat \<Rightarrow> string \<times> nat \<Rightarrow> (io_error_kind + relay) \<times> nat) \<Rightarrow> nat \<Rightarrow> bool \<Rightarrow> nat \<Rightarrow> nat \<Rightarrow> string
    \<Rightarrow> string option \<Rightarrow> nat \<Rightarrow> (bridge_error + relay \<times> vtm_session) \<times> nat" where
  "vtm_open_from lib connect limit playback 0 i u key now = (Inl (Upstream ''too many VTM redirects''), i)"
| "vtm_open_from lib connect limit playback (Suc left) i u key now =
     (case endpoint lib u of
        Inl e \<Rightarrow> (Inl e, i)
      | Inr address \<Rightarrow>
          let (outcome, taken) = connect i address in
          if limit < taken then (Inl (Upstream ''VTM connection timed out''), Suc i)
          else (case outcome of
                  Inl k \<Rightarrow> (Inl (Io k), Suc i)
                | Inr r \<Rightarrow>
                    (case vtm_start r key (new_session u limit playback (now + taken)) of
                       (Inl e, s) \<Rightarrow> (Inl e, Suc i)
                     | (Inr _, s) \<Rightarrow>
                         (case read_answer playback (v_info s) of
                            Accepted \<Rightarrow> (Inr (r, s\<lparr>v_last_media := v_now s\<rparr>), Suc i)
                          | Rejected e \<Rightarrow> (Inl e, Suc i)
                          | Redirect u' key' \<Rightarrow>
                              vtm_open_from lib connect limit playback left (Suc i) u' (Some key') (v_now s)))))"

definition vtm_open :: "url_lib \<Rightarrow> (nat \<Rightarrow> string \<times> nat \<Rightarrow> (io_error_kind + relay) \<times> nat) \<Rightarrow> string \<Rightarrow> nat \<Rightarrow> bool \<Rightarrow> nat
    \<Rightarrow> (bridge_error + relay \<times> vtm_session) \<times> nat" where
  "vtm_open lib connect u limit playback now = vtm_open_from lib connect limit playback 4 0 u None now"

section \<open>Payloads\<close>

datatype wait_result = WaitCancelled | WaitNoMedia | WaitRead "bridge_error + vtm_packet"

definition cancelled :: "relay \<Rightarrow> nat \<Rightarrow> bool" where
  "cancelled r t = (case rl_cancel r of Some c \<Rightarrow> c \<le> t | None \<Rightarrow> False)"

text \<open>The biased choice between the cancellation, the media deadline and the next packet.\<close>

definition wait_packet :: "relay \<Rightarrow> vtm_session \<Rightarrow> wait_result \<times> vtm_session" where
  "wait_packet r s =
     (let deadline = max (v_now s) (v_last_media s + v_timeout s); (res, s1) = read_packet r s
      in if cancelled r (min deadline (v_now s1))
         then (WaitCancelled, s\<lparr>v_now := max (v_now s) (case rl_cancel r of Some c \<Rightarrow> c | None \<Rightarrow> 0)\<rparr>)
         else if deadline \<le> v_now s1 then (WaitNoMedia, s\<lparr>v_now := deadline\<rparr>)
         else (WaitRead res, s1))"

text \<open>The keepalive before a wait: \<open>Inr False\<close> when a playback relay has closed.\<close>

definition beat :: "relay \<Rightarrow> vtm_session \<Rightarrow> (bridge_error + bool) \<times> vtm_session" where
  "beat r s =
     (if 5 * 10 ^ 9 \<le> v_now s - v_last_keepalive s
      then (case keepalive r KEEPALIVE_REQUEST s of
              (Inr _, s1) \<Rightarrow> (Inr True, s1\<lparr>v_last_keepalive := v_now s1\<rparr>)
            | (Inl e, s1) \<Rightarrow>
                (case e of Io k \<Rightarrow> if finished_playback s1 k then (Inr False, s1) else (Inl e, s1) | _ \<Rightarrow> (Inl e, s1)))
      else (Inr True, s))"

datatype step_result = Return "bridge_error + bytes option" | Again

definition take_packet :: "relay \<Rightarrow> bool \<Rightarrow> vtm_packet \<Rightarrow> vtm_session \<Rightarrow> step_result \<times> vtm_session" where
  "take_packet r allow_encrypted p s =
     (if message_code p = KEEPALIVE_REQUEST
      then (case keepalive r KEEPALIVE_RESPONSE s of
              (Inl e, s1) \<Rightarrow> (Return (Inl e), s1)
            | (Inr _, s1) \<Rightarrow> (Again, s1\<lparr>v_last_keepalive := v_now s1\<rparr>))
      else if channel p = CHANNEL_STREAM \<or> channel p = CHANNEL_STREAM_ALT
              \<or> allow_encrypted \<and> channel p = CHANNEL_ENCRYPTED_STREAM
      then (Return (Inr (Some (body p))),
            if body p \<noteq> [] then s\<lparr>v_last_media := v_now s, v_media_seen := True\<rparr> else s)
      else if encrypted p then (Return (Inl (Upstream ''encrypted VTM control packet is unsupported'')), s)
      else (Again, s))"

definition take_wait :: "relay \<Rightarrow> bool \<Rightarrow> wait_result \<Rightarrow> vtm_session \<Rightarrow> step_result \<times> vtm_session" where
  "take_wait r allow_encrypted wr s =
     (case wr of
        WaitCancelled \<Rightarrow> (Return (Inr None), s)
      | WaitNoMedia \<Rightarrow> (Return (if v_playback s \<and> v_media_seen s then Inr None else Inl CameraOffline), s)
      | WaitRead (Inl e) \<Rightarrow>
          (Return (case e of Io k \<Rightarrow> if finished_playback s k then Inr None else Inl e | _ \<Rightarrow> Inl e), s)
      | WaitRead (Inr p) \<Rightarrow> take_packet r allow_encrypted p s)"

text \<open>One turn of the loop.\<close>

definition payload_step :: "relay \<Rightarrow> bool \<Rightarrow> vtm_session \<Rightarrow> step_result \<times> vtm_session" where
  "payload_step r allow_encrypted s =
     (if cancelled r (v_now s) then (Return (Inr None), s)
      else case beat r s of
             (Inl e, s1) \<Rightarrow> (Return (Inl e), s1)
           | (Inr alive, s1) \<Rightarrow>
               if \<not> alive then (Return (Inr None), s1)
               else (case wait_packet r s1 of (wr, s2) \<Rightarrow> take_wait r allow_encrypted wr s2))"

text \<open>The fuel bounds the turns.\<close>

fun next_payload :: "relay \<Rightarrow> bool \<Rightarrow> nat \<Rightarrow> vtm_session \<Rightarrow> ((bridge_error + bytes option) \<times> vtm_session) option" where
  "next_payload r allow_encrypted 0 s = None"
| "next_payload r allow_encrypted (Suc fuel) s =
     (case payload_step r allow_encrypted s of
        (Return res, s1) \<Rightarrow> Some (res, s1)
      | (Again, s1) \<Rightarrow> next_payload r allow_encrypted fuel s1)"

section \<open>The clear stream\<close>

fun copy_payloads :: "(bytes list \<Rightarrow> bytes \<Rightarrow> bool) \<Rightarrow> session_item list \<Rightarrow> bytes list \<Rightarrow> bytes list \<times> (bridge_error + unit)" where
  "copy_payloads accepts [] sent = (sent, Inr ())"
| "copy_payloads accepts (EndOfStream # is) sent = (sent, Inr ())"
| "copy_payloads accepts (Failed e # is) sent = (sent, Inl e)"
| "copy_payloads accepts (Payload p # is) sent =
     (if p = [] then copy_payloads accepts is sent
      else if accepts sent p then copy_payloads accepts is (sent @ [p]) else (sent @ [p], Inr ()))"

fun copy_clear :: "block_cipher \<Rightarrow> (bytes list \<Rightarrow> bytes \<Rightarrow> bool) \<Rightarrow> bool \<Rightarrow> session_item list \<Rightarrow> bytes list \<times> (bridge_error + unit)" where
  "copy_clear dec accepts stopped [] = ([], Inr ())"
| "copy_clear dec accepts stopped (EndOfStream # is) = ([], Inr ())"
| "copy_clear dec accepts stopped (Failed e # is) = ([], Inl e)"
| "copy_clear dec accepts stopped (Payload p # is) =
     (if p = [] then copy_clear dec accepts stopped is
      else if is_rtp p then copy_as_mpeg_ts dec accepts stopped (Some p) is rv_clear
      else if \<not> accepts [] p then ([p], Inr ())
      else copy_payloads accepts is [p])"

section \<open>Time passes\<close>

text \<open>What reads and writes leave alone.\<close>

definition steady :: "vtm_session \<Rightarrow> vtm_session \<Rightarrow> bool" where
  "steady s s' \<longleftrightarrow> v_last_media s' = v_last_media s \<and> v_timeout s' = v_timeout s \<and> v_playback s' = v_playback s
     \<and> v_media_seen s' = v_media_seen s \<and> v_info s' = v_info s \<and> v_last_keepalive s' = v_last_keepalive s"

lemma steady_refl [simp]: "steady s s"
  by (simp add: steady_def)

lemma steady_trans: "steady a b \<Longrightarrow> steady b c \<Longrightarrow> steady a c"
  by (simp add: steady_def)

lemma steady_now [simp]: "steady s (s\<lparr>v_now := t\<rparr>)"
  by (simp add: steady_def)

lemma timed_steady:
  "timed message outcome s = (res, s') \<Longrightarrow>
     steady s s' \<and> v_now s \<le> v_now s' \<and> v_now s' \<le> v_now s + v_timeout s"
  by (auto simp: timed_def steady_def split: if_splits)

lemma timed_taken: "timed message outcome s = (Inr v, s') \<Longrightarrow> v_now s' = v_now s + snd outcome"
  by (auto simp: timed_def split: if_splits)

lemma send_steady:
  "vtm_send r chan code bdy s = (res, s') \<Longrightarrow>
     steady s s' \<and> v_now s \<le> v_now s' \<and> v_now s' \<le> v_now s + v_timeout s"
  by (auto simp: vtm_send_def steady_def split: sum.splits dest!: timed_steady)

lemma keepalive_steady:
  "keepalive r code s = (res, s') \<Longrightarrow>
     steady s s' \<and> v_now s \<le> v_now s' \<and> v_now s' \<le> v_now s + v_timeout s"
  by (auto simp: keepalive_def dest: send_steady split: option.splits)

lemma read_bytes_steady: "read_bytes r message n s = (res, s') \<Longrightarrow> steady s s' \<and> v_now s \<le> v_now s'"
  by (auto simp: read_bytes_def steady_def dest!: timed_steady)

lemma read_packet_steady: "read_packet r s = (res, s') \<Longrightarrow> steady s s' \<and> v_now s \<le> v_now s'"
  by (auto simp: read_packet_def split: sum.splits prod.splits dest!: read_bytes_steady intro: steady_trans)

lemma read_packet_takes_time:
  assumes "read_packet r s = (Inr p, s')" "\<And>i n. 0 < snd (rl_read r i n)"
  shows "v_now s < v_now s'"
proof -
  obtain h s1 where one: "read_bytes r ''VTM read timed out'' HEADER_SIZE s = (Inr h, s1)"
    using assms(1) by (auto simp: read_packet_def split: sum.splits prod.splits)
  obtain n b where two: "read_bytes r ''VTM body read timed out'' n s1 = (Inr b, s')"
    using assms(1) one by (auto simp: read_packet_def split: sum.splits prod.splits)
  have "v_now s < v_now s1" using one assms(2) by (auto simp: read_bytes_def dest!: timed_taken)
  with read_bytes_steady [OF two] show ?thesis by simp
qed

section \<open>A payload or an end in time\<close>

definition media_deadline :: "vtm_session \<Rightarrow> nat" where
  "media_deadline s = v_last_media s + v_timeout s"

text \<open>Between two turns: before the deadline, or right after an answered keepalive.\<close>

definition on_time :: "vtm_session \<Rightarrow> bool" where
  "on_time s \<longleftrightarrow> v_now s \<le> media_deadline s
     \<or> v_now s \<le> media_deadline s + v_timeout s \<and> v_last_keepalive s = v_now s"

lemma beat_steady:
  assumes "beat r s = (res, s')" "on_time s"
  shows "v_now s \<le> v_now s' \<and> v_now s' \<le> media_deadline s + v_timeout s \<and> v_last_media s' = v_last_media s
    \<and> v_timeout s' = v_timeout s"
proof (cases "5 * 10 ^ 9 \<le> v_now s - v_last_keepalive s")
  case True
  obtain a s1 where k: "keepalive r KEEPALIVE_REQUEST s = (a, s1)" by fastforce
  have early: "v_now s \<le> media_deadline s" using True assms(2) by (auto simp: on_time_def)
  have "s' = s1 \<or> s' = s1\<lparr>v_last_keepalive := v_now s1\<rparr>"
    using assms(1) True k by (auto simp: beat_def split: sum.splits bridge_error.splits if_splits)
  with keepalive_steady [OF k] early show ?thesis by (auto simp: steady_def)
next
  case False
  then have "s' = s" using assms(1) by (simp add: beat_def)
  with assms(2) show ?thesis by (auto simp: on_time_def)
qed

lemma wait_packet_time:
  assumes "wait_packet r s = (res, s')" "v_now s \<le> media_deadline s + v_timeout s"
  shows "v_now s \<le> v_now s' \<and> v_now s' \<le> media_deadline s + v_timeout s \<and> steady s s'"
    "\<And>x. res = WaitRead x \<Longrightarrow> read_packet r s = (x, s') \<and> v_now s' < max (v_now s) (media_deadline s)"
proof -
  obtain x s1 where rp: "read_packet r s = (x, s1)" by fastforce
  note st = read_packet_steady [OF rp]
  consider (stop) c where "rl_cancel r = Some c" "c \<le> max (v_now s) (media_deadline s)"
        "s' = s\<lparr>v_now := max (v_now s) c\<rparr>" "res = WaitCancelled"
    | (quiet) "s' = s\<lparr>v_now := max (v_now s) (media_deadline s)\<rparr>" "res = WaitNoMedia"
    | (packet) "s' = s1" "res = WaitRead x" "v_now s1 < max (v_now s) (media_deadline s)"
    using assms(1) rp
    by (auto simp: wait_packet_def cancelled_def media_deadline_def Let_def split: if_splits option.splits)
  then have "(v_now s \<le> v_now s' \<and> v_now s' \<le> media_deadline s + v_timeout s \<and> steady s s')
    \<and> (\<forall>x. res = WaitRead x \<longrightarrow> read_packet r s = (x, s') \<and> v_now s' < max (v_now s) (media_deadline s))"
    using assms(2) st rp by cases auto
  then show "v_now s \<le> v_now s' \<and> v_now s' \<le> media_deadline s + v_timeout s \<and> steady s s'"
    "\<And>x. res = WaitRead x \<Longrightarrow> read_packet r s = (x, s') \<and> v_now s' < max (v_now s) (media_deadline s)"
    by blast+
qed

text \<open>The camera is never taken for offline by a read or a write.\<close>

lemma io_errors:
  "timed message outcome s = (Inl e, s') \<Longrightarrow> e \<noteq> CameraOffline"
  "keepalive r code s = (Inl e, s') \<Longrightarrow> e \<noteq> CameraOffline"
  "read_packet r s = (Inl e, s') \<Longrightarrow> e \<noteq> CameraOffline"
proof -
  have t: "e \<noteq> CameraOffline" if "timed message outcome s = (Inl e, s')"
    for message e s s' and outcome :: "(io_error_kind + 'b) \<times> nat"
    using that by (auto simp: timed_def split: if_splits sum.splits)
  show "timed message outcome s = (Inl e, s') \<Longrightarrow> e \<noteq> CameraOffline" by (rule t)
  show "keepalive r code s = (Inl e, s') \<Longrightarrow> e \<noteq> CameraOffline"
    by (auto simp: keepalive_def vtm_send_def encode_packet_def try_bind_def ok_or_def
        split: option.splits sum.splits dest: t)
  show "read_packet r s = (Inl e, s') \<Longrightarrow> e \<noteq> CameraOffline"
    by (auto simp: read_packet_def read_bytes_def decode_header_def Let_def split: sum.splits prod.splits if_splits dest: t)
qed

lemma beat_error: "beat r s = (Inl e, s') \<Longrightarrow> e \<noteq> CameraOffline"
  by (auto simp: beat_def split: if_splits sum.splits prod.splits bridge_error.splits dest: io_errors(2))

text \<open>The turns of the loop: each returns in time or leaves less of it.\<close>

lemma take_packet_time:
  assumes "take_packet r allow_encrypted p s = (x, s')" "v_now s < media_deadline s"
  shows "v_now s \<le> v_now s' \<and> v_now s' \<le> media_deadline s + v_timeout s"
    "x = Again \<Longrightarrow> on_time s' \<and> media_deadline s' = media_deadline s \<and> v_timeout s' = v_timeout s"
    "x \<noteq> Return (Inl CameraOffline)"
proof -
  obtain a s1 where k: "keepalive r KEEPALIVE_RESPONSE s = (a, s1)" by fastforce
  note st = keepalive_steady [OF k] and err = io_errors(2)
  have "(v_now s \<le> v_now s' \<and> v_now s' \<le> media_deadline s + v_timeout s)
    \<and> (x = Again \<longrightarrow> on_time s' \<and> media_deadline s' = media_deadline s \<and> v_timeout s' = v_timeout s)
    \<and> x \<noteq> Return (Inl CameraOffline)"
  proof (cases "message_code p = KEEPALIVE_REQUEST")
    case True
    then show ?thesis
      using assms k st err [of r KEEPALIVE_RESPONSE s _ s1]
      by (auto simp: take_packet_def on_time_def media_deadline_def steady_def split: sum.splits)
  next
    case False
    then show ?thesis
      using assms by (auto simp: take_packet_def on_time_def media_deadline_def split: if_splits)
  qed
  then show "v_now s \<le> v_now s' \<and> v_now s' \<le> media_deadline s + v_timeout s"
    "x = Again \<Longrightarrow> on_time s' \<and> media_deadline s' = media_deadline s \<and> v_timeout s' = v_timeout s"
    "x \<noteq> Return (Inl CameraOffline)" by blast+
qed

lemma payload_step_time:
  assumes "payload_step r allow_encrypted s = (x, s')" "on_time s" "\<And>i n. 0 < snd (rl_read r i n)"
  shows "v_now s' \<le> media_deadline s + v_timeout s"
    "x = Again \<Longrightarrow> on_time s' \<and> media_deadline s' = media_deadline s \<and> v_timeout s' = v_timeout s
       \<and> v_now s < v_now s' \<and> v_now s < media_deadline s"
    "x = Return (Inl CameraOffline) \<Longrightarrow> media_deadline s \<le> v_now s'"
proof -
  let ?goal = "v_now s' \<le> media_deadline s + v_timeout s
    \<and> (x = Again \<longrightarrow> on_time s' \<and> media_deadline s' = media_deadline s \<and> v_timeout s' = v_timeout s
       \<and> v_now s < v_now s' \<and> v_now s < media_deadline s)
    \<and> (x = Return (Inl CameraOffline) \<longrightarrow> media_deadline s \<le> v_now s')"
  obtain a s1 where b: "beat r s = (a, s1)" by fastforce
  obtain wr s2 where w: "wait_packet r s1 = (wr, s2)" by fastforce
  note bt = beat_steady [OF b assms(2)]
  have dl: "media_deadline s1 = media_deadline s" "v_timeout s1 = v_timeout s" using bt by (simp_all add: media_deadline_def)
  have "v_now s1 \<le> media_deadline s1 + v_timeout s1" using bt dl by simp
  note wt = wait_packet_time [OF w this]
  have ?goal
  proof (cases "cancelled r (v_now s) \<or> a \<noteq> Inr True")
    case True
    then show ?thesis
      using assms(1,2) b bt beat_error [of r s _ s1]
      by (auto simp: payload_step_def on_time_def split: if_splits sum.splits)
  next
    case False
    then have go: "\<not> cancelled r (v_now s)" "a = Inr True" by auto
    have def: "take_wait r allow_encrypted wr s2 = (x, s')"
      using assms(1) b go w by (simp add: payload_step_def)
    show ?thesis
    proof (cases wr)
      case WaitCancelled
      with def wt dl show ?thesis by (auto simp: take_wait_def)
    next
      case WaitNoMedia
      have "v_now s2 = max (v_now s1) (media_deadline s1)"
        using w WaitNoMedia by (auto simp: wait_packet_def media_deadline_def Let_def split: if_splits prod.splits)
      with WaitNoMedia def wt dl show ?thesis by (auto simp: take_wait_def split: if_splits)
    next
      case (WaitRead y)
      note rp = wt(2) [OF WaitRead]
      show ?thesis
      proof (cases y)
        case (Inl e)
        with WaitRead def wt dl rp io_errors(3) [of r s1 e s2] show ?thesis
          by (auto simp: take_wait_def split: bridge_error.splits if_splits)
      next
        case (Inr p)
        have later: "v_now s1 < v_now s2" using read_packet_takes_time rp Inr assms(3) by blast
        then have early: "v_now s2 < media_deadline s1" using rp by (simp add: max_def split: if_splits)
        have same: "media_deadline s2 = media_deadline s1" "v_timeout s2 = v_timeout s1"
          using wt(1) by (simp_all add: media_deadline_def steady_def)
        have tk: "take_packet r allow_encrypted p s2 = (x, s')" using WaitRead Inr def by (simp add: take_wait_def)
        from take_packet_time [OF tk] early same dl later bt show ?thesis by auto
      qed
    qed
  qed
  then show "v_now s' \<le> media_deadline s + v_timeout s"
    "x = Again \<Longrightarrow> on_time s' \<and> media_deadline s' = media_deadline s \<and> v_timeout s' = v_timeout s
       \<and> v_now s < v_now s' \<and> v_now s < media_deadline s"
    "x = Return (Inl CameraOffline) \<Longrightarrow> media_deadline s \<le> v_now s'" by blast+
qed

lemma next_payload_ends:
  assumes "on_time s" "\<And>i n. 0 < snd (rl_read r i n)" "media_deadline s - v_now s \<le> fuel"
  shows "\<exists>res s'. next_payload r allow_encrypted (Suc fuel) s = Some (res, s')
    \<and> v_now s' \<le> media_deadline s + v_timeout s \<and> (res = Inl CameraOffline \<longrightarrow> media_deadline s \<le> v_now s')"
  using assms(1,3)
proof (induction fuel arbitrary: s)
  case 0
  obtain x s1 where st: "payload_step r allow_encrypted s = (x, s1)" by fastforce
  note pt = payload_step_time [OF st 0(1) assms(2)]
  from pt(2) 0(2) obtain res where "x = Return res" by (cases x) auto
  with pt st show ?case by auto
next
  case (Suc fuel)
  obtain x s1 where st: "payload_step r allow_encrypted s = (x, s1)" by fastforce
  note pt = payload_step_time [OF st Suc.prems(1) assms(2)]
  show ?case
  proof (cases x)
    case (Return res)
    with pt st show ?thesis by auto
  next
    case Again
    note again = pt(2) [OF Again]
    have "media_deadline s1 - v_now s1 \<le> fuel" using again Suc.prems(2) by linarith
    from Suc.IH [OF _ this] again st Again show ?thesis by auto
  qed
qed

text \<open>C25. A session never hangs on a relay that sends no media: from any moment before the media deadline (the timeout
  after the last media payload), however many keepalives and control messages the relay sends, as long as reading a
  packet takes time, the next payload, the end of the stream or an error is returned at most two timeouts after the last
  media, and the camera is reported offline no earlier than at the deadline.\<close>

theorem payload_in_time:
  assumes "\<And>i n. 0 < snd (rl_read r i n)" "v_now s \<le> media_deadline s"
  shows "\<exists>res s'. next_payload r allow_encrypted (Suc (v_timeout s + v_last_media s)) s = Some (res, s')
    \<and> v_now s' \<le> v_last_media s + 2 * v_timeout s \<and> (res = Inl CameraOffline \<longrightarrow> media_deadline s \<le> v_now s')"
proof -
  have "on_time s" "media_deadline s - v_now s \<le> v_timeout s + v_last_media s"
    using assms(2) by (auto simp: on_time_def media_deadline_def)
  from next_payload_ends [OF this(1) assms(1) this(2), of allow_encrypted] show ?thesis
    by (simp add: media_deadline_def mult_2 add.assoc)
qed

text \<open>A relay that sends nothing but keepalive requests.\<close>

definition idle_relay :: relay where
  "idle_relay = \<lparr>rl_read = (\<lambda>i n. (Inr (if n = 8 then [0x24, 0, 0, 0, 0, 0, 0x01, 0x32] else []), 1)),
     rl_write = (\<lambda>i pkt. (Inr (), 0)), rl_cancel = None\<rparr>"

definition idle_session :: vtm_session where
  "idle_session = (new_session ''u'' 3 False 0)\<lparr>v_info := stream_info_default\<lparr>stream_session := Some ''x''\<rparr>\<rparr>"

theorem payload_in_time_witness:
  "(\<forall>i n. 0 < snd (rl_read idle_relay i n)) \<and>
   (\<exists>s'. next_payload idle_relay False 4 idle_session = Some (Inl CameraOffline, s') \<and> 3 \<le> v_now s' \<and> v_now s' \<le> 6)"
proof -
  have slow: "0 < snd (rl_read idle_relay i n)" for i n by (simp add: idle_relay_def)
  have session: "v_timeout idle_session = 3" "v_last_media idle_session = 0" "v_now idle_session = 0"
    by (simp_all add: idle_session_def new_session_def)
  have fuel: "Suc (v_timeout idle_session + v_last_media idle_session) = 4" by (simp add: session)
  have outcome: "map_option fst (next_payload idle_relay False 4 idle_session) = Some (Inl CameraOffline)"
    by code_simp
  have "\<exists>res s'. next_payload idle_relay False 4 idle_session = Some (res, s') \<and> v_now s' \<le> 6
      \<and> (res = Inl CameraOffline \<longrightarrow> 3 \<le> v_now s')"
    using payload_in_time [OF slow, of idle_session False] unfolding fuel by (simp add: session media_deadline_def)
  with slow outcome show ?thesis by auto
qed

section \<open>Opening ends\<close>

lemma vtm_open_from_connections:
  "i \<le> snd (vtm_open_from lib connect limit playback left i u key now)
   \<and> snd (vtm_open_from lib connect limit playback left i u key now) \<le> i + left"
proof (induction lib connect limit playback left i u key now rule: vtm_open_from.induct)
  case (2 lib connect limit playback left i u key now)
  show ?case
    using 2 by (fastforce simp: Let_def split: sum.splits prod.splits start_answer.splits)
qed simp

lemma vtm_open_connections: "snd (vtm_open lib connect u limit playback now) \<le> 4"
  using vtm_open_from_connections [of 0 lib connect limit playback 4] by (simp add: vtm_open_def)

text \<open>An opened session has just been accepted: the media deadline lies a whole timeout ahead.\<close>

lemma vtm_open_fresh:
  "vtm_open_from lib connect limit playback left i u key now = (Inr (r, s), n) \<Longrightarrow>
     v_last_media s = v_now s \<and> read_answer playback (v_info s) = Accepted"
  by (induction lib connect limit playback left i u key now rule: vtm_open_from.induct)
    (fastforce simp: Let_def split: sum.splits prod.splits start_answer.splits if_splits)+

end
