(* ===== verification/Ezviz_Client.thy ===== *)
theory Ezviz_Client
  imports Ezviz_Api Vtm_Session Cloud_Key Picture Device_Service
begin

text \<open>
  The camera transport: resource lookup and signing (\<open>transport/http.rs\<close>), the start of the session and snapshots
  (\<open>transport/client.rs\<close>, \<open>transport/cloud_key.rs\<close>), stream allocation and the clear stream
  (\<open>transport/client_stream.rs\<close>), the cached status and the encrypted stream (\<open>transport/device.rs\<close>), and microSD
  playback (\<open>transport/sd_playback.rs\<close>).

  An operation runs in a world of the API world, the status slots, the guard of the verification codes and the
  streams opened; the outside is a \<open>client_env\<close>. Every reading of the clock is a tick, at which the other tasks
  may also have changed the status slots. Instants are milliseconds. The allocation lock makes \<open>cloud_url\<close> one
  uninterrupted operation.
\<close>

section \<open>Reading answers\<close>

definition value_u16 :: "json option \<Rightarrow> bridge_error + nat" where
  "value_u16 v =
     try_bind (ok_or (Option.bind v (\<lambda>x. case as_u64 x of Some n \<Rightarrow> Some (show_nat n) | None \<Rightarrow> as_str x))
         (Upstream ''VTM server port is missing'')) (\<lambda>raw.
       ok_or (parse_below (2 ^ 16) raw) (Upstream ''VTM server port is invalid''))"

definition resource_channel :: "json \<Rightarrow> nat option" where
  "resource_channel r = find_map (\<lambda>key. json_field r key (\<lambda>v.
     case Option.bind (as_u64 v) (\<lambda>n. if n < 2 ^ 16 then Some n else None) of
       Some n \<Rightarrow> Some n
     | None \<Rightarrow> Option.bind (as_str v) (parse_below (2 ^ 16)))) [''channelNo'', ''localIndex'', ''channel'']"

definition of_serial :: "string \<Rightarrow> json \<Rightarrow> bool" where
  "of_serial sn item \<longleftrightarrow> json_field item ''deviceSerial'' as_str = Some sn"

definition find_resource :: "json \<Rightarrow> string \<Rightarrow> nat \<Rightarrow> bridge_error + json" where
  "find_resource page sn chan =
     try_bind (ok_or (json_field page ''resourceInfos'' as_array) (Upstream ''VTM resource list is missing'')) (\<lambda>resources.
       ok_or (case find (\<lambda>item. resource_channel item = Some chan) (filter (of_serial sn) resources) of
                Some r \<Rightarrow> Some r
              | None \<Rightarrow> if chan = 1 then find (\<lambda>item. of_serial sn item \<and> resource_channel item = None) resources else None)
         (Upstream ''camera channel was not found''))"

definition jwt_sign :: "(string \<Rightarrow> bytes option) \<Rightarrow> (bytes \<Rightarrow> json option) \<Rightarrow> string \<Rightarrow> bridge_error + string" where
  "jwt_sign base64 parse session =
     try_bind (ok_or (get_at (split_char CHR ''.'' session) 1) (Upstream ''session token is not a JWT'')) (\<lambda>payload.
     try_bind (ok_or (base64 payload) (Upstream ''session JWT is invalid'')) (\<lambda>decoded.
     try_bind (ok_or (parse decoded) Json) (\<lambda>claims. required_string claims ''s'')))"

section \<open>The world\<close>

record status_entry =
  se_expires :: nat
  se_status :: "device_status option"

record client_env =
  ce_api :: api_env
  ce_clock :: "nat \<Rightarrow> nat"
  ce_slots :: "nat \<Rightarrow> (string, status_entry) btree \<Rightarrow> (string, status_entry) btree"
  ce_slow :: "nat \<Rightarrow> bool"
  ce_slot_free :: "nat \<Rightarrow> bool"
  ce_wall :: "nat \<Rightarrow> int"
  ce_writes :: "nat \<Rightarrow> write_outcome"
  ce_file :: "string \<Rightarrow> secret_file option"
  ce_device :: device_lib
  ce_md5_hex :: "string \<Rightarrow> string"
  ce_sha :: "string \<Rightarrow> string"
  ce_base64 :: "string \<Rightarrow> bytes option"
  ce_url_host :: "string \<Rightarrow> string option"
  ce_urls :: url_lib
  ce_picture :: picture_lib
  ce_parse_url :: "string \<Rightarrow> media_url option"
  ce_media :: media_get
  ce_connect :: "nat \<Rightarrow> nat \<Rightarrow> string \<times> nat \<Rightarrow> (io_error_kind + relay) \<times> nat"
  ce_cipher :: block_cipher
  ce_timeout :: nat

record client_world =
  cw_api :: api_world
  cw_ticks :: nat
  cw_status :: "(string, status_entry) btree"
  cw_guard :: cloud_guard
  cw_opened :: "string list"

definition in_api :: "(api_world \<Rightarrow> 'a \<times> api_world) \<Rightarrow> client_world \<Rightarrow> 'a \<times> client_world" where
  "in_api f w = (let (x, a) = f (cw_api w) in (x, w\<lparr>cw_api := a\<rparr>))"

definition tick :: "client_env \<Rightarrow> client_world \<Rightarrow> nat \<times> client_world" where
  "tick env w = (ce_clock env (cw_ticks w),
     w\<lparr>cw_ticks := Suc (cw_ticks w), cw_status := ce_slots env (cw_ticks w) (cw_status w)\<rparr>)"

text \<open>The session as a task finds it when it looks.\<close>

definition observe :: "api_env \<Rightarrow> api_world \<Rightarrow> api_world" where
  "observe env w = w\<lparr>aw_store := ae_others env (length (aw_log w)) (aw_store w)\<rparr>"

section \<open>Starting the session\<close>

definition START_RETRY :: nat where "START_RETRY = 15 * 1000"
definition START_RETRY_MAX :: nat where "START_RETRY_MAX = 10 * 60 * 1000"
definition MAX_SNAPSHOT_BYTES :: nat where "MAX_SNAPSHOT_BYTES = 8 * 1024 * 1024"

definition ensure_service_urls :: "api_env \<Rightarrow> write_outcome \<Rightarrow> api_world \<Rightarrow> (bridge_error + unit) \<times> api_world" where
  "ensure_service_urls env outcome w0 =
     (let w = observe env w0 in
      if service_urls (st_token (aw_store w)) \<noteq> None then (Inr (), w)
      else case api_json env GET ''/v3/configurations/system/info'' [] w of
             (Inl e, w1) \<Rightarrow> (Inl e, w1)
           | (Inr v, w1) \<Rightarrow>
               (case json_get v ''systemConfigInfo'' of
                  None \<Rightarrow> (Inl (Upstream ''system info omitted service URLs''), w1)
                | Some urls \<Rightarrow> (Inr (), w1\<lparr>aw_store :=
                    update_token outcome (\<lambda>t. t\<lparr>service_urls := Some urls\<rparr>) (aw_store w1)\<rparr>)))"

definition start_once :: "api_env \<Rightarrow> write_outcome \<Rightarrow> api_world \<Rightarrow> (bridge_error + unit) \<times> api_world" where
  "start_once env outcome w0 =
     (let w = observe env w0;
          (res, s) = refresh_at env (length (aw_log w)) (snd (current_session (aw_store w))) (aw_store w);
          w1 = w\<lparr>aw_store := s\<rparr>
      in case res of Inl e \<Rightarrow> (Inl e, w1) | Inr _ \<Rightarrow> ensure_service_urls env outcome w1)"

datatype start_end = SessionReady | SessionRefused

text \<open>The loop with its waits; without fuel it is still running.\<close>

fun start_loop :: "api_env \<Rightarrow> (nat \<Rightarrow> write_outcome) \<Rightarrow> nat \<Rightarrow> nat \<Rightarrow> nat \<Rightarrow> api_world \<Rightarrow> start_end option \<times> nat list \<times> api_world" where
  "start_loop env outcomes 0 i delay w = (None, [], w)"
| "start_loop env outcomes (Suc fuel) i delay w =
     (case start_once env (outcomes i) w of
        (Inr _, w1) \<Rightarrow> (Some SessionReady, [], w1)
      | (Inl e, w1) \<Rightarrow>
          if e = ReauthRequired then (Some SessionRefused, [], w1)
          else let (r, waits, w2) = start_loop env outcomes fuel (Suc i) (min (delay * 2) START_RETRY_MAX) w1
               in (r, delay # waits, w2))"

definition start_session :: "api_env \<Rightarrow> (nat \<Rightarrow> write_outcome) \<Rightarrow> nat \<Rightarrow> api_world \<Rightarrow> start_end option \<times> nat list \<times> api_world" where
  "start_session env outcomes fuel w = start_loop env outcomes fuel 0 START_RETRY w"

definition adopt_enrollment :: "api_env \<Rightarrow> (string \<Rightarrow> ezviz_token option) \<Rightarrow> string \<Rightarrow> secret_file option \<Rightarrow> bridge_error + unit
    \<Rightarrow> write_outcome \<Rightarrow> api_world \<Rightarrow> (bridge_error + unit) \<times> api_world" where
  "adopt_enrollment env parse name f moved outcome w =
     (case adopt parse name f moved (aw_store w) of
        (Inl e, s) \<Rightarrow> (Inl e, w\<lparr>aw_store := s\<rparr>)
      | (Inr _, s) \<Rightarrow> ensure_service_urls env outcome (w\<lparr>aw_store := s\<rparr>))"

section \<open>Allocating a stream\<close>

definition VTM_PAGE_SIZE :: nat where "VTM_PAGE_SIZE = 50"
definition VTM_MAX_PAGES :: nat where "VTM_MAX_PAGES = 40"

definition vtm_has_next :: "json \<Rightarrow> bool \<Rightarrow> bool" where
  "vtm_has_next page otherwise =
     (case Option.bind (json_get page ''page'') (\<lambda>v. json_field v ''hasNext'' as_bool) of
        Some b \<Rightarrow> b | None \<Rightarrow> otherwise)"

fun resource_pages :: "(nat \<Rightarrow> 'w \<Rightarrow> (bridge_error + json) \<times> 'w) \<Rightarrow> string \<Rightarrow> nat \<Rightarrow> nat \<Rightarrow> nat \<Rightarrow> 'w
    \<Rightarrow> (bridge_error + json) \<times> 'w" where
  "resource_pages get_page sn chan 0 offset w =
     (Inl (Upstream ''camera channel was not found in the complete VTM resource list''), w)"
| "resource_pages get_page sn chan (Suc left) offset w =
     (case get_page offset w of
        (Inl e, w1) \<Rightarrow> (Inl e, w1)
      | (Inr page, w1) \<Rightarrow>
          if isl (find_resource page sn chan)
          then let resources = (case json_field page ''resourceInfos'' as_array of Some xs \<Rightarrow> length xs | None \<Rightarrow> 0) in
               if resources = 0 \<or> \<not> vtm_has_next page (resources = VTM_PAGE_SIZE)
               then (Inl (Upstream ''camera channel was not found in the complete VTM resource list''), w1)
               else resource_pages get_page sn chan left (sat_add offset resources) w1
          else (Inr page, w1))"

definition resource_page :: "api_env \<Rightarrow> string \<Rightarrow> nat \<Rightarrow> api_world \<Rightarrow> (bridge_error + json) \<times> api_world" where
  "resource_page env sn chan w = resource_pages (\<lambda>offset. api_json env GET PAGELIST_PATH
     [(''groupId'', ''-1''), (''limit'', show_nat VTM_PAGE_SIZE), (''offset'', show_nat offset), (''filter'', ''VTM'')])
     sn chan VTM_MAX_PAGES 0 w"

definition vtdu_request :: "api_env \<Rightarrow> ezviz_token \<Rightarrow> string \<Rightarrow> string \<Rightarrow> wire_request" where
  "vtdu_request env t address sign =
     (request env GET address ''/vtdutoken2'' t)\<lparr>wq_query := [(''ssid'', session_id t), (''sign'', sign)]\<rparr>"

definition vtdu_token :: "client_env \<Rightarrow> api_world \<Rightarrow> (bridge_error + string) \<times> api_world" where
  "vtdu_token cenv w0 =
     (let env = ce_api cenv; w = observe env w0; t = st_token (aw_store w) in
      case try_bind (jwt_sign (ce_base64 cenv) (ae_parse env) (session_id t)) (\<lambda>sign.
             try_bind (auth_address (ce_url_host cenv) t) (\<lambda>address. Inr (sign, address))) of
        Inl e \<Rightarrow> (Inl e, w)
      | Inr (sign, address) \<Rightarrow>
          let r = vtdu_request env t address sign; w1 = w\<lparr>aw_log := aw_log w @ [r]\<rparr> in
          (try_bind (ae_send env (length (aw_log w)) r) (\<lambda>resp.
             try_bind (read_json (ae_parse env) resp (is_success (rs_status resp))) (\<lambda>v.
               if \<not> is_success (rs_status resp) \<or> \<not> success_code (json_get v ''retcode'')
               then Inl (Upstream ''VTDU token request failed'')
               else ok_or (Option.bind (json_field v ''tokens'' as_array) (\<lambda>ts. Option.bind (get_at ts 0) as_str))
                      (Upstream ''VTDU response omitted its token''))), w1))"

definition vtm_path :: "camera_config \<Rightarrow> string" where
  "vtm_path camera = ''/v3/streaming/vtm/'' @ serial camera @ ''/'' @ show_nat (camera_config.channel camera)"

definition stream_server :: "json \<Rightarrow> json \<Rightarrow> string \<Rightarrow> bridge_error + string \<times> nat" where
  "stream_server answer page resource_id =
     try_bind (ok_or (case json_get answer ''streamServerConfig'' of
                        Some s \<Rightarrow> Some s
                      | None \<Rightarrow> Option.bind (json_get page ''VTM'') (\<lambda>v. json_get v resource_id))
         (Upstream ''VTM server metadata is missing'')) (\<lambda>server.
     try_bind (ok_or (find_map (\<lambda>key. json_field server key as_str) [''externalIp'', ''domain'', ''internalIp''])
         (Upstream ''VTM server host is missing'')) (\<lambda>host.
     try_bind (value_u16 (json_get server ''port'')) (\<lambda>port. Inr (host, port))))"

definition cloud_url :: "client_env \<Rightarrow> camera_config \<Rightarrow> (string \<times> string) option \<Rightarrow> int \<Rightarrow> api_world
    \<Rightarrow> (bridge_error + string) \<times> api_world" where
  "cloud_url cenv camera span now_ms w =
     (let env = ce_api cenv in
      case resource_page env (serial camera) (camera_config.channel camera) w of
        (Inl e, w1) \<Rightarrow> (Inl e, w1)
      | (Inr page, w1) \<Rightarrow>
      (case try_bind (find_resource page (serial camera) (camera_config.channel camera)) (\<lambda>resource.
              try_bind (required_string resource ''resourceId'') (\<lambda>resource_id. Inr (resource_id,
                case json_field resource ''streamBizUrl'' as_str of Some u \<Rightarrow> u | None \<Rightarrow> []))) of
         Inl e \<Rightarrow> (Inl e, w1)
       | Inr (resource_id, biz) \<Rightarrow>
      (case vtdu_token cenv w1 of
         (Inl e, w2) \<Rightarrow> (Inl e, w2)
       | (Inr vtdu, w2) \<Rightarrow>
      (case api_json env GET (vtm_path camera) [] w2 of
         (Inl e, w3) \<Rightarrow> (Inl e, w3)
       | (Inr answer, w3) \<Rightarrow>
           (try_bind (stream_server answer page resource_id) (\<lambda>(host, port).
              let req = \<lparr>ur_host = host, ur_port = port, ur_serial = serial camera, ur_channel = camera_config.channel camera,
                         ur_substream = substream camera, ur_biz_url = biz, ur_token = vtdu, ur_timestamp_ms = now_ms\<rparr>
              in Inr (case span of
                        None \<Rightarrow> build_vtm_url (ce_urls cenv) req
                      | Some (begin_at, end_at) \<Rightarrow> build_vtm_playback_url (ce_urls cenv) req begin_at end_at)), w3)))))"

section \<open>Device status\<close>

definition LIVE_STATUS_WAIT :: nat where "LIVE_STATUS_WAIT = 3 * 1000"

fun status_pages :: "device_lib \<Rightarrow> (nat \<Rightarrow> 'w \<Rightarrow> (bridge_error + json) \<times> 'w) \<Rightarrow> string \<Rightarrow> nat \<Rightarrow> nat \<Rightarrow> 'w
    \<Rightarrow> (bridge_error + device_status) \<times> 'w" where
  "status_pages lib get_page sn 0 offset w = (Inl (Upstream ''camera status was not found in the device list''), w)"
| "status_pages lib get_page sn (Suc left) offset w =
     (case get_page offset w of
        (Inl e, w1) \<Rightarrow> (Inl e, w1)
      | (Inr page, w1) \<Rightarrow>
          (case parse_device_status lib page sn of
             Some st \<Rightarrow> (Inr st, w1)
           | None \<Rightarrow>
               if \<not> vtm_has_next page False
               then (Inl (Upstream ''camera status was not found in the device list''), w1)
               else status_pages lib get_page sn left (sat_add offset VTM_PAGE_SIZE) w1))"

definition fetch_status :: "client_env \<Rightarrow> string \<Rightarrow> client_world \<Rightarrow> (bridge_error + device_status) \<times> client_world" where
  "fetch_status cenv sn = in_api (status_pages (ce_device cenv) (\<lambda>offset. message_json (ce_api cenv) PAGELIST_PATH
     [(''groupId'', ''-1''), (''limit'', show_nat VTM_PAGE_SIZE), (''offset'', show_nat offset), (''filter'', ''STATUS'')])
     sn VTM_MAX_PAGES 0)"

definition store_status :: "string \<Rightarrow> nat \<Rightarrow> device_status option \<Rightarrow> client_world \<Rightarrow> client_world" where
  "store_status sn until st w = w\<lparr>cw_status := bt_insert sn \<lparr>se_expires = until, se_status = st\<rparr> (cw_status w)\<rparr>"

definition cached_status :: "client_env \<Rightarrow> camera_config \<Rightarrow> client_world \<Rightarrow> (bridge_error + device_status) \<times> client_world" where
  "cached_status cenv camera w =
     (let (now, w1) = tick cenv w in
      case (case bt_get (cw_status w1) (serial camera) of
              Some e \<Rightarrow> if now < se_expires e then Some (se_status e) else None | None \<Rightarrow> None) of
        Some st \<Rightarrow> (ok_or st UpstreamUnavailable, w1)
      | None \<Rightarrow>
          let (res, w2) = fetch_status cenv (serial camera) w1; (later, w3) = tick cenv w2
          in (res, store_status (serial camera) (later + (if isl res then FAILURE_TTL else ENCRYPTION_TTL)) (result_ok res) w3))"

definition mark_status_unavailable :: "client_env \<Rightarrow> string \<Rightarrow> client_world \<Rightarrow> client_world" where
  "mark_status_unavailable cenv sn w =
     (if ce_slot_free cenv (cw_ticks w)
      then let (now, w1) = tick cenv w in store_status sn (now + FAILURE_TTL) None w1
      else w)"

definition encrypted_path :: "bool \<Rightarrow> bool option \<Rightarrow> bool" where
  "encrypted_path configured reported = (case reported of Some e \<Rightarrow> e | None \<Rightarrow> configured)"

text \<open>A lookup that outlasts the wait is dropped: the requests it sent stay sent, its slot is not written.\<close>

definition video_is_encrypted :: "client_env \<Rightarrow> camera_config \<Rightarrow> client_world \<Rightarrow> bool \<times> client_world" where
  "video_is_encrypted cenv camera w =
     (let (res, w1) = cached_status cenv camera w in
      if ce_slow cenv (cw_ticks w)
      then (encrypted_path (decrypt_video camera) None,
            mark_status_unavailable cenv (serial camera) (w1\<lparr>cw_status := cw_status (snd (tick cenv w))\<rparr>))
      else (encrypted_path (decrypt_video camera) (Option.bind (result_ok res) video_encrypted), w1))"

section \<open>Verification codes\<close>

text \<open>\<open>CloudKeyGuard::fetch\<close> around the request.\<close>

definition camera_key :: "client_env \<Rightarrow> string \<Rightarrow> client_world \<Rightarrow> (bridge_error + string) \<times> client_world" where
  "camera_key cenv sn w =
     (let n = length (aw_log (cw_api w)) in
      case cached (ce_sha cenv) sn (cw_guard w) of
        Some code \<Rightarrow> (Inr code, w)
      | None \<Rightarrow>
          (case begin_lookup (ce_sha cenv) (ce_writes cenv n) sn (ce_wall cenv n) (cw_guard w) of
             (Inl e, g1) \<Rightarrow> (Inl e, w\<lparr>cw_guard := g1\<rparr>)
           | (Inr _, g1) \<Rightarrow>
               let (answer, w1) = in_api (request_camera_key (ce_api cenv) sn) (w\<lparr>cw_guard := g1\<rparr>);
                   (res, g2) = settle_lookup (ce_sha cenv) (ce_writes cenv (Suc n)) sn answer g1
               in (res, w1\<lparr>cw_guard := g2\<rparr>)))"

definition key_reading :: "client_env \<Rightarrow> camera_config \<Rightarrow> (string \<times> secret_file option) option" where
  "key_reading cenv camera = map_option (\<lambda>name. (name, ce_file cenv name)) (media_key_file camera)"

definition client_keys :: "client_env \<Rightarrow> camera_config \<Rightarrow> device_status option \<Rightarrow> client_world \<Rightarrow> video_key list \<times> client_world" where
  "client_keys cenv camera st w =
     (let hash = Option.bind st encrypt_pwd_hash; reading = key_reading cenv camera in
      case option_key (ce_md5_hex cenv) reading hash of
        Some k \<Rightarrow> ([k], w)
      | None \<Rightarrow> let (answer, w1) = camera_key cenv (serial camera) w
                in (fst (candidate_keys (ce_md5_hex cenv) reading hash answer), w1))"

definition status_keys :: "client_env \<Rightarrow> camera_config \<Rightarrow> client_world \<Rightarrow> video_key list \<times> client_world" where
  "status_keys cenv camera w =
     (let (res, w1) = cached_status cenv camera w in client_keys cenv camera (result_ok res) w1)"

definition picture_keys_of :: "client_env \<Rightarrow> camera_config \<Rightarrow> client_world \<Rightarrow> string list \<times> client_world" where
  "picture_keys_of cenv camera w = (let (ks, w1) = status_keys cenv camera w in (map vk_code ks, w1))"

definition decrypt_snapshot :: "client_env \<Rightarrow> camera_config \<Rightarrow> bytes \<Rightarrow> client_world \<Rightarrow> (bridge_error + bytes) \<times> client_world" where
  "decrypt_snapshot cenv camera data w =
     (let (ks, w1) = status_keys cenv camera w in
      (try_bind (ok_or (get_at ks 0) (Upstream ''encrypted snapshot has no usable verification code'')) (\<lambda>k.
         decrypt_image (ce_picture cenv) data (vk_code k)), w1))"

definition capture_path :: "camera_config \<Rightarrow> string" where
  "capture_path camera = ''/v3/devconfig/v1/'' @ serial camera @ ''/1/capture''"

definition snapshot_jpeg :: "client_env \<Rightarrow> camera_config \<Rightarrow> client_world \<Rightarrow> (bridge_error + bytes) \<times> client_world" where
  "snapshot_jpeg cenv camera w =
     (case in_api (api_json (ce_api cenv) PUT (capture_path camera) []) w of
        (Inl e, w1) \<Rightarrow> (Inl e, w1)
      | (Inr capture, w1) \<Rightarrow>
          (case try_bind (ok_or (first_image_url capture) (Upstream ''capture response omitted image URL'')) (\<lambda>u.
                  fst (download_presigned (ce_parse_url cenv) (ce_media cenv) u MAX_SNAPSHOT_BYTES)) of
             Inl e \<Rightarrow> (Inl e, w1)
           | Inr data \<Rightarrow>
               (case (if find_sub HEADER data \<noteq> None then decrypt_snapshot cenv camera data w1 else (Inr data, w1)) of
                  (res, w2) \<Rightarrow> (try_bind res jpeg_slice, w2))))"

section \<open>Streams\<close>

text \<open>What an open session delivers, payload by payload; \<open>fuel\<close> bounds the packets of one payload and \<open>n\<close> the payloads.\<close>

fun session_items :: "relay \<Rightarrow> bool \<Rightarrow> nat \<Rightarrow> nat \<Rightarrow> vtm_session \<Rightarrow> session_item list" where
  "session_items r allow fuel 0 s = []"
| "session_items r allow fuel (Suc n) s =
     (case next_payload r allow fuel s of
        None \<Rightarrow> []
      | Some (Inl e, _) \<Rightarrow> [Failed e]
      | Some (Inr None, _) \<Rightarrow> [EndOfStream]
      | Some (Inr (Some p), s1) \<Rightarrow> Payload p # session_items r allow fuel n s1)"

record consumer =
  co_accepts :: "bytes list \<Rightarrow> bytes \<Rightarrow> bool"
  co_cancelled :: bool
  co_fuel :: nat
  co_payloads :: nat

definition open_stream :: "client_env \<Rightarrow> bool \<Rightarrow> bool \<Rightarrow> consumer \<Rightarrow> string \<Rightarrow> client_world
    \<Rightarrow> (bridge_error + session_item list) \<times> client_world" where
  "open_stream cenv playback allow co u w0 =
     (let (now, w) = tick cenv w0 in
      (case fst (vtm_open (ce_urls cenv) (ce_connect cenv (length (cw_opened w))) u (ce_timeout cenv * 10 ^ 9) playback (now * 10 ^ 6)) of
         Inl e \<Rightarrow> Inl e
       | Inr (r, s) \<Rightarrow> Inr (session_items r allow (co_fuel co) (co_payloads co) s),
       w\<lparr>cw_opened := cw_opened w @ [u]\<rparr>))"

definition stream_url :: "client_env \<Rightarrow> camera_config \<Rightarrow> (string \<times> string) option \<Rightarrow> client_world
    \<Rightarrow> (bridge_error + string) \<times> client_world" where
  "stream_url cenv camera span w =
     in_api (cloud_url cenv camera span (ce_wall cenv (length (aw_log (cw_api w))) * 1000)) w"

definition stream_clear :: "client_env \<Rightarrow> camera_config \<Rightarrow> consumer \<Rightarrow> client_world
    \<Rightarrow> (bytes list \<times> (bridge_error + unit)) \<times> client_world" where
  "stream_clear cenv camera co w =
     (case stream_url cenv camera None w of
        (Inl e, w1) \<Rightarrow> (([], Inl e), w1)
      | (Inr u, w1) \<Rightarrow>
          (case open_stream cenv False False co u w1 of
             (Inl e, w2) \<Rightarrow> (([], Inl e), w2)
           | (Inr items, w2) \<Rightarrow> (copy_clear (ce_cipher cenv) (co_accepts co) (co_cancelled co) items, w2)))"

text \<open>One attempt with a code on an open URL.\<close>

definition copy_with_key :: "client_env \<Rightarrow> bool \<Rightarrow> video_key \<Rightarrow> consumer \<Rightarrow> string \<Rightarrow> client_world
    \<Rightarrow> (bytes list \<times> (bridge_error + unit)) \<times> client_world" where
  "copy_with_key cenv playback key co u w =
     (case open_stream cenv playback True co u w of
        (Inl e, w1) \<Rightarrow> (([], Inl e), w1)
      | (Inr items, w1) \<Rightarrow>
          (case rv_encrypted (vk_code key) of
             Inl e \<Rightarrow> (([], Inl e), w1)
           | Inr v \<Rightarrow> (copy_as_mpeg_ts (ce_cipher cenv) (co_accepts co) (co_cancelled co) None items v, w1)))"

fun try_keys :: "client_env \<Rightarrow> camera_config \<Rightarrow> consumer \<Rightarrow> video_key list \<Rightarrow> client_world
    \<Rightarrow> (bytes list \<times> (bridge_error + unit)) \<times> client_world" where
  "try_keys cenv camera co [] w = (([], Inl KeyRejected), w)"
| "try_keys cenv camera co (k # ks) w =
     (case stream_url cenv camera None w of
        (Inl e, w1) \<Rightarrow> (([], Inl e), w1)
      | (Inr u, w1) \<Rightarrow>
          (case copy_with_key cenv False k co u w1 of
             ((sent, res), w2) \<Rightarrow>
               if res = Inl KeyRejected \<and> ks \<noteq> [] \<and> \<not> co_cancelled co
               then (case try_keys cenv camera (co\<lparr>co_accepts := (\<lambda>chunks. co_accepts co (sent @ chunks))\<rparr>) ks w2 of ((later, res'), w3) \<Rightarrow> ((sent @ later, res'), w3))
               else ((sent, res), w2)))"

definition stream_encrypted_video :: "client_env \<Rightarrow> camera_config \<Rightarrow> consumer \<Rightarrow> client_world
    \<Rightarrow> (bytes list \<times> (bridge_error + unit)) \<times> client_world" where
  "stream_encrypted_video cenv camera co w =
     (let (ks, w1) = status_keys cenv camera w in
      if ks = []
      then (([], Inl (Configuration ''encrypted camera has no usable verification code: set verification_code (cloud lookup is limited to once per 24 hours)'')), w1)
      else try_keys cenv camera co ks w1)"

definition stream_mpeg_ps :: "client_env \<Rightarrow> camera_config \<Rightarrow> consumer \<Rightarrow> client_world
    \<Rightarrow> (bytes list \<times> (bridge_error + unit)) \<times> client_world" where
  "stream_mpeg_ps cenv camera co w =
     (let (enc, w1) = video_is_encrypted cenv camera w in
      if enc then stream_encrypted_video cenv camera co w1 else stream_clear cenv camera co w1)"

definition playback_keys :: "client_env \<Rightarrow> camera_config \<Rightarrow> client_world \<Rightarrow> (bridge_error + video_key option) \<times> client_world" where
  "playback_keys cenv camera w =
     (let (enc, w1) = video_is_encrypted cenv camera w in
      if enc
      then let (ks, w2) = status_keys cenv camera w1 in
           (case ks of [] \<Rightarrow> Inl (Configuration ''encrypted camera has no usable verification code'') | k # _ \<Rightarrow> Inr (Some k), w2)
      else (Inr None, w1))"

definition stream_sd :: "client_env \<Rightarrow> camera_config \<Rightarrow> string \<times> string \<Rightarrow> consumer \<Rightarrow> client_world
    \<Rightarrow> (bytes list \<times> (bridge_error + unit)) \<times> client_world" where
  "stream_sd cenv camera span co w =
     (case playback_keys cenv camera w of
        (Inl e, w1) \<Rightarrow> (([], Inl e), w1)
      | (Inr key, w1) \<Rightarrow>
          (case stream_url cenv camera (Some span) w1 of
             (Inl e, w2) \<Rightarrow> (([], Inl e), w2)
           | (Inr u, w2) \<Rightarrow>
               (case key of
                  Some k \<Rightarrow> copy_with_key cenv True k co u w2
                | None \<Rightarrow>
                    (case open_stream cenv True False co u w2 of
                       (Inl e, w3) \<Rightarrow> (([], Inl e), w3)
                     | (Inr items, w3) \<Rightarrow> (copy_clear (ce_cipher cenv) (co_accepts co) (co_cancelled co) items, w3)))))"

section \<open>The resource list\<close>

definition matches :: "string \<Rightarrow> nat \<Rightarrow> json \<Rightarrow> bool" where
  "matches sn chan r \<longleftrightarrow> of_serial sn r \<and> (resource_channel r = Some chan \<or> chan = 1 \<and> resource_channel r = None)"

text \<open>How EZVIZ serves a list in pages.\<close>

definition served_page :: "json list \<Rightarrow> nat \<Rightarrow> json" where
  "served_page rs offset = JObject [(''resourceInfos'', JArray (take VTM_PAGE_SIZE (drop offset rs))),
     (''page'', JObject [(''hasNext'', JBool (offset + VTM_PAGE_SIZE < length rs))])]"

lemma served_page_fields [simp]:
  "json_field (served_page rs offset) ''resourceInfos'' as_array = Some (take VTM_PAGE_SIZE (drop offset rs))"
  "vtm_has_next (served_page rs offset) x = (offset + VTM_PAGE_SIZE < length rs)"
  by (simp_all add: served_page_def vtm_has_next_def json_field_def json_get_def as_array_def as_bool_def)

lemma find_resource_some:
  assumes "json_field page ''resourceInfos'' as_array = Some items"
  shows "case find_resource page sn chan of
      Inr r \<Rightarrow> r \<in> set items \<and> matches sn chan r | Inl _ \<Rightarrow> \<not> (\<exists>r \<in> set items. matches sn chan r)"
proof (cases "find (\<lambda>item. resource_channel item = Some chan) (filter (of_serial sn) items)")
  case (Some r)
  then have "r \<in> set items" "of_serial sn r" "resource_channel r = Some chan"
    by (auto simp: find_Some_iff dest: nth_mem)
  then show ?thesis using assms Some by (simp add: find_resource_def matches_def)
next
  case None
  then have no: "\<not> (\<exists>r \<in> set items. of_serial sn r \<and> resource_channel r = Some chan)"
    by (auto simp: find_None_iff)
  show ?thesis
  proof (cases "chan = 1")
    case True
    let ?legacy = "find (\<lambda>item. of_serial sn item \<and> resource_channel item = None) items"
    have e: "find_resource page sn chan = ok_or ?legacy (Upstream ''camera channel was not found'')"
      using assms None True by (simp add: find_resource_def)
    have "r \<in> set items \<and> of_serial sn r \<and> resource_channel r = None" if "?legacy = Some r" for r
      using that by (auto simp: find_Some_iff)
    moreover have "\<not> (\<exists>r \<in> set items. of_serial sn r \<and> resource_channel r = None)" if "?legacy = None"
      using that by (auto simp: find_None_iff)
    ultimately show ?thesis
      unfolding e using no by (cases ?legacy) (auto simp: True matches_def)
  qed (use assms None no in \<open>auto simp: find_resource_def matches_def\<close>)
qed

lemma resource_pages_found:
  assumes serves: "\<And>k v. fst (get_page k v) = Inr (served_page rs k)" and size: "length rs \<le> USIZE_MAX"
  shows "case fst (resource_pages get_page sn chan left offset w) of
      Inr page \<Rightarrow> (\<exists>r \<in> set (take (VTM_PAGE_SIZE * left) (drop offset rs)). matches sn chan r \<and> find_resource page sn chan = Inr r)
    | Inl _ \<Rightarrow> \<not> (\<exists>r \<in> set (take (VTM_PAGE_SIZE * left) (drop offset rs)). matches sn chan r)"
proof (induction left arbitrary: offset w)
  case (Suc left)
  obtain w1 where g: "get_page offset w = (Inr (served_page rs offset), w1)" using serves by (metis prod.collapse)
  let ?page = "served_page rs offset" and ?items = "take VTM_PAGE_SIZE (drop offset rs)"
  have split_take: "take (VTM_PAGE_SIZE + VTM_PAGE_SIZE * left) (drop offset rs)
      = ?items @ take (VTM_PAGE_SIZE * left) (drop (offset + VTM_PAGE_SIZE) rs)"
    by (simp add: take_add add.commute)
  show ?case
  proof (cases "find_resource ?page sn chan")
    case (Inr r)
    then show ?thesis
      using find_resource_some [OF served_page_fields(1) [of rs offset], of sn chan] by (auto simp: g split_take)
  next
    case (Inl e)
    then have none: "\<not> (\<exists>r \<in> set ?items. matches sn chan r)"
      using find_resource_some [OF served_page_fields(1) [of rs offset], of sn chan] by simp
    show ?thesis
    proof (cases "offset + VTM_PAGE_SIZE < length rs")
      case True
      then have len: "length ?items = VTM_PAGE_SIZE" by simp
      have next_offset: "sat_add offset VTM_PAGE_SIZE = offset + VTM_PAGE_SIZE"
        using True size by (intro sat_add_exact) simp
      have pos: "VTM_PAGE_SIZE \<noteq> 0" by (simp add: VTM_PAGE_SIZE_def)
      have "resource_pages get_page sn chan (Suc left) offset w
          = resource_pages get_page sn chan left (offset + VTM_PAGE_SIZE) w1"
        using Inl True len pos by (simp add: g next_offset)
      then show ?thesis
        using Suc.IH [of "offset + VTM_PAGE_SIZE" w1] none by (auto simp: split_take split: sum.splits)
    next
      case False
      then show ?thesis using Inl none by (simp add: g split_take)
    qed
  qed
qed simp

text \<open>Looking up a camera: against a list served in pages of 50, the lookup finds a resource of the right
  serial and channel exactly when one of the first two thousand resources is one; a resource without a channel
  counts as channel 1.\<close>

theorem resource_lookup_complete:
  assumes "\<And>k v. fst (get_page k v) = Inr (served_page rs k)" and "length rs \<le> USIZE_MAX"
  shows "case fst (resource_pages get_page sn chan VTM_MAX_PAGES 0 w) of
      Inr page \<Rightarrow> (\<exists>r \<in> set (take 2000 rs). matches sn chan r \<and> find_resource page sn chan = Inr r)
    | Inl _ \<Rightarrow> \<not> (\<exists>r \<in> set (take 2000 rs). matches sn chan r)"
proof -
  have "VTM_PAGE_SIZE * VTM_MAX_PAGES = 2000" by (simp add: VTM_PAGE_SIZE_def VTM_MAX_PAGES_def)
  then show ?thesis
    using resource_pages_found [where get_page = get_page and rs = rs, OF assms, where left = VTM_MAX_PAGES and offset = 0]
    by (simp only: drop_0)
qed

definition demo_resource :: "string \<Rightarrow> int \<Rightarrow> json" where
  "demo_resource sn n = JObject [(''deviceSerial'', JString sn), (''channelNo'', JInt n)]"

definition demo_resources :: "json list" where
  "demo_resources = replicate 55 (demo_resource ''A'' 3) @ [demo_resource ''B'' 2]"

theorem resource_lookup_complete_witness:
  "(\<forall>k v. fst ((\<lambda>k v. (Inr (served_page demo_resources k), v)) k v) = (Inr (served_page demo_resources k) :: bridge_error + json))
   \<and> length demo_resources \<le> USIZE_MAX
   \<and> (case fst (resource_pages (\<lambda>k v. (Inr (served_page demo_resources k), v)) ''B'' 2 VTM_MAX_PAGES 0 ()) of
        Inr page \<Rightarrow> find_resource page ''B'' 2 = Inr (demo_resource ''B'' 2) | Inl _ \<Rightarrow> False)"
proof -
  let ?get = "\<lambda>k v :: unit. (Inr (served_page demo_resources k) :: bridge_error + json, v)"
  have size: "length demo_resources \<le> USIZE_MAX" by (simp add: demo_resources_def USIZE_MAX_def)
  have m: "\<exists>r \<in> set (take 2000 demo_resources). matches ''B'' 2 r"
    "\<forall>r \<in> set (take 2000 demo_resources). matches ''B'' 2 r \<longrightarrow> r = demo_resource ''B'' 2"
    by code_simp+
  have "case fst (resource_pages ?get ''B'' 2 VTM_MAX_PAGES 0 ()) of
      Inr page \<Rightarrow> (\<exists>r \<in> set (take 2000 demo_resources). matches ''B'' 2 r \<and> find_resource page ''B'' 2 = Inr r)
    | Inl _ \<Rightarrow> \<not> (\<exists>r \<in> set (take 2000 demo_resources). matches ''B'' 2 r)"
    by (rule resource_lookup_complete) (simp_all add: size)
  then show ?thesis using m size by (auto split: sum.splits)
qed

section \<open>The order of an allocation\<close>

lemma resource_pages_sends:
  assumes "\<And>k v. sends env P 2 v (snd (get_page k v))"
  shows "sends env P (2 * left) w (snd (resource_pages get_page sn chan left offset w))"
proof (induction left arbitrary: offset w)
  case (Suc left)
  obtain res w1 where g: "get_page offset w = (res, w1)" by fastforce
  then have one: "sends env P 2 w w1" using assms [of w offset] by simp
  have more: "sends env P (2 * Suc left) w v" if "sends env P (2 * left) w1 v" for v
    using sends_trans [OF one that] by simp
  show ?case
    using more [OF Suc.IH] sends_mono [OF one, of P "2 * Suc left"] by (simp add: g Let_def split: sum.splits)
qed (simp add: sends_nothing)

lemma resource_page_sends: "sends env (\<lambda>p. p = PAGELIST_PATH) 80 w (snd (resource_page env sn chan w))"
  using resource_pages_sends [OF api_json_sends, where left = VTM_MAX_PAGES]
  by (simp add: resource_page_def VTM_MAX_PAGES_def)

lemma observe_log [simp]: "aw_log (observe env w) = aw_log w"
  by (simp add: observe_def)

definition asks_for_token :: "client_env \<Rightarrow> wire_request \<Rightarrow> bool" where
  "asks_for_token cenv r \<longleftrightarrow> (\<exists>t address sign. r = vtdu_request (ce_api cenv) t address sign
     \<and> auth_address (ce_url_host cenv) t = Inr address)"

lemma asks_for_tokenI:
  "auth_address (ce_url_host cenv) t = Inr address \<Longrightarrow> asks_for_token cenv (vtdu_request (ce_api cenv) t address sign)"
  unfolding asks_for_token_def by blast

lemma vtdu_token_sends:
  assumes "vtdu_token cenv w = (res, w')"
  shows "(isl res \<and> aw_log w' = aw_log w) \<or> (\<exists>r. asks_for_token cenv r \<and> aw_log w' = aw_log w @ [r])"
  using assms by (auto simp: vtdu_token_def Let_def result_simps intro: asks_for_tokenI split: sum.splits prod.splits)

definition allocated :: "client_env \<Rightarrow> camera_config \<Rightarrow> bool \<Rightarrow> wire_request list \<Rightarrow> bool" where
  "allocated cenv camera success rs \<longleftrightarrow> (\<exists>pages token server. rs = pages @ token @ server
     \<and> list_all (\<lambda>r. wq_path r = PAGELIST_PATH) pages \<and> length pages \<le> 80
     \<and> list_all (asks_for_token cenv) token \<and> length token \<le> 1
     \<and> list_all (\<lambda>r. wq_path r = vtm_path camera) server \<and> length server \<le> 2 * length token
     \<and> (if success then length token = 1 \<and> server \<noteq> [] else True))"

lemma allocatedI:
  assumes "list_all (\<lambda>r. wq_path r = PAGELIST_PATH) pages" "length pages \<le> 80"
    and "list_all (asks_for_token cenv) token" "length token \<le> 1"
    and "list_all (\<lambda>r. wq_path r = vtm_path camera) server" "length server \<le> 2 * length token"
    and "if success then length token = 1 \<and> server \<noteq> [] else True"
  shows "allocated cenv camera success (pages @ token @ server)"
  using assms unfolding allocated_def by blast

lemma cloud_url_allocates:
  assumes "cloud_url cenv camera span now_ms w = (res, w')"
  shows "\<exists>rs. aw_log w' = aw_log w @ rs \<and> allocated cenv camera (\<not> isl res) rs"
proof -
  obtain pres w1 where p: "resource_page (ce_api cenv) (serial camera) (camera_config.channel camera) w = (pres, w1)" by fastforce
  obtain pages where pages: "aw_log w1 = aw_log w @ pages" "length pages \<le> 80" "list_all (\<lambda>r. wq_path r = PAGELIST_PATH) pages"
    using resource_page_sends [of "ce_api cenv" w "serial camera" "camera_config.channel camera"]
    by (auto simp: p sends_def list_all_iff)
  obtain tres w2 where t: "vtdu_token cenv w1 = (tres, w2)" by fastforce
  obtain ares w3 where a: "api_json (ce_api cenv) GET (vtm_path camera) [] w2 = (ares, w3)" by fastforce
  obtain server where server: "aw_log w3 = aw_log w2 @ server" "length server \<le> 2" "server \<noteq> []"
      "list_all (\<lambda>r. wq_path r = vtm_path camera) server"
    using api_json_sends [of "ce_api cenv" "vtm_path camera" w2 GET "[]"] api_json_asks [of "ce_api cenv" GET "vtm_path camera" "[]" w2]
    by (auto simp: a sends_def list_all_iff)
  have stop1: "\<exists>rs. aw_log w1 = aw_log w @ rs \<and> allocated cenv camera False rs"
    using pages allocatedI [of pages cenv "[]" camera "[]" False] by auto
  show ?thesis
  proof (cases "w' = w1 \<and> isl res")
    case True
    then show ?thesis using stop1 by simp
  next
    case False
    then have rest: "(w' = w2 \<and> isl tres \<and> isl res) \<or> (w' = w3 \<and> \<not> isl tres)"
      using assms by (auto simp: cloud_url_def Let_def p t a split: sum.splits prod.splits)
    obtain token where token: "aw_log w2 = aw_log w1 @ token" "length token \<le> 1" "list_all (asks_for_token cenv) token"
      "\<not> isl tres \<longrightarrow> length token = 1"
    proof -
      from vtdu_token_sends [OF t] show ?thesis
      proof
        assume "isl tres \<and> aw_log w2 = aw_log w1"
        then show ?thesis using that [of "[]"] by simp
      next
        assume "\<exists>r. asks_for_token cenv r \<and> aw_log w2 = aw_log w1 @ [r]"
        then show ?thesis using that by force
      qed
    qed
    from rest show ?thesis
    proof
      assume "w' = w2 \<and> isl tres \<and> isl res"
      then show ?thesis
        using pages token allocatedI [of pages cenv token camera "[]" False] by auto
    next
      assume "w' = w3 \<and> \<not> isl tres"
      then show ?thesis
        using pages token server allocatedI [of pages cenv token camera server "\<not> isl res"] by auto
    qed
  qed
qed

text \<open>Stream allocation: the resource list is read first, then at most one one-shot token is requested from
  the authentication service of the session, and the request for the stream server follows it at once with nothing in
  between; an address is returned only after both.\<close>

theorem allocation_order:
  "case cloud_url cenv camera span now_ms w of (res, w') \<Rightarrow>
     \<exists>rs. aw_log w' = aw_log w @ rs \<and> allocated cenv camera (\<not> isl res) rs"
proof -
  obtain res w' where c: "cloud_url cenv camera span now_ms w = (res, w')" by fastforce
  from cloud_url_allocates [OF this] show ?thesis by (simp add: c)
qed

section \<open>The verification code is asked for behind its guard\<close>

definition keyless :: "wire_request list \<Rightarrow> bool" where
  "keyless rs \<longleftrightarrow> list_all (\<lambda>r. wq_path r \<noteq> ENCRYPT_KEY_PATH) rs"

text \<open>A stretch of work that leaves the guard alone and does not ask for a code.\<close>

definition quiet :: "client_world \<Rightarrow> client_world \<Rightarrow> bool" where
  "quiet w w' \<longleftrightarrow> cw_guard w' = cw_guard w \<and> (\<exists>rs. aw_log (cw_api w') = aw_log (cw_api w) @ rs \<and> keyless rs)"

lemma quiet_same: "cw_guard w' = cw_guard w \<Longrightarrow> cw_api w' = cw_api w \<Longrightarrow> quiet w w'"
  by (simp add: quiet_def keyless_def)

lemma quiet_refl [simp]: "quiet w w"
  by (simp add: quiet_same)

lemma quiet_trans: "quiet w v \<Longrightarrow> quiet v u \<Longrightarrow> quiet w u"
  unfolding quiet_def keyless_def by fastforce

lemma quiet_in_api:
  assumes "sends env P n (cw_api w) (snd (f (cw_api w)))" "\<not> P ENCRYPT_KEY_PATH"
  shows "quiet w (snd (in_api f w))"
  using assms unfolding quiet_def in_api_def sends_def keyless_def
  by (fastforce simp: list_all_iff split: prod.splits)

lemma quiet_tick: "quiet w (snd (tick cenv w))"
  by (simp add: quiet_same tick_def)

lemma PAGELIST_not_key: "PAGELIST_PATH \<noteq> ENCRYPT_KEY_PATH"
  by (simp add: PAGELIST_PATH_def ENCRYPT_KEY_PATH_def)

lemma status_pages_sends:
  assumes "\<And>k v. sends env P 2 v (snd (get_page k v))"
  shows "sends env P (2 * left) w (snd (status_pages lib get_page sn left offset w))"
proof (induction left arbitrary: offset w)
  case (Suc left)
  obtain res w1 where g: "get_page offset w = (res, w1)" by fastforce
  then have one: "sends env P 2 w w1" using assms [of w offset] by simp
  have more: "sends env P (2 * Suc left) w v" if "sends env P (2 * left) w1 v" for v
    using sends_trans [OF one that] by simp
  show ?case
    using more [OF Suc.IH] sends_mono [OF one, of P "2 * Suc left"] by (simp add: g split: sum.splits option.splits)
qed (simp add: sends_nothing)

lemma quiet_fetch_status: "quiet w (snd (fetch_status cenv sn w))"
  unfolding fetch_status_def
  by (rule quiet_in_api [where env = "ce_api cenv" and P = "\<lambda>p. p = PAGELIST_PATH"], rule status_pages_sends, rule message_json_sends)
    (use PAGELIST_not_key in auto)

lemma quiet_store: "quiet w (store_status sn until st w)"
  by (simp add: quiet_same store_status_def)

lemma quiet_cached_status: "quiet w (snd (cached_status cenv camera w))"
proof -
  obtain now w1 where t: "tick cenv w = (now, w1)" by fastforce
  obtain res w2 where f: "fetch_status cenv (serial camera) w1 = (res, w2)" by fastforce
  obtain later w3 where l: "tick cenv w2 = (later, w3)" by fastforce
  have "quiet w w1" "quiet w1 w2" "quiet w2 w3"
    using quiet_tick [of w cenv] quiet_fetch_status [of w1 cenv "serial camera"] quiet_tick [of w2 cenv] by (simp_all add: t f l)
  then have "quiet w w1" "quiet w (store_status sn until st w3)" for sn until st
    using quiet_trans quiet_store by blast+
  then show ?thesis
    by (auto simp: cached_status_def Let_def t f l split: option.splits)
qed

lemma quiet_video_is_encrypted: "quiet w (snd (video_is_encrypted cenv camera w))"
proof -
  obtain res w1 where c: "cached_status cenv camera w = (res, w1)" by fastforce
  have one: "quiet w w1" using quiet_cached_status [of w cenv camera] by (simp add: c)
  have "quiet w (w1\<lparr>cw_status := x\<rparr>)" for x
    using one by (simp add: quiet_def)
  moreover have "quiet v (mark_status_unavailable cenv sn v)" for v sn
    by (auto simp: mark_status_unavailable_def Let_def intro!: quiet_same split: prod.splits)
      (auto simp: store_status_def tick_def)
  ultimately show ?thesis
    using one by (auto simp: video_is_encrypted_def Let_def c intro: quiet_trans split: prod.splits)
qed

lemma quiet_stream_url: "quiet w (snd (stream_url cenv camera span w))"
proof -
  obtain res a where c: "cloud_url cenv camera span (ce_wall cenv (length (aw_log (cw_api w))) * 1000) (cw_api w) = (res, a)"
    by fastforce
  obtain rs where rs: "aw_log a = aw_log (cw_api w) @ rs" "allocated cenv camera (\<not> isl res) rs"
    using cloud_url_allocates [OF c] by blast
  have "vtm_path camera \<noteq> ENCRYPT_KEY_PATH" by (simp add: vtm_path_def ENCRYPT_KEY_PATH_def)
  moreover have "wq_path r \<noteq> ENCRYPT_KEY_PATH" if "asks_for_token cenv r" for r
    using that by (auto simp: asks_for_token_def vtdu_request_def request_def ENCRYPT_KEY_PATH_def)
  ultimately have "keyless rs"
    using rs(2) PAGELIST_not_key by (auto simp: allocated_def keyless_def list_all_iff)
  then show ?thesis using rs by (simp add: stream_url_def in_api_def c quiet_def)
qed

lemma quiet_open_stream: "quiet w (snd (open_stream cenv playback allow co u w))"
  by (auto simp: open_stream_def Let_def tick_def intro!: quiet_same split: prod.splits sum.splits)

lemma quiet_copy_with_key: "quiet w (snd (copy_with_key cenv playback k co u w))"
  using quiet_open_stream [of w cenv playback True co u]
  by (auto simp: copy_with_key_def split: prod.splits sum.splits)

lemma quiet_stream_clear: "quiet w (snd (stream_clear cenv camera co w))"
proof -
  obtain res w1 where u: "stream_url cenv camera None w = (res, w1)" by fastforce
  have one: "quiet w w1" using quiet_stream_url [of w cenv camera None] by (simp add: u)
  have "quiet w v" if "open_stream cenv False False co x w1 = (y, v)" for x y v
    using quiet_trans [OF one quiet_open_stream [of w1 cenv False False co x]] that by simp
  then show ?thesis
    using one by (auto simp: stream_clear_def u split: prod.splits sum.splits)
qed

lemma quiet_try_keys: "quiet w (snd (try_keys cenv camera co ks w))"
proof (induction ks arbitrary: co w)
  case (Cons k ks)
  obtain res w1 where u: "stream_url cenv camera None w = (res, w1)" by fastforce
  have one: "quiet w w1" using quiet_stream_url [of w cenv camera None] by (simp add: u)
  have two: "quiet w v" if "copy_with_key cenv False k co x w1 = (y, v)" for x y v
    using quiet_trans [OF one quiet_copy_with_key [of w1 cenv False k co x]] that by simp
  have three: "quiet w z" if "copy_with_key cenv False k co x w1 = (y, v)" "try_keys cenv camera co' ks v = (y', z)"
    for x y v co' y' z
    using quiet_trans [OF two [OF that(1)] Cons.IH [of v co']] that(2) by simp
  show ?case
    using one two three by (auto simp: u split: prod.splits sum.splits)
qed simp

text \<open>Asking for a code: only when no local code fits and the guard let the lookup begin.\<close>

definition may_ask :: "client_env \<Rightarrow> camera_config \<Rightarrow> cloud_guard \<Rightarrow> bool" where
  "may_ask cenv camera g \<longleftrightarrow> cached (ce_sha cenv) (serial camera) g = None
     \<and> (\<exists>hash. option_key (ce_md5_hex cenv) (key_reading cenv camera) hash = None)
     \<and> (\<exists>outcome now g'. begin_lookup (ce_sha cenv) outcome (serial camera) now g = (Inr (), g'))"

definition guarded_code :: "client_env \<Rightarrow> camera_config \<Rightarrow> client_world \<Rightarrow> client_world \<Rightarrow> bool" where
  "guarded_code cenv camera w w' \<longleftrightarrow> (\<exists>pre codes post. aw_log (cw_api w') = aw_log (cw_api w) @ pre @ codes @ post
     \<and> keyless pre \<and> keyless post \<and> list_all (\<lambda>r. wq_path r = ENCRYPT_KEY_PATH) codes \<and> length codes \<le> 2
     \<and> (codes = [] \<or> may_ask cenv camera (cw_guard w)))"

lemma keyless_append [simp]: "keyless (a @ b) \<longleftrightarrow> keyless a \<and> keyless b" "keyless []"
  by (simp_all add: keyless_def)

lemma quiet_guarded: "quiet w w' \<Longrightarrow> guarded_code cenv camera w w'"
  unfolding quiet_def guarded_code_def
  by (elim conjE exE) (rename_tac rs, rule_tac x = rs in exI, rule exI [of _ "[]"], rule exI [of _ "[]"], simp)

lemma guarded_between:
  assumes "quiet w v" "guarded_code cenv camera v v'" "quiet v' w'"
  shows "guarded_code cenv camera w w'"
proof -
  obtain a where a: "cw_guard v = cw_guard w" "aw_log (cw_api v) = aw_log (cw_api w) @ a" "keyless a"
    using assms(1) by (auto simp: quiet_def)
  obtain b where b: "aw_log (cw_api w') = aw_log (cw_api v') @ b" "keyless b" using assms(3) by (auto simp: quiet_def)
  obtain pre codes post where g: "aw_log (cw_api v') = aw_log (cw_api v) @ pre @ codes @ post" "keyless pre" "keyless post"
    "list_all (\<lambda>r. wq_path r = ENCRYPT_KEY_PATH) codes" "length codes \<le> 2"
    "codes = [] \<or> may_ask cenv camera (cw_guard v)"
    using assms(2) unfolding guarded_code_def by blast
  have "aw_log (cw_api w') = aw_log (cw_api w) @ (a @ pre) @ codes @ (post @ b)" using a b g by simp
  then show ?thesis
    unfolding guarded_code_def using a b g(2-6)
    by (intro exI [of _ "a @ pre"] exI [of _ codes] exI [of _ "post @ b"]) simp
qed

lemma request_camera_key_sends:
  "sends env (\<lambda>p. p = ENCRYPT_KEY_PATH) 2 w (snd (request_camera_key env sn w))"
proof -
  let ?b = "with_form (\<lambda>t. [(''checkcode'', []), (''serial'', sn), (''clientNo'', ''web_site''), (''clientType'', ''3''),
    (''netType'', ''WIFI''), (''featureCode'', feature_of t), (''sessionId'', session_id t)])"
  obtain res w' where c: "authed_call env POST ENCRYPT_KEY_PATH ?b w = (res, w')" by fastforce
  have "fair_builder ?b" by (simp add: fair_builder_def with_form_def)
  from authed_call_sends [OF this c] show ?thesis by (simp add: request_camera_key_def c)
qed

text \<open>The lookup is the guarded one of the cloud key component, with the answer of this request.\<close>

lemma camera_key_is_fetch:
  assumes "n = length (aw_log (cw_api w))"
  shows "\<exists>asked. fetch (ce_sha cenv) (ce_writes cenv n) (ce_writes cenv (Suc n)) sn (ce_wall cenv n)
      (fst (request_camera_key (ce_api cenv) sn (cw_api w))) (cw_guard w)
    = (fst (camera_key cenv sn w), cw_guard (snd (camera_key cenv sn w)), asked)"
  using assms
  by (auto simp: fetch_def camera_key_def in_api_def Let_def split: option.splits prod.splits sum.splits)

lemma client_keys_guarded: "guarded_code cenv camera w (snd (client_keys cenv camera st w))"
proof (cases "option_key (ce_md5_hex cenv) (key_reading cenv camera) (Option.bind st encrypt_pwd_hash)")
  case (Some k)
  then show ?thesis by (simp add: client_keys_def quiet_guarded)
next
  case None
  have "guarded_code cenv camera w (snd (camera_key cenv (serial camera) w))"
  proof (cases "\<exists>g. cached (ce_sha cenv) (serial camera) (cw_guard w) = None
      \<and> begin_lookup (ce_sha cenv) (ce_writes cenv (length (aw_log (cw_api w)))) (serial camera)
          (ce_wall cenv (length (aw_log (cw_api w)))) (cw_guard w) = (Inr (), g)")
    case True
    then obtain g where g: "cached (ce_sha cenv) (serial camera) (cw_guard w) = None"
      "begin_lookup (ce_sha cenv) (ce_writes cenv (length (aw_log (cw_api w)))) (serial camera)
          (ce_wall cenv (length (aw_log (cw_api w)))) (cw_guard w) = (Inr (), g)" by blast
    obtain answer a where r: "request_camera_key (ce_api cenv) (serial camera) (cw_api w) = (answer, a)" by fastforce
    obtain codes where "aw_log a = aw_log (cw_api w) @ codes" "length codes \<le> 2"
        "list_all (\<lambda>r. wq_path r = ENCRYPT_KEY_PATH) codes"
      using request_camera_key_sends [of "ce_api cenv" "cw_api w" "serial camera"] by (auto simp: r sends_def list_all_iff)
    moreover have "cw_api (snd (camera_key cenv (serial camera) w)) = a"
      using g r by (simp add: camera_key_def in_api_def split: prod.splits)
    ultimately show ?thesis
      unfolding guarded_code_def using None g
      by (intro exI [of _ "[]"] exI [of _ codes]) (auto simp: may_ask_def)
  next
    case False
    have "cw_api (snd (camera_key cenv (serial camera) w)) = cw_api w"
      using False by (auto simp: camera_key_def Let_def split: option.splits prod.splits sum.splits)
    then show ?thesis unfolding guarded_code_def by (intro exI [of _ "[]"]) simp
  qed
  then show ?thesis using None by (cases "camera_key cenv (serial camera) w") (simp add: client_keys_def)
qed

lemma status_keys_guarded: "guarded_code cenv camera w (snd (status_keys cenv camera w))"
proof -
  obtain res w1 where c: "cached_status cenv camera w = (res, w1)" by fastforce
  have "quiet w w1" using quiet_cached_status [of w cenv camera] by (simp add: c)
  from guarded_between [OF this client_keys_guarded quiet_refl] show ?thesis by (simp add: status_keys_def c)
qed

lemma snapshot_guarded: "guarded_code cenv camera w (snd (snapshot_jpeg cenv camera w))"
proof -
  obtain res w1 where c: "in_api (api_json (ce_api cenv) PUT (capture_path camera) []) w = (res, w1)" by fastforce
  have "capture_path camera \<noteq> ENCRYPT_KEY_PATH" by (simp add: capture_path_def ENCRYPT_KEY_PATH_def)
  then have one: "quiet w w1"
    using quiet_in_api [where f = "api_json (ce_api cenv) PUT (capture_path camera) []" and w = w, OF api_json_sends]
    by (simp add: c)
  have two: "guarded_code cenv camera w (snd (decrypt_snapshot cenv camera data w1))" for data
    using guarded_between [OF one status_keys_guarded [of cenv camera w1] quiet_refl]
    by (cases "status_keys cenv camera w1") (simp add: decrypt_snapshot_def)
  have two': "guarded_code cenv camera w v" if "decrypt_snapshot cenv camera data w1 = (x, v)" for data x v
    using two [of data] that by simp
  show ?thesis
    using quiet_guarded [OF one] two' by (auto simp: snapshot_jpeg_def c split: sum.splits prod.splits)
qed

lemma encrypted_guarded: "guarded_code cenv camera w (snd (stream_encrypted_video cenv camera co w))"
proof -
  obtain ks w1 where k: "status_keys cenv camera w = (ks, w1)" by fastforce
  have one: "guarded_code cenv camera w w1" using status_keys_guarded [of cenv camera w] by (simp add: k)
  then have "guarded_code cenv camera w (snd (try_keys cenv camera co ks w1))"
    using guarded_between [OF quiet_refl one quiet_try_keys] by simp
  with one show ?thesis by (simp add: stream_encrypted_video_def k)
qed

lemma live_guarded: "guarded_code cenv camera w (snd (stream_mpeg_ps cenv camera co w))"
proof -
  obtain enc w1 where v: "video_is_encrypted cenv camera w = (enc, w1)" by fastforce
  have one: "quiet w w1" using quiet_video_is_encrypted [of w cenv camera] by (simp add: v)
  show ?thesis
    using guarded_between [OF one encrypted_guarded quiet_refl] quiet_guarded [OF quiet_trans [OF one quiet_stream_clear]]
    by (simp add: stream_mpeg_ps_def v)
qed

lemma playback_keys_guarded: "guarded_code cenv camera w (snd (playback_keys cenv camera w))"
proof -
  obtain enc w1 where v: "video_is_encrypted cenv camera w = (enc, w1)" by fastforce
  have one: "quiet w w1" using quiet_video_is_encrypted [of w cenv camera] by (simp add: v)
  obtain ks w2 where k: "status_keys cenv camera w1 = (ks, w2)" by fastforce
  have "guarded_code cenv camera w w2"
    using guarded_between [OF one status_keys_guarded quiet_refl] by (metis k snd_conv)
  then show ?thesis using quiet_guarded [OF one] by (simp add: playback_keys_def v k)
qed

lemma playback_guarded: "guarded_code cenv camera w (snd (stream_sd cenv camera span co w))"
proof -
  obtain res w1 where p: "playback_keys cenv camera w = (res, w1)" by fastforce
  have one: "guarded_code cenv camera w w1" using playback_keys_guarded [of cenv camera w] by (simp add: p)
  obtain ures w2 where u: "stream_url cenv camera (Some span) w1 = (ures, w2)" by fastforce
  have q2: "quiet w1 w2" using quiet_stream_url [of w1 cenv camera "Some span"] by (simp add: u)
  have q3: "quiet w1 v" if "open_stream cenv True False co x w2 = (y, v)" for x y v
    using quiet_trans [OF q2 quiet_open_stream [of w2 cenv True False co x]] that by simp
  have q4: "quiet w1 (snd (copy_with_key cenv True k co x w2))" for k x
    using quiet_trans [OF q2 quiet_copy_with_key] .
  have "quiet w1 (snd (stream_sd cenv camera span co w))"
    using q2 q3 q4 by (auto simp: stream_sd_def p u split: sum.splits option.splits prod.splits)
  then show ?thesis by (rule guarded_between [OF quiet_refl one])
qed


section \<open>Starting\<close>

lemma start_waits:
  "case start_loop env outcomes fuel i (min (START_RETRY * 2 ^ i) START_RETRY_MAX) w of (res, waits, _) \<Rightarrow>
     waits = map (\<lambda>j. min (START_RETRY * 2 ^ (i + j)) START_RETRY_MAX) [0..<length waits]
     \<and> length waits \<le> fuel \<and> (res = None) = (length waits = fuel)"
proof (induction fuel arbitrary: i w)
  case (Suc fuel)
  have step: "min (min (START_RETRY * 2 ^ i) START_RETRY_MAX * 2) START_RETRY_MAX = min (START_RETRY * 2 ^ Suc i) START_RETRY_MAX"
    by (simp add: START_RETRY_def START_RETRY_MAX_def min_def)
  obtain r w1 where once: "start_once env (outcomes i) w = (r, w1)" by fastforce
  show ?case
  proof (cases "\<exists>e. r = Inl e \<and> e \<noteq> ReauthRequired")
    case True
    then obtain e where e: "r = Inl e" "e \<noteq> ReauthRequired" by blast
    obtain res waits w2 where l: "start_loop env outcomes fuel (Suc i) (min (START_RETRY * 2 ^ Suc i) START_RETRY_MAX) w1
        = (res, waits, w2)" by (metis prod_cases3)
    have ih: "waits = map (\<lambda>j. min (START_RETRY * 2 ^ (Suc i + j)) START_RETRY_MAX) [0..<length waits]"
      "length waits \<le> fuel" "(res = None) = (length waits = fuel)"
      using Suc.IH [of "Suc i" w1] unfolding l by simp_all
    have "[0..<Suc (length waits)] = 0 # map Suc [0..<length waits]" by (simp add: map_Suc_upt upt_conv_Cons del: upt_Suc)
    then have "map (\<lambda>j. min (START_RETRY * 2 ^ (i + j)) START_RETRY_MAX) [0..<Suc (length waits)]
        = min (START_RETRY * 2 ^ i) START_RETRY_MAX # waits"
      using ih(1) by (simp add: comp_def)
    then show ?thesis using e ih(2,3) once by (simp add: step l del: power_Suc upt_Suc)
  next
    case False
    then show ?thesis using once by (auto split: sum.splits)
  qed
qed simp

end
