(* ===== verification/Scene_Pull.thy ===== *)
theory Scene_Pull
  imports Ezviz_Session Ordered_Map
begin

text \<open>
  The archive client: one recording is created on the bridge, downloaded, verified, committed, acknowledged
  (\<open>scenetrove.rs\<close>, \<open>scenetrove_transfer.rs\<close>), with a receipt that survives a crash (\<open>scenetrove_receipt.rs\<close>),
  and the media formats it accepts (\<open>media_format.rs\<close>).

  A pull runs in a world of the destination directory (regular files by name, receipts by name), the clock
  (milliseconds) and a log of what it did. The bridge, the file system and the libraries are a \<open>pull_env\<close>: the
  answer to each request with the time it takes, and the outcome of each file operation. A path is a directory and
  a name; partial files are only seen through their operations.
\<close>

section \<open>Media formats\<close>

definition PS_PACK_START :: bytes where "PS_PACK_START = [0x00, 0x00, 0x01, 0xba]"
definition TS_PACKET_BYTES :: nat where "TS_PACKET_BYTES = 188"
definition PROBE_BYTES :: nat where "PROBE_BYTES = TS_PACKET_BYTES * 3"

datatype media_format = ProgramStream | TransportStream

definition from_media_type :: "string \<Rightarrow> bridge_error + media_format" where
  "from_media_type v =
     (if v = ''video/mpeg'' then Inr ProgramStream else if v = ''video/mp2t'' then Inr TransportStream
      else Inl (Upstream ''recording media type is unsupported''))"

fun format_extension :: "media_format \<Rightarrow> string" where
  "format_extension ProgramStream = ''mpegps''"
| "format_extension TransportStream = ''ts''"

fun matches_prefix :: "media_format \<Rightarrow> bytes \<Rightarrow> bool" where
  "matches_prefix ProgramStream v = starts_with v PS_PACK_START"
| "matches_prefix TransportStream v =
     (TS_PACKET_BYTES * 2 < length v \<and> v ! 0 = 0x47 \<and> v ! TS_PACKET_BYTES = 0x47 \<and> v ! (TS_PACKET_BYTES * 2) = 0x47)"

definition detect_format :: "bytes \<Rightarrow> media_format option" where
  "detect_format v = find (\<lambda>f. matches_prefix f v) [ProgramStream, TransportStream]"

section \<open>Requests\<close>

record pull_request =
  pr_base :: string
  pr_camera :: string
  pr_duration :: nat
  pr_sd :: "(int \<times> int) option"
  pr_key :: string
  pr_token :: "string \<times> secret_file option"
  pr_destination :: string
  pr_timeout :: nat
  pr_max_bytes :: nat

record pull_result =
  res_id :: string
  res_path :: "string \<times> string"
  res_bytes :: nat
  res_sha :: string

record pull_manifest =
  pm_id :: string
  pm_status :: string
  pm_completed :: "string option"
  pm_bytes :: "nat option"
  pm_sha :: "string option"
  pm_error :: "string option"
  pm_media_type :: string
  pm_sd_start :: "int option"

record base_url =
  bu_scheme :: string
  bu_username :: string
  bu_password :: "string option"
  bu_query :: "string option"
  bu_fragment :: "string option"
  bu_path :: string

datatype bridge_call =
    CreateRecording string string "(int \<times> int) + nat"
  | RecordingStatus string
  | RecordingMedia string
  | DeleteRecording string
  | ListRecords string string

record bridge_answer =
  ba_response :: response
  ba_content_type :: "string option"

record local_file =
  lf_regular :: bool
  lf_data :: bytes

datatype pull_event = Asked bridge_call | Saved pull_result | GaveUp string

record pull_world =
  pw_now :: nat
  pw_calls :: nat
  pw_files :: "(string, local_file) btree"
  pw_receipts :: "(string, bridge_error + pull_result) btree"
  pw_log :: "pull_event list"

record pull_env =
  pe_url :: "string \<Rightarrow> base_url option"
  pe_join :: "base_url \<Rightarrow> bridge_call \<Rightarrow> bool"
  pe_send :: "nat \<Rightarrow> bridge_call \<Rightarrow> (bridge_error + bridge_answer) \<times> nat"
  pe_status_text :: "nat \<Rightarrow> string"
  pe_manifest :: "bytes \<Rightarrow> pull_manifest option"
  pe_uuid :: "string \<Rightarrow> string option"
  pe_stamp :: "int \<Rightarrow> string option"
  pe_completed :: "string \<Rightarrow> string option"
  pe_sha :: "bytes \<Rightarrow> string"
  pe_make_dir :: "bridge_error + unit"
  pe_partial :: "bridge_error + unit"
  pe_rename :: "bridge_error + unit"
  pe_sync :: "bridge_error + unit"
  pe_receipt :: write_outcome
  pe_remove :: "io_error_kind + unit"

definition validated_base_url :: "pull_env \<Rightarrow> string \<Rightarrow> bridge_error + base_url" where
  "validated_base_url env v =
     try_bind (ok_or (pe_url env v) (Configuration ''base URL must be absolute HTTP(S)'')) (\<lambda>u.
       if bu_scheme u \<notin> {''http'', ''https''} \<or> bu_username u \<noteq> [] \<or> bu_password u \<noteq> None \<or> bu_query u \<noteq> None
          \<or> bu_fragment u \<noteq> None
       then Inl (Configuration ''base URL cannot contain credentials, query or fragment'')
       else Inr (if ends_with (bu_path u) ''/'' then u else u\<lparr>bu_path := bu_path u @ ''/''\<rparr>))"

section \<open>Exchanges\<close>

type_synonym 'a pulling = "pull_world \<Rightarrow> (bridge_error + 'a) \<times> pull_world"

definition pull_bind :: "'a pulling \<Rightarrow> ('a \<Rightarrow> 'b pulling) \<Rightarrow> 'b pulling" where
  "pull_bind m f w = (case m w of (Inl e, w') \<Rightarrow> (Inl e, w') | (Inr x, w') \<Rightarrow> f x w')"

definition pull_lift :: "bridge_error + 'a \<Rightarrow> 'a pulling" where
  "pull_lift r w = (r, w)"

definition JSON_LIMIT :: nat where "JSON_LIMIT = 1024 * 1024"

definition ask :: "pull_env \<Rightarrow> base_url \<Rightarrow> string \<Rightarrow> bridge_call \<Rightarrow> bridge_answer pulling" where
  "ask env base refused call w =
     (if \<not> pe_join env base call then (Inl (Configuration refused), w)
      else let (res, took) = pe_send env (pw_calls w) call in
           (res, w\<lparr>pw_calls := Suc (pw_calls w), pw_now := pw_now w + took, pw_log := pw_log w @ [Asked call]\<rparr>))"

fun whole_body :: "(http_error + bytes) list \<Rightarrow> bridge_error + bytes" where
  "whole_body [] = Inr []"
| "whole_body (Inl e # cs) = Inl (Http e)"
| "whole_body (Inr c # cs) = try_bind (whole_body cs) (\<lambda>rest. Inr (c @ rest))"

definition bounded_json :: "pull_env \<Rightarrow> bridge_answer \<Rightarrow> bridge_error + pull_manifest" where
  "bounded_json env a =
     (if \<not> is_success (rs_status (ba_response a))
      then Inl (Upstream (''bridge returned HTTP '' @ pe_status_text env (rs_status (ba_response a))))
      else try_bind (whole_body (rs_chunks (ba_response a))) (\<lambda>raw.
             if JSON_LIMIT < length raw then Inl (Upstream ''bridge JSON exceeded its bound'')
             else ok_or (pe_manifest env raw) Json))"

definition ack_recording :: "pull_env \<Rightarrow> base_url \<Rightarrow> string \<Rightarrow> unit pulling" where
  "ack_recording env base i = pull_bind (ask env base ''ACK URL is invalid'' (DeleteRecording i)) (\<lambda>a.
     pull_lift (if rs_status (ba_response a) \<noteq> 204
                then Inl (Upstream (''recording ACK returned HTTP '' @ pe_status_text env (rs_status (ba_response a))))
                else Inr ()))"

text \<open>The download: the number of bytes, the probe and the bytes written so far.\<close>

fun download_chunks :: "nat \<Rightarrow> nat \<Rightarrow> bytes \<Rightarrow> bytes \<Rightarrow> (http_error + bytes) list \<Rightarrow> bridge_error + nat \<times> bytes \<times> bytes" where
  "download_chunks limit written probe data [] = Inr (written, probe, data)"
| "download_chunks limit written probe data (Inl e # cs) = Inl (Http e)"
| "download_chunks limit written probe data (Inr c # cs) =
     (let written' = sat_add written (length c) in
      if limit < written' then Inl (Capacity ''recording exceeded download byte bound'')
      else download_chunks limit written'
             (if length probe < PROBE_BYTES then probe @ take (PROBE_BYTES - length probe) c else probe) (data @ c) cs)"

definition download_media :: "pull_env \<Rightarrow> bridge_answer \<Rightarrow> nat \<Rightarrow> media_format \<Rightarrow> bridge_error + nat \<times> string \<times> bytes" where
  "download_media env a limit fmt =
     try_bind (pe_partial env) (\<lambda>_.
     try_bind (download_chunks limit 0 [] [] (rs_chunks (ba_response a))) (\<lambda>(written, probe, data).
       if \<not> matches_prefix fmt probe
       then Inl (Upstream ''recording does not match its declared media format'')
       else Inr (written, pe_sha env data, data)))"

section \<open>Receipts\<close>

definition receipt_name :: "pull_env \<Rightarrow> string \<Rightarrow> string" where
  "receipt_name env key = ''.ezviz-ack-'' @ pe_sha env (str_bytes key) @ ''.json''"

definition invalid_receipt :: bridge_error where
  "invalid_receipt = Recording ''ACK receipt does not match committed local media''"

definition verify_committed :: "pull_env \<Rightarrow> string \<Rightarrow> pull_result \<Rightarrow> pull_world \<Rightarrow> bridge_error + unit" where
  "verify_committed env destination r w =
     (if fst (res_path r) \<noteq> destination then Inl invalid_receipt
      else case bt_get (pw_files w) (snd (res_path r)) of
             None \<Rightarrow> Inl (Io NotFound)
           | Some f \<Rightarrow>
               if \<not> lf_regular f \<or> detect_format (take PROBE_BYTES (lf_data f)) = None
                  \<or> sat_add 0 (length (lf_data f)) \<noteq> res_bytes r \<or> pe_sha env (lf_data f) \<noteq> res_sha r
               then Inl invalid_receipt else Inr ())"

definition recover_receipt :: "pull_env \<Rightarrow> string \<Rightarrow> string \<Rightarrow> pull_result option pulling" where
  "recover_receipt env name destination w =
     (case bt_get (pw_receipts w) name of
        None \<Rightarrow> (Inr None, w)
      | Some (Inl e) \<Rightarrow> (Inl e, w)
      | Some (Inr r) \<Rightarrow>
          (case verify_committed env destination r w of
             Inl e \<Rightarrow> (Inl e, w)
           | Inr _ \<Rightarrow> (Inr (Some r), w\<lparr>pw_log := pw_log w @ [Saved r]\<rparr>)))"

definition remove_receipt :: "pull_env \<Rightarrow> string \<Rightarrow> unit pulling" where
  "remove_receipt env name w =
     (case pe_remove env of
        Inl k \<Rightarrow> if k = NotFound then (pe_sync env, w) else (Inl (Io k), w)
      | Inr _ \<Rightarrow> (pe_sync env, w\<lparr>pw_receipts := bt_remove name (pw_receipts w)\<rparr>))"

section \<open>Pulling\<close>

text \<open>Waiting for the recording: every turn sleeps half a second.\<close>

function wait_recording :: "pull_env \<Rightarrow> base_url \<Rightarrow> nat \<Rightarrow> pull_manifest \<Rightarrow> pull_manifest pulling" where
  "wait_recording env base deadline m w =
     (if pm_status m \<in> {''ready'', ''failed''} then (Inr m, w)
      else if deadline \<le> pw_now w then (Inl (Upstream ''recording did not finish before deadline''), w)
      else case ask env base ''status URL is invalid'' (RecordingStatus (pm_id m)) (w\<lparr>pw_now := pw_now w + 500\<rparr>) of
             (Inl e, w1) \<Rightarrow> (Inl e, w1)
           | (Inr a, w1) \<Rightarrow>
               (case bounded_json env a of
                  Inl e \<Rightarrow> (Inl e, w1)
                | Inr m1 \<Rightarrow> wait_recording env base deadline m1 w1))"
  by pat_completeness auto
termination
  by (relation "measure (\<lambda>(env, base, deadline, m, w). deadline - pw_now w)")
    (auto simp: ask_def Let_def split: if_splits prod.splits)

declare wait_recording.simps [simp del]

definition release_failed :: "pull_env \<Rightarrow> base_url \<Rightarrow> pull_manifest \<Rightarrow> pull_result pulling" where
  "release_failed env base m w =
     (let (_, w1) = ack_recording env base (pm_id m) (w\<lparr>pw_log := pw_log w @ [GaveUp (pm_id m)]\<rparr>) in
      (Inl (Upstream (''bridge recording failed: '' @ (case pm_error m of Some e \<Rightarrow> e | None \<Rightarrow> ''unknown''))), w1))"

text \<open>What a finished manifest promises: size, digest, format and the name of the file.\<close>

definition expected_media :: "pull_env \<Rightarrow> pull_request \<Rightarrow> pull_manifest \<Rightarrow> string
    \<Rightarrow> bridge_error + nat \<times> string \<times> media_format \<times> string" where
  "expected_media env req m uuid =
     try_bind (ok_or (case pm_bytes m of Some n \<Rightarrow> if 0 < n \<and> n \<le> pr_max_bytes req then Some n else None | None \<Rightarrow> None)
         (Upstream ''recording byte bound is invalid'')) (\<lambda>size.
     try_bind (ok_or (case pm_sha m of Some d \<Rightarrow> if length d = 64 then Some d else None | None \<Rightarrow> None)
         (Upstream ''recording digest is invalid'')) (\<lambda>digest.
     try_bind (ok_or (pm_completed m) (Upstream ''recording completion time is missing'')) (\<lambda>completed.
     try_bind (case pm_sd_start m of
                 Some start \<Rightarrow> ok_or (pe_stamp env start) (Upstream ''microSD start time is invalid'')
               | None \<Rightarrow> ok_or (pe_completed env completed) (Upstream ''recording completion time is invalid'')) (\<lambda>stamp.
     try_bind (from_media_type (pm_media_type m)) (\<lambda>fmt.
       Inr (size, digest, fmt, ''hiv'' @ stamp @ ''-'' @ uuid @ ''.'' @ format_extension fmt))))))"

definition content_type_of :: "bridge_answer \<Rightarrow> string" where
  "content_type_of a = (case ba_content_type a of Some v \<Rightarrow> hd (split_char CHR '';'' v) | None \<Rightarrow> [])"

text \<open>The rename, the sync of the directory and the receipt.\<close>

definition commit_media :: "pull_env \<Rightarrow> string \<Rightarrow> string \<Rightarrow> bytes \<Rightarrow> pull_result \<Rightarrow> unit pulling" where
  "commit_media env receipt filename data r w =
     (case pe_rename env of
        Inl e \<Rightarrow> (Inl e, w)
      | Inr _ \<Rightarrow>
          let w1 = w\<lparr>pw_files := bt_insert filename \<lparr>lf_regular = True, lf_data = data\<rparr> (pw_files w)\<rparr> in
          (case pe_sync env of
             Inl e \<Rightarrow> (Inl e, w1)
           | Inr _ \<Rightarrow>
               let (res, stored) = atomic_write_json (pe_receipt env) (Inr r) (bt_get (pw_receipts w1) receipt);
                   w2 = w1\<lparr>pw_receipts := (case stored of Some v \<Rightarrow> bt_insert receipt v (pw_receipts w1) | None \<Rightarrow> pw_receipts w1)\<rparr>
               in (case res of Inl e \<Rightarrow> (Inl e, w2) | Inr _ \<Rightarrow> (Inr (), w2\<lparr>pw_log := pw_log w2 @ [Saved r]\<rparr>))))"

definition fetch_media :: "pull_env \<Rightarrow> base_url \<Rightarrow> pull_request \<Rightarrow> pull_manifest \<Rightarrow> string \<Rightarrow> pull_result pulling" where
  "fetch_media env base req m uuid =
     pull_bind (pull_lift (expected_media env req m uuid)) (\<lambda>(size, digest, fmt, filename).
     pull_bind (ask env base ''media URL is invalid'' (RecordingMedia (pm_id m))) (\<lambda>a.
       if rs_status (ba_response a) \<noteq> 200 then pull_lift (Inl (Upstream ''media download failed''))
       else if content_type_of a \<noteq> pm_media_type m
       then pull_lift (Inl (Upstream ''recording response media type does not match its manifest''))
       else pull_bind (pull_lift (download_media env a (pr_max_bytes req) fmt)) (\<lambda>(written, actual, data).
         if written \<noteq> size \<or> actual \<noteq> digest
         then pull_lift (Inl (Upstream ''recording media does not match its manifest''))
         else let r = \<lparr>res_id = pm_id m, res_path = (pr_destination req, filename), res_bytes = written, res_sha = actual\<rparr>
              in pull_bind (commit_media env (receipt_name env (pr_key req)) filename data r) (\<lambda>_. pull_lift (Inr r)))))"

text \<open>The acknowledgement and the end of the receipt.\<close>

definition settle :: "pull_env \<Rightarrow> base_url \<Rightarrow> string \<Rightarrow> pull_result \<Rightarrow> pull_result pulling" where
  "settle env base receipt r =
     pull_bind (ack_recording env base (res_id r)) (\<lambda>_. pull_bind (remove_receipt env receipt) (\<lambda>_. pull_lift (Inr r)))"

definition recording_file_id :: "pull_env \<Rightarrow> string \<Rightarrow> bridge_error + string" where
  "recording_file_id env i = ok_or (pe_uuid env i) (Upstream ''bridge recording id is invalid'')"

definition create_call :: "pull_request \<Rightarrow> bridge_call" where
  "create_call req = CreateRecording (pr_camera req) (pr_key req)
     (case pr_sd req of Some interval \<Rightarrow> Inl interval | None \<Rightarrow> Inr (pr_duration req))"

definition pull_fresh :: "pull_env \<Rightarrow> base_url \<Rightarrow> pull_request \<Rightarrow> pull_result pulling" where
  "pull_fresh env base req =
     pull_bind (ask env base ''recording URL is invalid'' (create_call req)) (\<lambda>a.
     pull_bind (pull_lift (bounded_json env a)) (\<lambda>m0 w.
     pull_bind (wait_recording env base (pw_now w + pr_timeout req * 1000) m0) (\<lambda>m.
     pull_bind (pull_lift (recording_file_id env (pm_id m))) (\<lambda>uuid.
       if pm_status m \<noteq> ''ready'' then release_failed env base m
       else pull_bind (fetch_media env base req m uuid) (settle env base (receipt_name env (pr_key req))))) w))"

definition pull :: "pull_env \<Rightarrow> pull_request \<Rightarrow> pull_result pulling" where
  "pull env req =
     pull_bind (pull_lift (validated_base_url env (pr_base req))) (\<lambda>base.
     pull_bind (pull_lift (ensure_private_regular (fst (pr_token req)) (snd (pr_token req)) 32)) (\<lambda>_.
     pull_bind (pull_lift (pe_make_dir env)) (\<lambda>_.
     pull_bind (recover_receipt env (receipt_name env (pr_key req)) (pr_destination req)) (\<lambda>found.
       case found of
         Some r \<Rightarrow> settle env base (receipt_name env (pr_key req)) r
       | None \<Rightarrow> pull_fresh env base req))))"

section \<open>What a pull leaves\<close>

lemma pull_bind_simps [simp]: "pull_bind (pull_lift (Inr x)) f w = f x w" "pull_bind (pull_lift (Inl e)) f w = (Inl e, w)"
  by (simp_all add: pull_bind_def pull_lift_def)

text \<open>Requests that release nothing.\<close>

definition plain :: "pull_event list \<Rightarrow> bool" where
  "plain es \<longleftrightarrow> list_all (\<lambda>e. case e of Asked (DeleteRecording _) \<Rightarrow> False | Asked _ \<Rightarrow> True | _ \<Rightarrow> False) es"

text \<open>Every deletion follows the verified copy of that recording, or the failure the bridge reported for it.\<close>

fun acks_covered :: "string list \<Rightarrow> pull_event list \<Rightarrow> bool" where
  "acks_covered ids [] = True"
| "acks_covered ids (Saved r # es) = acks_covered (res_id r # ids) es"
| "acks_covered ids (GaveUp i # es) = acks_covered (i # ids) es"
| "acks_covered ids (Asked c # es) = ((case c of DeleteRecording i \<Rightarrow> i \<in> set ids | _ \<Rightarrow> True) \<and> acks_covered ids es)"

lemma acks_covered_plain: "plain es \<Longrightarrow> acks_covered ids (es @ fs) = acks_covered ids fs"
  by (induction es) (auto simp: plain_def split: pull_event.splits bridge_call.splits)

definition committed :: "pull_env \<Rightarrow> string \<Rightarrow> pull_world \<Rightarrow> pull_result \<Rightarrow> bool" where
  "committed env destination w r \<longleftrightarrow> fst (res_path r) = destination \<and> (\<exists>f. bt_get (pw_files w) (snd (res_path r)) = Some f
     \<and> lf_regular f \<and> detect_format (take PROBE_BYTES (lf_data f)) \<noteq> None
     \<and> sat_add 0 (length (lf_data f)) = res_bytes r \<and> pe_sha env (lf_data f) = res_sha r)"

definition asks :: "pull_world \<Rightarrow> pull_world \<Rightarrow> bool" where
  "asks w w' \<longleftrightarrow> pw_files w' = pw_files w \<and> (\<exists>es. pw_log w' = pw_log w @ es \<and> plain es)"

lemma asks_refl [simp]: "asks w w"
  by (simp add: asks_def plain_def)

lemma asks_trans: "asks w v \<Longrightarrow> asks v u \<Longrightarrow> asks w u"
  unfolding asks_def plain_def by fastforce

lemma asks_clock [simp]: "asks (w\<lparr>pw_now := t\<rparr>) w' \<longleftrightarrow> asks w w'"
  by (simp add: asks_def)

lemma ask_asks: "ask env base x c w = (res, w') \<Longrightarrow> (\<forall>i. c \<noteq> DeleteRecording i) \<Longrightarrow> asks w w'"
  by (cases c) (auto simp: ask_def asks_def plain_def Let_def split: if_splits prod.splits)

lemma wait_recording_asks: "wait_recording env base deadline m w = (res, w') \<Longrightarrow> asks w w'"
proof (induction env base deadline m w rule: wait_recording.induct)
  case (1 env base deadline m w)
  show ?case
  proof (cases "pm_status m \<in> {''ready'', ''failed''} \<or> deadline \<le> pw_now w")
    case True
    then show ?thesis
      using "1.prems" by (subst (asm) wait_recording.simps) (simp split: if_splits)
  next
    case False
    obtain ares w1 where a: "ask env base ''status URL is invalid'' (RecordingStatus (pm_id m)) (w\<lparr>pw_now := pw_now w + 500\<rparr>) = (ares, w1)"
      by fastforce
    have one: "asks w w1" using ask_asks [OF a] by simp
    show ?thesis
    proof (cases "\<exists>x m1. ares = Inr x \<and> bounded_json env x = Inr m1")
      case True
      then obtain x m1 where m1: "ares = Inr x" "bounded_json env x = Inr m1" by blast
      have "wait_recording env base deadline m1 w1 = (res, w')"
        using "1.prems" False a m1 by (subst (asm) wait_recording.simps) simp
      then have "asks w1 w'" using "1.IH" False a m1 by force
      with one show ?thesis by (rule asks_trans)
    next
      case unread: False
      have "w' = w1"
      proof (cases ares)
        case (Inl e)
        then show ?thesis using "1.prems" False a by (subst (asm) wait_recording.simps) simp
      next
        case (Inr x)
        then obtain e where "bounded_json env x = Inl e" using unread by (cases "bounded_json env x") auto
        then show ?thesis using "1.prems" False a Inr by (subst (asm) wait_recording.simps) simp
      qed
      with one show ?thesis by simp
    qed
  qed
qed

lemma ack_recording_log:
  assumes "ack_recording env base i w = (res, w')"
  shows "pw_files w' = pw_files w \<and> pw_receipts w' = pw_receipts w \<and> (pw_log w' = pw_log w \<or> pw_log w' = pw_log w @ [Asked (DeleteRecording i)])"
  using assms by (auto simp: ack_recording_def pull_bind_def pull_lift_def ask_def Let_def split: sum.splits prod.splits if_splits)

lemma settle_log:
  assumes "settle env base receipt r w = (res, w')"
  shows "pw_files w' = pw_files w \<and> (pw_log w' = pw_log w \<or> pw_log w' = pw_log w @ [Asked (DeleteRecording (res_id r))])
    \<and> (\<forall>x. res = Inr x \<longrightarrow> x = r)"
proof -
  obtain ares w1 where a: "ack_recording env base (res_id r) w = (ares, w1)" by fastforce
  note log = ack_recording_log [OF a]
  have "pw_files w' = pw_files w1 \<and> pw_log w' = pw_log w1 \<and> (\<forall>x. res = Inr x \<longrightarrow> x = r)"
    using assms a
    by (auto simp: settle_def pull_bind_def pull_lift_def remove_receipt_def split: sum.splits if_splits prod.splits)
  with log show ?thesis by simp
qed

lemma sat_add_chain: "sat_add (sat_add 0 n) k = sat_add 0 (n + k)"
  by (simp add: sat_add_def min_def)

lemma download_chunks_exact:
  "download_chunks limit written probe data cs = Inr (written', probe', data') \<Longrightarrow>
   written = sat_add 0 (length data) \<Longrightarrow> probe = take PROBE_BYTES data \<Longrightarrow>
   written' = sat_add 0 (length data') \<and> probe' = take PROBE_BYTES data'"
proof (induction limit written probe data cs rule: download_chunks.induct)
  case (3 limit written probe data c cs)
  have "(if length probe < PROBE_BYTES then probe @ take (PROBE_BYTES - length probe) c else probe) = take PROBE_BYTES (data @ c)"
    using "3.prems"(3) by (auto simp: min_def)
  moreover have "sat_add written (length c) = sat_add 0 (length (data @ c))"
    using "3.prems"(2) sat_add_chain by simp
  ultimately show ?case using 3 by (simp add: Let_def split: if_splits)
qed auto

lemma download_media_exact:
  assumes "download_media env a limit fmt = Inr (written, digest, data)"
  shows "written = sat_add 0 (length data) \<and> digest = pe_sha env data \<and> detect_format (take PROBE_BYTES data) \<noteq> None"
proof -
  obtain probe where d: "download_chunks limit 0 [] [] (rs_chunks (ba_response a)) = Inr (written, probe, data)"
    and p: "matches_prefix fmt probe" "digest = pe_sha env data"
    using assms by (auto simp: download_media_def result_simps split: if_splits)
  have "written = sat_add 0 (length data) \<and> probe = take PROBE_BYTES data"
    using download_chunks_exact [OF d] by (simp add: sat_add_def USIZE_MAX_def)
  with p show ?thesis by (cases fmt) (auto simp: detect_format_def)
qed

lemma commit_media_log:
  assumes "commit_media env receipt filename data r w = (res, w')"
  shows "case res of
      Inl _ \<Rightarrow> pw_log w' = pw_log w
    | Inr _ \<Rightarrow> pw_log w' = pw_log w @ [Saved r] \<and> bt_get (pw_files w') filename = Some \<lparr>lf_regular = True, lf_data = data\<rparr>"
  using assms by (auto simp: commit_media_def Let_def split: sum.splits prod.splits)

lemma fetch_media_log:
  assumes "fetch_media env base req m uuid w = (res, w')"
  shows "\<exists>es. plain es \<and> (case res of
      Inl _ \<Rightarrow> pw_log w' = pw_log w @ es
    | Inr r \<Rightarrow> pw_log w' = pw_log w @ es @ [Saved r] \<and> committed env (pr_destination req) w' r)"
proof (cases "expected_media env req m uuid")
  case (Inl e)
  then show ?thesis using assms by (auto simp: fetch_media_def plain_def intro: exI [of _ "[]"])
next
  case (Inr x)
  obtain size digest fmt filename where x: "x = (size, digest, fmt, filename)" by (metis prod_cases4)
  obtain ares w1 where a: "ask env base ''media URL is invalid'' (RecordingMedia (pm_id m)) w = (ares, w1)" by fastforce
  obtain es where es: "pw_log w1 = pw_log w @ es" "plain es"
    using ask_asks [OF a] by (auto simp: asks_def)
  show ?thesis
  proof (cases "\<exists>b written data. ares = Inr b \<and> rs_status (ba_response b) = 200 \<and> content_type_of b = pm_media_type m
      \<and> download_media env b (pr_max_bytes req) fmt = Inr (written, digest, data) \<and> written = size")
    case False
    then have "w' = w1 \<and> isl res"
      using assms Inr x a
      by (auto simp: fetch_media_def pull_bind_def pull_lift_def split: sum.splits prod.splits if_splits)
    then show ?thesis using es by (cases res) auto
  next
    case True
    then obtain b data where b: "ares = Inr b" "rs_status (ba_response b) = 200" "content_type_of b = pm_media_type m"
      "download_media env b (pr_max_bytes req) fmt = Inr (size, digest, data)" by blast
    let ?r = "\<lparr>res_id = pm_id m, res_path = (pr_destination req, filename), res_bytes = size, res_sha = digest\<rparr>"
    obtain cres w2 where c: "commit_media env (receipt_name env (pr_key req)) filename data ?r w1 = (cres, w2)" by fastforce
    have run: "w' = w2 \<and> res = (case cres of Inl e \<Rightarrow> Inl e | Inr _ \<Rightarrow> Inr ?r)"
      using assms Inr x a b c by (auto simp: fetch_media_def pull_bind_def pull_lift_def Let_def split: sum.splits)
    show ?thesis
      using commit_media_log [OF c] download_media_exact [OF b(4)] run es
      by (cases cres) (auto simp: committed_def intro!: exI [of _ es])
  qed
qed

text \<open>The log of a pull that started with nothing recorded.\<close>

definition pull_safe :: "pull_env \<Rightarrow> string \<Rightarrow> pull_world \<Rightarrow> pull_world \<Rightarrow> bridge_error + pull_result \<Rightarrow> bool" where
  "pull_safe env destination w w' res \<longleftrightarrow> (\<exists>es. pw_log w' = pw_log w @ es \<and> acks_covered [] es
     \<and> list_all (\<lambda>e. case e of Saved r \<Rightarrow> committed env destination w' r | _ \<Rightarrow> True) es
     \<and> (case res of Inr r \<Rightarrow> Saved r \<in> set es | Inl _ \<Rightarrow> True))"

lemma plain_safe:
  assumes "pw_log w' = pw_log w @ es" "plain es"
  shows "pull_safe env destination w w' (Inl e)"
proof -
  have "list_all (\<lambda>e. case e of Saved r \<Rightarrow> committed env destination w' r | _ \<Rightarrow> True) es"
    using assms(2) by (auto simp: plain_def list_all_iff split: pull_event.splits)
  then show ?thesis
    using assms acks_covered_plain [OF assms(2), of "[]" "[]"] unfolding pull_safe_def by auto
qed

lemma settled_safe:
  assumes "pw_log w1 = pw_log w @ es @ [Saved r]" "plain es" "committed env destination w1 r"
    and "settle env base receipt r w1 = (res, w')"
  shows "pull_safe env destination w w' res"
proof -
  note s = settle_log [OF assms(4)]
  have c: "committed env destination w' r" using s assms(3) by (simp add: committed_def)
  have all: "list_all (\<lambda>e. case e of Saved r \<Rightarrow> committed env destination w' r | _ \<Rightarrow> True) es"
    using assms(2) by (auto simp: plain_def list_all_iff split: pull_event.splits)
  obtain fs where fs: "pw_log w' = pw_log w @ es @ Saved r # fs" "fs = [] \<or> fs = [Asked (DeleteRecording (res_id r))]"
    using s assms(1) by auto
  have "acks_covered [] (es @ Saved r # fs)" using acks_covered_plain [OF assms(2)] fs(2) by auto
  moreover have "list_all (\<lambda>e. case e of Saved r \<Rightarrow> committed env destination w' r | _ \<Rightarrow> True) (es @ Saved r # fs)"
    using all c fs(2) by auto
  moreover have "case res of Inr x \<Rightarrow> Saved x \<in> set (es @ Saved r # fs) | Inl _ \<Rightarrow> True"
    using s by (auto split: sum.splits)
  ultimately show ?thesis unfolding pull_safe_def using fs(1) by blast
qed

lemma release_failed_safe:
  assumes "pw_log w1 = pw_log w @ es" "plain es" "release_failed env base m w1 = (res, w')"
  shows "pull_safe env destination w w' res"
proof -
  let ?w = "w1\<lparr>pw_log := pw_log w1 @ [GaveUp (pm_id m)]\<rparr>"
  obtain x v where a: "ack_recording env base (pm_id m) ?w = (x, v)" by fastforce
  then have r: "w' = v" "isl res" using assms(3) by (auto simp: release_failed_def)
  obtain fs where fs: "pw_log w' = pw_log w @ es @ GaveUp (pm_id m) # fs" "fs = [] \<or> fs = [Asked (DeleteRecording (pm_id m))]"
    using ack_recording_log [OF a] assms(1) r(1) by auto
  have "acks_covered [] (es @ GaveUp (pm_id m) # fs)" using acks_covered_plain [OF assms(2)] fs(2) by auto
  moreover have "list_all (\<lambda>e. case e of Saved r \<Rightarrow> committed env destination w' r | _ \<Rightarrow> True) (es @ GaveUp (pm_id m) # fs)"
    using assms(2) fs(2) by (auto simp: plain_def list_all_iff split: pull_event.splits)
  ultimately show ?thesis unfolding pull_safe_def using fs(1) r(2) by (cases res) auto
qed

lemma pull_fresh_safe:
  assumes "pull_fresh env base req w = (res, w')"
  shows "pull_safe env (pr_destination req) w w' res"
proof -
  obtain ares w1 where a: "ask env base ''recording URL is invalid'' (create_call req) w = (ares, w1)" by fastforce
  have one: "asks w w1" by (rule ask_asks [OF a]) (simp add: create_call_def)
  have stopped: "pull_safe env (pr_destination req) w v (Inl e)" if "asks w v" for v e
    using that plain_safe by (auto simp: asks_def)
  show ?thesis
  proof (cases "\<exists>b m0. ares = Inr b \<and> bounded_json env b = Inr m0")
    case False
    then have "w' = w1 \<and> isl res"
      using assms a by (auto simp: pull_fresh_def pull_bind_def pull_lift_def split: sum.splits)
    then show ?thesis using stopped [OF one] by (cases res) auto
  next
    case True
    then obtain b m0 where b: "ares = Inr b" "bounded_json env b = Inr m0" by blast
    obtain mres w2 where m: "wait_recording env base (pw_now w1 + pr_timeout req * 1000) m0 w1 = (mres, w2)" by fastforce
    have two: "asks w w2" using asks_trans [OF one wait_recording_asks [OF m]] .
    then obtain es where es: "pw_log w2 = pw_log w @ es" "plain es" by (auto simp: asks_def)
    show ?thesis
    proof (cases "\<exists>x uuid. mres = Inr x \<and> recording_file_id env (pm_id x) = Inr uuid")
      case False
      then have "w' = w2 \<and> isl res"
        using assms a b m by (auto simp: pull_fresh_def pull_bind_def pull_lift_def split: sum.splits)
      then show ?thesis using stopped [OF two] by (cases res) auto
    next
      case True
      then obtain x uuid where x: "mres = Inr x" "recording_file_id env (pm_id x) = Inr uuid" by blast
      show ?thesis
      proof (cases "pm_status x = ''ready''")
        case False
        then have "release_failed env base x w2 = (res, w')"
          using assms a b m x by (simp add: pull_fresh_def pull_bind_def pull_lift_def)
        then show ?thesis by (rule release_failed_safe [OF es])
      next
        case True
        obtain fres w3 where f: "fetch_media env base req x uuid w2 = (fres, w3)" by fastforce
        obtain fs where fs: "plain fs" "case fres of Inl _ \<Rightarrow> pw_log w3 = pw_log w2 @ fs
            | Inr r \<Rightarrow> pw_log w3 = pw_log w2 @ fs @ [Saved r] \<and> committed env (pr_destination req) w3 r"
          using fetch_media_log [OF f] by blast
        have pl: "plain (es @ fs)" using es(2) fs(1) by (simp add: plain_def)
        show ?thesis
        proof (cases fres)
          case (Inl e)
          then have "w' = w3 \<and> res = Inl e"
            using assms a b m x True f by (simp add: pull_fresh_def pull_bind_def pull_lift_def)
          then show ?thesis using plain_safe [OF _ pl, of w3 w] fs(2) es(1) Inl by simp
        next
          case (Inr r)
          then have "settle env base (receipt_name env (pr_key req)) r w3 = (res, w')"
            using assms a b m x True f by (simp add: pull_fresh_def pull_bind_def pull_lift_def)
          then show ?thesis using settled_safe [OF _ pl, of w3 w r env "pr_destination req"] fs(2) es(1) Inr by simp
        qed
      qed
    qed
  qed
qed

lemma verify_committed_Inr: "verify_committed env destination r w = Inr u \<Longrightarrow> committed env destination w r"
  by (auto simp: verify_committed_def committed_def split: if_splits option.splits)


end
