(* ===== verification/Scene_Sd.thy ===== *)
theory Scene_Sd
  imports Scene_Pull
begin

text \<open>
  The import of one day of microSD clips into an archive folder (\<open>scenetrove_sd.rs\<close>): the day's records, the
  ledger of clips that are done, failed attempts and wake-ups, and one pull per clip. The listing, the ledger file
  and the directory are arguments; the pulls are those of the archive client. Sums of instants stay below the
  largest 64-bit value except where the code saturates.
\<close>

section \<open>The ledger\<close>

definition FAILED :: string where "FAILED = ''bridge recording failed: ''"
definition OFFLINE :: string where "OFFLINE = ''bridge recording failed: camera_offline''"
definition KEY_REFUSED :: string where "KEY_REFUSED = ''bridge returned HTTP 400''"
definition STILL_RUNNING :: string where "STILL_RUNNING = ''recording did not finish before deadline''"
definition MAX_ATTEMPTS :: nat where "MAX_ATTEMPTS = 3"

record ledger =
  ld_done :: "(string, unit) btree"
  ld_attempts :: "(string, nat) btree"
  ld_wakes :: "(string, nat) btree"

definition ledger_default :: ledger where
  "ledger_default = \<lparr>ld_done = [], ld_attempts = [], ld_wakes = []\<rparr>"

definition finish :: "string \<Rightarrow> ledger \<Rightarrow> ledger" where
  "finish clip l = \<lparr>ld_done = bt_insert clip () (ld_done l), ld_attempts = bt_remove clip (ld_attempts l),
     ld_wakes = bt_remove clip (ld_wakes l)\<rparr>"

definition clip_done :: "string \<Rightarrow> ledger \<Rightarrow> bool" where
  "clip_done clip l \<longleftrightarrow> bt_get (ld_done l) clip \<noteq> None"

definition count_of :: "(string, nat) btree \<Rightarrow> string \<Rightarrow> nat" where
  "count_of m clip = (case bt_get m clip of Some n \<Rightarrow> n | None \<Rightarrow> 0)"

text \<open>What the error of a pull means for its clip.\<close>

datatype clip_failure = Gone | Asleep | Retry | StillRunning | StopRun

definition classify_failure :: "bridge_error \<Rightarrow> clip_failure" where
  "classify_failure e = (case e of
     Upstream detail \<Rightarrow>
       if ends_with detail ''sd_no_recording'' then Gone
       else if detail = OFFLINE then Asleep
       else if starts_with detail FAILED \<or> starts_with detail KEY_REFUSED then Retry
       else if detail = STILL_RUNNING then StillRunning
       else StopRun
   | _ \<Rightarrow> StopRun)"

definition after_failure :: "string \<Rightarrow> clip_failure \<Rightarrow> ledger \<Rightarrow> ledger" where
  "after_failure clip failure l = (case failure of
     Gone \<Rightarrow> finish clip l
   | Asleep \<Rightarrow> l\<lparr>ld_wakes := bt_insert clip (count_of (ld_wakes l) clip + 1) (ld_wakes l)\<rparr>
   | Retry \<Rightarrow> if MAX_ATTEMPTS \<le> count_of (ld_attempts l) clip + 1 then finish clip l
              else l\<lparr>ld_attempts := bt_insert clip (count_of (ld_attempts l) clip + 1) (ld_attempts l)\<rparr>
   | StillRunning \<Rightarrow> l
   | StopRun \<Rightarrow> l)"

section \<open>A run\<close>

record sd_day =
  sd_date :: string
  sd_max_clips :: nat
  sd_max_seconds :: int

record sd_env =
  sv_pull :: pull_env
  sv_records :: "bytes \<Rightarrow> (int \<times> int) list option"
  sv_read_dir :: "bridge_error + unit"
  sv_write :: "nat \<Rightarrow> write_outcome"

record sd_world =
  sw_pull :: pull_world
  sw_ledger :: "(bridge_error + ledger) option"
  sw_writes :: nat

definition sat_i64 :: "int \<Rightarrow> int" where
  "sat_i64 n = max (- (2 ^ 63)) (min n (2 ^ 63 - 1))"

definition clip_name :: "string \<Rightarrow> int \<times> int \<Rightarrow> string" where
  "clip_name camera r = ''sd-'' @ camera @ ''-'' @ show_int (fst r) @ ''-'' @ show_int (snd r)"

definition clip_end :: "int \<Rightarrow> int \<times> int \<Rightarrow> int" where
  "clip_end max_seconds r = max (min (snd r) (sat_i64 (fst r + max_seconds))) (fst r + 1)"

definition clip_key :: "string \<Rightarrow> int \<Rightarrow> ledger \<Rightarrow> string" where
  "clip_key clip stop l = clip @ ''-e'' @ show_int stop @ ''-a'' @ show_nat (count_of (ld_attempts l) clip)
     @ ''-w'' @ show_nat (count_of (ld_wakes l) clip)"

definition already_imported :: "sd_env \<Rightarrow> int \<Rightarrow> pull_world \<Rightarrow> bridge_error + bool" where
  "already_imported env start w = (case pe_stamp (sv_pull env) start of
     None \<Rightarrow> Inr False
   | Some stamp \<Rightarrow> try_bind (sv_read_dir env) (\<lambda>_.
       Inr (list_ex (\<lambda>(name, _). starts_with name (''hiv'' @ stamp @ ''-'')) (pw_files w))))"

definition save_ledger :: "sd_env \<Rightarrow> ledger \<Rightarrow> sd_world \<Rightarrow> (bridge_error + unit) \<times> sd_world" where
  "save_ledger env l w =
     (let (res, f) = atomic_write_json (sv_write env (sw_writes w)) (Inr l) (sw_ledger w)
      in (res, w\<lparr>sw_ledger := f, sw_writes := Suc (sw_writes w)\<rparr>))"

definition attempt_clip :: "sd_env \<Rightarrow> pull_request \<Rightarrow> sd_day \<Rightarrow> int \<times> int \<Rightarrow> ledger \<Rightarrow> sd_world
    \<Rightarrow> (bridge_error + pull_result) \<times> sd_world" where
  "attempt_clip env template day r l w =
     (let stop = clip_end (sd_max_seconds day) r;
          (res, p) = pull (sv_pull env) (template\<lparr>pr_sd := Some (fst r, stop),
            pr_key := clip_key (clip_name (pr_camera template) r) stop l\<rparr>) (sw_pull w)
      in (res, w\<lparr>sw_pull := p\<rparr>))"

definition note_result :: "string \<Rightarrow> bridge_error + pull_result \<Rightarrow> ledger \<Rightarrow> ledger" where
  "note_result clip res l = (case res of Inr _ \<Rightarrow> finish clip l | Inl e \<Rightarrow> after_failure clip (classify_failure e) l)"

definition add_result :: "bridge_error + pull_result \<Rightarrow> pull_result list \<Rightarrow> pull_result list" where
  "add_result res pulled = (case res of Inr x \<Rightarrow> pulled @ [x] | Inl _ \<Rightarrow> pulled)"

text \<open>Whether a result ends the run, and with an error.\<close>

definition ends_run :: "bridge_error + pull_result \<Rightarrow> (bridge_error + unit) option" where
  "ends_run res = (case res of
     Inr _ \<Rightarrow> None
   | Inl e \<Rightarrow> (case classify_failure e of StopRun \<Rightarrow> Some (Inl e) | Asleep \<Rightarrow> Some (Inr ()) | _ \<Rightarrow> None))"

fun pull_clips :: "sd_env \<Rightarrow> pull_request \<Rightarrow> sd_day \<Rightarrow> (int \<times> int) list \<Rightarrow> nat \<Rightarrow> ledger \<Rightarrow> pull_result list \<Rightarrow> sd_world
    \<Rightarrow> (bridge_error + pull_result list) \<times> sd_world" where
  "pull_clips env template day [] left l pulled w =
     (case save_ledger env l w of (Inl e, w') \<Rightarrow> (Inl e, w') | (Inr _, w') \<Rightarrow> (Inr pulled, w'))"
| "pull_clips env template day (r # rs) left l pulled w =
     (let clip = clip_name (pr_camera template) r in
      if left = 0
      then (case save_ledger env l w of (Inl e, w') \<Rightarrow> (Inl e, w') | (Inr _, w') \<Rightarrow> (Inr pulled, w'))
      else if clip_done clip l then pull_clips env template day rs left l pulled w
      else case already_imported env (fst r) (sw_pull w) of
        Inl e \<Rightarrow> (Inl e, w)
      | Inr True \<Rightarrow>
          (case save_ledger env (finish clip l) w of
             (Inl e, w1) \<Rightarrow> (Inl e, w1)
           | (Inr _, w1) \<Rightarrow> pull_clips env template day rs left (finish clip l) pulled w1)
      | Inr False \<Rightarrow>
          (case attempt_clip env template day r l w of
             (res, w1) \<Rightarrow>
               (case save_ledger env (note_result clip res l) w1 of
                  (Inl e, w2) \<Rightarrow> (Inl e, w2)
                | (Inr _, w2) \<Rightarrow>
                    (case ends_run res of
                       Some (Inl e) \<Rightarrow> (Inl e, w2)
                     | Some (Inr _) \<Rightarrow> (Inr (add_result res pulled), w2)
                     | None \<Rightarrow> pull_clips env template day rs (left - 1) (note_result clip res l) (add_result res pulled) w2))))"

definition day_records :: "sd_env \<Rightarrow> bridge_answer \<Rightarrow> bridge_error + (int \<times> int) list" where
  "day_records env a =
     (if \<not> is_success (rs_status (ba_response a))
      then Inl (Upstream (''bridge returned HTTP '' @ pe_status_text (sv_pull env) (rs_status (ba_response a))))
      else try_bind (whole_body (rs_chunks (ba_response a))) (\<lambda>raw.
             if JSON_LIMIT < length raw then Inl (Upstream ''bridge JSON exceeded its bound'')
             else ok_or (sv_records env raw) Json))"

definition pull_day :: "sd_env \<Rightarrow> pull_request \<Rightarrow> sd_day \<Rightarrow> sd_world \<Rightarrow> (bridge_error + pull_result list) \<times> sd_world" where
  "pull_day env template day w =
     (case try_bind (validated_base_url (sv_pull env) (pr_base template)) (\<lambda>base.
             try_bind (ensure_private_regular (fst (pr_token template)) (snd (pr_token template)) 32) (\<lambda>_. Inr base)) of
        Inl e \<Rightarrow> (Inl e, w)
      | Inr base \<Rightarrow>
          (case ask (sv_pull env) base ''records URL is invalid'' (ListRecords (pr_camera template) (sd_date day)) (sw_pull w) of
             (Inl e, p) \<Rightarrow> (Inl e, w\<lparr>sw_pull := p\<rparr>)
           | (Inr a, p) \<Rightarrow>
               (case try_bind (day_records env a) (\<lambda>records.
                       try_bind (pe_make_dir (sv_pull env)) (\<lambda>_.
                       try_bind (case sw_ledger w of None \<Rightarrow> Inr ledger_default | Some stored \<Rightarrow> stored) (\<lambda>l.
                         Inr (records, l)))) of
                  Inl e \<Rightarrow> (Inl e, w\<lparr>sw_pull := p\<rparr>)
                | Inr (records, l) \<Rightarrow>
                    pull_clips env template day (filter (\<lambda>r. fst r \<le> snd r) (sort_key fst records)) (sd_max_clips day) l []
                      (w\<lparr>sw_pull := p\<rparr>))))"

section \<open>A new key for every attempt\<close>

lemma show_nat_inj: "show_nat a = show_nat b \<Longrightarrow> a = b"
  by (metis digits_val_show_nat)

lemma digits_prefix:
  assumes "list_all ascii_digit xs" "list_all ascii_digit ys" "xs @ c # us = ys @ c # vs" "\<not> ascii_digit c"
  shows "xs = ys \<and> us = vs"
  using assms
proof (induction xs arbitrary: ys)
  case Nil
  then show ?case by (cases ys) auto
next
  case (Cons x xs)
  then show ?case by (cases ys) auto
qed

lemma clip_key_counts:
  assumes "clip_key clip stop l = clip_key clip stop l'"
  shows "count_of (ld_attempts l) clip = count_of (ld_attempts l') clip \<and> count_of (ld_wakes l) clip = count_of (ld_wakes l') clip"
proof -
  have "show_nat (count_of (ld_attempts l) clip) @ CHR ''-'' # ''w'' @ show_nat (count_of (ld_wakes l) clip)
      = show_nat (count_of (ld_attempts l') clip) @ CHR ''-'' # ''w'' @ show_nat (count_of (ld_wakes l') clip)"
    using assms by (simp add: clip_key_def)
  moreover have "\<not> ascii_digit CHR ''-''" by (simp add: ascii_digit_def)
  ultimately have "show_nat (count_of (ld_attempts l) clip) = show_nat (count_of (ld_attempts l') clip)
      \<and> ''w'' @ show_nat (count_of (ld_wakes l) clip) = ''w'' @ show_nat (count_of (ld_wakes l') clip)"
    using digits_prefix [OF show_nat_digits show_nat_digits] by blast
  then show ?thesis using show_nat_inj by auto
qed

text \<open>A clip whose attempt failed is given up, or its next attempt has another key.\<close>

lemma retry_key_fresh:
  assumes "failure = Retry \<or> failure = Asleep"
  shows "clip_done clip (after_failure clip failure l) \<or> clip_key clip stop (after_failure clip failure l) \<noteq> clip_key clip stop l"
proof (cases "clip_done clip (after_failure clip failure l)")
  case False
  then have "count_of (ld_attempts (after_failure clip failure l)) clip \<noteq> count_of (ld_attempts l) clip
      \<or> count_of (ld_wakes (after_failure clip failure l)) clip \<noteq> count_of (ld_wakes l) clip"
    using assms by (auto simp: after_failure_def count_of_def finish_def clip_done_def split: if_splits option.splits)
  then show ?thesis using clip_key_counts by blast
qed simp

section \<open>Attempts are bounded\<close>

fun is_create :: "pull_event \<Rightarrow> bool" where
  "is_create (Asked (CreateRecording _ _ _)) = True"
| "is_create _ = False"

definition creates :: "pull_world \<Rightarrow> nat" where
  "creates w = length (filter is_create (pw_log w))"

lemma creates_log: "pw_log w' = pw_log w \<Longrightarrow> creates w' = creates w"
  by (simp add: creates_def)

lemma ask_creates:
  "ask env base x c w = (res, w') \<Longrightarrow> creates w' \<le> creates w + (if is_create (Asked c) then 1 else 0)"
  by (auto simp: ask_def creates_def Let_def split: if_splits prod.splits)

lemma wait_recording_creates: "wait_recording env base deadline m w = (res, w') \<Longrightarrow> creates w' \<le> creates w"
proof (induction env base deadline m w rule: wait_recording.induct)
  case (1 env base deadline m w)
  obtain ares w1 where a: "ask env base ''status URL is invalid'' (RecordingStatus (pm_id m)) (w\<lparr>pw_now := pw_now w + 500\<rparr>) = (ares, w1)"
    by fastforce
  have one: "creates w1 \<le> creates w" using ask_creates [OF a] by (simp add: creates_def)
  show ?case
  proof (cases "pm_status m \<in> {''ready'', ''failed''} \<or> deadline \<le> pw_now w")
    case True
    then show ?thesis using "1.prems" by (subst (asm) wait_recording.simps) (auto split: if_splits)
  next
    case False
    show ?thesis
    proof (cases ares)
      case (Inl e)
      then show ?thesis using "1.prems" False a one by (subst (asm) wait_recording.simps) simp
    next
      case (Inr x)
      show ?thesis
      proof (cases "bounded_json env x")
        case (Inl e)
        then show ?thesis using "1.prems" False a one Inr by (subst (asm) wait_recording.simps) simp
      next
        case m1: (Inr m1)
        have "wait_recording env base deadline m1 w1 = (res, w')"
          using "1.prems" False a Inr m1 by (subst (asm) wait_recording.simps) simp
        then have "creates w' \<le> creates w1" using "1.IH" False a Inr m1 by force
        with one show ?thesis by simp
      qed
    qed
  qed
qed

lemma ack_recording_creates: "ack_recording env base i w = (res, w') \<Longrightarrow> creates w' = creates w"
  using ack_recording_log by (fastforce simp: creates_def)

lemma settle_creates: "settle env base receipt r w = (res, w') \<Longrightarrow> creates w' = creates w"
  using settle_log by (fastforce simp: creates_def)

lemma fetch_media_creates:
  assumes "fetch_media env base req m uuid w = (res, w')"
  shows "creates w' \<le> creates w"
proof -
  obtain ares w1 where a: "ask env base ''media URL is invalid'' (RecordingMedia (pm_id m)) w = (ares, w1)" by fastforce
  have one: "creates w1 \<le> creates w" using ask_creates [OF a] by simp
  have commit: "creates v \<le> creates w1" if "commit_media env receipt filename data r w1 = (c, v)" for receipt filename data r c v
    using commit_media_log [OF that] by (cases c) (auto simp: creates_def)
  show ?thesis
    using assms one commit a
    by (fastforce simp: fetch_media_def pull_bind_def pull_lift_def Let_def split: sum.splits prod.splits if_splits)
qed

lemma release_failed_creates: "release_failed env base m w = (res, w') \<Longrightarrow> creates w' = creates w"
  using ack_recording_creates by (fastforce simp: release_failed_def creates_def split: prod.splits)

lemma pull_creates: "pull env req w = (res, w') \<Longrightarrow> creates w' \<le> creates w + 1"
proof -
  have fresh: "creates v \<le> creates w + 1" if "pull_fresh env base req w = (x, v)" for base x v
  proof -
    obtain ares w1 where a: "ask env base ''recording URL is invalid'' (create_call req) w = (ares, w1)" by fastforce
    have one: "creates w1 \<le> creates w + 1" using ask_creates [OF a] by (auto split: if_splits)
    have after_wait: "creates u \<le> creates w1"
      if "pull_bind (wait_recording env base d m0) (\<lambda>m. pull_bind (pull_lift (recording_file_id env (pm_id m))) (\<lambda>uuid.
        if pm_status m \<noteq> ''ready'' then release_failed env base m
        else pull_bind (fetch_media env base req m uuid) (settle env base (receipt_name env (pr_key req))))) w1 = (y, u)" for d m0 y u
    proof -
      obtain mres w2 where m: "wait_recording env base d m0 w1 = (mres, w2)" by fastforce
      have two: "creates w2 \<le> creates w1" using wait_recording_creates [OF m] .
      have "creates u \<le> creates w2"
        using that m
        by (auto simp: pull_bind_def pull_lift_def dest!: release_failed_creates settle_creates fetch_media_creates
            split: sum.splits prod.splits if_splits)
      with two show ?thesis by simp
    qed
    show ?thesis
    proof (cases "\<exists>b m0. ares = Inr b \<and> bounded_json env b = Inr m0")
      case True
      then obtain b m0 where "ares = Inr b" "bounded_json env b = Inr m0" by blast
      then show ?thesis
        using that a one after_wait [of "pw_now w1 + pr_timeout req * 1000" m0 x v]
        by (simp add: pull_fresh_def pull_bind_def [where m = "ask env base ''recording URL is invalid'' (create_call req)"])
    next
      case False
      then show ?thesis using that a one by (auto simp: pull_fresh_def pull_bind_def pull_lift_def split: sum.splits)
    qed
  qed
  have recover: "creates v = creates w" if "recover_receipt env name dest w = (x, v)" for name dest x v
    using that by (auto simp: recover_receipt_def creates_def split: option.splits sum.splits)
  have keep: "\<And>name dest x v. recover_receipt env name dest w = (Inr None, v) \<Longrightarrow> v = w"
    by (auto simp: recover_receipt_def split: option.splits sum.splits)
  assume "pull env req w = (res, w')"
  then show ?thesis
    using fresh recover keep
    by (fastforce simp: pull_def pull_bind_def pull_lift_def dest: settle_creates split: sum.splits prod.splits option.splits)
qed

definition ledger_ok :: "ledger \<Rightarrow> bool" where
  "ledger_ok l \<longleftrightarrow> (\<forall>clip n. bt_get (ld_attempts l) clip = Some n \<longrightarrow> 0 < n \<and> n < MAX_ATTEMPTS)
     \<and> (\<forall>clip. clip_done clip l \<longrightarrow> bt_get (ld_attempts l) clip = None \<and> bt_get (ld_wakes l) clip = None)"

definition ledger_file_ok :: "sd_world \<Rightarrow> bool" where
  "ledger_file_ok w \<longleftrightarrow> (case sw_ledger w of Some (Inr l) \<Rightarrow> ledger_ok l | _ \<Rightarrow> True)"

lemma ledger_ok_finish: "ledger_ok l \<Longrightarrow> ledger_ok (finish clip l)"
  by (auto simp: ledger_ok_def finish_def clip_done_def split: if_splits)

lemma ledger_ok_after_failure: "ledger_ok l \<Longrightarrow> \<not> clip_done clip l \<Longrightarrow> ledger_ok (after_failure clip f l)"
  using ledger_ok_finish [of l clip]
  by (cases f) (auto simp: after_failure_def ledger_ok_def clip_done_def split: if_splits)

lemma save_ledger_ok:
  assumes "save_ledger env l w = (res, w')"
  shows "sw_pull w' = sw_pull w \<and> (ledger_ok l \<longrightarrow> ledger_file_ok w \<longrightarrow> ledger_file_ok w')"
  using assms
  by (cases "sv_write env (sw_writes w)") (auto simp: save_ledger_def ledger_file_ok_def)

lemma attempt_clip_ok:
  assumes "attempt_clip env template day r l w = (res, w')"
  shows "creates (sw_pull w') \<le> creates (sw_pull w) + 1 \<and> (ledger_file_ok w \<longrightarrow> ledger_file_ok w')"
  using assms pull_creates by (fastforce simp: attempt_clip_def ledger_file_ok_def Let_def split: prod.splits)

lemma note_result_ok: "ledger_ok l \<Longrightarrow> \<not> clip_done clip l \<Longrightarrow> ledger_ok (note_result clip res l)"
  by (simp add: note_result_def ledger_ok_finish ledger_ok_after_failure split: sum.splits)

text \<open>The turn of one clip: the run ends with the world reached, or goes on with the rest.\<close>

lemma pull_clips_turn:
  assumes "pull_clips env template day (r # rs) left l pulled w = (res, w')"
  shows "(\<exists>x. save_ledger env l w = (x, w')) \<or> w' = w
    \<or> pull_clips env template day rs left l pulled w = (res, w')
    \<or> (\<exists>x w1. save_ledger env (finish (clip_name (pr_camera template) r) l) w = (x, w1)
         \<and> (w' = w1 \<or> pull_clips env template day rs left (finish (clip_name (pr_camera template) r) l) pulled w1 = (res, w')))
    \<or> (0 < left \<and> \<not> clip_done (clip_name (pr_camera template) r) l
       \<and> (\<exists>pres w1 x w2 pulled'. attempt_clip env template day r l w = (pres, w1)
         \<and> save_ledger env (note_result (clip_name (pr_camera template) r) pres l) w1 = (x, w2)
         \<and> (w' = w2 \<or> pull_clips env template day rs (left - 1) (note_result (clip_name (pr_camera template) r) pres l) pulled' w2 = (res, w'))))"
proof -
  let ?clip = "clip_name (pr_camera template) r"
  obtain x0 w0 where s0: "save_ledger env l w = (x0, w0)" by fastforce
  obtain xf wf where sf: "save_ledger env (finish ?clip l) w = (xf, wf)" by fastforce
  obtain pres w1 where at: "attempt_clip env template day r l w = (pres, w1)" by fastforce
  obtain xn w2 where sn: "save_ledger env (note_result ?clip pres l) w1 = (xn, w2)" by fastforce
  show ?thesis
  proof (cases "left = 0 \<or> clip_done ?clip l")
    case True
    then show ?thesis using assms s0 by (cases x0) (auto simp: Let_def split: if_splits)
  next
    case go: False
    show ?thesis
    proof (cases "already_imported env (fst r) (sw_pull w)")
      case (Inl e)
      then show ?thesis using assms go by (simp add: Let_def)
    next
      case (Inr found)
      show ?thesis
      proof (cases found)
        case True
        then show ?thesis using assms go Inr sf by (cases xf) (simp_all add: Let_def)
      next
        case False
        have "w' = w2 \<or> pull_clips env template day rs (left - 1) (note_result ?clip pres l) (add_result pres pulled) w2 = (res, w')"
          using assms go Inr False at sn
          by (cases xn; cases "ends_run pres") (auto simp: Let_def split: sum.splits)
        moreover have "0 < left" "\<not> clip_done ?clip l" using go by simp_all
        ultimately show ?thesis using at sn by blast
      qed
    qed
  qed
qed

lemma pull_clips_bounded:
  "pull_clips env template day rs left l pulled w = (res, w') \<Longrightarrow>
   creates (sw_pull w') \<le> creates (sw_pull w) + left
   \<and> (ledger_ok l \<longrightarrow> ledger_file_ok w \<longrightarrow> ledger_file_ok w')"
proof (induction rs arbitrary: left l pulled w)
  case Nil
  obtain x0 w0 where s0: "save_ledger env l w = (x0, w0)" by fastforce
  then have "w' = w0" using Nil by (cases x0) auto
  then show ?case using save_ledger_ok [OF s0] by simp
next
  case (Cons r rs)
  let ?clip = "clip_name (pr_camera template) r"
  from pull_clips_turn [OF Cons.prems] show ?case
  proof (elim disjE conjE exE)
    fix x assume "save_ledger env l w = (x, w')"
    then show ?thesis using save_ledger_ok by fastforce
  next
    fix x w1 assume s: "save_ledger env (finish ?clip l) w = (x, w1)" "w' = w1"
    then show ?thesis using save_ledger_ok [OF s(1)] ledger_ok_finish [of l ?clip] by simp
  next
    fix x w1 assume s: "save_ledger env (finish ?clip l) w = (x, w1)"
      "pull_clips env template day rs left (finish ?clip l) pulled w1 = (res, w')"
    show ?thesis using save_ledger_ok [OF s(1)] Cons.IH [OF s(2)] ledger_ok_finish [of l ?clip] by simp
  next
    fix pres w1 x w2
    assume s: "0 < left" "\<not> clip_done ?clip l" "attempt_clip env template day r l w = (pres, w1)"
      "save_ledger env (note_result ?clip pres l) w1 = (x, w2)" "w' = w2"
    show ?thesis
      using save_ledger_ok [OF s(4)] attempt_clip_ok [OF s(3)] note_result_ok [OF _ s(2), of pres] s(1,5) by fastforce
  next
    fix pres w1 x w2 pulled'
    assume s: "0 < left" "\<not> clip_done ?clip l" "attempt_clip env template day r l w = (pres, w1)"
      "save_ledger env (note_result ?clip pres l) w1 = (x, w2)"
      "pull_clips env template day rs (left - 1) (note_result ?clip pres l) pulled' w2 = (res, w')"
    show ?thesis
      using save_ledger_ok [OF s(4)] attempt_clip_ok [OF s(3)] note_result_ok [OF _ s(2), of pres] s(1) Cons.IH [OF s(5)]
      by fastforce
  qed (use Cons.IH in \<open>auto dest: Cons.IH\<close>)
qed

text \<open>C32. A day's import: a run creates at most \<open>max_clips\<close> recordings on the bridge, and the ledger it leaves on
  disk, whenever it stops, counts at most two failed attempts for a clip and none for a clip that is done.\<close>

theorem sd_import_bounded:
  "case pull_day env template day w of (_, w') \<Rightarrow>
     creates (sw_pull w') \<le> creates (sw_pull w) + sd_max_clips day
     \<and> (if ledger_file_ok w then ledger_file_ok w' else True)"
proof -
  obtain res w' where d: "pull_day env template day w = (res, w')" by fastforce
  have "creates (sw_pull w') \<le> creates (sw_pull w) + sd_max_clips day \<and> (ledger_file_ok w \<longrightarrow> ledger_file_ok w')"
  proof (cases "sw_ledger w' = sw_ledger w \<and> creates (sw_pull w') \<le> creates (sw_pull w)")
    case True
    then show ?thesis by (simp add: ledger_file_ok_def)
  next
    case False
    then obtain base a p records l where run:
      "ask (sv_pull env) base ''records URL is invalid'' (ListRecords (pr_camera template) (sd_date day)) (sw_pull w) = (Inr a, p)"
      "(case sw_ledger w of None \<Rightarrow> Inr ledger_default | Some stored \<Rightarrow> stored) = Inr l"
      "pull_clips env template day (filter (\<lambda>r. fst r \<le> snd r) (sort_key fst records)) (sd_max_clips day) l []
         (w\<lparr>sw_pull := p\<rparr>) = (res, w')"
      using d by (auto simp: pull_day_def result_simps dest!: ask_creates split: sum.splits prod.splits)
    have p: "creates p \<le> creates (sw_pull w)" using ask_creates [OF run(1)] by simp
    have "ledger_ok ledger_default" by (simp add: ledger_ok_def ledger_default_def clip_done_def)
    then have "ledger_file_ok w \<longrightarrow> ledger_ok l" "ledger_file_ok w \<longrightarrow> ledger_file_ok (w\<lparr>sw_pull := p\<rparr>)"
      using run(2) by (auto simp: ledger_file_ok_def split: option.splits)
    then show ?thesis using pull_clips_bounded [OF run(3)] p by fastforce
  qed
  then show ?thesis by (simp add: d)
qed

end
