(* ===== verification/Ts_Warm.thy ===== *)
theory Ts_Warm
  imports Recording_Writer "HOL-Library.Sublist"
begin

text \<open>
  The warm cache of a remuxed stream (\<open>remux_warm.rs\<close>): it cuts the bytes ffmpeg writes into transport
  packets, remembers the most recent ones and keeps a segment that starts shortly before the last
  random access point, so that a late subscriber can decode at once. A transport packet is a byte list of
  \<open>TS_PACKET_BYTES\<close>, the constant of \<open>Recording_Writer\<close>. The segment after any chunks is compared with a
  reference that reads the packets of the whole stream at once.
\<close>

definition RECENT_PACKET_LIMIT :: nat where "RECENT_PACKET_LIMIT = 512"
definition MAX_WARM_BYTES :: nat where "MAX_WARM_BYTES = 8 * 1024 * 1024"
definition MAX_INGEST_BYTES :: nat where "MAX_INGEST_BYTES = 64 * 1024"

record warm_cache =
  wc_pending :: bytes
  recent :: "bytes list"
  segment :: bytes
  recent_limit :: nat
  maximum_bytes :: nat
  wc_ready :: bool

definition with_limits :: "nat \<Rightarrow> nat \<Rightarrow> warm_cache" where
  "with_limits lim mx = \<lparr>wc_pending = [], recent = [], segment = [], recent_limit = lim, maximum_bytes = mx,
     wc_ready = False\<rparr>"

definition warm_default :: warm_cache where
  "warm_default = with_limits RECENT_PACKET_LIMIT MAX_WARM_BYTES"

definition warm_clear :: "warm_cache \<Rightarrow> warm_cache" where
  "warm_clear w = w\<lparr>wc_pending := [], recent := [], segment := [], wc_ready := False\<rparr>"

definition is_random_access :: "bytes \<Rightarrow> bool" where
  "is_random_access packet =
     (let adaptation_control = drop_bit 4 (packet ! 3) AND 0x03
      in if adaptation_control \<noteq> 2 \<and> adaptation_control \<noteq> 3 then False
         else let adaptation_length = unat (packet ! 4)
              in 0 < adaptation_length \<and> adaptation_length \<le> TS_PACKET_BYTES - 5 \<and> packet ! 5 AND 0x40 \<noteq> 0)"

text \<open>\<open>while self.recent.len() > self.recent_limit { self.recent.pop_front(); }\<close>\<close>

function trim_front :: "nat \<Rightarrow> 'a list \<Rightarrow> 'a list" where
  "trim_front lim xs = (if lim < length xs then trim_front lim (tl xs) else xs)"
  by auto
termination by (relation "measure (\<lambda>(lim, xs). length xs)") auto

declare trim_front.simps [simp del]

text \<open>The segment stays below the limit by far less than the address space, so \<open>checked_add\<close> succeeds.\<close>

definition consume_packet :: "bytes \<Rightarrow> warm_cache \<Rightarrow> warm_cache" where
  "consume_packet packet w =
     (let w1 =
        (if is_random_access packet then
           let seg = concat (recent w) @ packet
           in w\<lparr>segment := seg, wc_ready := (length seg \<le> maximum_bytes w)\<rparr>
         else if wc_ready w then
           if length (segment w) + TS_PACKET_BYTES \<le> maximum_bytes w
           then w\<lparr>segment := segment w @ packet\<rparr>
           else w\<lparr>segment := [], wc_ready := False\<rparr>
         else w)
      in w1\<lparr>recent := trim_front (recent_limit w1) (recent w1 @ [packet])\<rparr>)"

text \<open>The loop of \<open>consume_packets\<close>: the offset it ends with and the cache.\<close>

function consume_from :: "bytes \<Rightarrow> nat \<Rightarrow> warm_cache \<Rightarrow> nat \<times> warm_cache" where
  "consume_from p offset w =
     (if TS_PACKET_BYTES \<le> length p - offset then
        if p ! offset \<noteq> 0x47 then consume_from p (offset + 1) w
        else if TS_PACKET_BYTES * 2 \<le> length p - offset \<and> p ! (offset + TS_PACKET_BYTES) \<noteq> 0x47
             then consume_from p (offset + 1) w
        else consume_from p (offset + TS_PACKET_BYTES) (consume_packet (take TS_PACKET_BYTES (drop offset p)) w)
      else (offset, w))"
  by pat_completeness auto
termination
  by (relation "measure (\<lambda>(p, offset, w). length p - offset)") (auto simp: TS_PACKET_BYTES_def)

declare consume_from.simps [simp del]

definition consume_packets :: "warm_cache \<Rightarrow> warm_cache" where
  "consume_packets w =
     (let (offset, w') = consume_from (wc_pending w) 0 w;
          p = (if 0 < offset then drop offset (wc_pending w') else wc_pending w');
          p' = (if TS_PACKET_BYTES - 1 < length p then drop (length p - (TS_PACKET_BYTES - 1)) p else p)
      in w'\<lparr>wc_pending := p'\<rparr>)"

definition ingest :: "bytes \<Rightarrow> warm_cache \<Rightarrow> warm_cache" where
  "ingest bs w =
     (if MAX_INGEST_BYTES < length bs \<or> MAX_INGEST_BYTES + TS_PACKET_BYTES < length (wc_pending w) + length bs
      then warm_clear w
      else consume_packets (w\<lparr>wc_pending := wc_pending w @ bs\<rparr>))"

definition warm_snapshot :: "warm_cache \<Rightarrow> bytes option" where
  "warm_snapshot w = (if wc_ready w \<and> segment w \<noteq> [] then Some (segment w) else None)"

section \<open>Scanning\<close>

definition synced :: "bytes \<Rightarrow> bool" where
  "synced p \<longleftrightarrow> length p = TS_PACKET_BYTES \<and> p ! 0 = 0x47"

lemma trim_front_drop: "trim_front n xs = drop (length xs - n) xs"
proof (induction n xs rule: trim_front.induct)
  case (1 lim xs)
  show ?case
  proof (cases "lim < length xs")
    case True
    then obtain y ys where xs: "xs = y # ys" by (cases xs) auto
    with 1 True show ?thesis
      by (simp add: trim_front.simps [of lim "y # ys"] Suc_diff_le)
  qed (simp add: trim_front.simps [of lim xs])
qed

lemma consume_packet_simps [simp]:
  "wc_pending (consume_packet p w) = wc_pending w"
  "recent_limit (consume_packet p w) = recent_limit w"
  "maximum_bytes (consume_packet p w) = maximum_bytes w"
  "recent (consume_packet p w) = drop (Suc (length (recent w)) - recent_limit w) (recent w @ [p])"
  by (simp_all add: consume_packet_def Let_def trim_front_drop)

lemma fold_consume_simps [simp]:
  "wc_pending (fold consume_packet ps w) = wc_pending w"
  "recent_limit (fold consume_packet ps w) = recent_limit w"
  "maximum_bytes (fold consume_packet ps w) = maximum_bytes w"
  by (induction ps arbitrary: w) simp_all

lemma consume_packet_pending: "consume_packet p (w\<lparr>wc_pending := x\<rparr>) = (consume_packet p w)\<lparr>wc_pending := x\<rparr>"
  by (simp add: consume_packet_def Let_def)

lemma fold_consume_pending:
  "fold consume_packet ps (w\<lparr>wc_pending := x\<rparr>) = (fold consume_packet ps w)\<lparr>wc_pending := x\<rparr>"
  by (induction ps arbitrary: w) (simp_all add: consume_packet_pending)

text \<open>Whatever the bytes are, the loop consumes synchronised packets and leaves less than one.\<close>

lemma consume_from_packets:
  "offset \<le> length p \<Longrightarrow> \<exists>ps. list_all synced ps \<and> snd (consume_from p offset w) = fold consume_packet ps w
     \<and> fst (consume_from p offset w) \<le> length p \<and> length p - fst (consume_from p offset w) < TS_PACKET_BYTES"
proof (induction p offset w rule: consume_from.induct)
  case (1 p offset w)
  let ?packet = "take TS_PACKET_BYTES (drop offset p)"
  have le: "offset + TS_PACKET_BYTES \<le> length p" if "TS_PACKET_BYTES \<le> length p - offset"
    using that 1(4) by simp
  consider (stop) "\<not> TS_PACKET_BYTES \<le> length p - offset"
    | (skip) "TS_PACKET_BYTES \<le> length p - offset"
        "p ! offset \<noteq> 0x47 \<or> TS_PACKET_BYTES * 2 \<le> length p - offset \<and> p ! (offset + TS_PACKET_BYTES) \<noteq> 0x47"
    | (take) "TS_PACKET_BYTES \<le> length p - offset" "p ! offset = 0x47"
        "\<not> (TS_PACKET_BYTES * 2 \<le> length p - offset \<and> p ! (offset + TS_PACKET_BYTES) \<noteq> 0x47)"
    by blast
  then show ?case
  proof cases
    case stop
    then show ?thesis
      using 1(4) by (intro exI [of _ "[]"]) (simp add: consume_from.simps [of p offset w])
  next
    case skip
    then have eq: "consume_from p offset w = consume_from p (offset + 1) w"
      by (auto simp: consume_from.simps [of p offset w])
    have "offset + 1 \<le> length p"
      using le [OF skip(1)] by (simp add: TS_PACKET_BYTES_def)
    then show ?thesis
      unfolding eq using skip 1(1,2) by (cases "p ! offset = 0x47") blast+
  next
    case take
    then have eq: "consume_from p offset w = consume_from p (offset + TS_PACKET_BYTES) (consume_packet ?packet w)"
      by (auto simp: consume_from.simps [of p offset w])
    from 1(3) take le obtain ps where ps: "list_all synced ps"
      "snd (consume_from p offset w) = fold consume_packet ps (consume_packet ?packet w)"
      "fst (consume_from p offset w) \<le> length p" "length p - fst (consume_from p offset w) < TS_PACKET_BYTES"
      unfolding eq by blast
    moreover have "synced ?packet"
      using take le by (simp add: synced_def TS_PACKET_BYTES_def)
    ultimately show ?thesis
      by (intro exI [of _ "?packet # ps"]) simp
  qed
qed

lemma consume_packets_rest:
  assumes "consume_from (wc_pending w) 0 w = (offset, w')" "length (wc_pending w') - offset < TS_PACKET_BYTES"
  shows "consume_packets w = w'\<lparr>wc_pending := drop offset (wc_pending w')\<rparr>"
proof -
  have "(if 0 < offset then drop offset (wc_pending w') else wc_pending w') = drop offset (wc_pending w')"
    by simp
  moreover have "\<not> TS_PACKET_BYTES - 1 < length (drop offset (wc_pending w'))"
    using assms(2) by (simp add: not_less)
  ultimately show ?thesis
    using assms(1) by (simp only: consume_packets_def Let_def prod.case if_False)
qed

lemma ingest_cases:
  obtains (cleared) "ingest bs w = warm_clear w"
  | (packets) ps r where "list_all synced ps" "length r < TS_PACKET_BYTES" "ingest bs w = (fold consume_packet ps w)\<lparr>wc_pending := r\<rparr>"
proof (cases "MAX_INGEST_BYTES < length bs \<or> MAX_INGEST_BYTES + TS_PACKET_BYTES < length (wc_pending w) + length bs")
  case True
  then show ?thesis using cleared by (simp add: ingest_def)
next
  case False
  let ?p = "wc_pending w @ bs" and ?w = "w\<lparr>wc_pending := wc_pending w @ bs\<rparr>"
  obtain offset w' where step: "consume_from ?p 0 ?w = (offset, w')" by fastforce
  obtain ps where ps: "list_all synced ps" "w' = fold consume_packet ps ?w" "offset \<le> length ?p"
    "length ?p - offset < TS_PACKET_BYTES"
    using consume_from_packets [of 0 ?p ?w] step by auto
  have "ingest bs w = w'\<lparr>wc_pending := drop offset ?p\<rparr>"
    using False ps(2-4) consume_packets_rest [of ?w offset w'] step by (simp add: ingest_def)
  then have "ingest bs w = (fold consume_packet ps w)\<lparr>wc_pending := drop offset ?p\<rparr>"
    by (simp add: ps(2) fold_consume_pending)
  then show ?thesis
    by (rule packets [OF ps(1), of "drop offset ?p", rotated]) (use ps(4) in simp)
qed

section \<open>Any input\<close>

text \<open>What the cache promises whatever it is fed: its memory is bounded, and a ready segment is a run of
  synchronised packets with a random access point after at most \<open>recent_limit\<close> of them.\<close>

definition warm_segment :: "nat \<Rightarrow> bytes \<Rightarrow> bool" where
  "warm_segment lim seg \<longleftrightarrow>
     (\<exists>pre k post. seg = concat (pre @ k # post) \<and> list_all synced (pre @ k # post) \<and> is_random_access k \<and> length pre \<le> lim)"

definition warm_ok :: "warm_cache \<Rightarrow> bool" where
  "warm_ok w \<longleftrightarrow> length (wc_pending w) < TS_PACKET_BYTES \<and> length (recent w) \<le> recent_limit w \<and> list_all synced (recent w)
     \<and> length (segment w) \<le> max (maximum_bytes w) ((recent_limit w + 1) * TS_PACKET_BYTES)
     \<and> (wc_ready w \<longrightarrow> length (segment w) \<le> maximum_bytes w \<and> warm_segment (recent_limit w) (segment w))"

lemma length_concat_synced: "list_all synced ps \<Longrightarrow> length (concat ps) = length ps * TS_PACKET_BYTES"
  by (induction ps) (simp_all add: synced_def)

lemma warm_ok_new: "warm_ok (with_limits lim mx)"
  by (simp add: warm_ok_def with_limits_def TS_PACKET_BYTES_def)

lemma warm_ok_clear: "warm_ok w \<Longrightarrow> warm_ok (warm_clear w)"
  by (simp add: warm_ok_def warm_clear_def TS_PACKET_BYTES_def)

lemma list_all_drop: "list_all P xs \<Longrightarrow> list_all P (drop n xs)"
  by (meson in_set_dropD list_all_iff)

lemma warm_segment_snoc: "warm_segment lim seg \<Longrightarrow> synced p \<Longrightarrow> warm_segment lim (seg @ p)"
  unfolding warm_segment_def
proof (elim exE conjE)
  fix pre k post
  assume "synced p" "seg = concat (pre @ k # post)" "list_all synced (pre @ k # post)" "is_random_access k" "length pre \<le> lim"
  then show "\<exists>pre k post. seg @ p = concat (pre @ k # post) \<and> list_all synced (pre @ k # post) \<and> is_random_access k
      \<and> length pre \<le> lim"
    by (intro exI [of _ pre] exI [of _ k] exI [of _ "post @ [p]"]) simp
qed

lemma consume_packet_ok:
  assumes ok: "warm_ok w" and p: "synced p"
  shows "warm_ok (consume_packet p w)"
proof -
  let ?w = "consume_packet p w"
  have recent: "length (recent ?w) \<le> recent_limit w" "list_all synced (recent ?w)"
    using ok p list_all_drop [of synced "recent w @ [p]"] by (simp_all add: warm_ok_def del: drop_append)
  have "length (segment ?w) \<le> max (maximum_bytes w) ((recent_limit w + 1) * TS_PACKET_BYTES)
      \<and> (wc_ready ?w \<longrightarrow> length (segment ?w) \<le> maximum_bytes w \<and> warm_segment (recent_limit w) (segment ?w))"
  proof (cases "is_random_access p")
    case True
    then have seg: "segment ?w = concat (recent w @ [p])" "wc_ready ?w = (length (segment ?w) \<le> maximum_bytes w)"
      by (simp_all add: consume_packet_def Let_def)
    have all: "list_all synced (recent w @ [p])" "length (recent w) \<le> recent_limit w"
      using ok p by (simp_all add: warm_ok_def)
    have "length (segment ?w) \<le> (recent_limit w + 1) * TS_PACKET_BYTES"
      unfolding seg(1) length_concat_synced [OF all(1)] using all(2) by (simp add: TS_PACKET_BYTES_def)
    moreover have "warm_segment (recent_limit w) (segment ?w)"
      unfolding warm_segment_def seg(1)
      by (intro exI [of _ "recent w"] exI [of _ p] exI [of _ "[]"]) (use True all in simp)
    ultimately show ?thesis
      using seg(2) by simp
  next
    case False
    then show ?thesis
      using ok p warm_segment_snoc
      by (cases "wc_ready w"; cases "length (segment w) + TS_PACKET_BYTES \<le> maximum_bytes w")
        (auto simp: consume_packet_def warm_ok_def synced_def Let_def)
  qed
  with recent ok show ?thesis
    by (simp add: warm_ok_def del: drop_append)
qed

lemma fold_consume_ok: "warm_ok w \<Longrightarrow> list_all synced ps \<Longrightarrow> warm_ok (fold consume_packet ps w)"
  by (induction ps arbitrary: w) (simp_all add: consume_packet_ok)

lemma ingest_ok: "warm_ok w \<Longrightarrow> warm_ok (ingest bs w)"
proof (cases rule: ingest_cases [of bs w])
  case (packets ps r)
  assume "warm_ok w"
  from fold_consume_ok [OF this packets(1)] packets(2,3) show ?thesis
    by (simp add: warm_ok_def)
qed (simp add: warm_ok_clear)

lemma ingest_limits [simp]:
  "recent_limit (ingest bs w) = recent_limit w" "maximum_bytes (ingest bs w) = maximum_bytes w"
  by (cases rule: ingest_cases [of bs w]; simp add: warm_clear_def)+

section \<open>Aligned streams\<close>

text \<open>The reference: the segment of a whole list of packets, from the last random access point on, with
  the packets before it as far as they are kept.\<close>

definition warm_reference :: "nat \<Rightarrow> nat \<Rightarrow> bytes list \<Rightarrow> bytes option" where
  "warm_reference lim mx ps =
     (case dropWhile (\<lambda>p. \<not> is_random_access p) (rev ps) of
        [] \<Rightarrow> None
      | k # pre \<Rightarrow>
          let seg = concat (rev (take lim pre) @ k # rev (takeWhile (\<lambda>p. \<not> is_random_access p) (rev ps)))
          in if length seg \<le> mx then Some seg else None)"

text \<open>A prefix of an aligned stream is aligned.\<close>

lemma aligned_split:
  assumes "xs @ ys = concat ps @ r" "list_all synced ps" "length r < TS_PACKET_BYTES"
  shows "\<exists>qs q. xs = concat (take qs ps) @ q \<and> length q < TS_PACKET_BYTES \<and> q @ ys = concat (drop qs ps) @ r"
  using assms
proof (induction ps arbitrary: xs)
  case Nil
  then have "length xs \<le> length r"
    by (metis append_Nil concat.simps(1) le_add1 length_append)
  then have "length xs < TS_PACKET_BYTES"
    using Nil(3) by simp
  then show ?case using Nil by (intro exI [of _ 0] exI [of _ xs]) simp
next
  case (Cons p ps)
  then have p: "length p = TS_PACKET_BYTES" by (simp add: synced_def)
  show ?case
  proof (cases "length xs < TS_PACKET_BYTES")
    case True
    then show ?thesis using Cons(2) by (intro exI [of _ 0] exI [of _ xs]) simp
  next
    case False
    have "take TS_PACKET_BYTES (xs @ ys) = take TS_PACKET_BYTES (p @ concat ps @ r)"
      using Cons(2) by simp
    then have "take TS_PACKET_BYTES xs = p"
      using False p by simp
    then obtain zs where zs: "xs = p @ zs"
      by (metis append_take_drop_id)
    with Cons(2) have "zs @ ys = concat ps @ r" by simp
    with Cons(1) Cons(3,4) obtain qs q where "zs = concat (take qs ps) @ q" "length q < TS_PACKET_BYTES"
      "q @ ys = concat (drop qs ps) @ r"
      by force
    with zs show ?thesis by (intro exI [of _ "Suc qs"] exI [of _ q]) simp
  qed
qed

lemma consume_from_aligned:
  assumes "list_all synced ps" "length r < TS_PACKET_BYTES" "drop offset p = concat ps @ r" "offset \<le> length p"
  shows "consume_from p offset w = (length p - length r, fold consume_packet ps w)"
  using assms
proof (induction ps arbitrary: offset w)
  case Nil
  then have len: "length p - offset = length r"
    by (metis append_Nil concat.simps(1) length_drop)
  then show ?case
    using Nil by (simp add: consume_from.simps [of p offset w])
next
  case (Cons a ps)
  let ?rest = "concat ps @ r"
  have a: "length a = TS_PACKET_BYTES" "a ! 0 = 0x47" using Cons(2) by (simp_all add: synced_def)
  have at: "drop offset p = a @ ?rest" using Cons(4) by simp
  then have len: "length p - offset = TS_PACKET_BYTES + length ?rest"
    by (metis a(1) length_append length_drop)
  have nth: "p ! (offset + i) = (a @ ?rest) ! i" for i
    using at Cons(5) by (metis nth_drop)
  have head: "p ! offset = 0x47"
    using nth [of 0] a by (simp add: nth_append TS_PACKET_BYTES_def)
  have second: "p ! (offset + TS_PACKET_BYTES) = 0x47" if "TS_PACKET_BYTES * 2 \<le> length p - offset"
  proof -
    from that len Cons(3) obtain b bs where "ps = b # bs" by (cases ps) auto
    with Cons(2) nth [of TS_PACKET_BYTES] a show ?thesis
      by (auto simp: nth_append synced_def TS_PACKET_BYTES_def)
  qed
  have packet: "take TS_PACKET_BYTES (drop offset p) = a" using at a(1) by simp
  have next_at: "drop (offset + TS_PACKET_BYTES) p = ?rest"
    using at a(1) by (metis add.commute append_eq_conv_conj drop_drop)
  have le: "offset + TS_PACKET_BYTES \<le> length p" using len Cons(5) by (simp add: TS_PACKET_BYTES_def)
  have "consume_from p offset w = consume_from p (offset + TS_PACKET_BYTES) (consume_packet a w)"
    using len head second packet by (auto simp: consume_from.simps [of p offset w])
  also have "\<dots> = (length p - length r, fold consume_packet ps (consume_packet a w))"
    using Cons(1) [OF _ Cons(3) next_at le] Cons(2) by simp
  finally show ?case by simp
qed

lemma ingest_aligned:
  assumes "list_all synced ps" "length r < TS_PACKET_BYTES" "wc_pending w @ bs = concat ps @ r"
    and "length bs \<le> MAX_INGEST_BYTES" "length (wc_pending w) < TS_PACKET_BYTES"
  shows "ingest bs w = (fold consume_packet ps w)\<lparr>wc_pending := r\<rparr>"
proof -
  let ?w = "w\<lparr>wc_pending := wc_pending w @ bs\<rparr>"
  let ?n = "length (wc_pending w @ bs) - length r"
  have run: "consume_from (wc_pending ?w) 0 ?w = (?n, fold consume_packet ps ?w)"
    using consume_from_aligned [OF assms(1,2), of 0 "wc_pending w @ bs" ?w] assms(3) by simp
  have rest: "drop ?n (wc_pending w @ bs) = r" using assms(3) by simp
  have "length (wc_pending w @ bs) - ?n < TS_PACKET_BYTES"
    using assms(2,3) by (metis length_drop rest)
  then have "consume_packets ?w = (fold consume_packet ps ?w)\<lparr>wc_pending := r\<rparr>"
    using consume_packets_rest [OF run] rest by simp
  then show ?thesis
    using assms(4,5) by (simp add: ingest_def fold_consume_pending)
qed

lemma ingests_aligned:
  assumes "list_all (\<lambda>c. length c \<le> MAX_INGEST_BYTES) cs" "list_all synced ps" "length r < TS_PACKET_BYTES"
    and "wc_pending w @ concat cs = concat ps @ r" "length (wc_pending w) < TS_PACKET_BYTES"
  shows "fold ingest cs w = (fold consume_packet ps w)\<lparr>wc_pending := r\<rparr>"
  using assms
proof (induction cs arbitrary: w ps)
  case Nil
  then have "ps = []"
    by (cases ps) (auto simp: synced_def)
  with Nil show ?case by simp
next
  case (Cons c cs)
  from Cons(5) have "(wc_pending w @ c) @ concat cs = concat ps @ r" by simp
  from aligned_split [OF this Cons(3,4)] obtain n q where q: "wc_pending w @ c = concat (take n ps) @ q"
    "length q < TS_PACKET_BYTES" "q @ concat cs = concat (drop n ps) @ r"
    by blast
  have all: "list_all synced (take n ps)" "list_all synced (drop n ps)"
    using Cons(3) by (metis append_take_drop_id list_all_append)+
  let ?w = "(fold consume_packet (take n ps) w)\<lparr>wc_pending := q\<rparr>"
  have "ingest c w = ?w"
    using ingest_aligned [OF all(1) q(2,1)] Cons(2,6) by simp
  moreover have "fold ingest cs ?w = (fold consume_packet (drop n ps) ?w)\<lparr>wc_pending := r\<rparr>"
    using Cons(1) [of "drop n ps" ?w] Cons(2,4) all(2) q by simp
  moreover have "fold consume_packet ps w = fold consume_packet (drop n ps) (fold consume_packet (take n ps) w)"
    by (metis append_take_drop_id fold_append comp_apply)
  ultimately show ?case
    by (simp add: fold_consume_pending)
qed

text \<open>What the cache holds after a list of packets.\<close>

definition warm_tracks :: "nat \<Rightarrow> nat \<Rightarrow> bytes list \<Rightarrow> warm_cache \<Rightarrow> bool" where
  "warm_tracks lim mx ps w \<longleftrightarrow> recent_limit w = lim \<and> maximum_bytes w = mx \<and> recent w = rev (take lim (rev ps))
     \<and> (case warm_reference lim mx ps of None \<Rightarrow> \<not> wc_ready w | Some seg \<Rightarrow> wc_ready w \<and> segment w = seg)"

lemma warm_reference_random:
  "is_random_access p \<Longrightarrow> warm_reference lim mx (ps @ [p]) =
     (let seg = concat (rev (take lim (rev ps))) @ p in if length seg \<le> mx then Some seg else None)"
  by (simp add: warm_reference_def Let_def)

lemma warm_reference_other:
  assumes "\<not> is_random_access p" "length p = TS_PACKET_BYTES"
  shows "warm_reference lim mx (ps @ [p]) =
     (case warm_reference lim mx ps of None \<Rightarrow> None
      | Some seg \<Rightarrow> if length seg + TS_PACKET_BYTES \<le> mx then Some (seg @ p) else None)"
  using assms by (auto simp: warm_reference_def Let_def simp del: dropWhile_eq_Nil_conv split: list.splits)

lemma last_kept:
  "drop (Suc (length (rev (take n (rev xs)))) - n) (rev (take n (rev xs)) @ [x]) = rev (take n (rev (xs @ [x])))"
proof (cases n)
  case (Suc m)
  show ?thesis
  proof (cases "m < length xs")
    case True
    then have "rev (take n (rev xs)) = rev xs ! m # rev (take m (rev xs))"
      by (simp add: Suc take_Suc_conv_app_nth)
    then show ?thesis
      using True by (simp add: Suc)
  qed (simp add: Suc)
qed simp

lemma warm_tracks_packet:
  assumes w: "warm_tracks lim mx ps w" and p: "length p = TS_PACKET_BYTES"
  shows "warm_tracks lim mx (ps @ [p]) (consume_packet p w)"
proof -
  have recent: "drop (Suc (length (recent w)) - lim) (recent w @ [p]) = rev (take lim (rev (ps @ [p])))"
    using w last_kept [of lim ps p] by (simp only: warm_tracks_def)
  show ?thesis
  proof (cases "is_random_access p")
    case True
    with w recent show ?thesis
      by (auto simp: warm_tracks_def warm_reference_random consume_packet_def Let_def trim_front_drop)
  next
    case False
    with w recent show ?thesis
      by (auto simp: warm_tracks_def warm_reference_other [OF False p] consume_packet_def Let_def trim_front_drop
          split: option.splits)
  qed
qed

lemma warm_tracks_packets:
  "list_all synced ps \<Longrightarrow> warm_tracks lim mx ps (fold consume_packet ps (with_limits lim mx))"
proof (induction ps rule: rev_induct)
  case Nil
  show ?case by (simp add: warm_tracks_def with_limits_def warm_reference_def)
next
  case (snoc p ps)
  then show ?case using warm_tracks_packet [of lim mx ps _ p] by (simp add: synced_def)
qed

lemma reference_nonempty:
  assumes ps: "list_all synced ps" and seg: "warm_reference lim mx ps = Some seg"
  shows "seg \<noteq> []"
proof -
  obtain k pre where k: "dropWhile (\<lambda>p. \<not> is_random_access p) (rev ps) = k # pre"
    using seg by (auto simp: warm_reference_def split: list.splits)
  then have "k \<in> set ps"
    using set_dropWhileD [of k "\<lambda>p. \<not> is_random_access p" "rev ps"] by simp
  then have "k \<noteq> []"
    using ps by (auto simp: list_all_iff synced_def TS_PACKET_BYTES_def)
  moreover have "seg = concat (rev (take lim pre)) @ k @ concat (rev (takeWhile (\<lambda>p. \<not> is_random_access p) (rev ps)))"
    using seg by (simp add: warm_reference_def k Let_def split: if_splits)
  ultimately show ?thesis by simp
qed

lemma reference_suffix:
  assumes "warm_reference lim mx ps = Some seg"
  shows "suffix seg (concat ps)"
proof -
  let ?tw = "takeWhile (\<lambda>p. \<not> is_random_access p) (rev ps)"
  obtain k pre where k: "dropWhile (\<lambda>p. \<not> is_random_access p) (rev ps) = k # pre"
    using assms by (auto simp: warm_reference_def split: list.splits)
  then have "rev ps = ?tw @ k # pre"
    by (metis takeWhile_dropWhile_id)
  then have "ps = rev pre @ k # rev ?tw"
    by (metis append.assoc append_Cons append_Nil rev.simps(2) rev_append rev_rev_ident)
  also have "rev pre = rev (drop lim pre) @ rev (take lim pre)"
    by (metis append_take_drop_id rev_append)
  finally have eq: "ps = (rev (drop lim pre) @ rev (take lim pre)) @ k # rev ?tw" .
  have "concat ps = concat (rev (drop lim pre)) @ concat (rev (take lim pre) @ k # rev ?tw)"
    using arg_cong [OF eq, of concat] by (simp only: concat_append append_assoc)
  moreover have "seg = concat (rev (take lim pre) @ k # rev ?tw)"
    using assms by (simp add: warm_reference_def k Let_def split: if_splits)
  ultimately show ?thesis
    by (metis suffixI)
qed

section \<open>Properties\<close>

text \<open>C33. Where the reads of ffmpeg's output fall makes no difference: however an aligned transport
  stream is cut into chunks of at most 64 KiB, the warm snapshot is the reference segment of its complete
  packets (the last random access point, what follows it, and the packets kept before it, if they fit), and
  the bytes of the packet under way are kept back.\<close>

theorem warm_snapshot_reference:
  assumes "list_all (\<lambda>c. length c \<le> MAX_INGEST_BYTES) cs" "concat cs = concat ps @ r"
    and "list_all synced ps" "length r < TS_PACKET_BYTES"
  shows "warm_snapshot (fold ingest cs (with_limits lim mx)) = warm_reference lim mx ps
    \<and> wc_pending (fold ingest cs (with_limits lim mx)) = r"
proof -
  have "fold ingest cs (with_limits lim mx) = (fold consume_packet ps (with_limits lim mx))\<lparr>wc_pending := r\<rparr>"
    using assms by (intro ingests_aligned) (simp_all add: with_limits_def TS_PACKET_BYTES_def)
  moreover have "warm_tracks lim mx ps (fold consume_packet ps (with_limits lim mx))"
    by (rule warm_tracks_packets [OF assms(3)])
  ultimately show ?thesis
    using reference_nonempty [OF assms(3), of lim mx]
    by (cases "warm_reference lim mx ps") (auto simp: warm_tracks_def warm_snapshot_def)
qed

definition demo_packet :: "u8 \<Rightarrow> u8 \<Rightarrow> bytes" where
  "demo_packet flags marker = [0x47, 0x01, 0x00, 0x30, 1, flags] @ replicate 182 marker"

lemma demo_packet_synced: "synced (demo_packet flags marker)"
  by (simp add: synced_def demo_packet_def TS_PACKET_BYTES_def)

lemma demo_packet_random: "is_random_access (demo_packet flags marker) \<longleftrightarrow> flags AND 0x40 \<noteq> 0"
  by (simp add: is_random_access_def demo_packet_def TS_PACKET_BYTES_def)

definition demo_chunks :: "bytes list" where
  "demo_chunks = [take 97 (demo_packet 0 1), drop 97 (demo_packet 0 1) @ demo_packet 0x40 2 @ demo_packet 0 3 @ [0x47]]"

theorem warm_snapshot_reference_witness:
  "warm_snapshot (fold ingest demo_chunks (with_limits 4 1504)) = Some (demo_packet 0 1 @ demo_packet 0x40 2 @ demo_packet 0 3)"
proof -
  let ?ps = "[demo_packet 0 1, demo_packet 0x40 2, demo_packet 0 3]"
  have len: "length (demo_packet f m) = 188" for f m
    by (simp add: demo_packet_def)
  have stream: "concat demo_chunks = concat ?ps @ [0x47]"
    by (simp add: demo_chunks_def flip: append_assoc)
  have small: "list_all (\<lambda>c. length c \<le> MAX_INGEST_BYTES) demo_chunks"
    by (simp add: demo_chunks_def len MAX_INGEST_BYTES_def)
  have "warm_reference 4 1504 ?ps = Some (concat ?ps)"
    by (simp add: warm_reference_def demo_packet_random len)
  then show ?thesis
    using warm_snapshot_reference [OF small stream, of 4 1504] by (simp add: demo_packet_synced TS_PACKET_BYTES_def)
qed

text \<open>The snapshot ends where the last complete packet does. The bytes of the packet under way lie between it and
  the next chunk, and a subscriber that starts with the snapshot never gets them.\<close>

lemma late_join_gap:
  assumes "list_all (\<lambda>c. length c \<le> MAX_INGEST_BYTES) cs" "concat cs = concat ps @ r"
    and "list_all synced ps" "length r < TS_PACKET_BYTES"
    and "warm_snapshot (fold ingest cs (with_limits lim mx)) = Some seg"
  shows "\<exists>before. concat cs = before @ seg @ r"
proof -
  let ?w = "fold ingest cs (with_limits lim mx)"
  have "?w = (fold consume_packet ps (with_limits lim mx))\<lparr>wc_pending := r\<rparr>"
    using assms(1-4) by (intro ingests_aligned) (simp_all add: with_limits_def TS_PACKET_BYTES_def)
  moreover have "warm_tracks lim mx ps (fold consume_packet ps (with_limits lim mx))"
    by (rule warm_tracks_packets [OF assms(3)])
  ultimately have "warm_reference lim mx ps = Some seg"
    using assms(5) by (auto simp: warm_tracks_def warm_snapshot_def split: option.splits if_splits)
  from reference_suffix [OF this] show ?thesis
    using assms(2) by (auto simp: suffix_def)
qed

end
