(* ===== verification/Remux.thy ===== *)
theory Remux
  imports Ts_Warm Hub
begin

text \<open>
  The MPEG-TS hub of one camera (\<open>remux.rs\<close>, \<open>remux_process.rs\<close>): one ffmpeg process remuxes the raw
  stream, its output is fanned out to subscribers with bounded queues, and a late subscriber first gets the
  warm segment of \<open>Ts_Warm\<close>. Every lock-protected section is one operation; \<open>remux_step\<close> interleaves them as
  the tasks of the runtime may. ffmpeg and the subscription to the raw hub that feeds it are what the reads
  of its output return: a chunk of at most the read buffer, the end, or an error. Subscriber and task numbers
  are counted without the 64-bit wrap-around; metrics are omitted. \<open>hub_config\<close> is the configuration both
  hubs share.
\<close>

definition REMUX_BUFFER :: nat where "REMUX_BUFFER = 64 * 1024"

text \<open>A subscriber's channel: everything accepted so far and how much of it the receiver has taken. The last
  two fields are not in the code: the warm segment it started with and how many chunks had been published when
  it joined.\<close>

record ts_subscriber =
  ts_sent :: "bytes list"
  ts_taken :: nat
  ts_open :: bool
  ts_start :: "bytes option"
  ts_joined :: nat

datatype remux_phase =
    Remux_Spawned
  | Remux_Piping
  | Remux_Ended
  | Remux_Emptied
  | Remux_Cold
  | Remux_Finished

record remux_task =
  rt_cancelled :: bool
  rt_phase :: remux_phase

text \<open>A call of \<open>close\<close> between its steps.\<close>

datatype closer = Close_Take | Close_Wait "nat option" | Close_Warm

text \<open>\<open>ts_pending\<close>, \<open>ts_entered\<close>, \<open>ts_left\<close>, \<open>ts_timers\<close>, \<open>ts_firing\<close> and \<open>ts_closers\<close> are calls and timers
  between two of their locked sections; \<open>ts_log\<close> is everything published so far.\<close>

record ts_hub =
  ts_subscribers :: "(nat, ts_subscriber) btree"
  ts_warm :: warm_cache
  ts_producer :: "nat option"
  ts_tasks :: "(nat, remux_task) btree"
  ts_spawned :: nat
  ts_next_id :: nat
  ts_closed :: bool
  ts_pending :: nat
  ts_entered :: nat
  ts_left :: nat
  ts_timers :: "nat option list"
  ts_firing :: "nat list"
  ts_closers :: "closer list"
  ts_log :: "bytes list"

definition ts_hub_new :: ts_hub where
  "ts_hub_new = \<lparr>ts_subscribers = [], ts_warm = warm_default, ts_producer = None, ts_tasks = [], ts_spawned = 0,
     ts_next_id = 1, ts_closed = False, ts_pending = 0, ts_entered = 0, ts_left = 0, ts_timers = [], ts_firing = [],
     ts_closers = [], ts_log = []\<rparr>"

section \<open>Operations\<close>

definition remux_running :: "nat \<Rightarrow> ts_hub \<Rightarrow> bool" where
  "remux_running g h \<longleftrightarrow> (case bt_get (ts_tasks h) g of None \<Rightarrow> False | Some t \<Rightarrow> rt_phase t \<noteq> Remux_Finished)"

definition remux_phase_set :: "nat \<Rightarrow> remux_phase \<Rightarrow> ts_hub \<Rightarrow> ts_hub" where
  "remux_phase_set g ph h = h\<lparr>ts_tasks := bt_modify g (\<lambda>t. t\<lparr>rt_phase := ph\<rparr>) (ts_tasks h)\<rparr>"

definition remux_cancel :: "nat \<Rightarrow> ts_hub \<Rightarrow> ts_hub" where
  "remux_cancel g h = h\<lparr>ts_tasks := bt_modify g (\<lambda>t. t\<lparr>rt_cancelled := True\<rparr>) (ts_tasks h)\<rparr>"

definition ts_ensure_running :: "ts_hub \<Rightarrow> ts_hub" where
  "ts_ensure_running h =
     (if (case ts_producer h of None \<Rightarrow> False | Some g \<Rightarrow> remux_running g h) then h
      else let g = ts_spawned h + 1
           in h\<lparr>ts_spawned := g, ts_tasks := bt_insert g \<lparr>rt_cancelled = False, rt_phase = Remux_Spawned\<rparr> (ts_tasks h),
                ts_producer := Some g\<rparr>)"

definition ts_try_send :: "hub_config \<Rightarrow> bytes \<Rightarrow> ts_subscriber \<Rightarrow> ts_subscriber option" where
  "ts_try_send cfg chunk s =
     (if ts_open s \<and> length (ts_sent s) - ts_taken s < queue_chunks cfg
      then Some (s\<lparr>ts_sent := ts_sent s @ [chunk]\<rparr>) else None)"

text \<open>\<open>subscribe\<close> from the check of the closed flag to the insertion of the subscriber.\<close>

definition ts_subscribe_locked :: "hub_config \<Rightarrow> ts_hub \<Rightarrow> (bridge_error + nat) \<times> ts_hub" where
  "ts_subscribe_locked cfg h0 =
     (let i = ts_next_id h0; h = h0\<lparr>ts_next_id := i + 1\<rparr>;
          sender = \<lparr>ts_sent = [], ts_taken = 0, ts_open = True, ts_start = None, ts_joined = length (ts_log h)\<rparr>
      in if max_subscribers cfg \<le> length (ts_subscribers h)
         then (Inl (Capacity ''maximum MPEG-TS subscribers reached''), h)
         else case warm_snapshot (ts_warm h) of
             None \<Rightarrow> (Inr i, h\<lparr>ts_subscribers := bt_insert i sender (ts_subscribers h)\<rparr>)
           | Some snap \<Rightarrow>
               (case ts_try_send cfg snap sender of
                  None \<Rightarrow> (Inl (Upstream ''MPEG-TS warm cache delivery failed''), h)
                | Some s \<Rightarrow> (Inr i, h\<lparr>ts_subscribers := bt_insert i (s\<lparr>ts_start := Some snap\<rparr>) (ts_subscribers h)\<rparr>)))"

text \<open>The whole of \<open>subscribe\<close> when nothing comes in between.\<close>

definition ts_subscribe :: "hub_config \<Rightarrow> ts_hub \<Rightarrow> (bridge_error + nat) \<times> ts_hub" where
  "ts_subscribe cfg h =
     (if ts_closed h then (Inl (Upstream ''MPEG-TS hub is closed''), h)
      else case ts_subscribe_locked cfg h of (Inl e, h') \<Rightarrow> (Inl e, h') | (Inr i, h') \<Rightarrow> (Inr i, ts_ensure_running h'))"

definition ts_remove_subscriber :: "nat \<Rightarrow> ts_hub \<Rightarrow> ts_hub" where
  "ts_remove_subscriber i h =
     (let subs = bt_remove i (ts_subscribers h)
      in h\<lparr>ts_subscribers := subs, ts_left := (if subs = [] then ts_left h + 1 else ts_left h)\<rparr>)"

definition ts_publish :: "hub_config \<Rightarrow> bytes \<Rightarrow> ts_hub \<Rightarrow> ts_hub" where
  "ts_publish cfg chunk h =
     h\<lparr>ts_warm := ingest chunk (ts_warm h),
       ts_subscribers := bt_try_each (ts_try_send cfg chunk) (ts_subscribers h),
       ts_log := ts_log h @ [chunk]\<rparr>"

section \<open>Interleavings\<close>

inductive remux_step :: "hub_config \<Rightarrow> ts_hub \<Rightarrow> ts_hub \<Rightarrow> bool" for cfg where
  ts_check: "\<not> ts_closed h \<Longrightarrow> remux_step cfg h (h\<lparr>ts_pending := ts_pending h + 1\<rparr>)"
| ts_refused: "ts_pending h = Suc n \<Longrightarrow> ts_subscribe_locked cfg (h\<lparr>ts_pending := n\<rparr>) = (Inl e, h') \<Longrightarrow> remux_step cfg h h'"
| ts_enter: "ts_pending h = Suc n \<Longrightarrow> ts_subscribe_locked cfg (h\<lparr>ts_pending := n\<rparr>) = (Inr i, h')
    \<Longrightarrow> remux_step cfg h (h'\<lparr>ts_entered := ts_entered h' + 1\<rparr>)"
| ts_ensure: "ts_entered h = Suc n \<Longrightarrow> remux_step cfg h (ts_ensure_running (h\<lparr>ts_entered := n\<rparr>))"
| ts_leave: "remux_step cfg h (ts_remove_subscriber i h)"
| ts_receive: "bt_get (ts_subscribers h) i = Some s \<Longrightarrow> ts_taken s < length (ts_sent s)
    \<Longrightarrow> remux_step cfg h (h\<lparr>ts_subscribers := bt_modify i (\<lambda>s. s\<lparr>ts_taken := ts_taken s + 1\<rparr>) (ts_subscribers h)\<rparr>)"
| ts_hang_up: "remux_step cfg h (h\<lparr>ts_subscribers := bt_modify i (\<lambda>s. s\<lparr>ts_open := False\<rparr>) (ts_subscribers h)\<rparr>)"
| ts_timer: "ts_left h = Suc n \<Longrightarrow> remux_step cfg h (h\<lparr>ts_left := n, ts_timers := ts_producer h # ts_timers h\<rparr>)"
| ts_idle: "ts_timers h = a @ c # b
    \<Longrightarrow> remux_step cfg h (h\<lparr>ts_timers := a @ b,
          ts_firing := (case c of Some g \<Rightarrow> if ts_subscribers h = [] then g # ts_firing h else ts_firing h | None \<Rightarrow> ts_firing h)\<rparr>)"
| ts_fire: "ts_firing h = a @ g # b \<Longrightarrow> remux_step cfg h (remux_cancel g (h\<lparr>ts_firing := a @ b\<rparr>))"
| rx_failed: "bt_get (ts_tasks h) g = Some t \<Longrightarrow> rt_phase t = Remux_Spawned \<Longrightarrow> remux_step cfg h (remux_phase_set g Remux_Ended h)"
| rx_started: "bt_get (ts_tasks h) g = Some t \<Longrightarrow> rt_phase t = Remux_Spawned \<Longrightarrow> remux_step cfg h (remux_phase_set g Remux_Piping h)"
| rx_chunk: "bt_get (ts_tasks h) g = Some t \<Longrightarrow> rt_phase t = Remux_Piping \<Longrightarrow> 0 < length chunk \<Longrightarrow> length chunk \<le> REMUX_BUFFER
    \<Longrightarrow> remux_step cfg h (ts_publish cfg chunk h)"
| rx_ended: "bt_get (ts_tasks h) g = Some t \<Longrightarrow> rt_phase t = Remux_Piping
    \<Longrightarrow> remux_step cfg h (remux_phase_set g Remux_Ended (remux_cancel g h))"
| rx_read_error: "bt_get (ts_tasks h) g = Some t \<Longrightarrow> rt_phase t = Remux_Piping
    \<Longrightarrow> remux_step cfg h (remux_phase_set g Remux_Ended h)"
| rx_empty: "bt_get (ts_tasks h) g = Some t \<Longrightarrow> rt_phase t = Remux_Ended
    \<Longrightarrow> remux_step cfg h (remux_phase_set g Remux_Emptied (h\<lparr>ts_subscribers := []\<rparr>))"
| rx_cold: "bt_get (ts_tasks h) g = Some t \<Longrightarrow> rt_phase t = Remux_Emptied
    \<Longrightarrow> remux_step cfg h (remux_phase_set g Remux_Cold (h\<lparr>ts_warm := warm_clear (ts_warm h)\<rparr>))"
| rx_done: "bt_get (ts_tasks h) g = Some t \<Longrightarrow> rt_phase t = Remux_Cold \<Longrightarrow> remux_step cfg h (remux_phase_set g Remux_Finished h)"
| cl_flag: "remux_step cfg h (h\<lparr>ts_closed := True, ts_closers := Close_Take # ts_closers h\<rparr>)"
| cl_take: "ts_closers h = a @ Close_Take # b
    \<Longrightarrow> remux_step cfg h ((case ts_producer h of None \<Rightarrow> h | Some g \<Rightarrow> remux_cancel g h)
          \<lparr>ts_producer := None, ts_closers := a @ Close_Wait (ts_producer h) # b\<rparr>)"
| cl_subscribers: "ts_closers h = a @ Close_Wait p # b \<Longrightarrow> (case p of None \<Rightarrow> True | Some g \<Rightarrow> \<not> remux_running g h)
    \<Longrightarrow> remux_step cfg h (h\<lparr>ts_subscribers := [], ts_closers := a @ Close_Warm # b\<rparr>)"
| cl_warm: "ts_closers h = a @ Close_Warm # b
    \<Longrightarrow> remux_step cfg h (h\<lparr>ts_warm := warm_clear (ts_warm h), ts_closers := a @ b\<rparr>)"

section \<open>The invariant\<close>

definition ts_served :: "hub_config \<Rightarrow> bytes list \<Rightarrow> ts_subscriber \<Rightarrow> bool" where
  "ts_served cfg log s \<longleftrightarrow>
     ts_sent s = (case ts_start s of None \<Rightarrow> [] | Some seg \<Rightarrow> [seg]) @ drop (ts_joined s) log
     \<and> ts_joined s \<le> length log \<and> length (ts_sent s) - ts_taken s \<le> queue_chunks cfg
     \<and> (case ts_start s of None \<Rightarrow> True | Some seg \<Rightarrow> warm_segment RECENT_PACKET_LIMIT seg \<and> length seg \<le> MAX_WARM_BYTES)"

text \<open>At most one task still works for the hub: every other one is finished or told to stop.\<close>

definition remux_tasks_ok :: "ts_hub \<Rightarrow> bool" where
  "remux_tasks_ok h \<longleftrightarrow> bt_ordered (ts_tasks h) \<and> (\<forall>g \<in> fst ` set (ts_tasks h). g \<le> ts_spawned h)
     \<and> (\<forall>g t. bt_get (ts_tasks h) g = Some t \<longrightarrow> rt_phase t \<noteq> Remux_Finished \<longrightarrow> \<not> rt_cancelled t \<longrightarrow> ts_producer h = Some g)"

definition ts_warm_ok :: "ts_hub \<Rightarrow> bool" where
  "ts_warm_ok h \<longleftrightarrow> warm_ok (ts_warm h) \<and> recent_limit (ts_warm h) = RECENT_PACKET_LIMIT
     \<and> maximum_bytes (ts_warm h) = MAX_WARM_BYTES"

definition ts_subs_ok :: "hub_config \<Rightarrow> ts_hub \<Rightarrow> bool" where
  "ts_subs_ok cfg h \<longleftrightarrow> length (ts_subscribers h) \<le> max_subscribers cfg \<and> list_all (\<lambda>(i, s). ts_served cfg (ts_log h) s) (ts_subscribers h)"

definition ts_inv :: "hub_config \<Rightarrow> ts_hub \<Rightarrow> bool" where
  "ts_inv cfg h \<longleftrightarrow> ts_subs_ok cfg h \<and> ts_warm_ok h \<and> remux_tasks_ok h"

lemma ts_inv_new: "ts_inv cfg ts_hub_new"
  using warm_ok_new [of RECENT_PACKET_LIMIT MAX_WARM_BYTES]
  by (simp add: ts_inv_def ts_subs_ok_def ts_warm_ok_def remux_tasks_ok_def ts_hub_new_def warm_default_def with_limits_def bt_ordered_def)

text \<open>The operations on tasks touch nothing else.\<close>

lemma remux_frame [simp]:
  "ts_subscribers (remux_phase_set g ph h) = ts_subscribers h" "ts_log (remux_phase_set g ph h) = ts_log h"
  "ts_warm (remux_phase_set g ph h) = ts_warm h"
  "ts_subscribers (remux_cancel g h) = ts_subscribers h" "ts_log (remux_cancel g h) = ts_log h"
  "ts_warm (remux_cancel g h) = ts_warm h"
  "ts_subscribers (ts_ensure_running h) = ts_subscribers h" "ts_log (ts_ensure_running h) = ts_log h"
  "ts_warm (ts_ensure_running h) = ts_warm h"
  by (simp_all add: remux_phase_set_def remux_cancel_def ts_ensure_running_def Let_def)

lemma ts_subscribe_cases:
  assumes "ts_subscribe_locked cfg h = (res, h')"
  obtains (refused) e where "res = Inl e" "h' = h\<lparr>ts_next_id := ts_next_id h + 1\<rparr>"
  | (entered) s where "res = Inr (ts_next_id h)" "length (ts_subscribers h) < max_subscribers cfg"
      "h' = h\<lparr>ts_next_id := ts_next_id h + 1, ts_subscribers := bt_insert (ts_next_id h) s (ts_subscribers h)\<rparr>"
      "ts_taken s = 0" "ts_joined s = length (ts_log h)" "ts_start s = warm_snapshot (ts_warm h)"
      "ts_sent s = (case ts_start s of None \<Rightarrow> [] | Some seg \<Rightarrow> [seg])" "length (ts_sent s) \<le> queue_chunks cfg"
proof (cases "length (ts_subscribers h) < max_subscribers cfg")
  case False
  then show ?thesis
    using assms refused by (auto simp: ts_subscribe_locked_def Let_def)
next
  case True
  then show ?thesis
    using assms refused entered
    by (cases "warm_snapshot (ts_warm h)"; cases "0 < queue_chunks cfg")
      (force simp: ts_subscribe_locked_def ts_try_send_def Let_def)+
qed

lemma warm_clear_limits [simp]:
  "recent_limit (warm_clear w) = recent_limit w" "maximum_bytes (warm_clear w) = maximum_bytes w"
  by (simp_all add: warm_clear_def)

lemma ts_publish_frame [simp]:
  "ts_tasks (ts_publish cfg c h) = ts_tasks h" "ts_spawned (ts_publish cfg c h) = ts_spawned h"
  "ts_producer (ts_publish cfg c h) = ts_producer h"
  by (simp_all add: ts_publish_def)

lemma ts_remove_frame [simp]:
  "ts_tasks (ts_remove_subscriber i h) = ts_tasks h" "ts_spawned (ts_remove_subscriber i h) = ts_spawned h"
  "ts_producer (ts_remove_subscriber i h) = ts_producer h" "ts_warm (ts_remove_subscriber i h) = ts_warm h"
  "ts_log (ts_remove_subscriber i h) = ts_log h"
  "ts_subscribers (ts_remove_subscriber i h) = bt_remove i (ts_subscribers h)"
  by (simp_all add: ts_remove_subscriber_def Let_def)

subsection \<open>The warm cache\<close>

lemma ts_warm_ok_same: "ts_warm h' = ts_warm h \<Longrightarrow> ts_warm_ok h \<Longrightarrow> ts_warm_ok h'"
  by (simp add: ts_warm_ok_def)

lemma ts_warm_ok_step: "remux_step cfg h h' \<Longrightarrow> ts_warm_ok h \<Longrightarrow> ts_warm_ok h'"
proof (induction rule: remux_step.induct)
  case (ts_refused h n e h')
  from ts_refused(2) have "ts_warm h' = ts_warm h"
    by (cases rule: ts_subscribe_cases) simp_all
  then show ?case using ts_refused(3) ts_warm_ok_same by simp
next
  case (ts_enter h n i h')
  from ts_enter(2) have "ts_warm h' = ts_warm h"
    by (cases rule: ts_subscribe_cases) simp_all
  then show ?case using ts_enter(3) by (simp add: ts_warm_ok_def)
qed (auto simp: ts_warm_ok_def ts_publish_def warm_ok_clear ingest_ok split: option.splits)

subsection \<open>The subscribers\<close>

lemma ts_subs_ok_less:
  assumes "ts_subs_ok cfg h" "ts_log h' = ts_log h" "length (ts_subscribers h') \<le> length (ts_subscribers h)"
    and "list_all (\<lambda>(i, s'). \<exists>s. (i, s) \<in> set (ts_subscribers h) \<and> ts_sent s' = ts_sent s \<and> ts_start s' = ts_start s
      \<and> ts_joined s' = ts_joined s \<and> ts_taken s \<le> ts_taken s') (ts_subscribers h')"
  shows "ts_subs_ok cfg h'"
  unfolding ts_subs_ok_def
proof
  show "length (ts_subscribers h') \<le> max_subscribers cfg"
    using assms(1,3) by (simp add: ts_subs_ok_def)
  show "list_all (\<lambda>(i, s). ts_served cfg (ts_log h') s) (ts_subscribers h')"
    unfolding list_all_iff
  proof clarify
    fix i s'
    assume "(i, s') \<in> set (ts_subscribers h')"
    then obtain s where s: "(i, s) \<in> set (ts_subscribers h)" "ts_sent s' = ts_sent s" "ts_start s' = ts_start s"
      "ts_joined s' = ts_joined s" "ts_taken s \<le> ts_taken s'"
      using assms(4) unfolding list_all_iff by fast
    then have "ts_served cfg (ts_log h) s"
      using assms(1) by (auto simp: ts_subs_ok_def list_all_iff)
    moreover from this have "length (ts_sent s) - ts_taken s' \<le> queue_chunks cfg"
      using s(5) unfolding ts_served_def by linarith
    ultimately show "ts_served cfg (ts_log h') s'"
      unfolding ts_served_def assms(2) s(2-4) by blast
  qed
qed

lemma ts_subs_ok_same: "ts_subscribers h' = ts_subscribers h \<Longrightarrow> ts_log h' = ts_log h \<Longrightarrow> ts_subs_ok cfg h \<Longrightarrow> ts_subs_ok cfg h'"
  by (simp add: ts_subs_ok_def)

lemma ts_subs_ok_modify:
  "ts_subs_ok cfg h \<Longrightarrow> (\<And>s. ts_sent (f s) = ts_sent s \<and> ts_start (f s) = ts_start s \<and> ts_joined (f s) = ts_joined s \<and> ts_taken s \<le> ts_taken (f s))
    \<Longrightarrow> ts_subs_ok cfg (h\<lparr>ts_subscribers := bt_modify i f (ts_subscribers h)\<rparr>)"
  by (rule ts_subs_ok_less) (fastforce simp: bt_modify_def list_all_iff)+

lemma ts_subs_ok_enter:
  assumes "ts_subs_ok cfg h" "ts_warm_ok h" "ts_subscribe_locked cfg h = (res, h')"
  shows "ts_subs_ok cfg h'"
  using assms(3)
proof (cases rule: ts_subscribe_cases)
  case (refused e)
  then show ?thesis using ts_subs_ok_same [OF _ _ assms(1)] by simp
next
  case (entered s)
  have snap: "case warm_snapshot (ts_warm h) of None \<Rightarrow> True
      | Some seg \<Rightarrow> warm_segment RECENT_PACKET_LIMIT seg \<and> length seg \<le> MAX_WARM_BYTES"
    using assms(2) by (auto simp: ts_warm_ok_def warm_ok_def warm_snapshot_def)
  have "ts_served cfg (ts_log h) s"
    using entered(4-8) snap by (simp add: ts_served_def)
  then show ?thesis
    using assms(1) entered(2,3) length_bt_insert [of "ts_next_id h" s "ts_subscribers h"]
      bt_insert_entries [of "ts_next_id h" s "ts_subscribers h"]
    by (auto simp: ts_subs_ok_def list_all_iff)
qed

lemma ts_served_sent:
  "ts_served cfg log s \<Longrightarrow> ts_try_send cfg c s = Some s' \<Longrightarrow> ts_served cfg (log @ [c]) s'"
  by (auto simp: ts_served_def ts_try_send_def split: if_splits)

interpretation ts_channel: bounded_channel "ts_try_send cfg" ts_sent "\<lambda>s. length (ts_sent s) - ts_taken s" "queue_chunks cfg" for cfg
  by unfold_locales (auto simp: ts_try_send_def split: if_splits)

lemma ts_subs_ok_publish:
  assumes "ts_subs_ok cfg h"
  shows "ts_subs_ok cfg (ts_publish cfg c h)"
  unfolding ts_subs_ok_def
proof
  show "length (ts_subscribers (ts_publish cfg c h)) \<le> max_subscribers cfg"
    using assms by (auto simp: ts_subs_ok_def ts_publish_def intro: order_trans [OF length_bt_try_each])
  show "list_all (\<lambda>(i, s). ts_served cfg (ts_log (ts_publish cfg c h)) s) (ts_subscribers (ts_publish cfg c h))"
    unfolding list_all_iff
  proof clarify
    fix i s'
    assume "(i, s') \<in> set (ts_subscribers (ts_publish cfg c h))"
    then obtain s where "(i, s) \<in> set (ts_subscribers h)" "ts_try_send cfg c s = Some s'"
      using ts_channel.fan_out_entry by (fastforce simp: ts_publish_def)
    then show "ts_served cfg (ts_log (ts_publish cfg c h)) s'"
      using assms ts_served_sent [of cfg "ts_log h" s c s'] by (auto simp: ts_subs_ok_def list_all_iff ts_publish_def)
  qed
qed

lemma ts_subs_ok_step: "remux_step cfg h h' \<Longrightarrow> ts_subs_ok cfg h \<Longrightarrow> ts_warm_ok h \<Longrightarrow> ts_subs_ok cfg h'"
proof (induction rule: remux_step.induct)
  case (ts_refused h n e h')
  from ts_subs_ok_enter [OF _ _ ts_refused(2)] show ?case
    using ts_refused(3,4) by (simp add: ts_subs_ok_def ts_warm_ok_def)
next
  case (ts_enter h n i h')
  from ts_subs_ok_enter [OF _ _ ts_enter(2)] show ?case
    using ts_enter(3,4) by (simp add: ts_subs_ok_def ts_warm_ok_def)
next
  case (ts_leave h i)
  then show ?case
    by (intro ts_subs_ok_less [OF ts_leave(1)]) (auto simp: list_all_iff bt_remove_def bt_retain_def)
next
  case (ts_receive h i s)
  show ?case by (rule ts_subs_ok_modify [OF ts_receive(3)]) simp
next
  case (ts_hang_up h i)
  show ?case by (rule ts_subs_ok_modify [OF ts_hang_up(1)]) simp
next
  case (rx_chunk h g t chunk)
  show ?case by (rule ts_subs_ok_publish [OF rx_chunk(5)])
qed (auto simp: ts_subs_ok_def split: option.splits)

subsection \<open>The tasks\<close>

lemma remux_tasks_modify:
  assumes "remux_tasks_ok h" "ts_producer h' = ts_producer h" "ts_spawned h' = ts_spawned h" "ts_tasks h' = bt_modify g f (ts_tasks h)"
    and "\<And>t. bt_get (ts_tasks h) g = Some t \<Longrightarrow> rt_phase (f t) \<noteq> Remux_Finished \<Longrightarrow> \<not> rt_cancelled (f t)
      \<Longrightarrow> rt_phase t \<noteq> Remux_Finished \<and> \<not> rt_cancelled t"
  shows "remux_tasks_ok h'"
proof -
  have "fst ` set (ts_tasks h') = fst ` set (ts_tasks h)"
    unfolding assms(4) by (metis keys_bt_modify list.set_map)
  then show ?thesis
    using assms by (auto simp: remux_tasks_ok_def split: if_splits)
qed

lemma remux_tasks_same:
  "ts_tasks h' = ts_tasks h \<Longrightarrow> ts_producer h' = ts_producer h \<Longrightarrow> ts_spawned h' = ts_spawned h \<Longrightarrow> remux_tasks_ok h \<Longrightarrow> remux_tasks_ok h'"
  by (simp add: remux_tasks_ok_def)

lemma remux_tasks_phase:
  "remux_tasks_ok h \<Longrightarrow> bt_get (ts_tasks h) g = Some t \<Longrightarrow> rt_phase t \<noteq> Remux_Finished \<Longrightarrow> remux_tasks_ok (remux_phase_set g ph h)"
  by (rule remux_tasks_modify [where g = g and f = "\<lambda>t. t\<lparr>rt_phase := ph\<rparr>"]) (auto simp: remux_phase_set_def)

lemma remux_tasks_cancel: "remux_tasks_ok h \<Longrightarrow> remux_tasks_ok (remux_cancel g h)"
  by (rule remux_tasks_modify [where g = g and f = "\<lambda>t. t\<lparr>rt_cancelled := True\<rparr>"]) (auto simp: remux_cancel_def)

lemma remux_tasks_spawn:
  assumes "remux_tasks_ok h"
  shows "remux_tasks_ok (ts_ensure_running h)"
proof (cases "case ts_producer h of None \<Rightarrow> False | Some g \<Rightarrow> remux_running g h")
  case False
  have idle: "rt_cancelled t" if "bt_get (ts_tasks h) g = Some t" "rt_phase t \<noteq> Remux_Finished" for g t
  proof (rule ccontr)
    assume "\<not> rt_cancelled t"
    then have "ts_producer h = Some g"
      using that assms by (simp add: remux_tasks_ok_def)
    then show False
      using that False by (simp add: remux_running_def)
  qed
  let ?new = "\<lparr>rt_cancelled = False, rt_phase = Remux_Spawned\<rparr>"
  have "bt_ordered (bt_insert (ts_spawned h + 1) ?new (ts_tasks h))"
    using assms by (simp add: remux_tasks_ok_def bt_ordered_insert)
  then show ?thesis
    using False idle assms by (auto simp: ts_ensure_running_def remux_tasks_ok_def Let_def keys_bt_insert split: if_splits)
qed (simp add: ts_ensure_running_def assms)

lemma remux_tasks_taken:
  assumes "remux_tasks_ok h"
  shows "remux_tasks_ok ((case ts_producer h of None \<Rightarrow> h | Some g \<Rightarrow> remux_cancel g h)\<lparr>ts_producer := None, ts_closers := cl\<rparr>)"
proof (cases "ts_producer h")
  case None
  then show ?thesis using assms by (simp add: remux_tasks_ok_def)
next
  case (Some g)
  then show ?thesis
    using remux_tasks_cancel [OF assms, of g] assms by (fastforce simp: remux_tasks_ok_def remux_cancel_def split: if_splits)
qed

lemma remux_tasks_step: "remux_step cfg h h' \<Longrightarrow> remux_tasks_ok h \<Longrightarrow> remux_tasks_ok h'"
proof (induction rule: remux_step.induct)
  case (ts_refused h n e h')
  from ts_refused(2) show ?case
    by (cases rule: ts_subscribe_cases) (use ts_refused(3) in \<open>simp_all add: remux_tasks_ok_def\<close>)
next
  case (ts_enter h n i h')
  from ts_enter(2) show ?case
    by (cases rule: ts_subscribe_cases) (use ts_enter(3) in \<open>simp_all add: remux_tasks_ok_def\<close>)
next
  case (ts_ensure h n)
  then show ?case by (intro remux_tasks_spawn) (simp add: remux_tasks_ok_def)
next
  case (ts_fire h a g b)
  then show ?case by (intro remux_tasks_cancel) (simp add: remux_tasks_ok_def)
next
  case (rx_ended h g t)
  then show ?case
    using remux_tasks_phase [OF remux_tasks_cancel [OF rx_ended(3), of g], of g "t\<lparr>rt_cancelled := True\<rparr>"]
    by (simp add: remux_cancel_def)
next
  case (rx_empty h g t)
  then show ?case by (intro remux_tasks_phase [where t = t]) (simp_all add: remux_tasks_ok_def)
next
  case (rx_cold h g t)
  then show ?case by (intro remux_tasks_phase [where t = t]) (simp_all add: remux_tasks_ok_def)
next
  case (cl_take h a b)
  then show ?case by (intro remux_tasks_taken)
qed (fastforce intro: remux_tasks_phase | simp add: remux_tasks_ok_def)+

lemma ts_inv_step: "remux_step cfg h h' \<Longrightarrow> ts_inv cfg h \<Longrightarrow> ts_inv cfg h'"
  by (simp add: ts_inv_def ts_subs_ok_step ts_warm_ok_step remux_tasks_step)

interpretation ts_machine: invariant_machine "remux_step cfg" "ts_inv cfg" for cfg
  by unfold_locales (rule ts_inv_step)

section \<open>Properties\<close>

text \<open>C34. However the calls, timers and tasks of the MPEG-TS hub interleave, there are at most
  \<open>max_subscribers\<close> subscribers; each has been sent the warm segment it started with, if there was one (whole
  packets with a random access point after at most 512 of them, no more than 8 MiB), and then every chunk published
  since it joined, in order and without a gap, with at most \<open>queue_chunks\<close> of them unread; and every remux task but
  the hub's producer has finished or been told to stop.\<close>

theorem ts_stream_integrity:
  assumes "(remux_step cfg)\<^sup>*\<^sup>* ts_hub_new h"
  shows "length (ts_subscribers h) \<le> max_subscribers cfg
    \<and> list_all (\<lambda>(i, s). ts_served cfg (ts_log h) s) (ts_subscribers h)
    \<and> list_all (\<lambda>(g, t). rt_phase t = Remux_Finished \<or> rt_cancelled t \<or> ts_producer h = Some g) (ts_tasks h)"
proof -
  have inv: "ts_inv cfg h" by (rule ts_machine.invariant_run [OF assms ts_inv_new])
  have "rt_phase t = Remux_Finished \<or> rt_cancelled t \<or> ts_producer h = Some g" if "(g, t) \<in> set (ts_tasks h)" for g t
    using inv that bt_get_entry [of "ts_tasks h" g t] by (auto simp: ts_inv_def remux_tasks_ok_def)
  with inv show ?thesis
    by (auto simp: ts_inv_def ts_subs_ok_def list_all_iff)
qed

definition demo_ts_config :: hub_config where
  "demo_ts_config = \<lparr>queue_chunks = 2, max_subscribers = 1\<rparr>"

definition demo_ts_joined :: ts_hub where
  "demo_ts_joined = remux_phase_set 1 Remux_Piping (snd (ts_subscribe demo_ts_config ts_hub_new))"

lemma demo_ts_run:
  "(remux_step demo_ts_config)\<^sup>*\<^sup>* ts_hub_new (ts_publish demo_ts_config [0x47] demo_ts_joined)"
proof -
  let ?c = demo_ts_config
  let ?h1 = "ts_hub_new\<lparr>ts_pending := 1\<rparr>"
  obtain h2 where enter: "ts_subscribe_locked ?c (?h1\<lparr>ts_pending := 0\<rparr>) = (Inr 1, h2)"
    by (simp add: ts_subscribe_locked_def ts_hub_new_def demo_ts_config_def warm_default_def with_limits_def warm_snapshot_def)
  have same: "ts_hub_new\<lparr>ts_pending := 0\<rparr> = ts_hub_new"
    by (simp add: ts_hub_new_def)
  let ?h2 = "h2\<lparr>ts_entered := ts_entered h2 + 1\<rparr>"
  have left: "ts_entered h2 = 0"
    using enter by (cases rule: ts_subscribe_cases) (simp_all add: ts_hub_new_def)
  then have restore [simp]: "h2\<lparr>ts_entered := 0\<rparr> = h2" by (cases h2) simp
  have joined: "demo_ts_joined = remux_phase_set 1 Remux_Piping (ts_ensure_running h2)"
    using enter by (simp add: demo_ts_joined_def ts_subscribe_def ts_hub_new_def)
  have spawned: "bt_get (ts_tasks (ts_ensure_running h2)) 1 = Some \<lparr>rt_cancelled = False, rt_phase = Remux_Spawned\<rparr>"
    using enter by (cases rule: ts_subscribe_cases) (simp_all add: ts_ensure_running_def ts_hub_new_def)
  have piping: "bt_get (ts_tasks demo_ts_joined) 1 = Some \<lparr>rt_cancelled = False, rt_phase = Remux_Piping\<rparr>"
    using spawned by (simp add: joined remux_phase_set_def)
  have "remux_step ?c ts_hub_new ?h1"
    using ts_check [of ts_hub_new ?c] by (simp add: ts_hub_new_def)
  moreover have "remux_step ?c ?h1 ?h2"
    by (rule ts_enter [OF _ enter]) simp
  moreover have "remux_step ?c ?h2 (ts_ensure_running h2)"
    using ts_ensure [of ?h2 0 ?c] left by simp
  moreover have "remux_step ?c (ts_ensure_running h2) demo_ts_joined"
    unfolding joined by (rule rx_started [OF spawned]) simp
  moreover have "remux_step ?c demo_ts_joined (ts_publish ?c [0x47] demo_ts_joined)"
    by (rule rx_chunk [OF piping]) (simp_all add: REMUX_BUFFER_def)
  ultimately show ?thesis
    by (meson rtranclp.rtrancl_refl rtranclp.rtrancl_into_rtrancl)
qed

theorem ts_stream_integrity_witness:
  "(let h = ts_publish demo_ts_config [0x47] demo_ts_joined
    in length (ts_subscribers h) \<le> 1 \<and> list_all (\<lambda>(i, s). ts_served demo_ts_config (ts_log h) s) (ts_subscribers h)
      \<and> list_all (\<lambda>(g, t). rt_phase t = Remux_Finished \<or> rt_cancelled t \<or> ts_producer h = Some g) (ts_tasks h))"
  using ts_stream_integrity [OF demo_ts_run] by (simp add: demo_ts_config_def Let_def)

text \<open>A subscriber may be left without a producer: it joins after the ending task has cleared the hub and before
  that task counts as finished, so \<open>ensure_running\<close> starts nothing.\<close>

definition demo_ts_sub :: "nat \<Rightarrow> (nat, ts_subscriber) btree" where
  "demo_ts_sub i = [(i, \<lparr>ts_sent = [], ts_taken = 0, ts_open = True, ts_start = None, ts_joined = 0\<rparr>)]"

definition demo_ts_ending :: "remux_phase \<Rightarrow> bool \<Rightarrow> (nat, ts_subscriber) btree \<Rightarrow> nat \<Rightarrow> nat \<Rightarrow> nat \<Rightarrow> ts_hub" where
  "demo_ts_ending ph c subs nid p e = ts_hub_new\<lparr>ts_subscribers := subs, ts_producer := Some 1, ts_tasks := [(1, \<lparr>rt_cancelled = c, rt_phase = ph\<rparr>)],
     ts_spawned := 1, ts_next_id := nid, ts_pending := p, ts_entered := e\<rparr>"

lemma demo_ts_ended: "(remux_step demo_ts_config)\<^sup>*\<^sup>* demo_ts_joined (demo_ts_ending Remux_Cold True [] 2 0 0)"
proof -
  have start: "demo_ts_joined = demo_ts_ending Remux_Piping False (demo_ts_sub 1) 2 0 0"
    by (simp add: demo_ts_joined_def demo_ts_ending_def demo_ts_sub_def ts_subscribe_def ts_subscribe_locked_def ts_hub_new_def
        demo_ts_config_def warm_default_def with_limits_def warm_snapshot_def ts_ensure_running_def remux_phase_set_def bt_modify_def)
  have a: "remux_step demo_ts_config demo_ts_joined (demo_ts_ending Remux_Ended True (demo_ts_sub 1) 2 0 0)"
    unfolding start using rx_ended [of "demo_ts_ending Remux_Piping False (demo_ts_sub 1) 2 0 0" 1 _ demo_ts_config]
    by (simp add: demo_ts_ending_def ts_hub_new_def remux_phase_set_def remux_cancel_def bt_modify_def)
  have b: "remux_step demo_ts_config (demo_ts_ending Remux_Ended True (demo_ts_sub 1) 2 0 0) (demo_ts_ending Remux_Emptied True [] 2 0 0)"
    using rx_empty [of "demo_ts_ending Remux_Ended True (demo_ts_sub 1) 2 0 0" 1 _ demo_ts_config]
    by (simp add: demo_ts_ending_def ts_hub_new_def remux_phase_set_def bt_modify_def)
  have c: "remux_step demo_ts_config (demo_ts_ending Remux_Emptied True [] 2 0 0) (demo_ts_ending Remux_Cold True [] 2 0 0)"
    using rx_cold [of "demo_ts_ending Remux_Emptied True [] 2 0 0" 1 _ demo_ts_config]
    by (simp add: demo_ts_ending_def remux_phase_set_def bt_modify_def ts_hub_new_def warm_clear_def warm_default_def with_limits_def)
  show ?thesis
    using a b c by (meson rtranclp.rtrancl_refl rtranclp.rtrancl_into_rtrancl)
qed

lemma ts_subscriber_orphaned:
  "(remux_step demo_ts_config)\<^sup>*\<^sup>* demo_ts_joined (demo_ts_ending Remux_Finished True (demo_ts_sub 2) 3 0 0)"
proof -
  let ?h = "\<lambda>ph subs. demo_ts_ending ph True subs"
  have a: "remux_step demo_ts_config (?h Remux_Cold [] 2 0 0) (?h Remux_Cold [] 2 1 0)"
    using ts_check [of "?h Remux_Cold [] 2 0 0"] by (simp add: demo_ts_ending_def ts_hub_new_def)
  have b: "remux_step demo_ts_config (?h Remux_Cold [] 2 1 0) (?h Remux_Cold (demo_ts_sub 2) 3 0 1)"
    using ts_enter [of "?h Remux_Cold [] 2 1 0" 0 demo_ts_config 2]
    by (simp add: demo_ts_ending_def ts_hub_new_def demo_ts_sub_def ts_subscribe_locked_def demo_ts_config_def
        warm_default_def with_limits_def warm_snapshot_def)
  have c: "remux_step demo_ts_config (?h Remux_Cold (demo_ts_sub 2) 3 0 1) (?h Remux_Cold (demo_ts_sub 2) 3 0 0)"
    using ts_ensure [of "?h Remux_Cold (demo_ts_sub 2) 3 0 1" 0 demo_ts_config]
    by (simp add: demo_ts_ending_def ts_ensure_running_def remux_running_def)
  have d: "remux_step demo_ts_config (?h Remux_Cold (demo_ts_sub 2) 3 0 0) (?h Remux_Finished (demo_ts_sub 2) 3 0 0)"
    using rx_done [of "?h Remux_Cold (demo_ts_sub 2) 3 0 0" 1 _ demo_ts_config]
    by (simp add: demo_ts_ending_def ts_hub_new_def remux_phase_set_def bt_modify_def)
  have "(remux_step demo_ts_config)\<^sup>*\<^sup>* (?h Remux_Cold [] 2 0 0) (?h Remux_Finished (demo_ts_sub 2) 3 0 0)"
    using a b c d by (meson rtranclp.rtrancl_refl rtranclp.rtrancl_into_rtrancl)
  with demo_ts_ended show ?thesis
    by (rule rtranclp_trans)
qed

end
