(* ===== verification/Live_Api.thy ===== *)
theory Live_Api
  imports Remux Bridge_Config
begin

text \<open>
  The live surface of the HTTP API: the snapshot service (\<open>snapshot.rs\<close>) and the two live-stream handlers with
  their camera binding (\<open>api_stream.rs\<close>). A request to the snapshot service is described by the times it reads and
  by what the transport would answer; the per-camera lock makes it one operation. A stream handler subscribes to a hub
  of \<open>Hub\<close> or \<open>Remux\<close>, waits for the first chunk, during which the hub is changed by whatever else runs, and
  produces a body from the chunks received later. SHA-256 in hexadecimal is a parameter; metrics and header plumbing
  are omitted. Times are seconds.
\<close>

section \<open>Snapshots\<close>

record cached_snapshot =
  cs_data :: bytes
  cs_created :: int

text \<open>\<open>sv_calls\<close> is not in the code: the snapshots asked of the transport, newest first.\<close>

record snapshot_service =
  sv_cameras :: "(string, camera_config) btree"
  cache_duration :: int
  stale_duration :: int
  sv_states :: "(string, cached_snapshot option) btree"
  sv_calls :: "(string \<times> (bridge_error + bytes) \<times> int) list"

definition snapshot_service_new :: "(string, camera_config) btree \<Rightarrow> int \<Rightarrow> int \<Rightarrow> snapshot_service" where
  "snapshot_service_new cams cache stale =
     \<lparr>sv_cameras = cams, cache_duration = cache, stale_duration = stale, sv_states = map (\<lambda>(a, _). (a, None)) cams, sv_calls = []\<rparr>"

text \<open>A request: the alias, the time when the cache is looked at, the answer of the transport and the time when it
  has come.\<close>

record snapshot_request =
  rq_alias :: string
  rq_now :: int
  rq_reply :: "camera_config \<Rightarrow> bridge_error + bytes"
  rq_done :: int

definition elapsed :: "int \<Rightarrow> cached_snapshot \<Rightarrow> int" where
  "elapsed now c = max 0 (now - cs_created c)"

definition snapshot_get :: "snapshot_request \<Rightarrow> snapshot_service \<Rightarrow> (bridge_error + bytes) \<times> snapshot_service" where
  "snapshot_get rq sv =
     (case bt_get (sv_cameras sv) (rq_alias rq) of
        None \<Rightarrow> (Inl CameraNotFound, sv)
      | Some camera \<Rightarrow>
          (case bt_get (sv_states sv) (rq_alias rq) of
             None \<Rightarrow> (Inl CameraNotFound, sv)
           | Some cached \<Rightarrow>
               (case cached of
                  Some c \<Rightarrow>
                    if elapsed (rq_now rq) c \<le> cache_duration sv then (Inr (cs_data c), sv) else
                    let sv1 = sv\<lparr>sv_calls := (rq_alias rq, rq_reply rq camera, rq_done rq) # sv_calls sv\<rparr>
                    in (case rq_reply rq camera of
                          Inr img \<Rightarrow> (Inr img, sv1\<lparr>sv_states := bt_insert (rq_alias rq) (Some \<lparr>cs_data = img, cs_created = rq_done rq\<rparr>) (sv_states sv)\<rparr>)
                        | Inl e \<Rightarrow> if elapsed (rq_done rq) c \<le> stale_duration sv then (Inr (cs_data c), sv1) else (Inl e, sv1))
                | None \<Rightarrow>
                    let sv1 = sv\<lparr>sv_calls := (rq_alias rq, rq_reply rq camera, rq_done rq) # sv_calls sv\<rparr>
                    in (case rq_reply rq camera of
                          Inr img \<Rightarrow> (Inr img, sv1\<lparr>sv_states := bt_insert (rq_alias rq) (Some \<lparr>cs_data = img, cs_created = rq_done rq\<rparr>) (sv_states sv)\<rparr>)
                        | Inl e \<Rightarrow> (Inl e, sv1)))))"

definition snapshot_serve :: "snapshot_request \<Rightarrow> snapshot_service \<Rightarrow> snapshot_service" where
  "snapshot_serve rq sv = snd (snapshot_get rq sv)"

text \<open>The last image the transport delivered for a camera.\<close>

definition image_of :: "string \<Rightarrow> string \<times> (bridge_error + bytes) \<times> int \<Rightarrow> cached_snapshot option" where
  "image_of alias call = (case call of (a, reply, t) \<Rightarrow>
     if a = alias then map_option (\<lambda>img. \<lparr>cs_data = img, cs_created = t\<rparr>) (result_ok reply) else None)"

definition last_image :: "string \<Rightarrow> snapshot_service \<Rightarrow> cached_snapshot option" where
  "last_image alias sv = find_map (image_of alias) (sv_calls sv)"

definition snapshots_ok :: "snapshot_service \<Rightarrow> bool" where
  "snapshots_ok sv \<longleftrightarrow> (\<forall>a. bt_get (sv_states sv) a = (if bt_get (sv_cameras sv) a = None then None else Some (last_image a sv)))"

lemma snapshots_ok_new: "snapshots_ok (snapshot_service_new cams cache stale)"
proof -
  have "bt_get (map (\<lambda>(a, _). (a, None :: cached_snapshot option)) cams) a = (if bt_get cams a = None then None else Some None)" for a
    by (induction cams) auto
  then show ?thesis
    by (simp add: snapshots_ok_def snapshot_service_new_def last_image_def)
qed

lemma snapshot_get_ok: "snapshots_ok sv \<Longrightarrow> snapshots_ok (snapshot_serve rq sv)"
  by (auto simp: snapshots_ok_def snapshot_serve_def snapshot_get_def last_image_def image_of_def Let_def
      split: option.splits sum.splits)

lemma snapshot_serve_limits [simp]:
  "sv_cameras (snapshot_serve rq sv) = sv_cameras sv" "cache_duration (snapshot_serve rq sv) = cache_duration sv"
  "stale_duration (snapshot_serve rq sv) = stale_duration sv"
  by (simp_all add: snapshot_serve_def snapshot_get_def Let_def split: option.splits sum.splits)

lemma snapshots_run:
  "snapshots_ok (fold snapshot_serve rqs (snapshot_service_new cams cache stale))
   \<and> sv_cameras (fold snapshot_serve rqs (snapshot_service_new cams cache stale)) = cams
   \<and> cache_duration (fold snapshot_serve rqs (snapshot_service_new cams cache stale)) = cache
   \<and> stale_duration (fold snapshot_serve rqs (snapshot_service_new cams cache stale)) = stale"
  by (induction rqs rule: rev_induct) (simp_all add: snapshots_ok_new snapshot_get_ok, simp_all add: snapshot_service_new_def)

text \<open>What a snapshot request may answer, given the last image of its camera.\<close>

definition snapshot_spec ::
  "(string, camera_config) btree \<Rightarrow> int \<Rightarrow> int \<Rightarrow> cached_snapshot option \<Rightarrow> snapshot_request \<Rightarrow> bridge_error + bytes" where
  "snapshot_spec cams cache stale previous rq =
     (let within = (\<lambda>t limit. case previous of None \<Rightarrow> None | Some c \<Rightarrow> if elapsed t c \<le> limit then Some (cs_data c) else None)
      in case bt_get cams (rq_alias rq) of
           None \<Rightarrow> Inl CameraNotFound
         | Some camera \<Rightarrow>
             (case within (rq_now rq) cache of
                Some img \<Rightarrow> Inr img
              | None \<Rightarrow> (case rq_reply rq camera of
                    Inr img \<Rightarrow> Inr img
                  | Inl e \<Rightarrow> (case within (rq_done rq) stale of Some img \<Rightarrow> Inr img | None \<Rightarrow> Inl e))))"

section \<open>Live streams\<close>

definition source_id :: "camera_config \<Rightarrow> string" where
  "source_id c = serial c @ '':'' @ show_nat (camera_config.channel c)"

definition verify_binding :: "(string \<Rightarrow> string) \<Rightarrow> (string, camera_config) btree \<Rightarrow> string \<Rightarrow> string option \<Rightarrow> bridge_error + unit" where
  "verify_binding sha256_hex cams camera expected =
     (case bt_get cams camera of
        None \<Rightarrow> Inl CameraNotFound
      | Some configured \<Rightarrow>
          (case expected of
             None \<Rightarrow> Inr ()
           | Some e \<Rightarrow> if e \<noteq> sha256_hex (source_id configured) then Inl CameraNotFound else Inr ()))"

text \<open>\<open>first_chunk\<close>: the wait ends with a chunk, with the end of the channel or with the timeout.\<close>

datatype first_wait = Got_Chunk bytes | Channel_Closed | Timed_Out

definition first_chunk :: "first_wait \<Rightarrow> bridge_error + bytes" where
  "first_chunk r = (case r of Got_Chunk c \<Rightarrow> Inr c | Channel_Closed \<Rightarrow> Inl UpstreamUnavailable | Timed_Out \<Rightarrow> Inl UpstreamUnavailable)"

record live_stream =
  ls_content_type :: string
  ls_first :: bytes
  ls_id :: nat

definition hub_subscribe :: "hub_config \<Rightarrow> int \<Rightarrow> hub \<Rightarrow> (bridge_error + nat) \<times> hub" where
  "hub_subscribe cfg now h = (if closed h then (Inl (Upstream ''stream hub is closed''), h) else subscribe_locked cfg now h)"

text \<open>The hubs of the runtime and the camera's part of it while the handler waits: \<open>wait\<close> is what the receiver
  yields and the hub as it is then.\<close>

definition raw_stream ::
  "(string \<Rightarrow> string) \<Rightarrow> (string, camera_config) btree \<Rightarrow> hub_config \<Rightarrow> int \<Rightarrow> (nat \<Rightarrow> hub \<Rightarrow> first_wait \<times> hub)
   \<Rightarrow> string \<Rightarrow> string option \<Rightarrow> (string, hub) btree \<Rightarrow> (bridge_error + live_stream) \<times> (string, hub) btree" where
  "raw_stream sha256_hex cams cfg now wait camera expected hubs =
     (case verify_binding sha256_hex cams camera expected of
        Inl e \<Rightarrow> (Inl e, hubs)
      | Inr _ \<Rightarrow>
          (case bt_get hubs camera of
             None \<Rightarrow> (Inl CameraNotFound, hubs)
           | Some h \<Rightarrow>
               (case hub_subscribe cfg now h of
                  (Inl e, h1) \<Rightarrow> (Inl e, bt_insert camera h1 hubs)
                | (Inr i, h1) \<Rightarrow>
                    let (received, h2) = wait i h1
                    in (case first_chunk received of
                          Inl e \<Rightarrow> let h3 = remove_subscriber i h2
                                   in (Inl (if e = UpstreamUnavailable then startup_error h3 else e), bt_insert camera h3 hubs)
                        | Inr chunk \<Rightarrow>
                            if get_at chunk 0 = Some 0x47
                            then (Inl UnsupportedMedia, bt_insert camera (remove_subscriber i h2) hubs)
                            else (Inr \<lparr>ls_content_type = ''video/mpeg'', ls_first = chunk, ls_id = i\<rparr>, bt_insert camera h2 hubs)))))"

definition ts_stream ::
  "(string \<Rightarrow> string) \<Rightarrow> (string, camera_config) btree \<Rightarrow> hub_config \<Rightarrow> (nat \<Rightarrow> ts_hub \<Rightarrow> first_wait \<times> ts_hub \<times> (string, hub) btree)
   \<Rightarrow> string \<Rightarrow> string option \<Rightarrow> (string, ts_hub) btree \<Rightarrow> (bridge_error + live_stream) \<times> (string, ts_hub) btree" where
  "ts_stream sha256_hex cams cfg wait camera expected hubs =
     (case verify_binding sha256_hex cams camera expected of
        Inl e \<Rightarrow> (Inl e, hubs)
      | Inr _ \<Rightarrow>
          (case bt_get hubs camera of
             None \<Rightarrow> (Inl CameraNotFound, hubs)
           | Some h \<Rightarrow>
               (case ts_subscribe cfg h of
                  (Inl e, h1) \<Rightarrow> (Inl e, bt_insert camera h1 hubs)
                | (Inr i, h1) \<Rightarrow>
                    let (received, h2, raw) = wait i h1
                    in (case first_chunk received of
                          Inl e \<Rightarrow> (Inl (case bt_get raw camera of Some r \<Rightarrow> if e = UpstreamUnavailable then startup_error r else e | None \<Rightarrow> e),
                                    bt_insert camera (ts_remove_subscriber i h2) hubs)
                        | Inr chunk \<Rightarrow>
                            (Inr \<lparr>ls_content_type = ''video/mp2t'', ls_first = chunk, ls_id = i\<rparr>, bt_insert camera h2 hubs)))))"

text \<open>The body: the first chunk, then what is received until the deadline or the end of the channel.\<close>

datatype body_event = Received bytes | Deadline | Hub_Closed

fun body_rest :: "body_event list \<Rightarrow> bytes list" where
  "body_rest [] = []"
| "body_rest (Received c # evs) = c # body_rest evs"
| "body_rest (Deadline # evs) = []"
| "body_rest (Hub_Closed # evs) = []"

definition stream_body :: "live_stream \<Rightarrow> body_event list \<Rightarrow> bytes list" where
  "stream_body s evs = ls_first s # body_rest evs"

section \<open>Properties\<close>

text \<open>C35. The snapshot service implements its contract after any sequence of requests: an unknown camera is refused;
  an image no older than the cache duration is served without asking; otherwise the camera is asked, its image is
  served, and only when that fails is the last image served, if it is no older than the stale duration; else the
  failure is reported. The image always comes from the same camera.\<close>

theorem snapshot_service_refines:
  "let sv = fold snapshot_serve rqs (snapshot_service_new cams cache stale)
   in fst (snapshot_get rq sv) = snapshot_spec cams cache stale (last_image (rq_alias rq) sv) rq"
proof -
  let ?sv = "fold snapshot_serve rqs (snapshot_service_new cams cache stale)"
  have "bt_get (sv_states ?sv) (rq_alias rq) = (if bt_get cams (rq_alias rq) = None then None else Some (last_image (rq_alias rq) ?sv))"
    using snapshots_run [of rqs cams cache stale] by (simp add: snapshots_ok_def)
  then show ?thesis
    using snapshots_run [of rqs cams cache stale]
    by (auto simp: snapshot_get_def snapshot_spec_def Let_def split: option.splits sum.splits)
qed

text \<open>How a request for a live stream may end: with a stream of the camera it names, refused before any hub changed,
  refused by the hub, or failed with its subscription removed.\<close>

definition raw_outcome ::
  "(string \<Rightarrow> string) \<Rightarrow> (string, camera_config) btree \<Rightarrow> hub_config \<Rightarrow> int \<Rightarrow> string \<Rightarrow> string option \<Rightarrow> (string, hub) btree
   \<Rightarrow> bridge_error + live_stream \<Rightarrow> (string, hub) btree \<Rightarrow> bool" where
  "raw_outcome sha256_hex cams cfg now camera expected hubs res hubs' \<longleftrightarrow>
     (case res of
        Inr s \<Rightarrow> verify_binding sha256_hex cams camera expected = Inr () \<and> get_at (ls_first s) 0 \<noteq> Some 0x47
      | Inl e \<Rightarrow>
          hubs' = hubs \<and> e = CameraNotFound
          \<or> (case (bt_get hubs camera, bt_get hubs' camera) of
                (Some h, Some h') \<Rightarrow> fst (hub_subscribe cfg now h) = Inl e
                  \<or> next_id h \<notin> set (map fst (subscribers h')) \<and> (e = startup_error h' \<or> e = UnsupportedMedia)
              | _ \<Rightarrow> False))"

definition ts_outcome ::
  "(string \<Rightarrow> string) \<Rightarrow> (string, camera_config) btree \<Rightarrow> hub_config \<Rightarrow> string \<Rightarrow> string option \<Rightarrow> (string, ts_hub) btree
   \<Rightarrow> bridge_error + live_stream \<Rightarrow> (string, ts_hub) btree \<Rightarrow> bool" where
  "ts_outcome sha256_hex cams cfg camera expected hubs res hubs' \<longleftrightarrow>
     (case res of
        Inr s \<Rightarrow> verify_binding sha256_hex cams camera expected = Inr ()
      | Inl e \<Rightarrow>
          hubs' = hubs \<and> e = CameraNotFound
          \<or> (case (bt_get hubs camera, bt_get hubs' camera) of
                (Some h, Some h') \<Rightarrow> fst (ts_subscribe cfg h) = Inl e \<or> ts_next_id h \<notin> set (map fst (ts_subscribers h'))
              | _ \<Rightarrow> False))"

lemma hub_subscribe_id: "hub_subscribe cfg now h = (Inr i, h') \<Longrightarrow> i = next_id h"
  by (auto simp: hub_subscribe_def subscribe_locked_def Let_def split: if_splits)

lemma ts_subscribe_id: "ts_subscribe cfg h = (Inr i, h') \<Longrightarrow> i = ts_next_id h"
  by (auto simp: ts_subscribe_def split: if_splits prod.splits sum.splits elim: ts_subscribe_cases)

lemma removed_subscriber: "i \<notin> set (map fst (subscribers (remove_subscriber i h)))"
  by (auto simp: remove_subscriber_def Let_def)

lemma verify_binding_error: "verify_binding sha256_hex cams camera expected = Inl e \<Longrightarrow> e = CameraNotFound"
  by (auto simp: verify_binding_def split: option.splits if_splits)

lemma raw_stream_outcome:
  assumes "raw_stream sha256_hex cams cfg now wait camera expected hubs = (res, hubs')"
  shows "raw_outcome sha256_hex cams cfg now camera expected hubs res hubs'"
proof (cases "verify_binding sha256_hex cams camera expected")
  case (Inl e)
  then show ?thesis
    using assms verify_binding_error [OF Inl] by (auto simp: raw_stream_def raw_outcome_def)
next
  case (Inr u)
  show ?thesis
  proof (cases "bt_get hubs camera")
    case None
    then show ?thesis using assms Inr by (auto simp: raw_stream_def raw_outcome_def)
  next
    case (Some h)
    obtain r h1 where sub: "hub_subscribe cfg now h = (r, h1)" by fastforce
    show ?thesis
    proof (cases r)
      case (Inl e)
      then show ?thesis using assms Inr Some sub by (auto simp: raw_stream_def raw_outcome_def)
    next
      case r: (Inr i)
      obtain received h2 where wait: "wait i h1 = (received, h2)" by fastforce
      have i: "i = next_id h" using hub_subscribe_id sub r by simp
      show ?thesis
        using assms Inr Some sub r wait i removed_subscriber [of i h2]
        by (cases received) (auto simp: raw_stream_def raw_outcome_def first_chunk_def Let_def split: if_splits)
    qed
  qed
qed

lemma ts_stream_outcome:
  assumes "ts_stream sha256_hex cams cfg wait camera expected hubs = (res, hubs')"
  shows "ts_outcome sha256_hex cams cfg camera expected hubs res hubs'"
proof (cases "verify_binding sha256_hex cams camera expected")
  case (Inl e)
  then show ?thesis
    using assms verify_binding_error [OF Inl] by (auto simp: ts_stream_def ts_outcome_def)
next
  case (Inr u)
  show ?thesis
  proof (cases "bt_get hubs camera")
    case None
    then show ?thesis using assms Inr by (auto simp: ts_stream_def ts_outcome_def)
  next
    case (Some h)
    obtain r h1 where sub: "ts_subscribe cfg h = (r, h1)" by fastforce
    show ?thesis
    proof (cases r)
      case (Inl e)
      then show ?thesis using assms Inr Some sub by (auto simp: ts_stream_def ts_outcome_def)
    next
      case r: (Inr i)
      obtain received h2 raw where wait: "wait i h1 = (received, h2, raw)" by (metis prod_cases3)
      have i: "i = ts_next_id h" using ts_subscribe_id sub r by simp
      show ?thesis
        using assms Inr Some sub r wait i
        by (cases received) (auto simp: ts_stream_def ts_outcome_def first_chunk_def split: if_splits)
    qed
  qed
qed


end
