(* ===== verification/Canary.thy ===== *)
theory Canary
  imports Scene_Pull
begin

text \<open>
  The canary command (\<open>canary.rs\<close>, \<open>canary/verify.rs\<close>): it fetches a snapshot and a bounded capture of a live
  stream from a running bridge and lets ffprobe check the capture. The bridge, the clock, the file system and ffprobe
  are what \<open>canary_env\<close> says they answer; \<open>validated_base_url\<close> is the one of \<open>Scene_Pull\<close>. Joining URLs,
  printing the result and the random name of the capture are omitted. Times are seconds.
\<close>

definition MIN_STREAM_LIMIT :: nat where "MIN_STREAM_LIMIT = 1024 * 1024"
definition MAX_STREAM_LIMIT :: nat where "MAX_STREAM_LIMIT = 256 * 1024 * 1024"
definition SNAPSHOT_LIMIT :: nat where "SNAPSHOT_LIMIT = 16 * 1024 * 1024"

datatype stream_format = Mpegps | Ts

record canary_options =
  co_base_url :: string
  co_camera :: string
  co_seconds :: nat
  co_max_bytes :: nat
  co_stream_format :: stream_format
  co_skip_snapshot :: bool
  co_token_file :: "(string \<times> secret_file option) option"

record probe_stream =
  codec_name :: "string option"
  codec_type :: "string option"

record canary_result =
  cr_snapshot_bytes :: nat
  cr_stream_bytes :: nat
  cr_streams :: "probe_stream list"

text \<open>A response: the status, how it prints, and the chunks of the body, each with the time at which it has arrived.\<close>

record canary_response =
  cn_status :: nat
  cn_status_text :: string
  cn_chunks :: "(int \<times> (bridge_error + bytes)) list"

text \<open>\<open>cn_stdin\<close> is the line on standard input, \<open>cn_writes\<close> the outcomes of the writes to the capture, \<open>cn_sync\<close> of
  the final sync, and \<open>cn_probe\<close> what ffprobe answers: a timeout, its failure to start or an exit status with its output.\<close>

datatype probe_reply = Probe_Timeout | Probe_Io io_error_kind | Probe_Exit bool "bridge_error + probe_stream list"

record canary_env =
  cn_stdin :: "io_error_kind + string"
  cn_snapshot :: "bridge_error + canary_response"
  cn_stream :: "bridge_error + canary_response"
  cn_opened :: "io_error_kind + unit"
  cn_start :: int
  cn_writes :: "nat \<Rightarrow> io_error_kind + unit"
  cn_sync :: "io_error_kind + unit"
  cn_probe :: "bytes \<Rightarrow> probe_reply"

definition validate_options :: "canary_options \<Rightarrow> bridge_error + unit" where
  "validate_options opts =
     (if \<not> (1 \<le> co_seconds opts \<and> co_seconds opts \<le> 120) then Inl (Configuration ''canary seconds must be between 1 and 120'')
      else if \<not> (MIN_STREAM_LIMIT \<le> co_max_bytes opts \<and> co_max_bytes opts \<le> MAX_STREAM_LIMIT)
      then Inl (Configuration ''canary max bytes must be between 1 MiB and 256 MiB'')
      else if co_camera opts = [] \<or> \<not> list_all (\<lambda>c. ascii_alphanumeric c \<or> c = CHR ''-'' \<or> c = CHR ''_'') (co_camera opts)
      then Inl (Configuration (''camera alias must be alphanumeric with '' @ [CHR 0x27] @ ''-'' @ [CHR 0x27] @ '' or '' @ [CHR 0x27] @ ''_'' @ [CHR 0x27]))
      else Inr ())"

definition canary_token :: "canary_env \<Rightarrow> (string \<times> secret_file option) option \<Rightarrow> bridge_error + string" where
  "canary_token env tf =
     (case tf of
        Some (display_name, f) \<Rightarrow> ensure_private_regular display_name f 32
      | None \<Rightarrow>
          (case cn_stdin env of
             Inl k \<Rightarrow> Inl (Io k)
           | Inr line \<Rightarrow> let token = trim line
               in if length token < 32 then Inl (Configuration ''API token is missing on standard input'') else Inr token))"

definition require_success :: "canary_response \<Rightarrow> bridge_error + unit" where
  "require_success r = (if is_success (cn_status r) then Inr () else Inl (Upstream (''bridge returned HTTP '' @ cn_status_text r)))"

fun body_chunks :: "nat \<Rightarrow> (int \<times> (bridge_error + bytes)) list \<Rightarrow> bytes \<Rightarrow> bridge_error + bytes" where
  "body_chunks limit [] body = Inr body"
| "body_chunks limit ((t, chunk) # cs) body =
     (case chunk of
        Inl e \<Rightarrow> Inl e
      | Inr c \<Rightarrow> if limit < length body + length c then Inl (Capacity ''canary response exceeded its byte bound'')
                 else body_chunks limit cs (body @ c))"

definition bounded_body :: "nat \<Rightarrow> canary_response \<Rightarrow> bridge_error + bytes" where
  "bounded_body limit r = try_bind (require_success r) (\<lambda>_. body_chunks limit (cn_chunks r) [])"

definition verify_snapshot :: "canary_env \<Rightarrow> bridge_error + nat" where
  "verify_snapshot env =
     try_bind (cn_snapshot env) (\<lambda>r. try_bind (bounded_body SNAPSHOT_LIMIT r) (\<lambda>img.
       if length img < 4 \<or> \<not> starts_with img [0xff, 0xd8, 0xff] \<or> \<not> ends_with img [0xff, 0xd9]
       then Inl (Upstream ''snapshot is not a complete JPEG'') else Inr (length img)))"

definition probe_media :: "canary_env \<Rightarrow> bytes \<Rightarrow> bridge_error + probe_stream list" where
  "probe_media env media =
     (case cn_probe env media of
        Probe_Timeout \<Rightarrow> Inl (Upstream ''ffprobe timed out'')
      | Probe_Io k \<Rightarrow> Inl (Io k)
      | Probe_Exit ok out \<Rightarrow>
          if \<not> ok then Inl (Upstream ''ffprobe rejected live media'')
          else try_bind out (\<lambda>streams.
            if \<not> list_ex (\<lambda>s. codec_type s = Some ''video'') streams then Inl (Upstream ''ffprobe found no video stream'')
            else Inr streams))"

text \<open>The capture loop: the time now, the chunks still to come, the number of the next write, what is written so far
  and how many bytes that is. It returns the bytes counted and the content of the file.\<close>

fun capture :: "canary_env \<Rightarrow> nat \<Rightarrow> int \<Rightarrow> int \<Rightarrow> (int \<times> (bridge_error + bytes)) list \<Rightarrow> nat \<Rightarrow> nat \<Rightarrow> bytes \<Rightarrow> (bridge_error + nat) \<times> bytes" where
  "capture env limit deadline now [] n written content = (Inr written, content)"
| "capture env limit deadline now ((t, chunk) # cs) n written content =
     (if deadline \<le> now \<or> deadline < t then (Inr written, content)
      else case chunk of
          Inl e \<Rightarrow> (Inl e, content)
        | Inr c \<Rightarrow>
            let written' = min (2 ^ 64 - 1) (written + length c)
            in if limit < written' then (Inl (Capacity ''live canary exceeded its byte bound''), content)
               else case cn_writes env n of
                   Inl k \<Rightarrow> (Inl (Io k), content)
                 | Inr _ \<Rightarrow> capture env limit deadline (max now t) cs (n + 1) written' (content @ c))"

definition verify_stream :: "canary_env \<Rightarrow> canary_options \<Rightarrow> (bridge_error + nat \<times> probe_stream list) \<times> bytes option" where
  "verify_stream env opts =
     (case cn_stream env of
        Inl e \<Rightarrow> (Inl e, None)
      | Inr r \<Rightarrow>
          (case require_success r of
             Inl e \<Rightarrow> (Inl e, None)
           | Inr _ \<Rightarrow>
               (case cn_opened env of
                  Inl k \<Rightarrow> (Inl (Io k), None)
                | Inr _ \<Rightarrow>
                    (case capture env (co_max_bytes opts) (cn_start env + int (co_seconds opts)) (cn_start env) (cn_chunks r) 0 0 [] of
                       (Inl e, content) \<Rightarrow> (Inl e, Some content)
                     | (Inr written, content) \<Rightarrow>
                         (try_bind (case cn_sync env of Inl k \<Rightarrow> Inl (Io k) | Inr _ \<Rightarrow> Inr ()) (\<lambda>_.
                            if written = 0 then Inl (Upstream ''live canary returned no media'')
                            else try_bind (probe_media env content) (\<lambda>streams. Inr (written, streams))), Some content)))))"

text \<open>The run up to the snapshot, and the whole run: its result and what the capture held before it is removed, if it was created.\<close>

definition canary_checks :: "pull_env \<Rightarrow> canary_env \<Rightarrow> canary_options \<Rightarrow> bridge_error + nat" where
  "canary_checks penv env opts =
     try_bind (validate_options opts) (\<lambda>_. try_bind (canary_token env (co_token_file opts)) (\<lambda>token.
       try_bind (validated_base_url penv (co_base_url opts)) (\<lambda>base.
         if co_skip_snapshot opts then Inr 0 else verify_snapshot env)))"

definition canary_run :: "pull_env \<Rightarrow> canary_env \<Rightarrow> canary_options \<Rightarrow> (bridge_error + canary_result) \<times> bytes option" where
  "canary_run penv env opts =
     (case canary_checks penv env opts of
        Inl e \<Rightarrow> (Inl e, None)
      | Inr snapshot_bytes \<Rightarrow>
          (case verify_stream env opts of
             (res, content) \<Rightarrow>
               (try_bind res (\<lambda>(stream_bytes, streams).
                  Inr \<lparr>cr_snapshot_bytes = snapshot_bytes, cr_stream_bytes = stream_bytes, cr_streams = streams\<rparr>), content)))"

section \<open>Bounds\<close>

lemma body_chunks_bounded: "body_chunks limit cs body = Inr b \<Longrightarrow> length body \<le> limit \<Longrightarrow> length b \<le> limit"
  by (induction limit cs body rule: body_chunks.induct) (auto split: sum.splits if_splits)

lemma verify_snapshot_bounded: "verify_snapshot env = Inr n \<Longrightarrow> n \<le> SNAPSHOT_LIMIT \<and> 4 \<le> n"
  using body_chunks_bounded [of SNAPSHOT_LIMIT _ "[]"]
  by (auto simp: verify_snapshot_def bounded_body_def result_simps not_less split: if_splits)

lemma capture_bounded:
  "capture env limit deadline now cs n written content = (res, content') \<Longrightarrow> limit < 2 ^ 64 - 1 \<Longrightarrow> length content = written
    \<Longrightarrow> written \<le> limit \<Longrightarrow> length content' \<le> limit \<and> (case res of Inl e \<Rightarrow> True | Inr w \<Rightarrow> w = length content')"
proof (induction env limit deadline now cs n written content rule: capture.induct)
  case (2 env limit deadline now t chunk cs n written content)
  show ?case
  proof (cases "deadline \<le> now \<or> deadline < t \<or> isl chunk")
    case True
    then show ?thesis using 2(2-5) by (cases chunk) (auto split: if_splits)
  next
    case False
    then obtain c where c: "chunk = Inr c" "\<not> (deadline \<le> now \<or> deadline < t)" by (cases chunk) auto
    show ?thesis
    proof (cases "limit < written + length c \<or> isl (cn_writes env n)")
      case True
      then show ?thesis
        using 2(2-5) c by (auto simp: Let_def split: sum.splits if_splits)
    next
      case False
      then have w: "min (2 ^ 64 - 1) (written + length c) = written + length c"
        using 2(3) by simp
      obtain u where u: "cn_writes env n = Inr u" using False by (cases "cn_writes env n") auto
      have "capture env limit deadline (max now t) cs (n + 1) (written + length c) (content @ c) = (res, content')"
        using 2(2) c False u w by (simp add: Let_def)
      then show ?thesis
        using 2(1) [OF c(2,1) refl _ u] False 2(3-5) w by simp
    qed
  qed
qed auto

text \<open>What a canary run guarantees.\<close>

definition canary_outcome :: "canary_options \<Rightarrow> bridge_error + canary_result \<Rightarrow> bytes option \<Rightarrow> bool" where
  "canary_outcome opts res content \<longleftrightarrow>
     (case content of None \<Rightarrow> isl res | Some media \<Rightarrow> length media \<le> co_max_bytes opts \<and> co_max_bytes opts \<le> MAX_STREAM_LIMIT)
     \<and> (case res of
          Inl e \<Rightarrow> True
        | Inr r \<Rightarrow> content \<noteq> None \<and> cr_stream_bytes r = length (the content) \<and> 0 < cr_stream_bytes r
            \<and> list_ex (\<lambda>s. codec_type s = Some ''video'') (cr_streams r) \<and> cr_snapshot_bytes r \<le> SNAPSHOT_LIMIT
            \<and> (co_skip_snapshot opts \<or> 4 \<le> cr_snapshot_bytes r))"

section \<open>Properties\<close>

lemma validate_options_limit: "validate_options opts = Inr u \<Longrightarrow> co_max_bytes opts \<le> MAX_STREAM_LIMIT"
  by (auto simp: validate_options_def split: if_splits)

lemma probe_media_video: "probe_media env media = Inr streams \<Longrightarrow> list_ex (\<lambda>s. codec_type s = Some ''video'') streams"
  by (auto simp: probe_media_def result_simps split: probe_reply.splits if_splits)

lemma verify_stream_outcome:
  assumes run: "verify_stream env opts = (res, content)" and limit: "co_max_bytes opts \<le> MAX_STREAM_LIMIT"
  shows "(case content of None \<Rightarrow> isl res | Some media \<Rightarrow> length media \<le> co_max_bytes opts)
    \<and> (case res of Inl e \<Rightarrow> True
       | Inr (w, streams) \<Rightarrow> content \<noteq> None \<and> w = length (the content) \<and> 0 < w \<and> list_ex (\<lambda>s. codec_type s = Some ''video'') streams)"
proof (cases "\<exists>r u v. cn_stream env = Inr r \<and> require_success r = Inr u \<and> cn_opened env = Inr v")
  case False
  then show ?thesis
    using run by (auto simp: verify_stream_def split: sum.splits)
next
  case True
  then obtain r u v where r: "cn_stream env = Inr r" "require_success r = Inr u" "cn_opened env = Inr v" by blast
  obtain cap media where c: "capture env (co_max_bytes opts) (cn_start env + int (co_seconds opts)) (cn_start env) (cn_chunks r) 0 0 [] = (cap, media)"
    by fastforce
  have bound: "length media \<le> co_max_bytes opts \<and> (case cap of Inl e \<Rightarrow> True | Inr w \<Rightarrow> w = length media)"
    using capture_bounded [OF c] limit by (simp add: MAX_STREAM_LIMIT_def)
  show ?thesis
    using run bound probe_media_video
    by (cases cap) (auto simp: verify_stream_def r c result_simps split: sum.splits if_splits)
qed

text \<open>Whatever bridge it is pointed at, a canary run writes at most \<open>max_bytes\<close>, itself at most 256 MiB, to its
  capture file, and it reports success only when the capture is not empty, is counted exactly, contains a video stream
  according to ffprobe, and the snapshot, unless skipped, is a complete JPEG of at most 16 MiB.\<close>

theorem canary_bounded:
  "case canary_run penv env opts of (res, content) \<Rightarrow> canary_outcome opts res content"
proof (cases "canary_checks penv env opts")
  case (Inl e)
  then show ?thesis by (simp add: canary_run_def canary_outcome_def)
next
  case (Inr n)
  then have n: "co_max_bytes opts \<le> MAX_STREAM_LIMIT" "n \<le> SNAPSHOT_LIMIT" "co_skip_snapshot opts \<or> 4 \<le> n"
    using validate_options_limit [of opts] verify_snapshot_bounded [of env n]
    by (auto simp: canary_checks_def result_simps split: if_splits)
  obtain res media where v: "verify_stream env opts = (res, media)" by fastforce
  from verify_stream_outcome [OF v n(1)] show ?thesis
    using n by (cases res; cases media) (auto simp: canary_run_def canary_outcome_def Inr v)
qed

end
