(* ===== verification/Power_Probe.thy ===== *)
theory Power_Probe
  imports Control_Model
begin

text \<open>
  The observation probe of the native controls (\<open>controls/power_probe.rs\<close>): it watches the account snapshots
  the controls fetch and logs the names of the fields once per device, the power fields when they change and the
  other observable fields when they change. A log line is its structured content; the JSON rendering of it is left
  out, except in the text of a change, where the printer is the parameter \<open>render\<close>. Parsing the JSON text of
  \<open>STATUS.optionals\<close> is the parameter \<open>parse\<close>. The mutex of the static state is not poisoned, since no code
  under it panics.
\<close>

definition POWER_HINTS :: "string list" where
  "POWER_HINTS = [''power'', ''charg'', ''batt'', ''plug'', ''electr'', ''supply'', ''adapter'', ''solar'', ''cable'']"

definition SECRET_HINTS :: "string list" where
  "SECRET_HINTS = [''pwd'', ''password'', ''key'', ''token'', ''secret'', ''code'']"

definition PRIVATE_HINTS :: "string list" where
  "PRIVATE_HINTS = [''ip'', ''mac'', ''ssid'', ''serial'', ''name'', ''url'', ''addr'', ''lat'', ''lon'', ''locat'',
     ''mail'', ''phone'', ''user'', ''account'', ''host'', ''domain'']"

definition VOLATILE_HINTS :: "string list" where
  "VOLATILE_HINTS = [''time'', ''stamp'', ''signal'', ''rssi'', ''uptime'', ''date'']"

definition is_secret :: "string \<Rightarrow> bool" where
  "is_secret k = (let lower = to_ascii_lowercase k in list_ex (str_contains lower) SECRET_HINTS)"

definition is_power :: "string \<Rightarrow> bool" where
  "is_power k = (let lower = to_ascii_lowercase k in \<not> is_secret k \<and> list_ex (str_contains lower) POWER_HINTS)"

definition is_observable :: "string \<Rightarrow> bool" where
  "is_observable k =
     (let lower = to_ascii_lowercase k
      in \<not> is_secret k \<and> \<not> list_ex (str_contains lower) PRIVATE_HINTS \<and> \<not> list_ex (str_contains lower) VOLATILE_HINTS)"

definition probe_optionals :: "(string \<Rightarrow> json option) \<Rightarrow> json \<Rightarrow> (string \<times> json) list option" where
  "probe_optionals parse status =
     (case json_get status ''optionals'' of
        None \<Rightarrow> None
      | Some (JObject m) \<Rightarrow> Some m
      | Some (JString t) \<Rightarrow> Option.bind (parse t) as_object
      | Some _ \<Rightarrow> None)"

definition scopes :: "(string \<Rightarrow> json option) \<Rightarrow> camera_data \<Rightarrow> (string \<times> (string \<times> json) list) list" where
  "scopes parse d =
     (case as_object (cd_device d) of None \<Rightarrow> [] | Some m \<Rightarrow> [(''deviceInfos'', m)])
     @ (case as_object (cd_status d) of None \<Rightarrow> [] | Some m \<Rightarrow> [(''STATUS'', m)])
     @ (case probe_optionals parse (cd_status d) of None \<Rightarrow> [] | Some m \<Rightarrow> [(''STATUS.optionals'', m)])"

definition is_scalar :: "json \<Rightarrow> bool" where
  "is_scalar v = (case v of JObject _ \<Rightarrow> False | JArray _ \<Rightarrow> False | _ \<Rightarrow> True)"

text \<open>The nested loops of \<open>power_fields\<close> and \<open>observable_fields\<close>, which differ in the test they apply.\<close>

definition fields_where :: "(string \<Rightarrow> string \<Rightarrow> bool) \<Rightarrow> (string \<Rightarrow> json option) \<Rightarrow> camera_data \<Rightarrow> (string, json) btree" where
  "fields_where keep parse d =
     fold (\<lambda>(scope, m) fs. fold (\<lambda>(k, v) fs. if keep scope k \<and> is_scalar v then bt_insert (scope @ ''.'' @ k) v fs else fs) m fs)
       (scopes parse d) []"

definition power_fields :: "(string \<Rightarrow> json option) \<Rightarrow> camera_data \<Rightarrow> (string, json) btree" where
  "power_fields = fields_where (\<lambda>scope k. is_power k)"

definition observable_fields :: "(string \<Rightarrow> json option) \<Rightarrow> camera_data \<Rightarrow> (string, json) btree" where
  "observable_fields = fields_where (\<lambda>scope k. \<not> (scope = ''STATUS'' \<and> k = ''optionals'') \<and> is_observable k)"

definition changes :: "(json \<Rightarrow> string) \<Rightarrow> (string, json) btree \<Rightarrow> (string, json) btree \<Rightarrow> (string, string) btree" where
  "changes render old now =
     (let val = (\<lambda>m k. case bt_get m k of None \<Rightarrow> JNull | Some v \<Rightarrow> v)
      in bt_collect (map (\<lambda>k. (k, render (val old k) @ '' -> '' @ render (val now k)))
           (filter (\<lambda>k. bt_get old k \<noteq> bt_get now k) (map fst old @ map fst now))))"

definition key_inventory :: "(string \<Rightarrow> json option) \<Rightarrow> camera_data \<Rightarrow> (string, string list) btree" where
  "key_inventory parse d =
     bt_collect (map (\<lambda>(scope, m).
       (scope, map fst (bt_collect (map (\<lambda>k. (k, ())) (filter (\<lambda>k. \<not> is_secret k) (map fst m)))))) (scopes parse d))"

definition serial_tail :: "string \<Rightarrow> string" where
  "serial_tail sn = (let cs = chars sn in concat (drop (length cs - 4) cs))"

record seen =
  inventory :: "string list"
  seen_fields :: "(string, (string, json) btree) btree"
  observed :: "(string, (string, json) btree) btree"

definition seen_default :: seen where
  "seen_default = \<lparr>inventory = [], seen_fields = [], observed = []\<rparr>"

datatype probe_event =
    Field_Names string string "string list"
  | Power_Changed string "(string, json) btree"
  | Fields_Changed string "(string, string) btree"
  | Fields_Baseline string "(string, json) btree"

definition log_power :: "(string \<Rightarrow> json option) \<Rightarrow> string \<Rightarrow> string \<Rightarrow> camera_data \<Rightarrow> seen \<Rightarrow> probe_event list \<times> seen" where
  "log_power parse sn device d st =
     (let names = (if sn \<in> set (inventory st) then []
                   else map (\<lambda>(scope, ks). Field_Names device scope ks) (key_inventory parse d));
          st1 = st\<lparr>inventory := List.insert sn (inventory st)\<rparr>;
          fs = power_fields parse d
      in if bt_get (seen_fields st1) sn \<noteq> Some fs
         then (names @ [Power_Changed device fs], st1\<lparr>seen_fields := bt_insert sn fs (seen_fields st1)\<rparr>)
         else (names, st1))"

definition log_field_changes ::
  "(string \<Rightarrow> json option) \<Rightarrow> (json \<Rightarrow> string) \<Rightarrow> string \<Rightarrow> string \<Rightarrow> camera_data \<Rightarrow> seen \<Rightarrow> probe_event list \<times> seen" where
  "log_field_changes parse render sn device d st =
     (let obs = observable_fields parse d; st' = st\<lparr>observed := bt_insert sn obs (observed st)\<rparr>
      in case bt_get (observed st) sn of
           None \<Rightarrow> ([Fields_Baseline device obs], st')
         | Some previous \<Rightarrow>
             if previous \<noteq> obs then ([Fields_Changed device (changes render previous obs)], st') else ([], st))"

definition observe_camera ::
  "(string \<Rightarrow> json option) \<Rightarrow> (json \<Rightarrow> string) \<Rightarrow> string \<times> camera_data \<Rightarrow> probe_event list \<times> seen \<Rightarrow> probe_event list \<times> seen" where
  "observe_camera parse render entry acc =
     (let (sn, d) = entry; (evs, st) = acc; device = serial_tail sn;
          (e1, st1) = log_power parse sn device d st;
          (e2, st2) = log_field_changes parse render sn device d st1
      in (evs @ e1 @ e2, st2))"

definition observe :: "(string \<Rightarrow> json option) \<Rightarrow> (json \<Rightarrow> string) \<Rightarrow> snapshot \<Rightarrow> probe_event list \<times> seen \<Rightarrow> probe_event list \<times> seen" where
  "observe parse render snap acc = fold (observe_camera parse render) snap acc"

section \<open>What is logged\<close>

text \<open>A key \<open>scope.name\<close> whose name passes a test.\<close>

definition SCOPE_NAMES :: "string list" where
  "SCOPE_NAMES = [''deviceInfos'', ''STATUS'', ''STATUS.optionals'']"

definition labelled :: "(string \<Rightarrow> bool) \<Rightarrow> string \<Rightarrow> bool" where
  "labelled P k \<longleftrightarrow> list_ex (\<lambda>scope. starts_with k (scope @ ''.'') \<and> P (drop (length scope + 1) k)) SCOPE_NAMES"

fun event_safe :: "probe_event \<Rightarrow> bool" where
  "event_safe (Field_Names device scope ks) \<longleftrightarrow> length (chars device) \<le> 4 \<and> list_all (\<lambda>k. \<not> is_secret k) ks"
| "event_safe (Power_Changed device m) \<longleftrightarrow> length (chars device) \<le> 4 \<and> list_all (\<lambda>(k, v). labelled is_power k \<and> is_scalar v) m"
| "event_safe (Fields_Changed device m) \<longleftrightarrow> length (chars device) \<le> 4 \<and> list_all (\<lambda>(k, v). labelled is_observable k) m"
| "event_safe (Fields_Baseline device m) \<longleftrightarrow>
     length (chars device) \<le> 4 \<and> list_all (\<lambda>(k, v). labelled is_observable k \<and> is_scalar v) m"

lemma chars_drop: "chars (concat (drop n (chars sn))) = drop n (chars sn)"
proof (induction sn arbitrary: n rule: chars.induct)
  case (2 c s)
  then show ?case by (cases n) simp_all
qed simp

lemma serial_tail_short: "length (chars (serial_tail sn)) \<le> 4"
  by (simp add: serial_tail_def Let_def chars_drop)

lemma scopes_named: "(scope, m) \<in> set (scopes parse d) \<Longrightarrow> scope \<in> set SCOPE_NAMES"
  by (auto simp: scopes_def SCOPE_NAMES_def split: option.splits)

lemma labelledI: "scope \<in> set SCOPE_NAMES \<Longrightarrow> P k \<Longrightarrow> labelled P (scope @ ''.'' @ k)"
  unfolding labelled_def list_ex_iff
  by (rule bexI [of _ scope]) (simp_all add: starts_with_def)

lemma fields_where_all:
  assumes keep: "\<And>scope k. keep scope k \<Longrightarrow> P k"
  shows "list_all (\<lambda>(k, v). labelled P k \<and> is_scalar v) (fields_where keep parse d)"
proof -
  let ?ok = "\<lambda>(k, v). labelled P k \<and> is_scalar v"
  let ?put = "\<lambda>scope (k, v) fs. if keep scope k \<and> is_scalar v then bt_insert (scope @ ''.'' @ k) v fs else fs"
  have one: "list_all ?ok (?put scope e fs)" if "scope \<in> set SCOPE_NAMES" "list_all ?ok fs" for scope e fs
    using that keep labelledI [of scope P] bt_insert_entries by (force simp: list_all_iff split: prod.splits)
  have inner: "list_all ?ok (fold (?put scope) m fs)" if "scope \<in> set SCOPE_NAMES" "list_all ?ok fs" for scope m fs
    using that(2) by (induction m arbitrary: fs) (simp_all add: one [OF that(1)] del: prod.case split del: if_split)
  have "list_all ?ok (fold (\<lambda>(scope, m) fs. fold (?put scope) m fs) xs fs)"
    if "\<forall>(scope, m) \<in> set xs. scope \<in> set SCOPE_NAMES" "list_all ?ok fs" for xs fs
    using that by (induction xs arbitrary: fs) (auto simp: inner split del: if_split)
  moreover have "\<forall>(scope, m) \<in> set (scopes parse d). scope \<in> set SCOPE_NAMES"
    using scopes_named by blast
  ultimately show ?thesis
    by (simp add: fields_where_def)
qed

lemma power_fields_safe: "list_all (\<lambda>(k, v). labelled is_power k \<and> is_scalar v) (power_fields parse d)"
  unfolding power_fields_def by (rule fields_where_all)

lemma observable_fields_safe: "list_all (\<lambda>(k, v). labelled is_observable k \<and> is_scalar v) (observable_fields parse d)"
  unfolding observable_fields_def by (rule fields_where_all) simp

definition seen_safe :: "seen \<Rightarrow> bool" where
  "seen_safe st \<longleftrightarrow> list_all (\<lambda>(sn, m). list_all (\<lambda>(k, v). labelled is_observable k) m) (observed st)"

lemma changes_safe:
  assumes "list_all (\<lambda>(k, v). labelled P k) old" "list_all (\<lambda>(k, v). labelled P k) now"
  shows "list_all (\<lambda>(k, v). labelled P k) (changes render old now)"
  unfolding list_all_iff
proof clarify
  fix k v
  assume "(k, v) \<in> set (changes render old now)"
  then have "k \<in> fst ` set old \<union> fst ` set now"
    using set_bt_collect by (force simp: changes_def Let_def)
  with assms show "labelled P k" by (auto simp: list_all_iff)
qed

lemma key_inventory_safe: "(scope, ks) \<in> set (key_inventory parse d) \<Longrightarrow> list_all (\<lambda>k. \<not> is_secret k) ks"
proof -
  assume "(scope, ks) \<in> set (key_inventory parse d)"
  then obtain xs where "ks = map fst (bt_collect (map (\<lambda>k. (k, ())) (filter (\<lambda>k. \<not> is_secret k) xs)))"
    using set_bt_collect by (fastforce simp: key_inventory_def)
  then show ?thesis
    using set_bt_collect [of "map (\<lambda>k. (k, ())) (filter (\<lambda>k. \<not> is_secret k) xs)"] by (auto simp: list_all_iff)
qed

lemma log_power_safe:
  assumes "log_power parse sn device d st = (evs, st')" "length (chars device) \<le> 4"
  shows "list_all event_safe evs \<and> observed st' = observed st"
  using assms key_inventory_safe [of _ _ parse d] power_fields_safe [of parse d]
  by (auto simp: log_power_def Let_def list_all_iff split: if_splits)

lemma log_field_changes_safe:
  assumes "log_field_changes parse render sn device d st = (evs, st')" "length (chars device) \<le> 4" "seen_safe st"
  shows "list_all event_safe evs \<and> seen_safe st'"
proof -
  have obs: "list_all (\<lambda>(k, v). labelled is_observable k) (observable_fields parse d)"
    using observable_fields_safe [of parse d] by (auto simp: list_all_iff)
  have "seen_safe (st\<lparr>observed := bt_insert sn (observable_fields parse d) (observed st)\<rparr>)"
    unfolding seen_safe_def list_all_iff
  proof clarify
    fix a m k v
    assume "(a, m) \<in> set (observed (st\<lparr>observed := bt_insert sn (observable_fields parse d) (observed st)\<rparr>))" "(k, v) \<in> set m"
    then show "labelled is_observable k"
      using assms(3) obs bt_insert_entries [of sn "observable_fields parse d" "observed st"]
      by (fastforce simp: seen_safe_def list_all_iff)
  qed
  moreover have "list_all (\<lambda>(k, v). labelled is_observable k) previous" if "bt_get (observed st) sn = Some previous" for previous
    using assms(3) that by (auto simp: seen_safe_def list_all_iff dest!: map_of_SomeD)
  ultimately show ?thesis
    using assms obs changes_safe observable_fields_safe [of parse d]
    by (auto simp: log_field_changes_def Let_def split: option.splits if_splits)
qed

lemma observe_camera_safe:
  assumes "observe_camera parse render entry acc = (evs, st)" "list_all event_safe (fst acc)" "seen_safe (snd acc)"
  shows "list_all event_safe evs \<and> seen_safe st"
proof -
  obtain sn d old st0 where acc: "entry = (sn, d)" "acc = (old, st0)" by (meson surj_pair)
  obtain e1 st1 where one: "log_power parse sn (serial_tail sn) d st0 = (e1, st1)" by fastforce
  obtain e2 st2 where two: "log_field_changes parse render sn (serial_tail sn) d st1 = (e2, st2)" by fastforce
  have "list_all event_safe e1" "seen_safe st1"
    using log_power_safe [OF one serial_tail_short] assms(3) acc by (auto simp: seen_safe_def)
  with log_field_changes_safe [OF two serial_tail_short] show ?thesis
    using assms(1,2) one two acc by (auto simp: observe_camera_def Let_def)
qed

lemma observe_safe:
  "list_all event_safe (fst acc) \<Longrightarrow> seen_safe (snd acc)
    \<Longrightarrow> list_all event_safe (fst (observe parse render snap acc)) \<and> seen_safe (snd (observe parse render snap acc))"
  unfolding observe_def
proof (induction snap arbitrary: acc)
  case (Cons entry snap)
  obtain evs st where "observe_camera parse render entry acc = (evs, st)" by fastforce
  with observe_camera_safe [OF this] Cons show ?case by simp
qed simp

section \<open>Properties\<close>


text \<open>The filter for power fields does not look at identifying or volatile names: a battery time is logged although
  it is not observable.\<close>

lemma power_field_volatile: "is_power ''batteryUpdateTime'' \<and> \<not> is_observable ''batteryUpdateTime''"
  by code_simp

end
