(* ===== verification/Alarm_Api.thy ===== *)
theory Alarm_Api
  imports Alarm_Poll Ordered_Map
begin

text \<open>
  The alarm feed as a whole (\<open>alarms/mod.rs\<close>: loading every camera's history with its share of the picture
  budget, and the poller's cycles over all of them, \<open>alarms/poller.rs\<close>) and its HTTP surface (\<open>api_alarms.rs\<close>). What is on disk for a camera when the
  bridge starts is the parameter \<open>stored\<close>; SHA-256 in hexadecimal and the printing and parsing of dates are parameters. Spawning and stopping the poller
  task, the wake-up channel and response headers are omitted; the result of a query's extraction is an option.
\<close>

definition history_binding :: "(string \<Rightarrow> string) \<Rightarrow> camera_config \<Rightarrow> string" where
  "history_binding sha256_hex camera = sha256_hex (serial camera @ '':'' @ show_nat (camera_config.channel camera))"

text \<open>A camera's directory: whether writes succeed, its history file and its pictures.\<close>

type_synonym stored_alarms = "string \<Rightarrow> bool \<times> history_file option \<times> picture_dir"

definition picture_share :: "alarm_limits \<Rightarrow> (string, camera_config) btree \<Rightarrow> nat" where
  "picture_share limits cams = al_picture_bytes limits div max 1 (length cams)"

definition feed_load :: "(string \<Rightarrow> string) \<Rightarrow> stored_alarms \<Rightarrow> (string, camera_config) btree \<Rightarrow> alarm_limits \<Rightarrow> feed" where
  "feed_load sha256_hex stored cams limits =
     map (\<lambda>(alias, config). case stored alias of (io, file, dir) \<Rightarrow>
       (alias, \<lparr>slot_config = config,
                slot_history = load io file dir (history_binding sha256_hex config) (picture_share limits cams) (al_history limits)\<rparr>)) cams"

section \<open>Poll cycles\<close>

text \<open>What one cycle meets: the answer to the summary request, the alarm pages and pictures of every device, and the
  outcomes of its disk operations.\<close>

record cycle_world =
  cy_summary :: "bridge_error + json"
  cy_pages :: "string \<Rightarrow> page_source"
  cy_now :: int
  cy_cloud :: picture_cloud
  cy_disk :: "string \<Rightarrow> disk"

text \<open>Libraries the cycle uses: SHA-256, the parser and printer of dates, and the host's time zone offset.\<close>

record alarm_lib =
  alib_sha :: "string \<Rightarrow> string"
  alib_parse_local :: "string \<Rightarrow> int option"
  alib_api_date :: "int \<Rightarrow> string"
  alib_zone :: int

definition cycle_fetch :: "alarm_lib \<Rightarrow> cycle_world \<Rightarrow> string \<Rightarrow> serial_state \<Rightarrow> int option \<Rightarrow> (string \<Rightarrow> bool) \<Rightarrow> nat \<Rightarrow> bridge_error + fetch_result" where
  "cycle_fetch lib cy sn st newest known max_pages =
     fetch_unknown (parse_list (alib_sha lib) (cy_now cy)) (cy_pages cy sn) (alib_api_date lib) (cy_now cy) (alib_zone lib) (ss_offset st) newest known max_pages"

text \<open>\<open>groups.entry(serial).or_default().push(alias)\<close> for every camera.\<close>

definition alarm_groups :: "feed \<Rightarrow> (string, string list) btree" where
  "alarm_groups fd =
     fold (\<lambda>(alias, slot) groups. let sn = serial (slot_config slot)
       in bt_insert sn ((case bt_get groups sn of None \<Rightarrow> [] | Some as \<Rightarrow> as) @ [alias]) groups) fd []"

fun poll_groups ::
  "alarm_lib \<Rightarrow> cycle_world \<Rightarrow> device_summary list \<Rightarrow> (string \<times> string list) list \<Rightarrow> bool \<Rightarrow> (string, serial_state) btree \<Rightarrow> feed
   \<Rightarrow> bool \<times> (string, serial_state) btree \<times> feed" where
  "poll_groups lib cy summary [] failed serials fd = (failed, serials, fd)"
| "poll_groups lib cy summary ((sn, aliases) # groups) failed serials fd =
     (let st = (case bt_get serials sn of None \<Rightarrow> serial_state_default | Some st \<Rightarrow> st);
          device = find (\<lambda>d. ds_serial d = sn) summary
      in case poll_serial (cy_disk cy sn) (cy_cloud cy) (cycle_fetch lib cy sn) device aliases st fd of
           (f, st', fd') \<Rightarrow> poll_groups lib cy summary groups (failed \<or> f) (bt_insert sn st' serials) fd')"

definition cycle :: "alarm_lib \<Rightarrow> cycle_world \<Rightarrow> (string, serial_state) btree \<Rightarrow> feed \<Rightarrow> bool \<times> (string, serial_state) btree \<times> feed" where
  "cycle lib cy serials fd =
     (case cy_summary cy of
        Inl e \<Rightarrow> (True, serials, fd)
      | Inr v \<Rightarrow> poll_groups lib cy (parse_summary (alib_sha lib) (alib_parse_local lib) v) (alarm_groups fd) False serials fd)"

text \<open>\<open>run\<close> over the cycles before the shutdown: the delays slept and the feed they leave.\<close>

fun poll_run ::
  "alarm_lib \<Rightarrow> nat \<Rightarrow> cycle_world list \<Rightarrow> nat \<Rightarrow> (string, serial_state) btree \<Rightarrow> feed \<Rightarrow> nat list \<times> (string, serial_state) btree \<times> feed" where
  "poll_run lib interval [] delay serials fd = ([], serials, fd)"
| "poll_run lib interval (cy # cys) delay serials fd =
     (case cycle lib cy serials fd of
        (failed, serials', fd') \<Rightarrow>
          (case poll_run lib interval cys (next_delay interval failed delay) serials' fd' of
             (delays, serials'', fd'') \<Rightarrow> (delay # delays, serials'', fd'')))"

section \<open>Requests\<close>

record alarm_query =
  q_after :: "nat option"
  q_wait :: "nat option"
  q_before :: "nat option"

datatype alarm_reply =
    Alarm_Bad_Request string
  | Alarm_Picture_Missing
  | Alarm_Events alarm_batch
  | Alarm_Jpeg bytes

text \<open>\<open>wakes seconds\<close> is the history at the wake-ups of a poll that waits that long.\<close>

definition list_alarms :: "feed \<Rightarrow> (nat \<Rightarrow> camera_history list) \<Rightarrow> string \<Rightarrow> alarm_query option \<Rightarrow> bridge_error + alarm_reply" where
  "list_alarms fd wakes camera query =
     (case query of
        None \<Rightarrow> Inr (Alarm_Bad_Request ''after, wait and before must be non-negative integers'')
      | Some q \<Rightarrow>
          (case q_before q of
             Some before \<Rightarrow>
               if q_after q \<noteq> None \<or> q_wait q \<noteq> None then Inr (Alarm_Bad_Request ''before cannot be combined with after or wait'')
               else if before = 0 then Inr (Alarm_Bad_Request ''before must be a sequence of at least 1'')
               else try_bind (history camera before fd) (\<lambda>b. Inr (Alarm_Events b))
           | None \<Rightarrow>
               let wait = (case q_wait q of None \<Rightarrow> 0 | Some w \<Rightarrow> w)
               in if MAX_WAIT_SECONDS < wait then Inr (Alarm_Bad_Request ''wait must be between 0 and 25 seconds'')
                  else try_bind (batch camera (q_after q) fd (wakes wait)) (\<lambda>b. Inr (Alarm_Events b))))"

definition alarm_picture_route :: "feed \<Rightarrow> string \<Rightarrow> string \<Rightarrow> bridge_error + alarm_reply" where
  "alarm_picture_route fd camera alarm_id =
     (if \<not> is_token alarm_id then Inr Alarm_Picture_Missing
      else try_bind (feed_picture camera alarm_id fd) (\<lambda>p. case p of None \<Rightarrow> Inr Alarm_Picture_Missing | Some jpeg \<Rightarrow> Inr (Alarm_Jpeg jpeg)))"

section \<open>The picture budget\<close>

text \<open>The bytes of the pictures a camera keeps.\<close>

definition kept_bytes :: "entry list \<Rightarrow> nat" where
  "kept_bytes es = sum_list (map (\<lambda>e. if has_picture (rec e) then picture_size (rec e) else 0) es)"

lemma kept_le_total: "kept_bytes es \<le> picture_total es"
  unfolding kept_bytes_def picture_total_def by (rule sum_list_mono) simp

lemma drop_pictures_kept:
  "drop_pictures b t es dir = (es', dir', d) \<Longrightarrow> kept_bytes es \<le> t \<Longrightarrow> kept_bytes es' \<le> b"
proof (induction b t es dir arbitrary: es' dir' d rule: drop_pictures.induct)
  case (2 b t e es dir)
  then show ?case
    by (fastforce simp: kept_bytes_def split: if_splits prod.splits)
qed (simp add: kept_bytes_def)

definition budget_ok :: "nat \<Rightarrow> camera_history \<Rightarrow> bool" where
  "budget_ok b h \<longleftrightarrow> hist_ok h \<and> picture_budget h = b \<and> kept_bytes (events h) \<le> b"

lemma enforce_kept: "enforce_picture_budget h = (d, h') \<Longrightarrow> kept_bytes (events h') \<le> picture_budget h'"
  using drop_pictures_kept kept_le_total by (fastforce simp: enforce_picture_budget_def split: prod.splits)

lemma insert_batch_kept:
  assumes "insert_batch io b live h = (res, h')"
  shows "kept_bytes (events h') \<le> picture_budget h'"
proof -
  obtain o1 h1 where "foldl (\<lambda>st i. insert_one i st)
      (\<lparr>inserted = 0, pictures_stored = 0, pictures_failed = 0\<rparr>, h) b = (o1, h1)" by fastforce
  note run = this
  obtain d h3 where e: "enforce_picture_budget (if live then h1 else h1\<lparr>floor := head h1\<rparr>) = (d, h3)" by fastforce
  have "events h' = events h3" "picture_budget h' = picture_budget h3"
    using assms by (auto simp: insert_batch_def run e persist_def split: if_splits)
  with enforce_kept [OF e] show ?thesis by simp
qed

lemma load_one_budget [simp]: "picture_budget (foldl (\<lambda>h r. load_one r h) h rs) = picture_budget h"
proof (induction rs arbitrary: h)
  case (Cons r rs)
  moreover have "picture_budget (load_one r h) = picture_budget h"
    by (simp add: load_one_def push_fields Let_def)
  ultimately show ?case by simp
qed simp

lemma load_budget_ok: "budget_ok b (load io file dir bind b lim)"
proof -
  let ?stored = "case file of
      Some f \<Rightarrow> if schema_version f = SCHEMA_VERSION \<and> hf_binding f = bind then hf_events f else []
    | None \<Rightarrow> []"
  let ?h1 = "foldl (\<lambda>h r. load_one r h) \<lparr>ch_file = file, ch_binding = bind, pictures = dir, events = [], index = {}, head = 0,
    floor = 0, picture_budget = b, limit = lim\<rparr> (drop (length ?stored - lim) ?stored)"
  let ?h2 = "?h1\<lparr>floor := head ?h1\<rparr>"
  let ?h3 = "?h2\<lparr>pictures := remove_orphans (picture_ids ?h2) (pictures ?h2)\<rparr>"
  obtain d h4 where e: "enforce_picture_budget ?h3 = (d, h4)" by fastforce
  have b: "picture_budget h4 = b"
    using e by (auto simp: enforce_picture_budget_def split: prod.splits)
  have "events (load io file dir bind b lim) = events h4 \<and> picture_budget (load io file dir bind b lim) = picture_budget h4"
    using e by (simp add: load_def Let_def persist_def)
  with enforce_kept [OF e] b load_ok show ?thesis
    by (simp add: budget_ok_def)
qed

definition feed_ok :: "nat \<Rightarrow> feed \<Rightarrow> bool" where
  "feed_ok b fd \<longleftrightarrow> list_all (\<lambda>(alias, slot). budget_ok b (slot_history slot)) fd"

lemma feed_load_ok: "feed_ok (picture_share limits cams) (feed_load sha256_hex stored cams limits)"
  by (auto simp: feed_ok_def feed_load_def list_all_iff load_budget_ok split: prod.splits)

lemma publish_budget_ok:
  assumes "budget_ok b (slot_history slot)" "publish disk items live slot = (res, slot')"
  shows "budget_ok b (slot_history slot')"
proof -
  obtain h where h: "insert_batch (snd disk) (map (\<lambda>(r, j). (r, j, fst disk (ar_id r))) items) live (slot_history slot) = (res, h)"
    "slot_history slot' = h"
    using assms(2) by (auto simp: publish_def split: prod.splits)
  with insert_batch_ok [OF _ h(1)] insert_batch_kept [OF h(1)] assms(1) show ?thesis
    by (simp add: budget_ok_def)
qed

lemma feed_ok_update:
  assumes "feed_ok b fd" "budget_ok b (slot_history slot)"
  shows "feed_ok b (AList.update alias slot fd)"
  using assms by (induction fd) (auto simp: feed_ok_def)

lemma publish_all_ok:
  "feed_ok b fd \<Longrightarrow> publish_all disk cloud ms live aliases fd = (res, fd') \<Longrightarrow> feed_ok b fd' \<and> map fst fd' = map fst fd"
proof (induction aliases arbitrary: fd)
  case (Cons al rest)
  show ?case
  proof (cases "map_of fd al")
    case None
    then show ?thesis using Cons by simp
  next
    case (Some slot)
    let ?mine = "filter (\<lambda>m. message_channel m = camera_config.channel (slot_config slot)) ms"
    obtain r slot' where p: "publish disk (with_pictures cloud (slot_config slot) ?mine) live slot = (r, slot')" by fastforce
    have "budget_ok b (slot_history slot)"
      using Cons(2) Some by (auto simp: feed_ok_def list_all_iff dest!: map_of_SomeD)
    from feed_ok_update [OF Cons(2) publish_budget_ok [OF this p]]
    have ok: "feed_ok b (AList.update al slot' fd)" .
    have keys: "map fst (AList.update al slot' fd) = map fst fd"
      using Some by (simp add: AList.update_keys dom_map_of_conv_image_fst [symmetric] domI map_of_SomeD rev_image_eqI)
    show ?thesis
      using Cons(1) [OF Cons(2)] Cons(1) [OF ok] Cons(3) ok keys
      by (cases "?mine = []"; cases r) (auto simp: Some p)
  qed
qed simp

lemma poll_serial_ok:
  "feed_ok b fd \<Longrightarrow> poll_serial disk cloud fetch device aliases st fd = (f, st', fd') \<Longrightarrow> feed_ok b fd' \<and> map fst fd' = map fst fd"
  using publish_all_ok
  by (fastforce simp: poll_serial_def sync_serial_def Let_def split: if_splits prod.splits sum.splits)

lemma poll_groups_ok:
  "feed_ok b fd \<Longrightarrow> poll_groups lib cy summary groups failed serials fd = (f, serials', fd') \<Longrightarrow> feed_ok b fd' \<and> map fst fd' = map fst fd"
proof (induction lib cy summary groups failed serials fd rule: poll_groups.induct)
  case (2 lib cy summary sn aliases groups failed serials fd)
  obtain f1 st1 fd1 where p: "poll_serial (cy_disk cy sn) (cy_cloud cy) (cycle_fetch lib cy sn) (find (\<lambda>d. ds_serial d = sn) summary) aliases
      (case bt_get serials sn of None \<Rightarrow> serial_state_default | Some st \<Rightarrow> st) fd = (f1, st1, fd1)"
    by (metis prod_cases3)
  with poll_serial_ok [OF 2(2) p] 2 show ?case
    by (auto simp: Let_def)
qed simp

lemma cycle_ok: "feed_ok b fd \<Longrightarrow> cycle lib cy serials fd = (f, serials', fd') \<Longrightarrow> feed_ok b fd' \<and> map fst fd' = map fst fd"
  using poll_groups_ok by (fastforce simp: cycle_def split: sum.splits)

lemma poll_run_ok:
  "feed_ok b fd \<Longrightarrow> poll_run lib interval cys delay serials fd = (ds, serials', fd') \<Longrightarrow> feed_ok b fd' \<and> map fst fd' = map fst fd"
proof (induction cys arbitrary: delay serials fd ds)
  case (Cons cy cys)
  obtain f s1 fd1 where c: "cycle lib cy serials fd = (f, s1, fd1)" by (metis prod_cases3)
  obtain ds1 s2 fd2 where r: "poll_run lib interval cys (next_delay interval f delay) s1 fd1 = (ds1, s2, fd2)" by (metis prod_cases3)
  show ?case
    using cycle_ok [OF Cons(2) c] Cons(1) [of fd1 "next_delay interval f delay" s1 ds1] Cons(3) by (simp add: c r)
qed simp

lemma feed_ok_total:
  assumes "feed_ok (picture_share limits cams) fd" "map fst fd = map fst cams"
  shows "sum_list (map (\<lambda>(alias, slot). kept_bytes (events (slot_history slot))) fd) \<le> al_picture_bytes limits"
proof -
  let ?b = "picture_share limits cams"
  have len: "length fd = length cams" using assms(2) by (metis length_map)
  have "sum_list (map (\<lambda>(alias, slot). kept_bytes (events (slot_history slot))) fd) \<le> sum_list (map (\<lambda>_. ?b) fd)"
    using assms(1) by (intro sum_list_mono) (auto simp: feed_ok_def list_all_iff budget_ok_def)
  also have "\<dots> = length cams * ?b" by (simp add: sum_list_triv len)
  also have "\<dots> \<le> max 1 (length cams) * (al_picture_bytes limits div max 1 (length cams))"
    unfolding picture_share_def by (rule mult_le_mono1) simp
  also have "\<dots> \<le> al_picture_bytes limits" by (rule times_div_less_eq_dividend)
  finally show ?thesis .
qed

lemma feed_load_keys: "map fst (feed_load sha256_hex stored cams limits) = map fst cams"
  by (auto simp: feed_load_def split: prod.splits)

section \<open>Properties\<close>

text \<open>The pictures of all cameras together stay within the configured budget: from whatever is on disk at start
  and after any number of poll cycles, whatever the cloud sends and whichever requests and disk operations fail, the
  feed has the configured cameras and the sizes of the pictures it keeps add up to at most \<open>picture_bytes\<close>.\<close>

theorem feed_picture_budget:
  "case poll_run lib interval cys 0 [] (feed_load sha256_hex stored cams limits) of
     (delays, serials, fd) \<Rightarrow> map fst fd = map fst cams
       \<and> sum_list (map (\<lambda>(alias, slot). kept_bytes (events (slot_history slot))) fd) \<le> al_picture_bytes limits"
proof -
  obtain delays serials fd where run: "poll_run lib interval cys 0 [] (feed_load sha256_hex stored cams limits) = (delays, serials, fd)"
    by (metis prod_cases3)
  have ok: "feed_ok (picture_share limits cams) fd" and same: "map fst fd = map fst cams"
    using poll_run_ok [OF feed_load_ok run] feed_load_keys by simp_all
  show ?thesis using run same feed_ok_total [OF ok same] by simp
qed

end
