(* ===== verification/Api_Router.thy ===== *)
theory Api_Router
  imports Enrollment Recording_Safety Recording_Api Device_Service Control_Service
begin

text \<open>
  The HTTP surface as a whole: the routing table (\<open>api.rs\<close> and the \<open>routes\<close> functions it merges), the
  authentication layer of \<open>Enrollment\<close> in front of it, and the handlers of recordings (\<open>api_recordings.rs\<close>),
  device reads (\<open>api_device.rs\<close>) and native controls (\<open>api_controls.rs\<close>) over the component models. Path
  matching is the documented behaviour of the router library: a literal segment matches itself, a parameter one
  non-empty segment, and a \<open>get\<close> route also answers \<open>HEAD\<close>. The extraction of a body or query is an option, \<open>None\<close>
  when it is rejected. Response headers are omitted.
\<close>

section \<open>Routes\<close>

datatype http_method = GET | HEAD | POST | PUT | DELETE

datatype api_endpoint =
    Health
  | Metrics_Text
  | Camera_Identity string
  | Camera_Snapshot string
  | Live_Mpegps string
  | Live_Ts string
  | Recordings_List
  | Recording_Create string
  | Recording_Get string
  | Recording_Delete string
  | Recording_Media string
  | Recording_Playback string
  | Alarms_List string
  | Alarms_Picture string string
  | Device_Encryption string
  | Device_Storage string
  | Device_Records string
  | Controls_Read string
  | Controls_Write string
  | Controls_Ptz string
  | Defence_Read
  | Defence_Write
  | Enrollment_Start
  | Enrollment_Verify string
  | Enrollment_Cancel string

text \<open>The routes of one path: the methods it has and their endpoints.\<close>

type_synonym method_table = "(http_method \<times> api_endpoint) list"

definition get_only :: "api_endpoint \<Rightarrow> method_table" where
  "get_only e = [(GET, e), (HEAD, e)]"

definition camera_routes :: "string \<Rightarrow> string \<Rightarrow> method_table" where
  "camera_routes c leaf =
     (if leaf = ''identity'' then get_only (Camera_Identity c)
      else if leaf = ''snapshot.jpg'' then get_only (Camera_Snapshot c)
      else if leaf = ''live.mpegps'' then get_only (Live_Mpegps c)
      else if leaf = ''live.ts'' then get_only (Live_Ts c)
      else if leaf = ''recordings'' then [(POST, Recording_Create c)]
      else if leaf = ''alarms'' then get_only (Alarms_List c)
      else if leaf = ''encryption'' then get_only (Device_Encryption c)
      else if leaf = ''storage'' then get_only (Device_Storage c)
      else if leaf = ''sd-records'' then get_only (Device_Records c)
      else if leaf = ''controls'' then (PUT, Controls_Write c) # get_only (Controls_Read c)
      else if leaf = ''ptz'' then [(POST, Controls_Ptz c)] else [])"

definition recording_routes :: "string \<Rightarrow> string \<Rightarrow> method_table" where
  "recording_routes i leaf =
     (if leaf = ''media'' then get_only (Recording_Media i)
      else if leaf = ''playback.mp4'' then get_only (Recording_Playback i) else [])"

definition routes_of :: "string list \<Rightarrow> method_table" where
  "routes_of segs =
     (case segs of
        [a] \<Rightarrow> if a = ''healthz'' then get_only Health else if a = ''metrics'' then get_only Metrics_Text else []
      | [a, b] \<Rightarrow>
          if a \<noteq> ''v1'' then [] else if b = ''recordings'' then get_only Recordings_List
          else if b = ''enrollments'' then [(POST, Enrollment_Start)] else []
      | [a, b, c] \<Rightarrow>
          if a \<noteq> ''v1'' then []
          else if b = ''recordings'' then if c = [] then [] else (DELETE, Recording_Delete c) # get_only (Recording_Get c)
          else if b = ''enrollments'' then if c = [] then [] else [(POST, Enrollment_Verify c), (DELETE, Enrollment_Cancel c)]
          else if b = ''account'' \<and> c = ''defence'' then (PUT, Defence_Write) # get_only Defence_Read else []
      | [a, b, c, d] \<Rightarrow>
          if a \<noteq> ''v1'' \<or> c = [] then []
          else if b = ''cameras'' then camera_routes c d else if b = ''recordings'' then recording_routes c d else []
      | [a, b, c, d, e, f] \<Rightarrow>
          if a = ''v1'' \<and> b = ''cameras'' \<and> c \<noteq> [] \<and> d = ''alarms'' \<and> e \<noteq> [] \<and> f = ''picture.jpg''
          then get_only (Alarms_Picture c e) else []
      | _ \<Rightarrow> [])"

definition path_segments :: "string \<Rightarrow> string list" where
  "path_segments path = (case path of [] \<Rightarrow> [] | c # rest \<Rightarrow> if c = CHR ''/'' then split_char CHR ''/'' rest else [])"

datatype http_answer = Unauthorized_401 | Reauth_403 | Not_Found_404 | Wrong_Method_405 | Served api_endpoint

definition router :: "(string \<Rightarrow> bytes option) \<Rightarrow> authenticator \<Rightarrow> bool \<Rightarrow> http_method \<Rightarrow> string \<Rightarrow> string option \<Rightarrow> http_answer" where
  "router base64 auth reauth meth path header =
     (case authenticate base64 auth reauth path header of
        Unauthorized \<Rightarrow> Unauthorized_401
      | Reauth \<Rightarrow> Reauth_403
      | Pass \<Rightarrow>
          let table = routes_of (path_segments path)
          in if table = [] then Not_Found_404
             else case map_of table meth of None \<Rightarrow> Wrong_Method_405 | Some e \<Rightarrow> Served e)"

section \<open>Before the first enrolment\<close>

text \<open>The router served while no EZVIZ token is stored (\<open>bootstrap.rs\<close>).\<close>

definition bootstrap_routes :: "string list \<Rightarrow> method_table" where
  "bootstrap_routes segs =
     (case segs of
        [a] \<Rightarrow> if a = ''healthz'' then get_only Health else if a = ''metrics'' then get_only Metrics_Text else []
      | [a, b] \<Rightarrow> if a = ''v1'' \<and> b = ''enrollments'' then [(POST, Enrollment_Start)] else []
      | [a, b, c] \<Rightarrow> if a = ''v1'' \<and> b = ''enrollments'' \<and> c \<noteq> [] then [(POST, Enrollment_Verify c), (DELETE, Enrollment_Cancel c)] else []
      | _ \<Rightarrow> [])"

definition bootstrap_authenticate :: "(string \<Rightarrow> bytes option) \<Rightarrow> authenticator \<Rightarrow> string \<Rightarrow> string option \<Rightarrow> bool" where
  "bootstrap_authenticate base64 auth path header \<longleftrightarrow> path = ''/healthz'' \<or> accepts base64 auth header False"

definition bootstrap_router :: "(string \<Rightarrow> bytes option) \<Rightarrow> authenticator \<Rightarrow> http_method \<Rightarrow> string \<Rightarrow> string option \<Rightarrow> http_answer" where
  "bootstrap_router base64 auth meth path header =
     (if \<not> bootstrap_authenticate base64 auth path header then Unauthorized_401
      else let table = bootstrap_routes (path_segments path)
           in if table = [] then Not_Found_404
              else case map_of table meth of None \<Rightarrow> Wrong_Method_405 | Some e \<Rightarrow> Served e)"

section \<open>Handlers\<close>

subsection \<open>Recordings\<close>

definition get_recording :: "string \<Rightarrow> recorder \<Rightarrow> nat + manifest" where
  "get_recording i r = ok_or (bt_get (manifests (rstate r)) i) 404"

definition delete_recording :: "string \<Rightarrow> remove_outcome \<Rightarrow> write_outcome \<Rightarrow> string \<Rightarrow> recorder \<Rightarrow> (bridge_error + nat) \<times> recorder" where
  "delete_recording now removal outcome i r =
     (case acknowledge now removal outcome i r of (res, r') \<Rightarrow> (try_bind res (\<lambda>_. Inr 204), r'))"

text \<open>\<open>opened\<close> says whether the file can be opened; the answer is its content type and body.\<close>

definition download_recording :: "bool \<Rightarrow> string \<Rightarrow> recorder \<Rightarrow> nat + string \<times> bytes" where
  "download_recording opened i r =
     try_bind (ok_or (media_of i r) 404) (\<lambda>(path, kind).
       case bt_get (dir r) path of
         Some c \<Rightarrow> if opened then Inr (if kind = ''video/mp2t'' then ''video/mp2t'' else ''video/mpeg'', c) else Inl 404
       | None \<Rightarrow> Inl 404)"

subsection \<open>Device reads\<close>

definition parse_day :: "(string \<Rightarrow> int option) \<Rightarrow> string \<Rightarrow> int option" where
  "parse_day parse_date v = (if length v = 10 then parse_date v else None)"

datatype records_reply = Records_Bad_Request | Records_Found "sd_record list"

definition sd_records_route ::
  "device_lib \<Rightarrow> (string \<Rightarrow> int option) \<Rightarrow> (string, camera_config) btree \<Rightarrow> device_service \<Rightarrow> string \<Rightarrow> string option \<Rightarrow> nat
   \<Rightarrow> bridge_error + device_status \<Rightarrow> page_source \<Rightarrow> nat \<Rightarrow> int \<Rightarrow> (bridge_error + records_reply) \<times> device_service \<times> record_query list" where
  "sd_records_route lib parse_date cams svc cam query now st src later utc_today =
     (if bt_get cams cam = None then (Inl CameraNotFound, svc, [])
      else case Option.bind query (parse_day parse_date) of
          None \<Rightarrow> (Inr Records_Bad_Request, svc, [])
        | Some day \<Rightarrow> (case sd_records lib svc cam day now st src later utc_today of
              (res, svc', log) \<Rightarrow> (try_bind res (\<lambda>rs. Inr (Records_Found rs)), svc', log)))"

subsection \<open>Controls\<close>

definition control_body :: "'a option \<Rightarrow> control_error + 'a" where
  "control_body input = ok_or input (CtlInvalid ''request body does not match the schema'')"

definition write_control_route ::
  "ctl_env \<Rightarrow> (string, camera_config) btree \<Rightarrow> control_service \<Rightarrow> string \<Rightarrow> control_request option \<Rightarrow> ctl_world
   \<Rightarrow> (control_error + controls) \<times> ctl_world" where
  "write_control_route env cams svc cam input w =
     (if bt_get cams cam = None then (Inl CtlCameraNotFound, w)
      else case control_body input of Inl e \<Rightarrow> (Inl e, w) | Inr request \<Rightarrow> update env svc cam request w)"

definition ptz_route ::
  "ctl_env \<Rightarrow> (string, camera_config) btree \<Rightarrow> control_service \<Rightarrow> string \<Rightarrow> ptz_direction option \<Rightarrow> ctl_world
   \<Rightarrow> (control_error + nat) \<times> ctl_world" where
  "ptz_route env cams svc cam input w =
     (if bt_get cams cam = None then (Inl CtlCameraNotFound, w)
      else case control_body input of
          Inl e \<Rightarrow> (Inl e, w)
        | Inr direction \<Rightarrow> (case ptz env svc cam direction w of (res, w') \<Rightarrow> (try_bind res (\<lambda>_. Inr 204), w')))"

definition write_defence_route ::
  "ctl_env \<Rightarrow> control_service \<Rightarrow> defence_update option \<Rightarrow> ctl_world \<Rightarrow> (control_error + account_defence) \<times> ctl_world" where
  "write_defence_route env svc input w =
     (case control_body input of Inl e \<Rightarrow> (Inl e, w) | Inr request \<Rightarrow> set_account_defence env svc request w)"

section \<open>Guards and routes agree\<close>

text \<open>The endpoints that work from what is on the bridge alone.\<close>

fun works_offline :: "api_endpoint \<Rightarrow> bool" where
  "works_offline Health = True"
| "works_offline Metrics_Text = True"
| "works_offline Recordings_List = True"
| "works_offline (Recording_Get _) = True"
| "works_offline (Recording_Delete _) = True"
| "works_offline (Recording_Media _) = True"
| "works_offline (Recording_Playback _) = True"
| "works_offline Enrollment_Start = True"
| "works_offline (Enrollment_Verify _) = True"
| "works_offline (Enrollment_Cancel _) = True"
| "works_offline _ = False"

lemma split_char_join: "concat (map ((#) c) (split_char c s)) = c # s"
  by (induction s) (auto split: list.splits)

lemma path_of_segments: "path_segments path \<noteq> [] \<Longrightarrow> path = concat (map ((#) CHR ''/'') (path_segments path))"
  by (auto simp: path_segments_def split_char_join split: list.splits if_splits)

lemma starts_with_Cons [simp]: "starts_with (x # xs) (y # ys) \<longleftrightarrow> x = y \<and> starts_with xs ys"
  by (auto simp: starts_with_def)

lemma starts_with_Nil [simp]: "starts_with xs []"
  by (simp add: starts_with_def)

lemma starts_with_Nil_Cons [simp]: "\<not> starts_with [] (y # ys)"
  by (simp add: starts_with_def)

lemma camera_routes_online: "(m, e) \<in> set (camera_routes c leaf) \<Longrightarrow> \<not> works_offline e"
  by (auto simp: camera_routes_def get_only_def split: if_splits)

lemma recording_routes_offline: "(m, e) \<in> set (recording_routes i leaf) \<Longrightarrow> works_offline e \<and> e \<noteq> Health"
  by (auto simp: recording_routes_def get_only_def split: if_splits)

lemma routes_of_cases:
  assumes "(m, e) \<in> set (routes_of segs)"
  obtains (health) "segs = [''healthz'']" "e = Health"
  | (metrics) "segs = [''metrics'']" "e = Metrics_Text"
  | (recordings) rest where "segs = ''v1'' # ''recordings'' # rest" "works_offline e" "e \<noteq> Health"
  | (enrollments) rest where "segs = ''v1'' # ''enrollments'' # rest" "works_offline e" "e \<noteq> Health"
  | (account) rest where "segs = ''v1'' # ''account'' # rest" "\<not> works_offline e"
  | (cameras) rest where "segs = ''v1'' # ''cameras'' # rest" "\<not> works_offline e"
proof -
  obtain a segs1 where 1: "segs = a # segs1"
    using assms by (cases segs) (simp_all add: routes_of_def)
  show ?thesis
  proof (cases segs1)
    case Nil
    then show ?thesis using assms 1 health metrics by (auto simp: routes_of_def get_only_def split: if_split_asm)
  next
    case 2: (Cons b segs2)
    show ?thesis
    proof (cases segs2)
      case Nil
      then show ?thesis
        using assms 1 2 recordings enrollments by (auto simp: routes_of_def get_only_def split: if_split_asm)
    next
      case 3: (Cons c segs3)
      show ?thesis
      proof (cases segs3)
        case Nil
        then show ?thesis
          using assms 1 2 3 recordings enrollments account by (auto simp: routes_of_def get_only_def split: if_split_asm)
      next
        case 4: (Cons d segs4)
        show ?thesis
        proof (cases segs4)
          case Nil
          then have "a = ''v1'' \<and> (b = ''cameras'' \<and> (m, e) \<in> set (camera_routes c d)
              \<or> b = ''recordings'' \<and> (m, e) \<in> set (recording_routes c d))"
            using assms 1 2 3 4 by (auto simp: routes_of_def split: if_split_asm)
          then show ?thesis
            using 1 2 recordings [of segs2] cameras [of segs2] camera_routes_online recording_routes_offline by blast
        next
          case (Cons e' segs5)
          have "routes_of (a # b # c # d # e' # segs5) = [] \<or> a = ''v1'' \<and> b = ''cameras'' \<and> routes_of (a # b # c # d # e' # segs5) = get_only (Alarms_Picture c e')"
            by (simp add: routes_of_def split: list.split)
          then have "a = ''v1'' \<and> b = ''cameras'' \<and> e = Alarms_Picture c e'"
            using assms 1 2 3 4 Cons by (auto simp: get_only_def)
          then show ?thesis
            using 1 2 cameras [of segs2] by simp
        qed
      qed
    qed
  qed
qed

lemma routes_need_session:
  assumes "(m, e) \<in> set (routes_of segs)" "path = concat (map ((#) CHR ''/'') segs)"
  shows "needs_session path \<longleftrightarrow> \<not> works_offline e" "path = ''/healthz'' \<longleftrightarrow> e = Health"
proof -
  from assms(1) have "(needs_session path \<longleftrightarrow> \<not> works_offline e) \<and> (path = ''/healthz'' \<longleftrightarrow> e = Health)"
    by (cases rule: routes_of_cases) (use assms(2) in \<open>auto simp: needs_session_def\<close>)
  then show "needs_session path \<longleftrightarrow> \<not> works_offline e" "path = ''/healthz'' \<longleftrightarrow> e = Health"
    by simp_all
qed

lemma served_route:
  assumes "router base64 auth reauth meth path header = Served e"
  shows "authenticate base64 auth reauth path header = Pass" "(meth, e) \<in> set (routes_of (path_segments path))"
    "path = concat (map ((#) CHR ''/'') (path_segments path))"
proof -
  show pass: "authenticate base64 auth reauth path header = Pass"
    using assms by (auto simp: router_def split: gate.splits)
  show r: "(meth, e) \<in> set (routes_of (path_segments path))"
    using assms pass by (auto simp: router_def Let_def split: if_splits option.splits dest: map_of_SomeD)
  then have "path_segments path \<noteq> []"
    by (auto simp: routes_of_def)
  then show "path = concat (map ((#) CHR ''/'') (path_segments path))"
    by (rule path_of_segments)
qed

lemma accepts_more: "accepts base64 auth header False \<Longrightarrow> accepts base64 auth header basic"
  by (auto simp: accepts_def split: option.splits if_splits)

lemma bootstrap_shapes:
  assumes "bootstrap_routes segs \<noteq> []"
  obtains (health) "segs = [''healthz'']" | (metrics) "segs = [''metrics'']" | (start) "segs = [''v1'', ''enrollments'']"
  | (one) c where "c \<noteq> []" "segs = [''v1'', ''enrollments'', c]"
proof -
  consider (n1) a where "segs = [a]" | (n2) a b where "segs = [a, b]" | (n3) a b c where "segs = [a, b, c]"
    | (other) "segs = []" | (long) a b c d r where "segs = a # b # c # d # r"
    by (metis neq_Nil_conv)
  then show ?thesis
    by cases (use assms that in \<open>simp_all add: bootstrap_routes_def split: if_split_asm\<close>)
qed

lemma bootstrap_routes_kept:
  assumes "map_of (bootstrap_routes segs) meth = Some e"
  shows "routes_of segs = bootstrap_routes segs" "works_offline e"
proof -
  have "bootstrap_routes segs \<noteq> []" using assms by auto
  then have "routes_of segs = bootstrap_routes segs \<and> works_offline e"
    by (cases rule: bootstrap_shapes)
      (use assms in \<open>auto simp: bootstrap_routes_def routes_of_def get_only_def split: if_split_asm\<close>)
  then show "routes_of segs = bootstrap_routes segs" "works_offline e" by simp_all
qed

text \<open>What the bootstrap router serves, the full router serves with the same credentials whatever the session's state.\<close>

lemma bootstrap_handover:
  assumes "bootstrap_router base64 auth meth path header = Served e"
  shows "router base64 auth reauth meth path header = Served e"
proof -
  let ?segs = "path_segments path"
  have r: "map_of (bootstrap_routes ?segs) meth = Some e" and ok: "bootstrap_authenticate base64 auth path header"
    using assms by (auto simp: bootstrap_router_def Let_def split: if_splits option.splits)
  note kept = bootstrap_routes_kept [OF r]
  have "(meth, e) \<in> set (routes_of ?segs)"
    using map_of_SomeD [OF r] kept(1) by simp
  moreover from this have "?segs \<noteq> []"
    by (auto simp: routes_of_def)
  ultimately have "\<not> needs_session path"
    using routes_need_session(1) path_of_segments kept(2) by blast
  then have "authenticate base64 auth reauth path header = Pass"
    using ok accepts_more by (auto simp: authenticate_def bootstrap_authenticate_def Let_def)
  then show ?thesis
    using r kept(1) by (auto simp: router_def Let_def)
qed

text \<open>A rejected body or an unknown camera never reaches the cameras.\<close>

lemma bad_control_quiet:
  "control_body input = Inl e \<or> bt_get cams cam = None \<Longrightarrow> snd (write_control_route env cams svc cam input w) = w"
  "control_body way = Inl e' \<or> bt_get cams cam = None \<Longrightarrow> snd (ptz_route env cams svc cam way w) = w"
  by (auto simp: write_control_route_def ptz_route_def)

end
