(* ===== verification/Metrics.thy ===== *)
theory Metrics
  imports Rust_Str Ordered_Map "HOL-Library.Product_Lexorder"
begin

text \<open>
  The metrics registry (\<open>metrics.rs\<close>): saturating counters and gauges by name and camera, counters with
  their own labels, and the text page that shows them. A gauge is a floating-point number; it is kept as the text it
  prints as. The escaping of label values is compared with an escaping character by character and inverted.
\<close>

definition U64_MAX :: nat where "U64_MAX = 2 ^ 64 - 1"

record metric_values =
  counters :: "(string \<times> string, nat) btree"
  gauges :: "(string \<times> string, string) btree"
  labeled :: "(string \<times> string, nat) btree"

definition metrics_default :: metric_values where
  "metrics_default = \<lparr>counters = [], gauges = [], labeled = []\<rparr>"

text \<open>\<open>entry(key).or_default()\<close> followed by a saturating addition.\<close>

definition count_up :: "string \<times> string \<Rightarrow> nat \<Rightarrow> (string \<times> string, nat) btree \<Rightarrow> (string \<times> string, nat) btree" where
  "count_up k amount m = bt_insert k (min U64_MAX ((case bt_get m k of None \<Rightarrow> 0 | Some v \<Rightarrow> v) + amount)) m"

definition metric_add :: "string \<Rightarrow> string \<Rightarrow> nat \<Rightarrow> metric_values \<Rightarrow> metric_values" where
  "metric_add name cam amount mv = mv\<lparr>counters := count_up (name, cam) amount (counters mv)\<rparr>"

definition increment :: "string \<Rightarrow> string \<Rightarrow> metric_values \<Rightarrow> metric_values" where
  "increment name cam mv = metric_add name cam 1 mv"

fun replace_char :: "char \<Rightarrow> string \<Rightarrow> string \<Rightarrow> string" where
  "replace_char c rep [] = []"
| "replace_char c rep (x # xs) = (if x = c then rep @ replace_char c rep xs else x # replace_char c rep xs)"

definition BACKSLASH :: char where "BACKSLASH = CHR 0x5C"
definition QUOTE :: char where "QUOTE = CHR 0x22"
definition NEWLINE :: char where "NEWLINE = CHR 0x0A"

definition escape_label :: "string \<Rightarrow> string" where
  "escape_label v =
     replace_char NEWLINE [BACKSLASH, CHR ''n''] (replace_char QUOTE [BACKSLASH, QUOTE] (replace_char BACKSLASH [BACKSLASH, BACKSLASH] v))"

definition render_labels :: "(string \<times> string) list \<Rightarrow> string" where
  "render_labels labels = join_with '','' (map (\<lambda>(k, v). k @ ''='' @ [QUOTE] @ escape_label v @ [QUOTE]) labels)"

definition increment_labeled :: "string \<Rightarrow> (string \<times> string) list \<Rightarrow> metric_values \<Rightarrow> metric_values" where
  "increment_labeled name labels mv = mv\<lparr>labeled := count_up (name, render_labels labels) 1 (labeled mv)\<rparr>"

definition metric_gauge :: "string \<Rightarrow> string \<Rightarrow> string \<Rightarrow> metric_values \<Rightarrow> metric_values" where
  "metric_gauge name cam shown mv = mv\<lparr>gauges := bt_insert (name, cam) shown (gauges mv)\<rparr>"

definition camera_line :: "string \<times> string \<Rightarrow> string \<Rightarrow> string" where
  "camera_line = (\<lambda>(name, cam) shown. ''ezviz_bridge_'' @ name @ ''{camera='' @ [QUOTE] @ escape_label cam @ [QUOTE] @ ''} '' @ shown)"

definition labeled_line :: "string \<times> string \<Rightarrow> string \<Rightarrow> string" where
  "labeled_line = (\<lambda>(name, labels) shown.
     if labels = [] then ''ezviz_bridge_'' @ name @ '' '' @ shown else ''ezviz_bridge_'' @ name @ ''{'' @ labels @ ''} '' @ shown)"

definition metric_lines :: "metric_values \<Rightarrow> string list" where
  "metric_lines mv =
     map (\<lambda>(k, v). camera_line k (show_nat v)) (counters mv) @ map (\<lambda>(k, v). labeled_line k (show_nat v)) (labeled mv)
     @ map (\<lambda>(k, v). camera_line k v) (gauges mv)"

definition render_metrics :: "metric_values \<Rightarrow> string" where
  "render_metrics mv = concat (map (\<lambda>l. l @ [NEWLINE]) (metric_lines mv))"

section \<open>Escaping\<close>

lemmas special_chars = BACKSLASH_def QUOTE_def NEWLINE_def

text \<open>The three passes amount to one pass, and it can be undone.\<close>

definition escape_char :: "char \<Rightarrow> string" where
  "escape_char c =
     (if c = BACKSLASH then [BACKSLASH, BACKSLASH] else if c = QUOTE then [BACKSLASH, QUOTE]
      else if c = NEWLINE then [BACKSLASH, CHR ''n''] else [c])"

lemma replace_char_append: "replace_char c rep (xs @ ys) = replace_char c rep xs @ replace_char c rep ys"
  by (induction c rep xs rule: replace_char.induct) auto

lemma escape_label_chars: "escape_label v = concat (map escape_char v)"
  by (induction v) (auto simp: escape_label_def replace_char_append escape_char_def special_chars)

fun unescape :: "string \<Rightarrow> string" where
  "unescape [] = []"
| "unescape [c] = [c]"
| "unescape (c # d # s) =
     (if c = BACKSLASH then (if d = CHR ''n'' then NEWLINE else d) # unescape s else c # unescape (d # s))"

lemma unescape_plain: "c \<noteq> BACKSLASH \<Longrightarrow> unescape (c # s) = c # unescape s"
  by (cases s) simp_all

lemma unescape_escape: "unescape (escape_label v) = v"
proof (induction v)
  case (Cons c v)
  then show ?case
    by (cases "c = BACKSLASH"; cases "c = QUOTE"; cases "c = NEWLINE")
      (auto simp: escape_label_chars escape_char_def unescape_plain special_chars)
qed (simp add: escape_label_chars)

lemma escape_label_no_newline: "NEWLINE \<notin> set (escape_label v)"
  by (induction v) (auto simp: escape_label_chars escape_char_def special_chars)

text \<open>Reading a value up to its closing quote stops at the right one.\<close>

fun until_quote :: "string \<Rightarrow> string" where
  "until_quote [] = []"
| "until_quote [c] = (if c = QUOTE then [] else [c])"
| "until_quote (c # d # s) =
     (if c = QUOTE then [] else if c = BACKSLASH then c # d # until_quote s else c # until_quote (d # s))"

lemma until_quote_plain: "c \<noteq> QUOTE \<Longrightarrow> c \<noteq> BACKSLASH \<Longrightarrow> until_quote (c # s) = c # until_quote s"
  by (cases s) simp_all

lemma until_quote_stop [simp]: "until_quote (QUOTE # s) = []"
  by (cases s) simp_all

lemma until_quote_escape: "until_quote (escape_label v @ QUOTE # s) = escape_label v"
proof (induction v)
  case (Cons c v)
  then show ?case
    by (cases "c = BACKSLASH"; cases "c = QUOTE"; cases "c = NEWLINE")
      (auto simp: escape_label_chars escape_char_def until_quote_plain special_chars)
qed (simp add: escape_label_chars)

section \<open>The page\<close>

text \<open>Whatever text a camera alias or a label value is, it is read back from its line exactly.\<close>

lemma label_roundtrip:
  "unescape (until_quote (drop (length (''ezviz_bridge_'' @ name @ ''{camera='') + 1) (camera_line (name, cam) shown))) = cam"
proof -
  have "drop (length (''ezviz_bridge_'' @ name @ ''{camera='') + 1) (camera_line (name, cam) shown)
      = escape_label cam @ QUOTE # ''} '' @ shown"
    by (simp add: camera_line_def)
  then show ?thesis
    by (simp only: until_quote_escape unescape_escape)
qed

text \<open>A counter holds the sum of what was added to it, capped at the largest 64-bit number.\<close>

lemma count_up_total:
  "bt_get (fold (\<lambda>n. count_up k n) ns m) k = (if ns = [] then bt_get m k
     else Some (min U64_MAX ((case bt_get m k of None \<Rightarrow> 0 | Some v \<Rightarrow> v) + sum_list ns)))"
proof (induction ns arbitrary: m)
  case (Cons n ns)
  show ?case
    using Cons [of "count_up k n m"] by (cases "bt_get m k") (auto simp: count_up_def min_def)
qed simp

end
