(* ===== verification/Sd_Channel.thy ===== *)
theory Sd_Channel
  imports Ordered_Map
begin

text \<open>
  The channel between a microSD playback and the recording writer (\<open>recordings/sd.rs\<close>): the playback hands over
  chunks, which are cut into slices for a bounded queue; when the writer does not keep up the transfer is marked as
  overflowed and the playback is told to stop.
\<close>

definition SD_QUEUE_CHUNKS :: nat where "SD_QUEUE_CHUNKS = 512"
definition CHUNK_BYTES :: nat where "CHUNK_BYTES = 64 * 1024"

text \<open>What has been accepted, how much of it the writer has taken, whether the writer is still there, and the flag.\<close>

record sd_channel =
  sc_sent :: "bytes list"
  sc_taken :: nat
  sc_open :: bool
  overflowed :: bool

definition sd_channel_new :: sd_channel where
  "sd_channel_new = \<lparr>sc_sent = [], sc_taken = 0, sc_open = True, overflowed = False\<rparr>"

definition sc_try_send :: "bytes \<Rightarrow> sd_channel \<Rightarrow> sd_channel option" where
  "sc_try_send piece c =
     (if sc_open c \<and> length (sc_sent c) - sc_taken c < SD_QUEUE_CHUNKS then Some (c\<lparr>sc_sent := sc_sent c @ [piece]\<rparr>) else None)"

fun sd_slices :: "bytes list \<Rightarrow> sd_channel \<Rightarrow> bool \<times> sd_channel" where
  "sd_slices [] c = (True, c)"
| "sd_slices (piece # rest) c =
     (case sc_try_send piece c of None \<Rightarrow> (False, c\<lparr>overflowed := True\<rparr>) | Some c' \<Rightarrow> sd_slices rest c')"

definition sd_consume :: "bytes \<Rightarrow> sd_channel \<Rightarrow> bool \<times> sd_channel" where
  "sd_consume chunk c = sd_slices (chunks_of CHUNK_BYTES chunk) c"

interpretation sd_queue: bounded_channel sc_try_send sc_sent "\<lambda>c. length (sc_sent c) - sc_taken c" SD_QUEUE_CHUNKS
  by unfold_locales (auto simp: sc_try_send_def split: if_splits)

text \<open>The playback and the writer take turns: a chunk is offered, or the writer takes slices or goes away.\<close>

inductive sd_step :: "bytes list \<times> sd_channel \<Rightarrow> bytes list \<times> sd_channel \<Rightarrow> bool" where
  offered: "sd_step (played, c) (played @ [chunk], snd (sd_consume chunk c))"
| taken: "n \<le> length (sc_sent c) \<Longrightarrow> sc_taken c \<le> n \<Longrightarrow> sd_step (played, c) (played, c\<lparr>sc_taken := n\<rparr>)"
| dropped: "sd_step (played, c) (played, c\<lparr>sc_open := False\<rparr>)"

definition sd_faithful :: "bytes list \<times> sd_channel \<Rightarrow> bool" where
  "sd_faithful s = (case s of (played, c) \<Rightarrow>
     (overflowed c \<or> concat (sc_sent c) = concat played) \<and> length (sc_sent c) - sc_taken c \<le> SD_QUEUE_CHUNKS)"

lemma sc_try_send_flag: "sc_try_send piece c = Some c' \<Longrightarrow> overflowed c' = overflowed c"
  by (auto simp: sc_try_send_def split: if_splits)

lemma sd_slices_sent:
  "sd_slices slices c = (ok, c') \<Longrightarrow> length (sc_sent c) - sc_taken c \<le> SD_QUEUE_CHUNKS
    \<Longrightarrow> (overflowed c' \<or> sc_sent c' = sc_sent c @ slices) \<and> (overflowed c \<longrightarrow> overflowed c')
      \<and> length (sc_sent c') - sc_taken c' \<le> SD_QUEUE_CHUNKS"
proof (induction slices c rule: sd_slices.induct)
  case (2 piece rest c)
  show ?case
  proof (cases "sc_try_send piece c")
    case (Some d)
    then show ?thesis
      using 2(1) [OF Some] 2(2) sd_queue.send_appends [OF Some] sd_queue.send_room [OF Some] sc_try_send_flag [OF Some] by auto
  qed (use 2(2,3) in auto)
qed auto

lemma sd_faithful_step: "sd_step s t \<Longrightarrow> sd_faithful s \<Longrightarrow> sd_faithful t"
proof (induction rule: sd_step.induct)
  case (offered played c chunk)
  obtain ok c' where run: "sd_slices (chunks_of CHUNK_BYTES chunk) c = (ok, c')" by fastforce
  have "concat (chunks_of CHUNK_BYTES chunk) = chunk"
    by (rule concat_chunks_of) (simp add: CHUNK_BYTES_def)
  then show ?case
    using sd_slices_sent [OF run] offered by (auto simp: sd_faithful_def sd_consume_def run)
qed (auto simp: sd_faithful_def)

interpretation sd_machine: invariant_machine sd_step sd_faithful
  by unfold_locales (rule sd_faithful_step)

text \<open>A transfer that did not overflow has handed over exactly the bytes that were played, in order.\<close>

lemma sd_transfer_faithful: "sd_step\<^sup>*\<^sup>* ([], sd_channel_new) s \<Longrightarrow> sd_faithful s"
  by (erule sd_machine.invariant_run) (simp add: sd_faithful_def sd_channel_new_def)

end
