(* ===== verification/Bridge_Runtime.thy ===== *)
theory Bridge_Runtime
  imports Api_Router Alarm_Api Live_Api Metrics Ezviz_Client
begin

text \<open>
  The bridge as one process: building all services from a configuration (\<open>api.rs\<close>), its start-up and command line
  decisions (\<open>cli.rs\<close>), the requests that concern the process as a whole (\<open>api.rs\<close>, \<open>api_session.rs\<close>,
  \<open>session_health.rs\<close>) and the playback of a recording through ffmpeg (\<open>recording_playback.rs\<close>). \<open>bridge_step\<close>
  interleaves the steps of the components, and its invariant joins theirs.
\<close>

section \<open>Building the services\<close>

text \<open>What the start-up finds on disk, and the outcomes of its file operations.\<close>

record boot_disk =
  bd_api_token :: "secret_file option"
  bd_spool_ready :: "bridge_error + unit"
  bd_spool :: spool
  bd_journal :: "rec_journal option"
  bd_journal_write :: Storage.write_outcome
  bd_alarms :: stored_alarms
  bd_now :: string

record runtime =
  br_config :: bridge_config
  br_auth :: authenticator
  br_metrics :: metric_values
  br_raw :: "(string, hub) btree"
  br_ts :: "(string, ts_hub) btree"
  br_snapshots :: snapshot_service
  br_recordings :: world
  br_alarms :: feed
  br_devices :: device_service
  br_controls :: control_service
  br_cells :: cells
  br_session :: session_health
  br_enrollment :: "manager_state option"

definition stream_limits :: "bridge_config \<Rightarrow> hub_config" where
  "stream_limits c = \<lparr>hub_config.queue_chunks = bridge_config.queue_chunks c, max_subscribers = bridge_config.max_subscribers c\<rparr>"

definition recording_limits :: "bridge_config \<Rightarrow> rec_config" where
  "recording_limits c =
     \<lparr>hub_aliases = map fst (bridge_config.cameras c), max_duration = max_recording_seconds c,
      max_bytes = max_recording_bytes c, quota_bytes = recording_quota_bytes c\<rparr>"

definition build_with_session ::
  "(bytes \<Rightarrow> string) \<Rightarrow> (string \<Rightarrow> string) \<Rightarrow> (string \<Rightarrow> bool) \<Rightarrow> bridge_config \<Rightarrow> boot_disk \<Rightarrow> session_health \<Rightarrow> bridge_error + runtime" where
  "build_with_session sha sha_text is_uuid c bd session =
     try_bind (ensure_private_regular (api_token_file c) (bd_api_token bd) 32) (\<lambda>tok.
     try_bind (new_authenticator tok) (\<lambda>auth.
     try_bind (bd_spool_ready bd) (\<lambda>_.
     case Recording_Store.load sha (bd_now bd) is_uuid (bd_journal_write bd) (bd_spool bd) (bd_journal bd) of
       (res, r) \<Rightarrow> try_bind res (\<lambda>_.
         let cams = bridge_config.cameras c
         in Inr \<lparr>br_config = c, br_auth = auth, br_metrics = metrics_default,
              br_raw = map (\<lambda>(alias, _). (alias, hub_new)) cams, br_ts = map (\<lambda>(alias, _). (alias, ts_hub_new)) cams,
              br_snapshots = snapshot_service_new cams (int (snapshot_cache_seconds c)) (int (snapshot_stale_seconds c)),
              br_recordings = \<lparr>recs = r, tasks = []\<rparr>,
              br_alarms = feed_load sha_text (bd_alarms bd) cams (config_alarm_limits c),
              br_devices = new_service cams, br_controls = \<lparr>svc_cameras = cams, svc_attached = False\<rparr>,
              br_cells = new_cells cams, br_session = session, br_enrollment = None\<rparr>))))"

text \<open>A \<open>OnceLock\<close>: later calls are ignored.\<close>

definition attach_enrollment :: "manager_state \<Rightarrow> runtime \<Rightarrow> runtime" where
  "attach_enrollment m rt = (case br_enrollment rt of None \<Rightarrow> rt\<lparr>br_enrollment := Some m\<rparr> | Some _ \<Rightarrow> rt)"

definition enrollment_of :: "runtime \<Rightarrow> bridge_error + manager_state" where
  "enrollment_of rt = ok_or (br_enrollment rt) UpstreamUnavailable"

section \<open>Starting and stopping\<close>

definition start_runtime ::
  "(bytes \<Rightarrow> string) \<Rightarrow> (string \<Rightarrow> string) \<Rightarrow> (string \<Rightarrow> bool) \<Rightarrow> (string \<Rightarrow> ezviz_token option) \<Rightarrow> secret_file option \<Rightarrow> bridge_config
   \<Rightarrow> boot_disk \<Rightarrow> bridge_error + runtime \<times> session_store" where
  "start_runtime sha sha_text is_uuid parse token c bd =
     try_bind (load_session parse (ezviz_token_file c) token health_default) (\<lambda>store.
     try_bind (build_with_session sha sha_text is_uuid c bd (st_health store)) (\<lambda>rt.
       let rt1 = attach_enrollment manager_new rt
       in Inr (rt1\<lparr>br_devices := attach (br_devices rt1), br_controls := (br_controls rt1)\<lparr>svc_attached := True\<rparr>\<rparr>, store)))"

text \<open>\<open>enroll\<close> and \<open>run\<close> are the two servers until they stop; the flags say whether the token file is there before
  and after the first.\<close>

definition serve ::
  "bridge_error + bridge_config \<Rightarrow> bool \<Rightarrow> (bridge_config \<Rightarrow> bridge_error + unit) \<Rightarrow> bool \<Rightarrow> (bridge_config \<Rightarrow> bridge_error + unit)
   \<Rightarrow> bridge_error + unit" where
  "serve loaded there enroll there_now run =
     try_bind loaded (\<lambda>c.
       if there then run c
       else try_bind (enroll c) (\<lambda>_. if there_now then run c else Inr ()))"

definition healthcheck :: "bridge_error + nat \<Rightarrow> bridge_error + unit" where
  "healthcheck reply = try_bind reply (\<lambda>code. if is_success code then Inr () else Inl (Upstream ''health endpoint is not ready''))"

text \<open>One change of the enrolment flag: its value, the staged file, the outcome of its rename and of writing the token
  afterwards.\<close>

record staged_enrollment =
  sg_ready :: bool
  sg_file :: "secret_file option"
  sg_moved :: "bridge_error + unit"
  sg_write :: Storage.write_outcome

fun adopt_enrollments :: "api_env \<Rightarrow> (string \<Rightarrow> ezviz_token option) \<Rightarrow> string \<Rightarrow> staged_enrollment list \<Rightarrow> api_world \<Rightarrow> api_world" where
  "adopt_enrollments env parse name [] w = w"
| "adopt_enrollments env parse name (g # gs) w =
     adopt_enrollments env parse name gs
       (if sg_ready g then snd (adopt_enrollment env parse name (sg_file g) (sg_moved g) (sg_write g) w) else w)"

section \<open>Requests to the process\<close>

definition camera_identity :: "runtime \<Rightarrow> string \<Rightarrow> bridge_error + string \<times> string" where
  "camera_identity rt cam =
     try_bind (ok_or (bt_get (bridge_config.cameras (br_config rt)) cam) CameraNotFound) (\<lambda>k. Inr (cam, source_id k))"

fun state_name :: "session_state \<Rightarrow> string" where
  "state_name SessionOk = ''ok''"
| "state_name Degraded = ''degraded''"
| "state_name SessionReauth = ''reauth_required''"

text \<open>The fields of the health answer; \<open>version\<close> is the constant of the build.\<close>

definition health_route :: "string \<Rightarrow> runtime \<Rightarrow> (string \<times> string) list" where
  "health_route version rt =
     [(''status'', ''ok''), (''version'', version), (''ezviz_session'', state_name (health_state (br_session rt)))]"

definition session_lines :: "session_health \<Rightarrow> string list" where
  "session_lines h =
     [''ezviz_bridge_session_refreshes_total{result='' @ [QUOTE] @ ''ok'' @ [QUOTE] @ ''} '' @ show_nat (unat (h_refresh_ok h)),
      ''ezviz_bridge_session_refreshes_total{result='' @ [QUOTE] @ ''failed'' @ [QUOTE] @ ''} '' @ show_nat (unat (h_refresh_failed h)),
      ''ezviz_bridge_session_auth_failures_total '' @ show_nat (unat (h_rejected h)),
      ''ezviz_bridge_session_persist_failures_total '' @ show_nat (unat (h_persist_failed h)),
      ''ezviz_bridge_session_reauth_required '' @ show_nat (if health_reauth h then 1 else 0)]"

definition session_render :: "session_health \<Rightarrow> string" where
  "session_render h = concat (map (\<lambda>l. l @ [NEWLINE]) (session_lines h))"

definition metrics_route :: "runtime \<Rightarrow> string" where
  "metrics_route rt = render_metrics (br_metrics rt) @ session_render (br_session rt)"

section \<open>Playback\<close>

definition FFMPEG_ARGUMENTS :: "string list" where
  "FFMPEG_ARGUMENTS = [''-hide_banner'', ''-loglevel'', ''error'', ''-fflags'', ''+genpts'', ''-i'']"

definition OUTPUT_ARGUMENTS :: "string list" where
  "OUTPUT_ARGUMENTS =
     [''-map'', ''0:v:0?'', ''-map'', ''0:a:0?'', ''-c:v'', ''copy'', ''-c:a'', ''aac'', ''-avoid_negative_ts'', ''make_zero'',
      ''-movflags'', ''frag_keyframe+empty_moov+default_base_moof'', ''-f'', ''mp4'', ''pipe:1'']"

text \<open>ffmpeg: the reads of its output and its exit status, each of which may fail.\<close>

record ffmpeg_run =
  ff_reads :: "(bridge_error + bytes) list"
  ff_exit :: "bridge_error + bool"

datatype body_item = Body_Chunk bytes | Body_Error

fun playback_reads :: "(bridge_error + bytes) list \<Rightarrow> bridge_error + bool \<Rightarrow> body_item list" where
  "playback_reads [] ex = (if ex = Inr True then [] else [Body_Error])"
| "playback_reads (Inl e # rs) ex = [Body_Error]"
| "playback_reads (Inr c # rs) ex = (if c = [] then playback_reads [] ex else Body_Chunk c # playback_reads rs ex)"

text \<open>\<open>ffmpeg\<close> starts the process on an argument list, or fails; the answer is a status or the body.\<close>

definition playback_recording :: "(string list \<Rightarrow> ffmpeg_run option) \<Rightarrow> string \<Rightarrow> recorder \<Rightarrow> nat + body_item list" where
  "playback_recording ffmpeg i r =
     try_bind (ok_or (media_of i r) 404) (\<lambda>(path, kind).
     try_bind (ok_or (ffmpeg (FFMPEG_ARGUMENTS @ [path] @ OUTPUT_ARGUMENTS)) 502) (\<lambda>run.
       Inr (playback_reads (ff_reads run) (ff_exit run))))"

text \<open>A body without an error item is the whole output of a process that succeeded.\<close>

lemma playback_reads_clean:
  "Body_Error \<notin> set (playback_reads rs ex)
   \<Longrightarrow> ex = Inr True \<and> playback_reads rs ex = map (\<lambda>x. Body_Chunk (projr x)) (takeWhile (\<lambda>x. x \<noteq> Inr []) rs)"
proof (induction rs)
  case (Cons r rs)
  show ?case
  proof (cases r)
    case (Inr c)
    show ?thesis
    proof (cases "c = []")
      case True
      then show ?thesis using Cons.prems Inr by (simp split: if_split_asm)
    next
      case False
      then have "Body_Error \<notin> set (playback_reads rs ex)" using Cons.prems Inr by simp
      from Cons.IH [OF this] show ?thesis using Inr False by auto
    qed
  qed (use Cons.prems in simp)
qed (simp split: if_split_asm)

section \<open>The running bridge\<close>

text \<open>A step of one component; the poller's memory of the devices is any value.\<close>

inductive bridge_step :: "(bytes \<Rightarrow> string) \<Rightarrow> (string \<Rightarrow> bool) \<Rightarrow> alarm_lib \<Rightarrow> runtime \<Rightarrow> runtime \<Rightarrow> bool" for sha is_uuid lib where
  on_raw: "bt_get (br_raw rt) a = Some h \<Longrightarrow> hub_step (stream_limits (br_config rt)) h h'
    \<Longrightarrow> bridge_step sha is_uuid lib rt (rt\<lparr>br_raw := bt_modify a (\<lambda>_. h') (br_raw rt)\<rparr>)"
| on_ts: "bt_get (br_ts rt) a = Some t \<Longrightarrow> remux_step (stream_limits (br_config rt)) t t'
    \<Longrightarrow> bridge_step sha is_uuid lib rt (rt\<lparr>br_ts := bt_modify a (\<lambda>_. t') (br_ts rt)\<rparr>)"
| on_recordings: "rec_step (recording_limits (br_config rt)) sha is_uuid (br_recordings rt) w
    \<Longrightarrow> bridge_step sha is_uuid lib rt (rt\<lparr>br_recordings := w\<rparr>)"
| on_alarms: "Alarm_Api.cycle lib cy serials (br_alarms rt) = (bad, serials', fd)
    \<Longrightarrow> bridge_step sha is_uuid lib rt (rt\<lparr>br_alarms := fd\<rparr>)"
| on_snapshots: "bridge_step sha is_uuid lib rt (rt\<lparr>br_snapshots := snapshot_serve rq (br_snapshots rt)\<rparr>)"
| on_enrollment: "br_enrollment rt = Some (mw_state m) \<Longrightarrow> manager_step parse_id m m'
    \<Longrightarrow> bridge_step sha is_uuid lib rt (rt\<lparr>br_enrollment := Some (mw_state m')\<rparr>)"
| on_session: "bridge_step sha is_uuid lib rt (rt\<lparr>br_session := s\<rparr>)"
| on_metrics: "bridge_step sha is_uuid lib rt (rt\<lparr>br_metrics := metric_add n cam k (br_metrics rt)\<rparr>)"

abbreviation bridge_run :: "(bytes \<Rightarrow> string) \<Rightarrow> (string \<Rightarrow> bool) \<Rightarrow> alarm_lib \<Rightarrow> runtime \<Rightarrow> runtime \<Rightarrow> bool" where
  "bridge_run sha is_uuid lib \<equiv> (bridge_step sha is_uuid lib)\<^sup>*\<^sup>*"

definition bridge_inv :: "(bytes \<Rightarrow> string) \<Rightarrow> (string \<Rightarrow> bool) \<Rightarrow> bridge_config \<Rightarrow> runtime \<Rightarrow> bool" where
  "bridge_inv sha is_uuid c rt \<longleftrightarrow> br_config rt = c
     \<and> map fst (br_raw rt) = map fst (bridge_config.cameras c) \<and> map fst (br_ts rt) = map fst (bridge_config.cameras c)
     \<and> map fst (br_alarms rt) = map fst (bridge_config.cameras c) \<and> sv_cameras (br_snapshots rt) = bridge_config.cameras c
     \<and> list_all (\<lambda>(_, h). hub_inv (stream_limits c) h) (br_raw rt) \<and> list_all (\<lambda>(_, t). ts_inv (stream_limits c) t) (br_ts rt)
     \<and> quota_inv (recording_limits c) sha is_uuid (br_recordings rt)
     \<and> feed_ok (picture_share (config_alarm_limits c) (bridge_config.cameras c)) (br_alarms rt)"

lemma bt_modify_all: "list_all (\<lambda>(_, v). P v) m \<Longrightarrow> P v' \<Longrightarrow> list_all (\<lambda>(_, v). P v) (bt_modify k (\<lambda>_. v') m)"
  by (auto simp: bt_modify_def list_all_iff)

lemma bt_get_all: "list_all (\<lambda>(_, v). P v) m \<Longrightarrow> bt_get m k = Some v \<Longrightarrow> P v"
  by (auto simp: list_all_iff dest!: map_of_SomeD)

lemma snapshot_serve_cameras: "sv_cameras (snapshot_serve rq sv) = sv_cameras sv"
  by (auto simp: snapshot_serve_def snapshot_get_def Let_def split: option.splits sum.splits)

text \<open>A configuration read from the environment keeps the recording limits far from the machine's word size.\<close>

lemma limits_fit:
  assumes "config_ok c"
  shows "quota_bytes (recording_limits c) < USIZE_MAX" "max_bytes (recording_limits c) < USIZE_MAX"
  using assms by (simp_all add: config_ok_def recording_limits_def USIZE_MAX_def)

lemma bridge_inv_step:
  assumes "bridge_step sha is_uuid lib rt rt'" "bridge_inv sha is_uuid c rt" "config_ok c"
  shows "bridge_inv sha is_uuid c rt'"
  using assms
proof (induction rule: bridge_step.induct)
  case (on_raw rt a h h')
  then have "hub_inv (stream_limits c) h"
    by (auto simp: bridge_inv_def elim!: bt_get_all)
  then have "hub_inv (stream_limits c) h'"
    using hub_machine.invariant_step on_raw by (auto simp: bridge_inv_def)
  then show ?case using on_raw by (auto simp: bridge_inv_def bt_modify_all)
next
  case (on_ts rt a t t')
  then have "ts_inv (stream_limits c) t"
    by (auto simp: bridge_inv_def elim!: bt_get_all)
  then have "ts_inv (stream_limits c) t'"
    using ts_machine.invariant_step on_ts by (auto simp: bridge_inv_def)
  then show ?case using on_ts by (auto simp: bridge_inv_def bt_modify_all)
next
  case (on_recordings rt w)
  then show ?case
    using quota_inv_step limits_fit [OF assms(3)] by (auto simp: bridge_inv_def)
next
  case (on_alarms cy serials rt bad serials' fd)
  then show ?case
    using cycle_ok by (fastforce simp: bridge_inv_def)
qed (auto simp: bridge_inv_def snapshot_serve_cameras)

interpretation bridge_machine: invariant_machine "bridge_step sha is_uuid lib" "\<lambda>rt. config_ok c \<and> bridge_inv sha is_uuid c rt"
  for sha is_uuid lib c
  by unfold_locales (blast intro: bridge_inv_step)

lemma bridge_inv_built:
  assumes "build_with_session sha sha_text is_uuid c bd session = Inr rt"
    and "bt_ordered (bd_spool bd)" "finished_bytes (bd_spool bd) \<le> recording_quota_bytes c"
    and "\<forall>j. bd_journal bd = Some j \<longrightarrow> (\<forall>m \<in> set (j_recordings j). recording_id m \<noteq> [])"
  shows "bridge_inv sha is_uuid c rt"
proof -
  let ?r = "snd (Recording_Store.load sha (bd_now bd) is_uuid (bd_journal_write bd) (bd_spool bd) (bd_journal bd))"
  have q: "quota_inv (recording_limits c) sha is_uuid \<lparr>recs = ?r, tasks = []\<rparr>"
    by (rule load_inv) (use assms(2-4) in \<open>auto simp: recording_limits_def\<close>)
  have rt: "br_config rt = c" "br_raw rt = map (\<lambda>(alias, _). (alias, hub_new)) (bridge_config.cameras c)"
    "br_ts rt = map (\<lambda>(alias, _). (alias, ts_hub_new)) (bridge_config.cameras c)"
    "sv_cameras (br_snapshots rt) = bridge_config.cameras c" "br_recordings rt = \<lparr>recs = ?r, tasks = []\<rparr>"
    "br_alarms rt = feed_load sha_text (bd_alarms bd) (bridge_config.cameras c) (config_alarm_limits c)"
    using assms(1) by (auto simp: build_with_session_def try_bind_def Let_def snapshot_service_new_def split: sum.splits prod.splits)
  show ?thesis
    using q feed_load_ok feed_load_keys
    by (auto simp: bridge_inv_def rt list_all_iff hub_inv_new ts_inv_new split: prod.splits)
qed

end
