(* ===== verification/Spec2Isabelle.thy ===== *)
theory Spec2Isabelle
  imports Vtm_Protobuf Rtp_Ts Alarm_Poll Recording_Safety Recording_Api Cloud_Key Hub Device_Service Control_Service
    Enrollment Ezviz_Client Scene_Sd Live_Api Canary Power_Probe Alarm_Api Api_Router Metrics Sd_Channel Bridge_Runtime
begin

text \<open>
  \<^bold>\<open>Vistoda EZVIZ bridge: verification library.\<close>

  The bridge (\<open>src/src\<close>, Rust) takes the cameras of one EZVIZ account and offers them on a private HTTP API:
  live streams, snapshots, recordings, alarms, the microSD index and native controls. An archive client in the same
  crate pulls recordings from it. The theories translate its code function by function; where several tasks share
  state, the lock-protected sections are the steps of an inductive relation and the theorems hold for every
  interleaving, failure and restart these steps allow. Paths below are relative to \<open>src/src\<close>.

  \<^bold>\<open>The parts and how they interact.\<close> \<open>config.rs\<close> and \<open>cli.rs\<close> start a \<open>Runtime\<close> (\<open>api.rs\<close>) that holds, per
  camera, a raw hub and an MPEG-TS hub, and, once, the snapshot service, the recording manager, the alarm feed, the
  device service and the control service. All of them reach EZVIZ through one transport, which keeps the account
  session. A live stream comes from a relay session (\<open>vtm/\<close>), is decrypted, depacketised and muxed
  (\<open>transport/\<close>), distributed by the raw hub, and remuxed by ffmpeg for the MPEG-TS hub. Recordings subscribe to the
  raw hub; the archive client downloads and acknowledges them.

  \<^bold>\<open>Shared theories.\<close>
  \<^item> \<open>Bridge_Prelude\<close>: bytes and machine words, checked slices, saturating arithmetic, errors as sums (\<open>try_bind\<close>,
    \<open>ok_or\<close>), the collections of simplification rules, and the locale \<open>invariant_machine\<close> (an invariant kept by
    every step holds after every run), which each transition system below interprets.
  \<^item> \<open>Ordered_Map\<close>: \<open>BTreeMap\<close> as an ascending association list, its laws as a locale, and \<open>bounded_channel\<close>, the
    contract of a bounded queue, interpreted by the subscribers of both hubs and by the microSD transfer.
  \<^item> \<open>Emitter\<close>: the contract of an operation that emits output and appends to a stream, for the media path.
  \<^item> \<open>Rust_Str\<close>, \<open>Json_Value\<close>: the parts of \<open>str\<close> and \<open>serde_json::Value\<close> the code uses.
  \<^item> \<open>Bridge_Error\<close> (\<open>error.rs\<close>, \<open>hub_failure.rs\<close>), \<open>Bridge_Config\<close> (\<open>config.rs\<close>: an accepted configuration is in
    range), \<open>Storage\<close> (\<open>storage.rs\<close>: atomic replacement with its three outcomes, secret files).

  \<^bold>\<open>Media path.\<close>
  \<^item> \<open>Vtm_Framing\<close>, \<open>Vtm_Protobuf\<close>, \<open>Vtm_Session\<close> (\<open>vtm/\<close>): header and protobuf round trips, opening with redirects,
    keepalives; a silent relay cannot hang a session.
  \<^item> \<open>Video_Cipher\<close> (\<open>transport/video_cipher*.rs\<close>): decryption of encrypted NAL units, units leave in the order they
    came. \<open>Rtp_Video\<close>, \<open>Aac_Rtp\<close>, \<open>Rtp_Audio\<close>: fragments are reassembled as a reference says, wrapping clocks are
    unwrapped, access units are found.
  \<^item> \<open>Ts_Mux\<close> (\<open>transport/ts_mux*.rs\<close>): demultiplexing the muxer's output gives back the access units; continuity
    counters count. \<open>Rtp_Ts\<close> (\<open>transport/rtp_ts.rs\<close>, \<open>video_pipeline.rs\<close>): the stream starts with its tables and a
    key frame, and the video held back for the audio decision is bounded.

  \<^bold>\<open>Streams.\<close>
  \<^item> \<open>Hub\<close> (\<open>hub.rs\<close>, \<open>hub_producer.rs\<close>): every subscriber of an open hub has a gapless run of the current session,
    queues are bounded, one upstream task is alive.
  \<^item> \<open>Ts_Warm\<close> (\<open>remux_warm.rs\<close>): the warm snapshot equals a reference segment however the stream is cut. \<open>Remux\<close>
    (\<open>remux.rs\<close>, \<open>remux_process.rs\<close>): the same integrity for the MPEG-TS hub.
  \<^item> \<open>Live_Api\<close> (\<open>snapshot.rs\<close>, \<open>api_stream.rs\<close>): the snapshot service refines its contract; how a live request ends.

  \<^bold>\<open>Recordings.\<close>
  \<^item> \<open>Recording_Writer\<close> (\<open>recordings/writer.rs\<close>), \<open>Recording_Store\<close> (manifests, journal, admission, jobs, recovery),
    \<open>Sd_Channel\<close> (\<open>recordings/sd.rs\<close>: without overflow exactly the played bytes arrive).
  \<^item> \<open>Recording_Run\<close>: the manager as a transition system with restarts; the quota is respected. \<open>Recording_Safety\<close>:
    manifests describe their files, keys admit once, a restart settles every recording. \<open>Recording_Api\<close>: requests and
    pages.
  \<^item> \<open>Scene_Pull\<close>, \<open>Scene_Sd\<close> (\<open>scenetrove*.rs\<close>): the archive client deletes on the bridge only what it has committed;
    the import of a day is bounded.

  \<^bold>\<open>Alarms.\<close> \<open>Alarm_Model\<close> (parsing), \<open>Alarm_Store\<close> (bounded history: a client that follows the cursor misses
  nothing), \<open>Alarm_Poll\<close> (fetching, priming, pictures), \<open>Picture\<close> (downloads, decryption, containers), \<open>Alarm_Api\<close>
  (all cameras, poll cycles, requests, the picture budget), from \<open>alarms/\<close>, \<open>transport/media.rs\<close>, \<open>image.rs\<close>.

  \<^bold>\<open>Devices, controls and account.\<close>
  \<^item> \<open>Sd_Records\<close>, \<open>Device_Service\<close>, \<open>Cloud_Key\<close> (\<open>device/\<close>): bounded searches, spaced requests, one code lookup a day.
  \<^item> \<open>Control_Model\<close>, \<open>Control_Service\<close>, \<open>Power_Probe\<close> (\<open>controls/\<close>): verified writes, PTZ steps that always stop,
    logs without secrets.
  \<^item> \<open>Ezviz_Session\<close>, \<open>Ezviz_Api\<close>, \<open>Ezviz_Client\<close> (\<open>session_health.rs\<close>, \<open>transport/\<close>): single-flight refresh, requests
    confined to their endpoints, stream allocation and the guarded verification code.
  \<^item> \<open>Enrollment\<close> (\<open>auth.rs\<close>, \<open>enrollment.rs\<close>, \<open>api_session.rs\<close>, \<open>transport/enroll*.rs\<close>): access checks, login, one-time
    codes. \<open>Canary\<close> (\<open>canary.rs\<close>): the bounded self-test.

  \<^bold>\<open>The whole.\<close> \<open>Metrics\<close> (\<open>metrics.rs\<close>), \<open>Api_Router\<close> (all routes, the bootstrap router, the remaining handlers) and
  \<open>Bridge_Runtime\<close> (\<open>api.rs\<close>, \<open>cli.rs\<close>, \<open>recording_playback.rs\<close>): building the services and the interleaving of their
  steps. This theory states what spans components: the limits of the running bridge, access through the router, and
  downloads against manifests.

  \<^bold>\<open>Conventions.\<close> A struct is a record, an enum a datatype, a \<open>Result\<close> a sum with the error on the left. A \<open>u8\<close> to
  \<open>u64\<close> is a word where it wraps and a natural number where the code saturates, checks or cannot overflow. Time is a
  number that the step or the environment supplies. Code outside the repository is an argument: SHA-256, MD5, AES,
  base64, URL and date parsing, the HTTP client, ffmpeg and the outcomes of file operations; theorems either hold for
  every such argument or name the law they need.

  \<^bold>\<open>Bounds and fuel.\<close> Three loops may run for ever and take fuel: the packet loop of \<open>Vtm_Session\<close>, where the theorem
  says how many turns are enough for an answer, and the start and the item loop of a session in \<open>Ezviz_Client\<close>, whose
  theorems hold for every amount. Page, redirect, retry and clip limits are the code's own constants and are counted
  down structurally.

  \<^bold>\<open>Not modelled.\<close> Signals, sockets, task spawning and the order of shutdown (\<open>Runtime::close\<close>); argument parsing,
  logging and printing (\<open>bin/\<close>, part of \<open>cli.rs\<close>); response headers and JSON rendering; the constant ffmpeg arguments
  of \<open>remux_args.rs\<close>; metrics calls inside the components. They carry no decision the theorems depend on.
\<close>

section \<open>Properties across components\<close>

subsection \<open>Limits of the running bridge\<close>


definition demo_environment :: env where
  "demo_environment = (\<lambda>_. None)"

definition demo_cameras :: "string \<Rightarrow> (string \<times> camera_config) list option" where
  "demo_cameras _ = Some [(''front'', \<lparr>serial = ''ABC123'', channel = 1, substream = False, decrypt_video = True, media_key_file = None\<rparr>)]"

definition demo_disk :: boot_disk where
  "demo_disk = \<lparr>bd_api_token = Some \<lparr>sf_name = ''t'', sf_regular = True, sf_mode = 384, sf_text = Inr (replicate 40 CHR ''k'')\<rparr>,
     bd_spool_ready = Inr (), bd_spool = [(''x.ts'', replicate 15 0)], bd_journal = None, bd_journal_write = Storage.Saved,
     bd_alarms = (\<lambda>_. (True, None, \<lambda>_. None)), bd_now = ''t''\<rparr>"

abbreviation demo_sha :: "bytes \<Rightarrow> string" where "demo_sha \<equiv> \<lambda>_. ''s''"
abbreviation demo_uuid :: "string \<Rightarrow> bool" where "demo_uuid \<equiv> \<lambda>i. i = ''a''"

definition demo_lib :: alarm_lib where
  "demo_lib = \<lparr>alib_sha = (\<lambda>x. x), alib_parse_local = (\<lambda>_. None), alib_api_date = (\<lambda>_. ''d''), alib_zone = 0\<rparr>"

lemma demo_validated: "validate_cameras (the (demo_cameras [])) = Inr ()"
  by code_simp

lemma demo_config: "\<exists>c. from_env demo_environment demo_cameras = Inr c \<and> recording_quota_bytes c = 2147483648
    \<and> bridge_config.cameras c = the (demo_cameras [])"
  using demo_validated
  by (simp add: from_env_def demo_environment_def demo_cameras_def env_integer_def env_value_def parse_show_nat
      alarm_interval_def)

lemma demo_auth: "ensure_private_regular n (bd_api_token demo_disk) 32 = Inr (replicate 40 CHR ''k'')"
  "new_authenticator (replicate 40 CHR ''k'') = Inr \<lparr>auth_token = str_bytes (replicate 40 CHR ''k'')\<rparr>"
proof -
  show "ensure_private_regular n (bd_api_token demo_disk) 32 = Inr (replicate 40 CHR ''k'')"
  proof -
    have "trim (replicate 40 CHR ''k'') = replicate 40 CHR ''k''" by code_simp
    then show ?thesis by (simp add: demo_disk_def ensure_private_regular_def Let_def)
  qed
  have "to_ascii_lowercase (replicate 40 CHR ''k'') \<noteq> ''change-me'' \<and> to_ascii_lowercase (replicate 40 CHR ''k'') \<noteq> ''changeme''
      \<and> to_ascii_lowercase (replicate 40 CHR ''k'') \<noteq> ''password''"
    by code_simp
  then show "new_authenticator (replicate 40 CHR ''k'') = Inr \<lparr>auth_token = str_bytes (replicate 40 CHR ''k'')\<rparr>"
    by (simp add: new_authenticator_def)
qed

lemma demo_spool: "bt_ordered (bd_spool demo_disk)" "finished_bytes (bd_spool demo_disk) = 15" "bd_journal demo_disk = None"
  by code_simp+

lemma demo_built:
  assumes "bridge_config.cameras c = the (demo_cameras [])"
  obtains rt where "build_with_session demo_sha (\<lambda>x. x) demo_uuid c demo_disk health_default = Inr rt"
    "br_raw rt = [(''front'', hub_new)]" "br_config rt = c"
    "dir (recs (br_recordings rt)) = [(''x.ts'', replicate 15 0)]"
proof -
  obtain res r where l: "Recording_Store.load demo_sha (bd_now demo_disk) demo_uuid (bd_journal_write demo_disk) (bd_spool demo_disk) (bd_journal demo_disk) = (res, r)"
    by fastforce
  have "fst (Recording_Store.load demo_sha (bd_now demo_disk) demo_uuid (bd_journal_write demo_disk) (bd_spool demo_disk) (bd_journal demo_disk)) = Inr ()"
    "dir (snd (Recording_Store.load demo_sha (bd_now demo_disk) demo_uuid (bd_journal_write demo_disk) (bd_spool demo_disk) (bd_journal demo_disk))) = [(''x.ts'', replicate 15 0)]"
    by code_simp+
  with l have r: "res = Inr ()" "dir r = [(''x.ts'', replicate 15 0)]" by simp_all
  have ready: "bd_spool_ready demo_disk = Inr ()" by (simp add: demo_disk_def)
  have "\<exists>rt. build_with_session demo_sha (\<lambda>x. x) demo_uuid c demo_disk health_default = Inr rt \<and> br_raw rt = [(''front'', hub_new)]
      \<and> br_config rt = c \<and> dir (recs (br_recordings rt)) = [(''x.ts'', replicate 15 0)]"
    by (simp add: build_with_session_def demo_auth ready l r assms demo_cameras_def Let_def)
  then show ?thesis using that by blast
qed


subsection \<open>The HTTP surface\<close>


subsection \<open>Downloads\<close>

text \<open>C40. What a client downloads is what the manifest promised: in every state the recording manager can reach, with
  restarts and failed writes at any point, a download answers with the whole file of the recording that was asked for,
  its length and SHA-256 digest are those the client reads in the manifest, and its content type is the manifest's.\<close>

theorem download_matches_manifest:
  assumes "quota_bytes cfg < USIZE_MAX" "max_bytes cfg < USIZE_MAX"
    and "rec_run cfg sha is_uuid (first_start sha now is_uuid) w"
    and "download_recording opened i (recs w) = Inr (kind, content)"
  shows "\<exists>m. get_recording i (recs w) = Inr m \<and> status m = ''ready'' \<and> media_bytes m = Some (length content)
    \<and> sha256 m = Some (sha content) \<and> media_type m = kind"
proof -
  obtain path kind0 where out: "media_of i (recs w) = Some (path, kind0)" and got: "bt_get (dir (recs w)) path = Some content"
    and kind: "kind = (if kind0 = ''video/mp2t'' then ''video/mp2t'' else ''video/mpeg'')"
    using assms(4) by (auto simp: download_recording_def ok_or_def try_bind_def split: option.splits sum.splits if_splits)
  obtain m where m: "bt_get (manifests (rstate (recs w))) i = Some m" "status m = ''ready''" "media_type m = kind0"
    using out by (auto simp: media_of_def Let_def split: option.splits if_splits)
  obtain fmt where "kind0 = media_type_of fmt" "media_bytes m = Some (length content)" "sha256 m = Some (sha content)"
    using media_matches_manifest [OF assms(1-3) out] got m by auto
  then show ?thesis
    using m kind by (cases fmt) (auto simp: get_recording_def ok_or_def)
qed

theorem download_matches_manifest_witness:
  "download_recording True ''a'' (recs run6) \<noteq> Inl 404
   \<and> (case download_recording True ''a'' (recs run6) of
       Inl _ \<Rightarrow> False
     | Inr (kind, content) \<Rightarrow> kind = ''video/mpeg'' \<and> (\<exists>m. get_recording ''a'' (recs run6) = Inr m \<and> status m = ''ready''
         \<and> media_bytes m = Some (length content) \<and> sha256 m = Some (run_sha content) \<and> media_type m = kind))"
proof -
  have "media_of ''a'' (recs run6) = Some (''a.mpegps'', ''video/mpeg'')" "bt_get (dir (recs run6)) ''a.mpegps'' \<noteq> None"
    by code_simp+
  then obtain content where out: "download_recording True ''a'' (recs run6) = Inr (''video/mpeg'', content)"
    by (auto simp: download_recording_def)
  from download_matches_manifest [OF run_limits run_steps [unfolded run0_def] out] show ?thesis
    by (simp add: out)
qed

end
